(* ===== verification/Kernel_Prelude.thy ===== *)
theory Kernel_Prelude
  imports Main "HOL-Library.Word"
begin

text \<open>
  Shared vocabulary of the development: the machine widths of a 64-bit kernel, Rust's checked and
  saturating arithmetic on \<open>usize\<close>, Rust's \<open>Result\<close>, and the execution monad in which the
  \<open>unsafe\<close> parts of the crate are modelled.

  An execution either returns a value or ends in a fault. \<open>UB\<close> stands for every access the safety
  comments of the crate forbid (reading an uninitialised slot, writing outside an allocation,
  following a dangling link, using memory after it was released); \<open>Panic\<close> stands for
  a failed assertion, a failed bounds check or arithmetic overflow. A theorem that an operation
  returns \<open>Inr\<close> therefore says that no safety contract was broken on the way.
\<close>

section \<open>Machine integers\<close>

type_synonym usize = nat
type_synonym addr = nat
type_synonym u8 = "8 word"
type_synonym u32 = "32 word"
type_synonym u64 = "64 word"

definition usize_max :: nat where
  "usize_max = 2 ^ 64 - 1"

definition isize_max :: nat where
  "isize_max = 2 ^ 63 - 1"

definition i32_max :: nat where
  "i32_max = 2 ^ 31 - 1"

lemma isize_le_usize: "isize_max \<le> usize_max"
  by (simp add: isize_max_def usize_max_def)

lemma twice_isize_le_usize: "2 * isize_max \<le> usize_max"
  by (simp add: isize_max_def usize_max_def)

definition checked_add :: "usize \<Rightarrow> usize \<Rightarrow> usize option" where
  "checked_add a b = (if a + b \<le> usize_max then Some (a + b) else None)"

definition checked_mul :: "usize \<Rightarrow> usize \<Rightarrow> usize option" where
  "checked_mul a b = (if a * b \<le> usize_max then Some (a * b) else None)"

definition checked_sub :: "usize \<Rightarrow> usize \<Rightarrow> usize option" where
  "checked_sub a b = (if b \<le> a then Some (a - b) else None)"

definition saturating_add :: "usize \<Rightarrow> usize \<Rightarrow> usize" where
  "saturating_add a b = min (a + b) usize_max"

definition saturating_sub :: "usize \<Rightarrow> usize \<Rightarrow> usize" where
  "saturating_sub a b = a - b"

definition wrapping_add :: "usize \<Rightarrow> usize \<Rightarrow> usize" where
  "wrapping_add a b = (a + b) mod 2 ^ 64"

lemma checked_add_eq_Some [simp]: "checked_add a b = Some c \<longleftrightarrow> c = a + b \<and> c \<le> usize_max"
  by (auto simp: checked_add_def)

lemma checked_add_eq_None [simp]: "checked_add a b = None \<longleftrightarrow> usize_max < a + b"
  by (auto simp: checked_add_def)

lemma checked_mul_eq_Some [simp]: "checked_mul a b = Some c \<longleftrightarrow> c = a * b \<and> c \<le> usize_max"
  by (auto simp: checked_mul_def)

lemma checked_mul_eq_None [simp]: "checked_mul a b = None \<longleftrightarrow> usize_max < a * b"
  by (auto simp: checked_mul_def)

lemma checked_sub_eq_Some [simp]: "checked_sub a b = Some c \<longleftrightarrow> b \<le> a \<and> c = a - b"
  by (auto simp: checked_sub_def)

lemma checked_sub_eq_None [simp]: "checked_sub a b = None \<longleftrightarrow> a < b"
  by (auto simp: checked_sub_def)

lemma saturating_add_bound: "saturating_add a b \<le> usize_max"
  by (simp add: saturating_add_def)

lemma wrapping_add_bound: "wrapping_add a b \<le> usize_max"
proof -
  have "(a + b) mod 2 ^ 64 < (2 ^ 64 :: nat)"
    by (rule mod_less_divisor) simp
  then show ?thesis
    by (simp add: wrapping_add_def usize_max_def)
qed

section \<open>Results\<close>

text \<open>Rust's \<open>Result<T, E>\<close> and the combinators the crate uses on it.\<close>

datatype ('a, 'e) result = Ok 'a | Err 'e

fun is_ok :: "('a, 'e) result \<Rightarrow> bool" where
  "is_ok (Ok _) = True"
| "is_ok (Err _) = False"

fun result_bind :: "('a, 'e) result \<Rightarrow> ('a \<Rightarrow> ('b, 'e) result) \<Rightarrow> ('b, 'e) result" where
  "result_bind (Ok x) f = f x"
| "result_bind (Err e) f = Err e"

fun map_err :: "('e \<Rightarrow> 'f) \<Rightarrow> ('a, 'e) result \<Rightarrow> ('a, 'f) result" where
  "map_err f (Ok x) = Ok x"
| "map_err f (Err e) = Err (f e)"

fun ok_or :: "'e \<Rightarrow> 'a option \<Rightarrow> ('a, 'e) result" where
  "ok_or e (Some x) = Ok x"
| "ok_or e None = Err e"

lemma result_bind_eq_Ok [simp]:
  "result_bind m f = Ok y \<longleftrightarrow> (\<exists>x. m = Ok x \<and> f x = Ok y)"
  by (cases m) auto

lemma result_bind_eq_Err:
  "result_bind m f = Err e \<longleftrightarrow> m = Err e \<or> (\<exists>x. m = Ok x \<and> f x = Err e)"
  by (cases m) auto

lemma map_err_eq_Ok [simp]: "map_err f m = Ok y \<longleftrightarrow> m = Ok y"
  by (cases m) auto

lemma ok_or_eq_Ok [simp]: "ok_or e m = Ok y \<longleftrightarrow> m = Some y"
  by (cases m) auto

section \<open>Executions\<close>

datatype fault = UB | Panic

type_synonym 'a exec = "fault + 'a"

definition exec_bind :: "'a exec \<Rightarrow> ('a \<Rightarrow> 'b exec) \<Rightarrow> 'b exec" where
  "exec_bind m f = (case m of Inl e \<Rightarrow> Inl e | Inr x \<Rightarrow> f x)"

lemma exec_bind_simps [simp]:
  "exec_bind (Inr x) f = f x"
  "exec_bind (Inl e) f = Inl e"
  by (simp_all add: exec_bind_def)

lemma exec_bind_eq_Inr [simp]:
  "exec_bind m f = Inr y \<longleftrightarrow> (\<exists>x. m = Inr x \<and> f x = Inr y)"
  by (cases m) auto

lemma exec_bind_assoc: "exec_bind (exec_bind m f) g = exec_bind m (\<lambda>x. exec_bind (f x) g)"
  by (cases m) auto

text \<open>\<open>m?\<close> inside an execution: an \<open>Err\<close> is returned to the caller, an \<open>Ok\<close> continues.\<close>

definition exec_try ::
  "('a, 'e) result \<Rightarrow> ('a \<Rightarrow> ('b, 'e) result exec) \<Rightarrow> ('b, 'e) result exec" where
  "exec_try m f = (case m of Ok x \<Rightarrow> f x | Err e \<Rightarrow> Inr (Err e))"

lemma exec_try_simps [simp]:
  "exec_try (Ok x) f = f x"
  "exec_try (Err e) f = Inr (Err e)"
  by (simp_all add: exec_try_def)

text \<open>An assertion whose failure is the given fault.\<close>

definition require :: "fault \<Rightarrow> bool \<Rightarrow> unit exec" where
  "require e b = (if b then Inr () else Inl e)"

lemma require_simps [simp]:
  "b \<Longrightarrow> require e b = Inr ()"
  "\<not> b \<Longrightarrow> require e b = Inl e"
  by (simp_all add: require_def)

lemma require_eq_Inr [simp]: "require e b = Inr u \<longleftrightarrow> b"
  by (simp add: require_def)

section \<open>Lists\<close>

text \<open>List facts shared by the container components.\<close>

lemma map_nth_upt: "n \<le> length xs \<Longrightarrow> map ((!) xs) [0..<n] = take n xs"
  by (rule nth_equalityI) auto

lemma take_drop_insert:
  assumes "i \<le> length xs"
  shows "map (\<lambda>j. if j < i then xs ! j else if j = i then x else xs ! (j - 1)) [0..<Suc (length xs)]
       = take i xs @ x # drop i xs"
proof (rule nth_equalityI)
  fix j
  assume "j < length (map (\<lambda>j. if j < i then xs ! j else if j = i then x else xs ! (j - 1))
    [0..<Suc (length xs)])"
  then have "j \<le> length xs" by simp
  with assms show "map (\<lambda>j. if j < i then xs ! j else if j = i then x else xs ! (j - 1))
      [0..<Suc (length xs)] ! j = (take i xs @ x # drop i xs) ! j"
    by (auto simp: nth_append nth_Cons' not_less min_def simp del: upt_Suc)
qed (use assms in simp)

lemma take_drop_remove:
  assumes "i < length xs"
  shows "map (\<lambda>j. if j < i then xs ! j else xs ! Suc j) [0..<length xs - 1]
       = take i xs @ drop (Suc i) xs"
  by (rule nth_equalityI) (use assms in \<open>auto simp: nth_append not_less\<close>)

lemma find_SomeD: "List.find P xs = Some x \<Longrightarrow> P x \<and> x \<in> set xs"
  by (induction xs) (auto split: if_splits)

end
