(* ===== verification/Kernel_Error.thy ===== *)
theory Kernel_Error
  imports Kernel_Prelude
begin

text \<open>
  \<open>rust/src/error.rs\<close>: kernel error codes, their construction from C integers and error pointers,
  and the conversion of results back to C integers. A C \<open>int\<close> is modelled as an \<open>int\<close>, a pointer
  as a 64-bit word. \<open>IS_ERR\<close>, \<open>PTR_ERR\<close> and \<open>ERR_PTR\<close> belong to the kernel: they are parameters
  whose documented behaviour is the predicate \<open>err_ptr_api\<close>.
\<close>

section \<open>Error codes\<close>

definition MAX_ERRNO :: int where
  "MAX_ERRNO = 4095"

datatype error = Error int

fun error_inv :: "error \<Rightarrow> bool" where
  "error_inv (Error e) \<longleftrightarrow> - MAX_ERRNO \<le> e \<and> e < 0"

definition from_errno_unchecked :: "int \<Rightarrow> error" where
  "from_errno_unchecked errno = Error errno"

definition try_from_errno :: "int \<Rightarrow> error option" where
  "try_from_errno errno =
     (if errno < - MAX_ERRNO \<or> errno \<ge> 0 then None else Some (from_errno_unchecked errno))"

text \<open>\<open>declare_err!\<close> evaluates at compile time; an errno out of range is a panic.\<close>

definition declare_err :: "int \<Rightarrow> error exec" where
  "declare_err n = (case try_from_errno (- n) of Some err \<Rightarrow> Inr err | None \<Rightarrow> Inl Panic)"

definition code_table :: "(string \<times> int) list" where
  "code_table =
    [(''EPERM'', 1), (''ENOENT'', 2), (''ESRCH'', 3), (''EINTR'', 4), (''EIO'', 5), (''ENXIO'', 6),
     (''E2BIG'', 7), (''ENOEXEC'', 8), (''EBADF'', 9), (''ECHILD'', 10), (''EAGAIN'', 11),
     (''ENOMEM'', 12), (''EACCES'', 13), (''EFAULT'', 14), (''ENOTBLK'', 15), (''EBUSY'', 16),
     (''EEXIST'', 17), (''EXDEV'', 18), (''ENODEV'', 19), (''ENOTDIR'', 20), (''EISDIR'', 21),
     (''EINVAL'', 22), (''ENFILE'', 23), (''EMFILE'', 24), (''ENOTTY'', 25), (''ETXTBSY'', 26),
     (''EFBIG'', 27), (''ENOSPC'', 28), (''ESPIPE'', 29), (''EROFS'', 30), (''EMLINK'', 31),
     (''EPIPE'', 32), (''EDOM'', 33), (''ERANGE'', 34), (''ERESTARTSYS'', 512),
     (''ERESTARTNOINTR'', 513), (''ERESTARTNOHAND'', 514), (''ENOIOCTLCMD'', 515),
     (''ERESTART_RESTARTBLOCK'', 516), (''EPROBE_DEFER'', 517), (''EOPENSTALE'', 518),
     (''ENOPARAM'', 519), (''EBADHANDLE'', 521), (''ENOTSYNC'', 522), (''EBADCOOKIE'', 523),
     (''ENOTSUPP'', 524), (''ETOOSMALL'', 525), (''ESERVERFAULT'', 526), (''EBADTYPE'', 527),
     (''EJUKEBOX'', 528), (''EIOCBQUEUED'', 529), (''ERECALLCONFLICT'', 530), (''ENOGRACE'', 531)]"

definition ENOMEM :: error where "ENOMEM = Error (- 12)"
definition EFAULT :: error where "EFAULT = Error (- 14)"
definition EINVAL :: error where "EINVAL = Error (- 22)"

definition from_errno :: "int \<Rightarrow> error" where
  "from_errno errno =
     (if errno < - MAX_ERRNO \<or> errno \<ge> 0 then EINVAL else from_errno_unchecked errno)"

fun to_errno :: "error \<Rightarrow> int" where
  "to_errno (Error e) = e"

text \<open>\<open>errname\<close> is the kernel's table of error names.\<close>

definition error_name :: "(int \<Rightarrow> string option) \<Rightarrow> error \<Rightarrow> string option" where
  "error_name errname self = errname (- to_errno self)"

text \<open>\<open>errno_to_blk_status\<close> is the block layer's translation of error codes.\<close>

definition to_blk_status :: "(int \<Rightarrow> u8) \<Rightarrow> error \<Rightarrow> u8" where
  "to_blk_status errno_to_blk_status self = errno_to_blk_status (to_errno self)"

text \<open>The error types of the crate and of \<open>core\<close> that convert into \<open>Error\<close> with \<open>?\<close>.\<close>

datatype error_source = AllocError | TryFromIntError | Utf8Error | LayoutError | FmtError

fun error_from :: "error_source \<Rightarrow> error" where
  "error_from AllocError = ENOMEM"
| "error_from TryFromIntError = EINVAL"
| "error_from Utf8Error = EINVAL"
| "error_from LayoutError = ENOMEM"
| "error_from FmtError = EINVAL"

section \<open>C integers and error pointers\<close>

definition to_result :: "int \<Rightarrow> (unit, error) result" where
  "to_result err = (if err < 0 then Err (from_errno err) else Ok ())"

definition to_ptr :: "(int \<Rightarrow> u64) \<Rightarrow> error \<Rightarrow> u64" where
  "to_ptr err_ptr self = err_ptr (to_errno self)"

text \<open>\<open>x as c_int\<close> and \<open>x as i16\<close> keep the low bits, in two's complement.\<close>

definition as_i32 :: "int \<Rightarrow> int" where
  "as_i32 x = signed_take_bit 31 x"

definition as_i16 :: "int \<Rightarrow> int" where
  "as_i16 x = signed_take_bit 15 x"

definition from_err_ptr ::
  "(u64 \<Rightarrow> bool) \<Rightarrow> (u64 \<Rightarrow> int) \<Rightarrow> u64 \<Rightarrow> (u64, error) result" where
  "from_err_ptr is_err ptr_err ptr =
     (if is_err ptr then Err (from_errno_unchecked (as_i32 (ptr_err ptr))) else Ok ptr)"

text \<open>The closure's result is the argument; \<open>conv\<close> is \<open>T::from\<close> on \<open>i16\<close>.\<close>

fun from_result :: "(int \<Rightarrow> 'a) \<Rightarrow> ('a, error) result \<Rightarrow> 'a" where
  "from_result conv (Ok v) = v"
| "from_result conv (Err e) = conv (as_i16 (to_errno e))"

section \<open>Well-formedness\<close>

named_theorems error_simps \<open>definitions of the error constructors\<close>

lemmas [error_simps] =
  MAX_ERRNO_def from_errno_def from_errno_unchecked_def try_from_errno_def to_result_def
  EINVAL_def ENOMEM_def EFAULT_def

lemma codes_inv [simp]: "error_inv EINVAL" "error_inv ENOMEM" "error_inv EFAULT"
  by (simp_all add: error_simps)

lemma from_errno_inv [simp]: "error_inv (from_errno e)"
  by (simp add: error_simps)

lemma error_from_inv: "error_inv (error_from s)"
  by (cases s) simp_all

lemma try_from_errno_inv: "try_from_errno e = Some err \<Longrightarrow> error_inv err"
  by (auto simp: error_simps split: if_splits)

lemma from_errno_to_errno: "error_inv e \<Longrightarrow> from_errno (to_errno e) = e"
  by (cases e) (simp add: error_simps)

lemma as_i16_errno: "error_inv e \<Longrightarrow> as_i16 (to_errno e) = to_errno e"
  by (cases e) (simp add: as_i16_def MAX_ERRNO_def signed_take_bit_int_eq_self)

lemma as_i32_errno: "error_inv e \<Longrightarrow> as_i32 (to_errno e) = to_errno e"
  by (cases e) (simp add: as_i32_def MAX_ERRNO_def signed_take_bit_int_eq_self)

text \<open>
  What \<open>include/linux/err.h\<close> documents of the three helpers: an error pointer is one of the last
  \<open>MAX_ERRNO\<close> addresses, and the two casts are the identity on the 64-bit pattern.
\<close>

definition err_ptr_api :: "(u64 \<Rightarrow> bool) \<Rightarrow> (u64 \<Rightarrow> int) \<Rightarrow> (int \<Rightarrow> u64) \<Rightarrow> bool" where
  "err_ptr_api is_err ptr_err err_ptr \<longleftrightarrow>
     (\<forall>p. is_err p \<longleftrightarrow> 2 ^ 64 - MAX_ERRNO \<le> uint p) \<and>
     (\<forall>p. ptr_err p = sint p) \<and> (\<forall>e. err_ptr e = word_of_int e)"

lemma err_ptr_api_is_err: "err_ptr_api ie pe ep \<Longrightarrow> ie p \<longleftrightarrow> 2 ^ 64 - MAX_ERRNO \<le> uint p"
  and err_ptr_api_ptr_err: "err_ptr_api ie pe ep \<Longrightarrow> pe p = sint p"
  and err_ptr_api_err_ptr: "err_ptr_api ie pe ep \<Longrightarrow> ep e = word_of_int e"
  by (simp_all add: err_ptr_api_def)

lemma err_ptr_range:
  fixes p :: u64
  assumes "2 ^ 64 - MAX_ERRNO \<le> uint p"
  shows "- MAX_ERRNO \<le> sint p \<and> sint p < 0"
proof -
  have lo: "2 ^ 64 - 4095 \<le> uint p"
    using assms by (simp add: MAX_ERRNO_def)
  have hi: "uint p < 2 ^ 64"
    by (rule order_less_le_trans [OF uint_lt2p]) simp
  have "(uint p + 2 ^ 63) mod 2 ^ 64 = ((uint p - 2 ^ 63) + 2 ^ 64) mod 2 ^ 64"
    by (rule arg_cong [where f = "\<lambda>x. x mod 2 ^ 64"]) simp
  also have "\<dots> = (uint p - 2 ^ 63) mod 2 ^ 64"
    by (rule mod_add_self2)
  also have "\<dots> = uint p - 2 ^ 63"
    using lo hi by (intro mod_pos_pos_trivial) simp_all
  finally have "sint p = uint p - 2 ^ 64"
    by (simp add: sint_uint signed_take_bit_eq_take_bit_shift take_bit_eq_mod)
  with lo hi show ?thesis
    by (simp add: MAX_ERRNO_def)
qed

lemma err_ptr_of_errno:
  assumes "- MAX_ERRNO \<le> e" and "e < 0"
  shows "2 ^ 64 - MAX_ERRNO \<le> uint (word_of_int e :: u64)"
proof -
  have "e mod 2 ^ 64 = (e + 2 ^ 64) mod 2 ^ 64"
    by simp
  also have "\<dots> = e + 2 ^ 64"
    using assms by (intro mod_pos_pos_trivial) (simp_all add: MAX_ERRNO_def)
  finally show ?thesis
    using assms by (simp add: MAX_ERRNO_def take_bit_eq_mod uint_word_of_int)
qed

lemma sint_of_errno:
  "- MAX_ERRNO \<le> e \<Longrightarrow> e < 0 \<Longrightarrow> sint (word_of_int e :: u64) = e"
  by (simp add: MAX_ERRNO_def signed_take_bit_int_eq_self signed_of_int)

section \<open>Properties\<close>

text \<open>
  Every error that \<open>to_ptr\<close> encodes as a pointer is decoded by \<open>from_err_ptr\<close> to the same error,
  so an \<open>Error\<close> survives the trip through a C function that returns an error pointer.
\<close>

lemma from_err_ptr_to_ptr:
  assumes "err_ptr_api is_err ptr_err err_ptr" and "error_inv e"
  shows "from_err_ptr is_err ptr_err (to_ptr err_ptr e) = Err e"
proof (cases e)
  case (Error n)
  with assms(2) have n: "- MAX_ERRNO \<le> n" "n < 0" by simp_all
  have "is_err (err_ptr n)"
    using err_ptr_of_errno [OF n] err_ptr_api_is_err [OF assms(1)] err_ptr_api_err_ptr [OF assms(1)]
    by metis
  moreover have "ptr_err (err_ptr n) = n"
    using sint_of_errno [OF n] err_ptr_api_ptr_err [OF assms(1)] err_ptr_api_err_ptr [OF assms(1)]
    by metis
  moreover have "as_i32 n = n"
    using as_i32_errno [OF assms(2)] Error by simp
  ultimately show ?thesis
    using Error by (simp add: from_err_ptr_def to_ptr_def from_errno_unchecked_def)
qed

text \<open>
  C16: \<open>from_err_ptr\<close> never builds an invalid \<open>Error\<close>: whatever pointer a C function returns, the
  result is either that pointer unchanged or an error whose code lies in the valid errno range.
\<close>

theorem from_err_ptr_valid:
  assumes "err_ptr_api is_err ptr_err err_ptr"
  shows "case from_err_ptr is_err ptr_err p of
           Ok q \<Rightarrow> q = p \<and> \<not> is_err p
         | Err e \<Rightarrow> error_inv e \<and> is_err p \<and> to_errno e = ptr_err p"
proof (cases "is_err p")
  case True
  then have "2 ^ 64 - MAX_ERRNO \<le> uint p"
    using err_ptr_api_is_err [OF assms] by blast
  then have r: "- MAX_ERRNO \<le> sint p" "sint p < 0"
    using err_ptr_range by blast+
  then have "as_i32 (sint p) = sint p"
    using as_i32_errno [of "Error (sint p)"] by simp
  with True r show ?thesis
    by (simp add: from_err_ptr_def from_errno_unchecked_def err_ptr_api_ptr_err [OF assms])
next
  case False
  then show ?thesis by (simp add: from_err_ptr_def)
qed

theorem from_err_ptr_valid_witness:
  "case from_err_ptr (\<lambda>p. 2 ^ 64 - MAX_ERRNO \<le> uint p) sint 4096 of
     Ok q \<Rightarrow> q = 4096 \<and> \<not> 2 ^ 64 - MAX_ERRNO \<le> uint (4096 :: u64)
   | Err e \<Rightarrow> error_inv e \<and> 2 ^ 64 - MAX_ERRNO \<le> uint (4096 :: u64) \<and> to_errno e = sint (4096 :: u64)"
  by (rule from_err_ptr_valid [where err_ptr = word_of_int]) (simp add: err_ptr_api_def)

text \<open>
  \<open>to_result\<close> is a left inverse of \<open>from_result\<close> on C integers: an error code returned through an
  \<open>extern "C"\<close> callback is recovered unchanged (the cast to \<open>i16\<close> loses nothing), and a non-negative
  success value reads as \<open>Ok\<close>.
\<close>

lemma to_result_from_result:
  assumes "\<forall>v. r = Ok v \<longrightarrow> v \<ge> 0" and "\<forall>e. r = Err e \<longrightarrow> error_inv e"
  shows "to_result (from_result id r) = (case r of Ok v \<Rightarrow> Ok () | Err e \<Rightarrow> Err e)"
proof (cases r)
  case (Ok v)
  with assms show ?thesis by (simp add: to_result_def)
next
  case (Err e)
  with assms have e: "error_inv e" by simp
  then have "to_errno e < 0" by (cases e) simp
  with Err e show ?thesis
    by (simp add: to_result_def as_i16_errno from_errno_to_errno)
qed

text \<open>
  Every constant of the error-code table is accepted by \<open>declare_err!\<close> (no compile-time panic),
  satisfies the type invariant of \<open>Error\<close>, and no two names share a code.
\<close>

lemma code_table_valid:
  "list_all (\<lambda>(name, n). declare_err n = Inr (Error (- n)) \<and> error_inv (Error (- n))) code_table
   \<and> distinct (map fst code_table) \<and> distinct (map snd code_table)"
  by (simp add: code_table_def declare_err_def error_simps)

end
