(* ===== verification/Allocators.thy ===== *)
theory Allocators
  imports Kernel_Error
begin

text \<open>
  \<open>rust/src/alloc/layout.rs\<close>, \<open>rust/src/alloc.rs\<close>, \<open>rust/src/alloc/allocator.rs\<close> and
  \<open>rust/src/alloc/kbox.rs\<close>: array layouts, the \<open>Allocator\<close> trait, its three implementations and the
  owning pointer \<open>Box\<close>.

  An allocation is a \<open>block\<close>: its size in bytes and the slots of a type \<open>T\<close> laid out in it, each
  initialised (\<open>Some\<close>) or not. The size and alignment of \<open>T\<close> are the parameters \<open>tsz\<close> and \<open>tal\<close>. The C
  functions \<open>krealloc\<close>, \<open>vrealloc\<close> and \<open>kvrealloc\<close> are a parameter, \<open>f\<close>, with the documented
  behaviour \<open>c_realloc_ok\<close>. The \<open>Allocator\<close> trait is the locale \<open>allocator\<close>.
\<close>

section \<open>Layouts\<close>

record layout =
  l_size :: usize
  l_align :: usize

record array_layout =
  al_len :: usize

datatype array_layout_error = ArrayLayoutError

definition array_layout_empty :: array_layout where
  "array_layout_empty = \<lparr>al_len = 0\<rparr>"

definition array_layout_new ::
  "usize \<Rightarrow> usize \<Rightarrow> (array_layout, array_layout_error) result" where
  "array_layout_new tsz len =
     (case checked_mul len tsz of
        Some sz \<Rightarrow> if sz \<le> isize_max then Ok \<lparr>al_len = len\<rparr> else Err ArrayLayoutError
      | None \<Rightarrow> Err ArrayLayoutError)"

definition array_layout_new_unchecked :: "usize \<Rightarrow> array_layout" where
  "array_layout_new_unchecked len = \<lparr>al_len = len\<rparr>"

definition array_layout_len :: "array_layout \<Rightarrow> usize" where
  "array_layout_len l = al_len l"

definition array_layout_is_empty :: "array_layout \<Rightarrow> bool" where
  "array_layout_is_empty l \<longleftrightarrow> al_len l = 0"

definition array_layout_inv :: "usize \<Rightarrow> array_layout \<Rightarrow> bool" where
  "array_layout_inv tsz l \<longleftrightarrow> al_len l * tsz \<le> isize_max"

text \<open>
  \<open>core::alloc::Layout::array\<close> refuses a size that exceeds \<open>isize::MAX\<close> once rounded up to the
  alignment.
\<close>

definition layout_array :: "usize \<Rightarrow> usize \<Rightarrow> usize \<Rightarrow> layout option" where
  "layout_array tsz tal n =
     (if tsz \<noteq> 0 \<and> n > (isize_max + 1 - tal) div tsz then None
      else Some \<lparr>l_size = n * tsz, l_align = tal\<rparr>)"

text \<open>\<open>From<ArrayLayout<T>> for Layout\<close>: \<open>unwrap_unchecked\<close> on an error is undefined behaviour.\<close>

definition layout_from :: "usize \<Rightarrow> usize \<Rightarrow> array_layout \<Rightarrow> layout exec" where
  "layout_from tsz tal value =
     (case layout_array tsz tal (al_len value) of Some l \<Rightarrow> Inr l | None \<Rightarrow> Inl UB)"

text \<open>Size and alignment of a Rust type: the alignment is a power of two that divides the size.\<close>

definition type_ok :: "usize \<Rightarrow> usize \<Rightarrow> bool" where
  "type_ok tsz tal \<longleftrightarrow> tal dvd tsz \<and> tal dvd 2 ^ 29 \<and> tsz \<le> isize_max"

section \<open>Blocks\<close>

record 'a block =
  b_size :: usize
  b_mem :: "nat \<Rightarrow> 'a option"

definition dangling_from_layout :: "layout \<Rightarrow> 'a block" where
  "dangling_from_layout l = \<lparr>b_size = 0, b_mem = (\<lambda>_. None)\<rparr>"

text \<open>Raw accesses to slot \<open>i\<close> of a block: outside the block, or of an uninitialised slot, they are \<open>UB\<close>.\<close>

definition slot_ok :: "usize \<Rightarrow> 'a block \<Rightarrow> nat \<Rightarrow> bool" where
  "slot_ok tsz b i \<longleftrightarrow> Suc i * tsz \<le> b_size b"

definition slot_write :: "usize \<Rightarrow> 'a block \<Rightarrow> nat \<Rightarrow> 'a \<Rightarrow> 'a block exec" where
  "slot_write tsz b i x =
     (if slot_ok tsz b i then Inr (b\<lparr>b_mem := (b_mem b)(i := Some x)\<rparr>) else Inl UB)"

definition slot_read :: "usize \<Rightarrow> 'a block \<Rightarrow> nat \<Rightarrow> 'a exec" where
  "slot_read tsz b i =
     (if slot_ok tsz b i then case b_mem b i of Some x \<Rightarrow> Inr x | None \<Rightarrow> Inl UB else Inl UB)"

text \<open>\<open>ptr::copy\<close>: the two ranges may overlap.\<close>

definition slot_copy :: "usize \<Rightarrow> 'a block \<Rightarrow> nat \<Rightarrow> nat \<Rightarrow> nat \<Rightarrow> 'a block exec" where
  "slot_copy tsz b src dst n =
     (if (src + n) * tsz \<le> b_size b \<and> (dst + n) * tsz \<le> b_size b
      then Inr (b\<lparr>b_mem := (\<lambda>i. if dst \<le> i \<and> i < dst + n then b_mem b (src + (i - dst))
                                else b_mem b i)\<rparr>)
      else Inl UB)"

section \<open>Allocators\<close>

type_synonym flags = u32
type_synonym 'a c_realloc = "'a block option \<Rightarrow> usize \<Rightarrow> flags \<Rightarrow> 'a block option"
type_synonym 'a realloc_fn =
  "'a block option \<Rightarrow> layout \<Rightarrow> layout \<Rightarrow> flags \<Rightarrow> ('a block, error_source) result"

definition PAGE_SIZE :: usize where
  "PAGE_SIZE = 4096"

definition aligned_size :: "layout \<Rightarrow> usize" where
  "aligned_size l = (l_size l + l_align l - 1) div l_align l * l_align l"

definition reallocfunc_call :: "'a c_realloc \<Rightarrow> 'a realloc_fn" where
  "reallocfunc_call f ptr layout old_layout flags =
     (let sz = aligned_size layout;
          p = (case ptr of
                 Some b \<Rightarrow> if l_size old_layout = 0 then None else Some b
               | None \<Rightarrow> None);
          raw_ptr = f p sz flags
      in if sz = 0 then Ok (dangling_from_layout layout) else ok_or AllocError raw_ptr)"

definition kmalloc_realloc :: "'a c_realloc \<Rightarrow> 'a realloc_fn" where
  "kmalloc_realloc krealloc ptr layout old_layout flags =
     reallocfunc_call krealloc ptr layout old_layout flags"

definition vmalloc_realloc :: "'a c_realloc \<Rightarrow> 'a realloc_fn" where
  "vmalloc_realloc vrealloc ptr layout old_layout flags =
     (if l_align layout > PAGE_SIZE then Err AllocError
      else reallocfunc_call vrealloc ptr layout old_layout flags)"

definition kvmalloc_realloc :: "'a c_realloc \<Rightarrow> 'a realloc_fn" where
  "kvmalloc_realloc kvrealloc ptr layout old_layout flags =
     (if l_align layout > PAGE_SIZE then Err AllocError
      else reallocfunc_call kvrealloc ptr layout old_layout flags)"

definition unit_layout :: layout where
  "unit_layout = \<lparr>l_size = 0, l_align = 1\<rparr>"

definition allocator_alloc ::
  "'a realloc_fn \<Rightarrow> layout \<Rightarrow> flags \<Rightarrow> ('a block, error_source) result" where
  "allocator_alloc A layout flags = A None layout unit_layout flags"

text \<open>\<open>free\<close> ignores the result of the call it makes; the model returns that call's result.\<close>

definition allocator_free ::
  "'a realloc_fn \<Rightarrow> 'a block \<Rightarrow> layout \<Rightarrow> ('a block, error_source) result" where
  "allocator_free A ptr layout = A (Some ptr) unit_layout layout 0"

section \<open>Box\<close>

definition box_new_uninit ::
  "'a realloc_fn \<Rightarrow> usize \<Rightarrow> usize \<Rightarrow> flags \<Rightarrow> ('a block, error_source) result" where
  "box_new_uninit A tsz tal flags = allocator_alloc A \<lparr>l_size = tsz, l_align = tal\<rparr> flags"

text \<open>\<open>assume_init\<close> of a slot that was not initialised is undefined behaviour.\<close>

definition box_assume_init :: "usize \<Rightarrow> 'a block \<Rightarrow> 'a block exec" where
  "box_assume_init tsz b = exec_bind (slot_read tsz b 0) (\<lambda>_. Inr b)"

definition box_write :: "usize \<Rightarrow> 'a block \<Rightarrow> 'a \<Rightarrow> 'a block exec" where
  "box_write tsz self value =
     exec_bind (slot_write tsz self 0 value) (\<lambda>b. box_assume_init tsz b)"

definition box_new ::
  "'a realloc_fn \<Rightarrow> usize \<Rightarrow> usize \<Rightarrow> 'a \<Rightarrow> flags \<Rightarrow> ('a block, error_source) result exec" where
  "box_new A tsz tal x flags =
     exec_try (box_new_uninit A tsz tal flags)
       (\<lambda>b. exec_bind (box_write tsz b x) (\<lambda>b. Inr (Ok b)))"

definition box_deref :: "usize \<Rightarrow> 'a block \<Rightarrow> 'a exec" where
  "box_deref tsz b = slot_read tsz b 0"

definition box_forget_contents :: "'a block \<Rightarrow> 'a block" where
  "box_forget_contents this = this\<lparr>b_mem := (b_mem this)(0 := None)\<rparr>"

text \<open>\<open>drop_contents\<close> returns the dropped value with the emptied box.\<close>

definition box_drop_contents :: "usize \<Rightarrow> 'a block \<Rightarrow> ('a \<times> 'a block) exec" where
  "box_drop_contents tsz this =
     exec_bind (slot_read tsz this 0) (\<lambda>x. Inr (x, box_forget_contents this))"

text \<open>
  \<open>into_inner\<close> moves the value out and drops the emptied box, which frees the block with the
  layout it was allocated with. The freed block is returned next to the value.
\<close>

definition box_into_inner :: "usize \<Rightarrow> usize \<Rightarrow> 'a block \<Rightarrow> ('a \<times> 'a block \<times> layout) exec" where
  "box_into_inner tsz tal b =
     exec_bind (slot_read tsz b 0)
       (\<lambda>value. Inr (value, box_forget_contents b, \<lparr>l_size = tsz, l_align = tal\<rparr>))"

section \<open>Layout lemmas\<close>

lemma array_layout_new_eq_Ok [simp]:
  "array_layout_new tsz n = Ok l \<longleftrightarrow> n * tsz \<le> isize_max \<and> l = \<lparr>al_len = n\<rparr>"
  using isize_le_usize by (auto simp: array_layout_new_def split: option.splits)

lemma array_layout_new_inv: "array_layout_new tsz n = Ok l \<Longrightarrow> array_layout_inv tsz l"
  by (simp add: array_layout_inv_def)

lemma array_layout_new_eq_Err:
  "array_layout_new tsz n = Err e \<longleftrightarrow> isize_max < n * tsz"
  using isize_le_usize
  by (cases e) (auto simp: array_layout_new_def split: option.splits)

lemma type_ok_multiple:
  assumes "type_ok tsz tal" and "n * tsz \<le> isize_max"
  shows "n * tsz + tal \<le> isize_max + 1"
proof -
  have "tal dvd 2 ^ 29"
    using assms(1) by (simp only: type_ok_def)
  also have "(2::nat) ^ 29 dvd 2 ^ 63"
    by (rule le_imp_power_dvd) simp
  finally have "tal dvd 2 ^ 63" .
  moreover have "isize_max + 1 = 2 ^ 63"
    by (simp add: isize_max_def)
  ultimately have "tal dvd isize_max + 1"
    by (simp only:)
  moreover have "tal dvd n * tsz"
    using assms(1) by (simp add: type_ok_def)
  moreover have "n * tsz < isize_max + 1"
    using assms(2) by simp
  ultimately show ?thesis
    by (metis add.commute dvd_diff_nat dvd_imp_le le_diff_conv2 less_imp_le_nat zero_less_diff)
qed

lemma layout_array_Some:
  assumes "type_ok tsz tal" and "n * tsz \<le> isize_max"
  shows "layout_array tsz tal n = Some \<lparr>l_size = n * tsz, l_align = tal\<rparr>"
proof -
  have "n \<le> (isize_max + 1 - tal) div tsz" if "tsz \<noteq> 0"
    using type_ok_multiple [OF assms] that by (simp add: less_eq_div_iff_mult_less_eq)
  then show ?thesis
    by (auto simp: layout_array_def)
qed

lemma layout_from_Inr [simp]:
  "type_ok tsz tal \<Longrightarrow> array_layout_inv tsz l \<Longrightarrow>
   layout_from tsz tal l = Inr \<lparr>l_size = al_len l * tsz, l_align = tal\<rparr>"
  by (simp add: layout_from_def array_layout_inv_def layout_array_Some)

lemma type_ok_align_pos [simp]: "type_ok tsz tal \<Longrightarrow> 0 < tal"
  by (auto simp: type_ok_def intro!: gr0I)

lemma aligned_size_ge: "0 < l_align l \<Longrightarrow> l_size l \<le> aligned_size l"
proof -
  assume a: "0 < l_align l"
  let ?s = "l_size l" and ?a = "l_align l"
  have "?s + ?a - 1 = (?s + ?a - 1) div ?a * ?a + (?s + ?a - 1) mod ?a"
    by simp
  moreover have "(?s + ?a - 1) mod ?a < ?a"
    using a by simp
  ultimately have "?s + ?a - 1 < (?s + ?a - 1) div ?a * ?a + ?a"
    by linarith
  with a show ?thesis
    unfolding aligned_size_def by linarith
qed

lemma aligned_size_multiple [simp]:
  "0 < a \<Longrightarrow> a dvd s \<Longrightarrow> aligned_size \<lparr>l_size = s, l_align = a\<rparr> = s"
proof -
  assume a: "0 < a" "a dvd s"
  then obtain k where "s = a * k" by blast
  moreover have "(a * k + a - 1) div a = k"
    using a(1) by (auto intro!: div_nat_eqI simp: algebra_simps)
  ultimately show ?thesis
    by (simp add: aligned_size_def mult.commute)
qed

section \<open>Slot lemmas\<close>

lemma slot_write_ok [simp]:
  "slot_ok tsz b i \<Longrightarrow> slot_write tsz b i x = Inr (b\<lparr>b_mem := (b_mem b)(i := Some x)\<rparr>)"
  by (simp add: slot_write_def)

lemma slot_read_ok [simp]:
  "slot_ok tsz b i \<Longrightarrow> b_mem b i = Some x \<Longrightarrow> slot_read tsz b i = Inr x"
  by (simp add: slot_read_def)

lemma slot_ok_mem_update [simp]: "slot_ok tsz (b\<lparr>b_mem := m\<rparr>) i = slot_ok tsz b i"
  by (simp add: slot_ok_def)

lemma slot_okI: "i < n \<Longrightarrow> n * tsz \<le> b_size b \<Longrightarrow> slot_ok tsz b i"
  unfolding slot_ok_def by (meson Suc_leI le_trans mult_le_mono1)

section \<open>The Allocator contract\<close>

text \<open>
  The guarantees of the trait (\<open>rust/src/alloc.rs\<close>): a successful call returns at least the
  requested bytes, and keeps the contents up to the lesser of the old and new size.
\<close>

locale allocator =
  fixes tsz :: usize and realloc :: "'a realloc_fn"
  assumes realloc_size:
    "0 < l_align l \<Longrightarrow> realloc p l old fl = Ok b \<Longrightarrow> l_size l \<le> b_size b"
  and realloc_keep:
    "0 < l_align l \<Longrightarrow> realloc (Some b) l old fl = Ok b' \<Longrightarrow> l_size old \<le> b_size b \<Longrightarrow> 0 < tsz \<Longrightarrow>
     Suc i * tsz \<le> min (l_size l) (l_size old) \<Longrightarrow> b_mem b' i = b_mem b i"
begin

lemma alloc_size:
  "0 < l_align l \<Longrightarrow> allocator_alloc realloc l fl = Ok b \<Longrightarrow> l_size l \<le> b_size b"
  unfolding allocator_alloc_def by (rule realloc_size)

lemma box_new_ok:
  assumes "0 < tal"
  shows "(\<exists>b. box_new realloc tsz tal x fl = Inr (Ok b) \<and> box_deref tsz b = Inr x \<and> tsz \<le> b_size b)
         \<or> box_new realloc tsz tal x fl = Inr (Err AllocError)
         \<or> (\<exists>e. box_new_uninit realloc tsz tal fl = Err e \<and> e \<noteq> AllocError)"
proof (cases "box_new_uninit realloc tsz tal fl")
  case (Ok b)
  then have "slot_ok tsz b 0"
    using assms alloc_size [of "\<lparr>l_size = tsz, l_align = tal\<rparr>" fl b]
    by (simp add: box_new_uninit_def slot_ok_def)
  with Ok show ?thesis
    by (auto simp: box_new_def box_write_def box_assume_init_def box_deref_def slot_ok_def)
next
  case (Err e)
  then show ?thesis
    by (cases "e = AllocError") (simp_all add: box_new_def)
qed

lemma grow_keeps_prefix:
  assumes "0 < l_align l" "realloc (Some b) l old fl = Ok b'" "l_size old \<le> b_size b" "0 < tsz"
    and "n * tsz \<le> min (l_size l) (l_size old)" "i < n"
  shows "b_mem b' i = b_mem b i"
proof -
  have "Suc i * tsz \<le> n * tsz"
    using assms(6) by (simp only: mult_le_mono1 Suc_leI)
  with assms(5) have "Suc i * tsz \<le> min (l_size l) (l_size old)"
    by (rule le_trans [rotated])
  with assms(1-4) show ?thesis
    by (rule realloc_keep)
qed

end

text \<open>What the kernel documents of \<open>krealloc\<close>, \<open>vrealloc\<close> and \<open>kvrealloc\<close> for a non-zero size.\<close>

definition c_realloc_ok :: "usize \<Rightarrow> 'a c_realloc \<Rightarrow> bool" where
  "c_realloc_ok tsz f \<longleftrightarrow>
     (\<forall>p n fl b'. 0 < n \<longrightarrow> f p n fl = Some b' \<longrightarrow>
        n \<le> b_size b' \<and>
        (\<forall>b i. p = Some b \<longrightarrow> Suc i * tsz \<le> min n (b_size b) \<longrightarrow> b_mem b' i = b_mem b i))"

lemma c_realloc_okD:
  assumes "c_realloc_ok tsz f" and "0 < n" and "f p n fl = Some b'"
  shows "n \<le> b_size b'"
    and "p = Some b \<Longrightarrow> Suc i * tsz \<le> min n (b_size b) \<Longrightarrow> b_mem b' i = b_mem b i"
  using assms unfolding c_realloc_ok_def by blast+

lemma reallocfunc_call_size:
  assumes "c_realloc_ok tsz f" and "0 < l_align l" and "reallocfunc_call f p l old fl = Ok b"
  shows "l_size l \<le> b_size b"
proof -
  note ge = aligned_size_ge [OF assms(2)]
  show ?thesis
  proof (cases "aligned_size l = 0")
    case True
    with ge show ?thesis by simp
  next
    case False
    with assms(3) obtain q where "f q (aligned_size l) fl = Some b"
      by (auto simp: reallocfunc_call_def Let_def)
    with c_realloc_okD(1) [OF assms(1)] False ge show ?thesis
      by (meson le_trans not_gr_zero)
  qed
qed

lemma reallocfunc_call_keep:
  assumes f: "c_realloc_ok tsz f" and l: "0 < l_align l"
    and r: "reallocfunc_call f (Some b) l old fl = Ok b'"
    and old: "l_size old \<le> b_size b" and "0 < tsz"
    and i: "Suc i * tsz \<le> min (l_size l) (l_size old)"
  shows "b_mem b' i = b_mem b i"
proof -
  have pos: "0 < Suc i * tsz" using \<open>0 < tsz\<close> by simp
  with i have o: "l_size old \<noteq> 0" and n: "0 < aligned_size l"
    using aligned_size_ge [OF l] by linarith+
  with r have "f (Some b) (aligned_size l) fl = Some b'"
    by (simp add: reallocfunc_call_def)
  moreover have "Suc i * tsz \<le> min (aligned_size l) (b_size b)"
    using i old aligned_size_ge [OF l] by linarith
  ultimately show ?thesis
    using c_realloc_okD(2) [OF f n] by blast
qed

lemma kmalloc_allocator: "c_realloc_ok tsz f \<Longrightarrow> allocator tsz (kmalloc_realloc f)"
  by unfold_locales
    (auto simp: kmalloc_realloc_def intro: reallocfunc_call_size reallocfunc_call_keep)

lemma vmalloc_allocator: "c_realloc_ok tsz f \<Longrightarrow> allocator tsz (vmalloc_realloc f)"
  by unfold_locales
    (auto simp: vmalloc_realloc_def split: if_splits intro: reallocfunc_call_size reallocfunc_call_keep)

lemma kvmalloc_allocator: "c_realloc_ok tsz f \<Longrightarrow> allocator tsz (kvmalloc_realloc f)"
  by unfold_locales
    (auto simp: kvmalloc_realloc_def split: if_splits intro: reallocfunc_call_size reallocfunc_call_keep)

text \<open>
  An instance of the C contract that never fails and one that fails above a limit: they make the
  contract's hypotheses concrete in the witnesses and in the interpretations below.
\<close>

definition limit_realloc :: "usize \<Rightarrow> 'a c_realloc" where
  "limit_realloc lim p n fl =
     (if n \<le> lim
      then Some \<lparr>b_size = n, b_mem = (case p of None \<Rightarrow> (\<lambda>_. None) | Some b \<Rightarrow> b_mem b)\<rparr>
      else None)"

lemma limit_realloc_ok: "c_realloc_ok tsz (limit_realloc lim)"
  by (simp add: c_realloc_ok_def limit_realloc_def)

interpretation kmalloc: allocator tsz "kmalloc_realloc (limit_realloc lim)" for tsz lim
  by (rule kmalloc_allocator [OF limit_realloc_ok])

interpretation vmalloc: allocator tsz "vmalloc_realloc (limit_realloc lim)" for tsz lim
  by (rule vmalloc_allocator [OF limit_realloc_ok])

interpretation kvmalloc: allocator tsz "kvmalloc_realloc (limit_realloc lim)" for tsz lim
  by (rule kvmalloc_allocator [OF limit_realloc_ok])

lemma kmalloc_err: "kmalloc_realloc f p l old fl = Err e \<Longrightarrow> e = AllocError"
  by (auto simp: kmalloc_realloc_def reallocfunc_call_def Let_def split: if_splits option.splits)
    (metis ok_or.elims result.distinct(1) result.inject(2))+

section \<open>Properties\<close>

text \<open>
  Converting an \<open>ArrayLayout\<close> that passed its constructor into a \<open>Layout\<close> never reaches
  \<open>unwrap_unchecked\<close> on an error: every length that \<open>new\<close> accepts gives the byte size
  \<open>len * size_of::<T>()\<close>, including the alignment padding that \<open>Layout::array\<close> checks.
\<close>

lemma array_layout_into_layout:
  assumes "type_ok tsz tal" and "array_layout_new tsz n = Ok l"
  shows "layout_from tsz tal l = Inr \<lparr>l_size = n * tsz, l_align = tal\<rparr>"
proof -
  have "array_layout_inv tsz l"
    using assms(2) by (rule array_layout_new_inv)
  with assms show ?thesis by simp
qed

text \<open>
  \<open>Kmalloc\<close>, \<open>Vmalloc\<close> and \<open>KVmalloc\<close> satisfy the guarantees of the \<open>Allocator\<close> trait for every C
  reallocation function that behaves as the kernel documents: enough bytes, contents kept up to
  the lesser size, also when the old layout was empty and the pointer dangling.
\<close>

lemma allocators_meet_contract:
  assumes "c_realloc_ok tsz f"
  shows "allocator tsz (kmalloc_realloc f) \<and> allocator tsz (vmalloc_realloc f) \<and>
         allocator tsz (kvmalloc_realloc f)"
  using assms by (simp add: kmalloc_allocator vmalloc_allocator kvmalloc_allocator)

text \<open>
  \<open>KBox::new\<close> followed by \<open>into_inner\<close> returns the boxed value; the construction touches only
  memory it allocated, and its only failure is \<open>AllocError\<close>.
\<close>

lemma kbox_new_into_inner:
  assumes "c_realloc_ok tsz f" and "0 < tal"
  shows "case box_new (kmalloc_realloc f) tsz tal x fl of
           Inl _ \<Rightarrow> False
         | Inr (Err e) \<Rightarrow> e = AllocError
         | Inr (Ok b) \<Rightarrow> box_into_inner tsz tal b
                         = Inr (x, box_forget_contents b, \<lparr>l_size = tsz, l_align = tal\<rparr>)"
proof -
  have a: "allocator tsz (kmalloc_realloc f)"
    using assms(1) by (rule kmalloc_allocator)
  have e: "box_new_uninit (kmalloc_realloc f) tsz tal fl = Err e \<Longrightarrow> e = AllocError" for e
    by (auto simp: box_new_uninit_def allocator_alloc_def dest: kmalloc_err)
  from allocator.box_new_ok [OF a assms(2), of x fl] e show ?thesis
    by (auto simp: box_into_inner_def box_deref_def)
qed

end
