(* ===== verification/KVec.thy ===== *)
theory KVec
  imports Allocators "HOL-Library.Multiset"
begin

text \<open>
  \<open>rust/src/alloc/kvec.rs\<close>: the growable vector \<open>Vec<T, A>\<close> and its owning iterators.

  A vector is its backing block, the array layout it was allocated with and its length. Every
  operation of the source is one definition, written with the raw slot accesses it performs, so
  that an access outside the block, a read of an uninitialised slot or a broken length contract
  shows up as a fault. Values that the code drops in place are returned, which lets the theorems
  say that no element is lost or dropped twice. The parameters \<open>tsz\<close> and \<open>tal\<close> are the size and
  alignment of \<open>T\<close>, \<open>A\<close> the allocator's \<open>realloc\<close> and \<open>clone\<close> the element type's \<open>Clone\<close>.
\<close>

section \<open>The vector and its raw accesses\<close>

record 'a vec =
  v_buf :: "'a block"
  v_layout :: array_layout
  v_len :: usize

fun slots_read :: "usize \<Rightarrow> 'a block \<Rightarrow> nat \<Rightarrow> nat \<Rightarrow> 'a list exec" where
  "slots_read tsz b i 0 = Inr []"
| "slots_read tsz b i (Suc n) =
     exec_bind (slot_read tsz b i)
       (\<lambda>x. exec_bind (slots_read tsz b (Suc i) n) (\<lambda>xs. Inr (x # xs)))"

fun slots_write :: "usize \<Rightarrow> 'a block \<Rightarrow> nat \<Rightarrow> 'a list \<Rightarrow> 'a block exec" where
  "slots_write tsz b i [] = Inr b"
| "slots_write tsz b i (x # xs) =
     exec_bind (slot_write tsz b i x) (\<lambda>b'. slots_write tsz b' (Suc i) xs)"

definition vec_is_zst :: "usize \<Rightarrow> bool" where
  "vec_is_zst tsz \<longleftrightarrow> tsz = 0"

definition vec_capacity :: "usize \<Rightarrow> 'a vec \<Rightarrow> usize" where
  "vec_capacity tsz v = (if vec_is_zst tsz then usize_max else array_layout_len (v_layout v))"

definition vec_is_empty :: "'a vec \<Rightarrow> bool" where
  "vec_is_empty v \<longleftrightarrow> v_len v = 0"

definition vec_new :: "'a vec" where
  "vec_new = \<lparr>v_buf = dangling_from_layout unit_layout, v_layout = array_layout_empty, v_len = 0\<rparr>"

text \<open>\<open>debug_assert!\<close> is taken as enabled; the subtraction is checked.\<close>

definition vec_inc_len :: "usize \<Rightarrow> 'a vec \<Rightarrow> usize \<Rightarrow> 'a vec exec" where
  "vec_inc_len tsz v additional =
     exec_bind (require Panic (v_len v \<le> vec_capacity tsz v)) (\<lambda>_.
     exec_bind (require Panic (additional \<le> vec_capacity tsz v - v_len v)) (\<lambda>_.
     Inr (v\<lparr>v_len := v_len v + additional\<rparr>)))"

text \<open>\<open>dec_len\<close> returns the slots it gave up: the \<open>cnt\<close> slots from the new length on.\<close>

definition vec_dec_len :: "'a vec \<Rightarrow> usize \<Rightarrow> ('a vec \<times> nat) exec" where
  "vec_dec_len v cnt =
     exec_bind (require Panic (cnt \<le> v_len v)) (\<lambda>_.
     Inr (v\<lparr>v_len := v_len v - cnt\<rparr>, v_len v - cnt))"

text \<open>The spare slots: where they start and how many there are.\<close>

definition vec_spare_capacity_mut :: "usize \<Rightarrow> 'a vec \<Rightarrow> (nat \<times> usize) exec" where
  "vec_spare_capacity_mut tsz v =
     exec_bind (require Panic (v_len v \<le> vec_capacity tsz v)) (\<lambda>_.
     Inr (v_len v, vec_capacity tsz v - v_len v))"

definition vec_deref :: "usize \<Rightarrow> 'a vec \<Rightarrow> 'a list exec" where
  "vec_deref tsz v = slots_read tsz (v_buf v) 0 (v_len v)"

definition vec_get :: "usize \<Rightarrow> 'a vec \<Rightarrow> nat \<Rightarrow> 'a option exec" where
  "vec_get tsz v i =
     (if i < v_len v then exec_bind (slot_read tsz (v_buf v) i) (\<lambda>x. Inr (Some x)) else Inr None)"

text \<open>\<open>v[i]\<close> panics out of range.\<close>

definition vec_index :: "usize \<Rightarrow> 'a vec \<Rightarrow> nat \<Rightarrow> 'a exec" where
  "vec_index tsz v i =
     exec_bind (vec_get tsz v i) (\<lambda>r. case r of Some x \<Rightarrow> Inr x | None \<Rightarrow> Inl Panic)"

section \<open>Growing\<close>

definition vec_reserve ::
  "'a realloc_fn \<Rightarrow> usize \<Rightarrow> usize \<Rightarrow> 'a vec \<Rightarrow> usize \<Rightarrow> flags \<Rightarrow>
   ((unit, error_source) result \<times> 'a vec) exec" where
  "vec_reserve A tsz tal v additional flags =
     (let len = v_len v; cap = vec_capacity tsz v in
      exec_bind (require Panic (len \<le> cap)) (\<lambda>_.
      if cap - len \<ge> additional then Inr (Ok (), v)
      else if vec_is_zst tsz then Inr (Err AllocError, v)
      else exec_bind (require Panic (cap * 2 \<le> usize_max)) (\<lambda>_.
        case checked_add len additional of
          None \<Rightarrow> Inr (Err AllocError, v)
        | Some need \<Rightarrow>
           (case array_layout_new tsz (max (cap * 2) need) of
              Err _ \<Rightarrow> Inr (Err AllocError, v)
            | Ok layout \<Rightarrow>
                exec_bind (layout_from tsz tal layout) (\<lambda>new_l.
                exec_bind (layout_from tsz tal (v_layout v)) (\<lambda>old_l.
                case A (Some (v_buf v)) new_l old_l flags of
                  Err e \<Rightarrow> Inr (Err e, v)
                | Ok ptr \<Rightarrow> Inr (Ok (), v\<lparr>v_buf := ptr, v_layout := layout\<rparr>)))))))"

definition vec_with_capacity ::
  "'a realloc_fn \<Rightarrow> usize \<Rightarrow> usize \<Rightarrow> usize \<Rightarrow> flags \<Rightarrow> ('a vec, error_source) result exec" where
  "vec_with_capacity A tsz tal capacity flags =
     exec_bind (vec_reserve A tsz tal vec_new capacity flags) (\<lambda>(r, v).
     exec_try r (\<lambda>_. Inr (Ok v)))"

definition vec_push_within_capacity_unchecked :: "usize \<Rightarrow> 'a vec \<Rightarrow> 'a \<Rightarrow> 'a vec exec" where
  "vec_push_within_capacity_unchecked tsz v x =
     exec_bind (vec_spare_capacity_mut tsz v) (\<lambda>(start, n).
     exec_bind (require UB (0 < n)) (\<lambda>_.
     exec_bind (slot_write tsz (v_buf v) start x) (\<lambda>b.
     vec_inc_len tsz (v\<lparr>v_buf := b\<rparr>) 1)))"

definition vec_push ::
  "'a realloc_fn \<Rightarrow> usize \<Rightarrow> usize \<Rightarrow> 'a vec \<Rightarrow> 'a \<Rightarrow> flags \<Rightarrow>
   ((unit, error_source) result \<times> 'a vec) exec" where
  "vec_push A tsz tal v x flags =
     exec_bind (vec_reserve A tsz tal v 1 flags) (\<lambda>(r, v').
     case r of
       Err e \<Rightarrow> Inr (Err e, v')
     | Ok _ \<Rightarrow> exec_bind (vec_push_within_capacity_unchecked tsz v' x) (\<lambda>v''. Inr (Ok (), v'')))"

datatype 'a push_error = PushError 'a
datatype remove_error = RemoveError
datatype 'a insert_error = IndexOutOfBounds 'a | OutOfCapacity 'a

fun error_from_push :: "'a push_error \<Rightarrow> error" where
  "error_from_push (PushError _) = EINVAL"

fun error_from_remove :: "remove_error \<Rightarrow> error" where
  "error_from_remove RemoveError = EINVAL"

fun error_from_insert :: "'a insert_error \<Rightarrow> error" where
  "error_from_insert _ = EINVAL"

definition vec_push_within_capacity ::
  "usize \<Rightarrow> 'a vec \<Rightarrow> 'a \<Rightarrow> ((unit, 'a push_error) result \<times> 'a vec) exec" where
  "vec_push_within_capacity tsz v x =
     (if v_len v < vec_capacity tsz v
      then exec_bind (vec_push_within_capacity_unchecked tsz v x) (\<lambda>v'. Inr (Ok (), v'))
      else Inr (Err (PushError x), v))"

definition vec_insert_within_capacity ::
  "usize \<Rightarrow> 'a vec \<Rightarrow> nat \<Rightarrow> 'a \<Rightarrow> ((unit, 'a insert_error) result \<times> 'a vec) exec" where
  "vec_insert_within_capacity tsz v index element =
     (let len = v_len v in
      if index > len then Inr (Err (IndexOutOfBounds element), v)
      else if len \<ge> vec_capacity tsz v then Inr (Err (OutOfCapacity element), v)
      else exec_bind (slot_copy tsz (v_buf v) index (index + 1) (len - index)) (\<lambda>b.
           exec_bind (slot_write tsz b index element) (\<lambda>b.
           exec_bind (vec_inc_len tsz (v\<lparr>v_buf := b\<rparr>) 1) (\<lambda>v'. Inr (Ok (), v')))))"

section \<open>Shrinking\<close>

definition vec_pop :: "usize \<Rightarrow> 'a vec \<Rightarrow> ('a option \<times> 'a vec) exec" where
  "vec_pop tsz v =
     (if vec_is_empty v then Inr (None, v)
      else exec_bind (vec_dec_len v 1) (\<lambda>(v', start).
           exec_bind (slot_read tsz (v_buf v') start) (\<lambda>x. Inr (Some x, v'))))"

definition vec_remove ::
  "usize \<Rightarrow> 'a vec \<Rightarrow> nat \<Rightarrow> (('a, remove_error) result \<times> 'a vec) exec" where
  "vec_remove tsz v i =
     exec_bind (vec_get tsz v i) (\<lambda>r.
     case r of
       None \<Rightarrow> Inr (Err RemoveError, v)
     | Some value \<Rightarrow>
         exec_bind (slot_copy tsz (v_buf v) (i + 1) i (v_len v - i - 1)) (\<lambda>b.
         exec_bind (vec_dec_len (v\<lparr>v_buf := b\<rparr>) 1) (\<lambda>(v', _).
         Inr (Ok value, v'))))"

text \<open>\<open>truncate\<close> returns the values it dropped.\<close>

definition vec_truncate :: "usize \<Rightarrow> 'a vec \<Rightarrow> usize \<Rightarrow> ('a list \<times> 'a vec) exec" where
  "vec_truncate tsz v len =
     (case checked_sub (v_len v) len of
        None \<Rightarrow> Inr ([], v)
      | Some cnt \<Rightarrow>
          exec_bind (vec_dec_len v cnt) (\<lambda>(v', start).
          exec_bind (slots_read tsz (v_buf v') start cnt) (\<lambda>dropped. Inr (dropped, v'))))"

definition vec_clear :: "usize \<Rightarrow> 'a vec \<Rightarrow> ('a list \<times> 'a vec) exec" where
  "vec_clear tsz v = vec_truncate tsz v 0"

text \<open>The vector and the elements handed to the \<open>DrainAll\<close> iterator, from its first to its last.\<close>

definition vec_drain_all :: "usize \<Rightarrow> 'a vec \<Rightarrow> ('a list \<times> 'a vec) exec" where
  "vec_drain_all tsz v =
     exec_bind (vec_dec_len v (v_len v)) (\<lambda>(v', start).
     exec_bind (slots_read tsz (v_buf v') start (v_len v)) (\<lambda>elems. Inr (elems, v')))"

fun drain_all_next :: "'a list \<Rightarrow> 'a option \<times> 'a list" where
  "drain_all_next [] = (None, [])"
| "drain_all_next (x # xs) = (Some x, xs)"

text \<open>\<open>slice::swap\<close>, within the first \<open>len\<close> slots.\<close>

definition slots_swap :: "usize \<Rightarrow> nat \<Rightarrow> 'a block \<Rightarrow> nat \<Rightarrow> nat \<Rightarrow> 'a block exec" where
  "slots_swap tsz len b i j =
     exec_bind (require Panic (i < len \<and> j < len)) (\<lambda>_.
     exec_bind (slot_read tsz b i) (\<lambda>x.
     exec_bind (slot_read tsz b j) (\<lambda>y.
     exec_bind (slot_write tsz b i y) (\<lambda>b. slot_write tsz b j x))))"

text \<open>
  The loop of \<open>retain\<close>. The closure is \<open>FnMut(&mut T) -> bool\<close>: it has a state \<open>s\<close> and may change
  the element it looks at.
\<close>

function retain_loop ::
  "usize \<Rightarrow> ('s \<Rightarrow> 'a \<Rightarrow> bool \<times> 'a \<times> 's) \<Rightarrow> nat \<Rightarrow> 's \<Rightarrow> 'a block \<Rightarrow> nat \<Rightarrow> nat \<Rightarrow>
   ('s \<times> 'a block \<times> nat) exec" where
  "retain_loop tsz f len s b num_kept next_to_check =
     (if next_to_check < len then
        (case slot_read tsz b next_to_check of
           Inl e \<Rightarrow> Inl e
         | Inr x \<Rightarrow>
            (case f s x of
               (keep, x', s') \<Rightarrow>
                 (case slot_write tsz b next_to_check x' of
                    Inl e \<Rightarrow> Inl e
                  | Inr b1 \<Rightarrow>
                      if keep then
                        (case slots_swap tsz len b1 num_kept next_to_check of
                           Inl e \<Rightarrow> Inl e
                         | Inr b2 \<Rightarrow> retain_loop tsz f len s' b2 (num_kept + 1) (next_to_check + 1))
                      else retain_loop tsz f len s' b1 num_kept (next_to_check + 1))))
      else Inr (s, b, num_kept))"
  by pat_completeness auto
termination
  by (relation "measure (\<lambda>(tsz, f, len, s, b, k, i). len - i)") auto

declare retain_loop.simps [simp del]

definition vec_retain ::
  "usize \<Rightarrow> ('s \<Rightarrow> 'a \<Rightarrow> bool \<times> 'a \<times> 's) \<Rightarrow> 's \<Rightarrow> 'a vec \<Rightarrow> ('s \<times> 'a list \<times> 'a vec) exec" where
  "vec_retain tsz f s v =
     exec_bind (retain_loop tsz f (v_len v) s (v_buf v) 0 0) (\<lambda>(s', b, num_kept).
     exec_bind (vec_truncate tsz (v\<lparr>v_buf := b\<rparr>) num_kept) (\<lambda>(dropped, v').
     Inr (s', dropped, v')))"

section \<open>Cloning into the spare capacity\<close>

definition vec_extend_with ::
  "'a realloc_fn \<Rightarrow> usize \<Rightarrow> usize \<Rightarrow> ('a \<Rightarrow> 'a) \<Rightarrow> 'a vec \<Rightarrow> usize \<Rightarrow> 'a \<Rightarrow> flags \<Rightarrow>
   ((unit, error_source) result \<times> 'a vec) exec" where
  "vec_extend_with A tsz tal clone v n value flags =
     (if n = 0 then Inr (Ok (), v)
      else exec_bind (vec_reserve A tsz tal v n flags) (\<lambda>(r, v').
           case r of
             Err e \<Rightarrow> Inr (Err e, v')
           | Ok _ \<Rightarrow>
               exec_bind (vec_spare_capacity_mut tsz v') (\<lambda>(start, spare).
               exec_bind (slots_write tsz (v_buf v') start
                            (replicate (min (n - 1) spare) (clone value))) (\<lambda>b.
               exec_bind (require Panic (n - 1 < spare)) (\<lambda>_.
               exec_bind (slot_write tsz b (start + (n - 1)) value) (\<lambda>b.
               exec_bind (vec_inc_len tsz (v'\<lparr>v_buf := b\<rparr>) n) (\<lambda>v''. Inr (Ok (), v''))))))))"

definition vec_extend_from_slice ::
  "'a realloc_fn \<Rightarrow> usize \<Rightarrow> usize \<Rightarrow> ('a \<Rightarrow> 'a) \<Rightarrow> 'a vec \<Rightarrow> 'a list \<Rightarrow> flags \<Rightarrow>
   ((unit, error_source) result \<times> 'a vec) exec" where
  "vec_extend_from_slice A tsz tal clone v other flags =
     exec_bind (vec_reserve A tsz tal v (length other) flags) (\<lambda>(r, v').
     case r of
       Err e \<Rightarrow> Inr (Err e, v')
     | Ok _ \<Rightarrow>
         exec_bind (vec_spare_capacity_mut tsz v') (\<lambda>(start, spare).
         exec_bind (slots_write tsz (v_buf v') start (map clone (take spare other))) (\<lambda>b.
         exec_bind (vec_inc_len tsz (v'\<lparr>v_buf := b\<rparr>) (length other)) (\<lambda>v''.
         Inr (Ok (), v'')))))"

definition vec_from_elem ::
  "'a realloc_fn \<Rightarrow> usize \<Rightarrow> usize \<Rightarrow> ('a \<Rightarrow> 'a) \<Rightarrow> 'a \<Rightarrow> usize \<Rightarrow> flags \<Rightarrow>
   ('a vec, error_source) result exec" where
  "vec_from_elem A tsz tal clone value n flags =
     exec_bind (vec_with_capacity A tsz tal n flags) (\<lambda>r.
     exec_try r (\<lambda>v.
     exec_bind (vec_extend_with A tsz tal clone v n value flags) (\<lambda>(r', v').
     exec_try r' (\<lambda>_. Inr (Ok v')))))"

text \<open>The values dropped by the shrinking branch are returned in the second component.\<close>

definition vec_resize ::
  "'a realloc_fn \<Rightarrow> usize \<Rightarrow> usize \<Rightarrow> ('a \<Rightarrow> 'a) \<Rightarrow> 'a vec \<Rightarrow> usize \<Rightarrow> 'a \<Rightarrow> flags \<Rightarrow>
   ((unit, error_source) result \<times> 'a list \<times> 'a vec) exec" where
  "vec_resize A tsz tal clone v new_len value flags =
     (case checked_sub new_len (v_len v) of
        Some n \<Rightarrow> exec_bind (vec_extend_with A tsz tal clone v n value flags) (\<lambda>(r, v'). Inr (r, [], v'))
      | None \<Rightarrow> exec_bind (vec_truncate tsz v new_len) (\<lambda>(dropped, v'). Inr (Ok (), dropped, v')))"

section \<open>Raw parts, destruction and iteration\<close>

definition vec_from_raw_parts :: "usize \<Rightarrow> 'a block \<Rightarrow> usize \<Rightarrow> usize \<Rightarrow> 'a vec" where
  "vec_from_raw_parts tsz ptr len capacity =
     \<lparr>v_buf = ptr,
      v_layout = (if vec_is_zst tsz then array_layout_empty else array_layout_new_unchecked capacity),
      v_len = len\<rparr>"

definition vec_into_raw_parts :: "usize \<Rightarrow> 'a vec \<Rightarrow> 'a block \<times> usize \<times> usize" where
  "vec_into_raw_parts tsz v = (v_buf v, v_len v, vec_capacity tsz v)"

text \<open>\<open>Drop\<close>: the values dropped, and the block and layout handed to \<open>A::free\<close>.\<close>

definition vec_drop :: "usize \<Rightarrow> usize \<Rightarrow> 'a vec \<Rightarrow> ('a list \<times> 'a block \<times> layout) exec" where
  "vec_drop tsz tal v =
     exec_bind (slots_read tsz (v_buf v) 0 (v_len v)) (\<lambda>dropped.
     exec_bind (layout_from tsz tal (v_layout v)) (\<lambda>l. Inr (dropped, v_buf v, l)))"

definition vec_from_box :: "usize \<Rightarrow> nat \<Rightarrow> 'a block \<Rightarrow> 'a vec" where
  "vec_from_box tsz n b = vec_from_raw_parts tsz b n n"

text \<open>\<open>ptr\<close> is kept as the number of elements it is past \<open>buf\<close>.\<close>

record 'a into_iter =
  it_pos :: nat
  it_buf :: "'a block"
  it_len :: usize
  it_layout :: array_layout

definition vec_into_iter :: "'a vec \<Rightarrow> 'a into_iter" where
  "vec_into_iter v = \<lparr>it_pos = 0, it_buf = v_buf v, it_len = v_len v, it_layout = v_layout v\<rparr>"

definition into_iter_next :: "usize \<Rightarrow> 'a into_iter \<Rightarrow> ('a option \<times> 'a into_iter) exec" where
  "into_iter_next tsz it =
     (if it_len it = 0 then Inr (None, it)
      else exec_bind (slot_read tsz (it_buf it) (it_pos it)) (\<lambda>x.
           Inr (Some x, it\<lparr>it_pos := it_pos it + 1, it_len := it_len it - 1\<rparr>)))"

definition into_iter_size_hint :: "'a into_iter \<Rightarrow> usize \<times> usize option" where
  "into_iter_size_hint it = (it_len it, Some (it_len it))"

definition into_iter_collect ::
  "'a realloc_fn \<Rightarrow> usize \<Rightarrow> usize \<Rightarrow> 'a into_iter \<Rightarrow> flags \<Rightarrow> 'a vec exec" where
  "into_iter_collect A tsz tal it flags =
     (let cap = array_layout_len (it_layout it); len = it_len it in
      if it_pos it * tsz \<noteq> 0 then
        exec_bind (slot_copy tsz (it_buf it) (it_pos it) 0 len) (\<lambda>b.
        exec_bind (layout_from tsz tal (array_layout_new_unchecked len)) (\<lambda>new_l.
        exec_bind (layout_from tsz tal (it_layout it)) (\<lambda>old_l.
        case A (Some b) new_l old_l flags of
          Err _ \<Rightarrow> Inr (vec_from_raw_parts tsz b len cap)
        | Ok ptr \<Rightarrow> Inr (vec_from_raw_parts tsz ptr len len))))
      else Inr (vec_from_raw_parts tsz (it_buf it) len cap))"

definition into_iter_drop ::
  "usize \<Rightarrow> usize \<Rightarrow> 'a into_iter \<Rightarrow> ('a list \<times> 'a block \<times> layout) exec" where
  "into_iter_drop tsz tal it =
     exec_bind (slots_read tsz (it_buf it) (it_pos it) (it_len it)) (\<lambda>dropped.
     exec_bind (layout_from tsz tal (it_layout it)) (\<lambda>l. Inr (dropped, it_buf it, l)))"

section \<open>Invariant and abstraction\<close>

definition vec_inv :: "usize \<Rightarrow> 'a vec \<Rightarrow> bool" where
  "vec_inv tsz v \<longleftrightarrow>
     v_len v \<le> vec_capacity tsz v \<and>
     array_layout_inv tsz (v_layout v) \<and>
     al_len (v_layout v) * tsz \<le> b_size (v_buf v) \<and>
     (tsz = 0 \<longrightarrow> al_len (v_layout v) = 0) \<and>
     (\<forall>i < v_len v. b_mem (v_buf v) i \<noteq> None)"

definition vec_list :: "'a vec \<Rightarrow> 'a list" where
  "vec_list v = map (\<lambda>i. the (b_mem (v_buf v) i)) [0..<v_len v]"

definition mem_list :: "(nat \<Rightarrow> 'a option) \<Rightarrow> nat \<Rightarrow> nat \<Rightarrow> 'a list" where
  "mem_list m i n = map (\<lambda>j. the (m j)) [i..<i + n]"

lemma length_vec_list [simp]: "length (vec_list v) = v_len v"
  by (simp add: vec_list_def)

lemma vec_list_mem_list: "vec_list v = mem_list (b_mem (v_buf v)) 0 (v_len v)"
  by (simp add: vec_list_def mem_list_def)

lemma length_mem_list [simp]: "length (mem_list m i n) = n"
  by (simp add: mem_list_def)

lemma mem_list_0 [simp]: "mem_list m i 0 = []"
  by (simp add: mem_list_def)

lemma mem_list_Suc: "mem_list m i (Suc n) = the (m i) # mem_list m (Suc i) n"
  by (simp add: mem_list_def upt_conv_Cons del: upt_Suc)

lemma mem_list_snoc: "mem_list m i (Suc n) = mem_list m i n @ [the (m (i + n))]"
  by (simp add: mem_list_def)

lemma mem_list_append: "mem_list m i (n + k) = mem_list m i n @ mem_list m (i + n) k"
  by (induction k) (simp_all add: mem_list_snoc add.assoc)

lemma nth_mem_list [simp]: "j < n \<Longrightarrow> mem_list m i n ! j = the (m (i + j))"
  by (simp add: mem_list_def)

lemma mem_list_cong: "(\<And>j. i \<le> j \<Longrightarrow> j < i + n \<Longrightarrow> m j = m' j) \<Longrightarrow> mem_list m i n = mem_list m' i n"
  by (simp add: mem_list_def)

lemma vec_list_nth: "i < v_len v \<Longrightarrow> vec_list v ! i = the (b_mem (v_buf v) i)"
  by (simp add: vec_list_def)

lemma vec_capacity_slots:
  assumes "vec_inv tsz v" and "i < vec_capacity tsz v"
  shows "slot_ok tsz (v_buf v) i"
proof (cases "tsz = 0")
  case True
  then show ?thesis by (simp add: slot_ok_def)
next
  case False
  with assms have "i < al_len (v_layout v)" and "al_len (v_layout v) * tsz \<le> b_size (v_buf v)"
    by (simp_all add: vec_inv_def vec_capacity_def vec_is_zst_def array_layout_len_def)
  then show ?thesis by (rule slot_okI)
qed

lemma vec_inv_len [simp]: "vec_inv tsz v \<Longrightarrow> v_len v \<le> vec_capacity tsz v"
  by (simp add: vec_inv_def)

lemma vec_slot_ok: "vec_inv tsz v \<Longrightarrow> i < v_len v \<Longrightarrow> slot_ok tsz (v_buf v) i"
  by (meson vec_capacity_slots vec_inv_len less_le_trans)

lemma vec_slot_read [simp]:
  "vec_inv tsz v \<Longrightarrow> i < v_len v \<Longrightarrow> slot_read tsz (v_buf v) i = Inr (vec_list v ! i)"
  by (auto simp: vec_list_nth slot_read_def vec_slot_ok vec_inv_def split: option.splits)

lemma slots_read_Inr:
  assumes "\<And>j. i \<le> j \<Longrightarrow> j < i + n \<Longrightarrow> slot_ok tsz b j \<and> b_mem b j \<noteq> None"
  shows "slots_read tsz b i n = Inr (mem_list (b_mem b) i n)"
  using assms
proof (induction n arbitrary: i)
  case 0
  then show ?case by simp
next
  case (Suc n)
  have "slot_ok tsz b i" and "b_mem b i \<noteq> None"
    using Suc.prems [of i] by simp_all
  then have "slot_read tsz b i = Inr (the (b_mem b i))"
    by auto
  moreover have "slots_read tsz b (Suc i) n = Inr (mem_list (b_mem b) (Suc i) n)"
    by (rule Suc.IH) (use Suc.prems in simp)
  ultimately show ?case by (simp add: mem_list_Suc)
qed

lemma slots_read_vec:
  assumes "vec_inv tsz v" and "i + n \<le> v_len v"
  shows "slots_read tsz (v_buf v) i n = Inr (take n (drop i (vec_list v)))"
proof -
  have "slots_read tsz (v_buf v) i n = Inr (mem_list (b_mem (v_buf v)) i n)"
    by (rule slots_read_Inr) (use assms in \<open>auto simp: vec_slot_ok vec_inv_def\<close>)
  moreover have "mem_list (b_mem (v_buf v)) i n = take n (drop i (vec_list v))"
    by (rule nth_equalityI) (use assms in \<open>auto simp: vec_list_nth\<close>)
  ultimately show ?thesis by simp
qed

lemma vec_inv_buf:
  assumes "vec_inv tsz v" and "b_size b = b_size (v_buf v)" and "n \<le> vec_capacity tsz v"
    and "\<And>i. i < n \<Longrightarrow> b_mem b i \<noteq> None"
  shows "vec_inv tsz (v\<lparr>v_buf := b, v_len := n\<rparr>)"
  using assms by (auto simp: vec_inv_def vec_capacity_def split: if_splits)

lemma vec_capacity_update [simp]:
  "vec_capacity tsz (v\<lparr>v_buf := b\<rparr>) = vec_capacity tsz v"
  "vec_capacity tsz (v\<lparr>v_len := n\<rparr>) = vec_capacity tsz v"
  by (simp_all add: vec_capacity_def)

lemma vec_inc_len_ok [simp]:
  "v_len v + n \<le> vec_capacity tsz v \<Longrightarrow> vec_inc_len tsz v n = Inr (v\<lparr>v_len := v_len v + n\<rparr>)"
  by (simp add: vec_inc_len_def)

lemma vec_dec_len_ok [simp]:
  "n \<le> v_len v \<Longrightarrow> vec_dec_len v n = Inr (v\<lparr>v_len := v_len v - n\<rparr>, v_len v - n)"
  by (simp add: vec_dec_len_def)

lemma vec_spare_ok [simp]:
  "vec_inv tsz v \<Longrightarrow>
   vec_spare_capacity_mut tsz v = Inr (v_len v, vec_capacity tsz v - v_len v)"
  by (simp add: vec_spare_capacity_mut_def)

lemma vec_new_inv: "vec_inv tsz vec_new" and vec_new_list: "vec_list vec_new = []"
  by (simp_all add: vec_inv_def vec_new_def vec_list_def array_layout_inv_def array_layout_empty_def
      isize_max_def dangling_from_layout_def)

lemma vec_deref_ok: "vec_inv tsz v \<Longrightarrow> vec_deref tsz v = Inr (vec_list v)"
  by (simp add: vec_deref_def slots_read_vec)

lemma vec_get_ok:
  "vec_inv tsz v \<Longrightarrow>
   vec_get tsz v i = Inr (if i < v_len v then Some (vec_list v ! i) else None)"
  by (simp add: vec_get_def)

section \<open>Reserving\<close>

lemma vec_cap_no_overflow:
  assumes "vec_inv tsz v" and "tsz \<noteq> 0"
  shows "vec_capacity tsz v * 2 \<le> usize_max"
proof -
  have "vec_capacity tsz v * 1 \<le> vec_capacity tsz v * tsz"
    using assms(2) by (intro mult_le_mono2) simp
  also have "\<dots> \<le> isize_max"
    using assms by (simp add: vec_inv_def vec_capacity_def vec_is_zst_def array_layout_len_def
        array_layout_inv_def)
  finally show ?thesis
    using twice_isize_le_usize by simp
qed

definition reserve_post ::
  "usize \<Rightarrow> 'a vec \<Rightarrow> usize \<Rightarrow> (unit, error_source) result \<Rightarrow> 'a vec \<Rightarrow> bool" where
  "reserve_post tsz v n r v' \<longleftrightarrow>
     vec_inv tsz v' \<and> vec_list v' = vec_list v \<and> v_len v' = v_len v \<and>
     (case r of Ok _ \<Rightarrow> v_len v + n \<le> vec_capacity tsz v'
              | Err _ \<Rightarrow> v' = v)"

context allocator
begin

lemma reserve_realloc:
  assumes v: "vec_inv tsz v" and t: "type_ok tsz tal" "tsz \<noteq> 0"
    and n: "n * tsz \<le> isize_max" "vec_capacity tsz v \<le> n"
    and r: "realloc (Some (v_buf v)) \<lparr>l_size = n * tsz, l_align = tal\<rparr>
              \<lparr>l_size = al_len (v_layout v) * tsz, l_align = tal\<rparr> fl = Ok b"
  shows "vec_inv tsz (v\<lparr>v_buf := b, v_layout := \<lparr>al_len = n\<rparr>\<rparr>) \<and>
         vec_list (v\<lparr>v_buf := b, v_layout := \<lparr>al_len = n\<rparr>\<rparr>) = vec_list v"
proof -
  let ?c = "al_len (v_layout v)"
  have c: "vec_capacity tsz v = ?c"
    using t by (simp add: vec_capacity_def vec_is_zst_def array_layout_len_def)
  have al: "0 < tal" using t(1) by simp
  have sz: "n * tsz \<le> b_size b"
    using realloc_size [OF _ r] al by simp
  have le: "?c * tsz \<le> min (n * tsz) (?c * tsz)"
    using n(2) c by simp
  have keep: "b_mem b i = b_mem (v_buf v) i" if "i < v_len v" for i
  proof (rule grow_keeps_prefix [OF _ r])
    show "?c * tsz \<le> min (l_size \<lparr>l_size = n * tsz, l_align = tal\<rparr>)
            (l_size \<lparr>l_size = ?c * tsz, l_align = tal\<rparr>)"
      using le by simp
    show "i < ?c"
      using that v c vec_inv_len by (metis less_le_trans)
  qed (use al v t in \<open>simp_all add: vec_inv_def\<close>)
  show ?thesis
    using v n t sz c keep
    by (auto simp: vec_inv_def vec_list_def vec_capacity_def vec_is_zst_def array_layout_len_def
        array_layout_inv_def)
qed

lemma reserve_grow:
  assumes v: "vec_inv tsz v" and t: "type_ok tsz tal"
    and grow: "\<not> n \<le> vec_capacity tsz v - v_len v" "tsz \<noteq> 0" "checked_add (v_len v) n = Some need"
  shows "\<exists>r v'. vec_reserve realloc tsz tal v n fl = Inr (r, v') \<and> reserve_post tsz v n r v'"
proof -
  let ?n = "max (vec_capacity tsz v * 2) need"
  have red: "vec_reserve realloc tsz tal v n fl =
    (case array_layout_new tsz ?n of
       Err _ \<Rightarrow> Inr (Err AllocError, v)
     | Ok layout \<Rightarrow>
         exec_bind (layout_from tsz tal layout) (\<lambda>new_l.
         exec_bind (layout_from tsz tal (v_layout v)) (\<lambda>old_l.
         case realloc (Some (v_buf v)) new_l old_l fl of
           Err e \<Rightarrow> Inr (Err e, v)
         | Ok ptr \<Rightarrow> Inr (Ok (), v\<lparr>v_buf := ptr, v_layout := layout\<rparr>))))"
    using v grow vec_cap_no_overflow [OF v grow(2)]
    by (simp add: vec_reserve_def vec_is_zst_def Let_def del: checked_add_eq_Some)
  show ?thesis
  proof (cases "array_layout_new tsz ?n")
    case (Err e)
    then show ?thesis
      using red v by (simp add: reserve_post_def)
  next
    case (Ok layout)
    then have n: "?n * tsz \<le> isize_max" and l: "layout = \<lparr>al_len = ?n\<rparr>" by simp_all
    let ?new = "\<lparr>l_size = ?n * tsz, l_align = tal\<rparr>"
    let ?old = "\<lparr>l_size = al_len (v_layout v) * tsz, l_align = tal\<rparr>"
    have red': "vec_reserve realloc tsz tal v n fl =
      (case realloc (Some (v_buf v)) ?new ?old fl of
         Err e \<Rightarrow> Inr (Err e, v)
       | Ok ptr \<Rightarrow> Inr (Ok (), v\<lparr>v_buf := ptr, v_layout := \<lparr>al_len = ?n\<rparr>\<rparr>))"
      using red Ok t v array_layout_new_inv [OF Ok] l by (simp add: vec_inv_def)
    show ?thesis
    proof (cases "realloc (Some (v_buf v)) ?new ?old fl")
      case (Err e)
      then show ?thesis
        using red' v by (simp add: reserve_post_def)
    next
      case (Ok b)
      have "vec_capacity tsz v \<le> ?n" by simp
      from reserve_realloc [OF v t grow(2) n this Ok]
      have "reserve_post tsz v n (Ok ()) (v\<lparr>v_buf := b, v_layout := \<lparr>al_len = ?n\<rparr>\<rparr>)"
        using grow
        by (auto simp: reserve_post_def vec_capacity_def vec_is_zst_def array_layout_len_def)
      with red' Ok show ?thesis by simp
    qed
  qed
qed

lemma reserve_ok:
  assumes v: "vec_inv tsz v" and t: "type_ok tsz tal"
  shows "\<exists>r v'. vec_reserve realloc tsz tal v n fl = Inr (r, v') \<and> reserve_post tsz v n r v'"
proof -
  consider (room) "n \<le> vec_capacity tsz v - v_len v"
    | (zst) "\<not> n \<le> vec_capacity tsz v - v_len v" "tsz = 0"
    | (ovf) "\<not> n \<le> vec_capacity tsz v - v_len v" "tsz \<noteq> 0" "checked_add (v_len v) n = None"
    | (grow) need where "\<not> n \<le> vec_capacity tsz v - v_len v" "tsz \<noteq> 0"
        "checked_add (v_len v) n = Some need"
    by (cases "checked_add (v_len v) n") auto
  then show ?thesis
  proof cases
    case room
    then have "v_len v + n \<le> vec_capacity tsz v"
      using vec_inv_len [OF v] by linarith
    with room show ?thesis
      using v by (auto simp: vec_reserve_def reserve_post_def)
  next
    case zst
    then show ?thesis
      using v by (simp add: vec_reserve_def reserve_post_def vec_is_zst_def)
  next
    case ovf
    then show ?thesis
      using v vec_cap_no_overflow [OF v]
      by (simp add: vec_reserve_def reserve_post_def vec_is_zst_def Let_def
            del: checked_add_eq_None)
  next
    case grow
    then show ?thesis by (rule reserve_grow [OF v t])
  qed
qed

end

section \<open>Appending\<close>

definition mem_upd :: "(nat \<Rightarrow> 'a option) \<Rightarrow> nat \<Rightarrow> 'a list \<Rightarrow> nat \<Rightarrow> 'a option" where
  "mem_upd m i xs = (\<lambda>j. if i \<le> j \<and> j < i + length xs then Some (xs ! (j - i)) else m j)"

lemma mem_upd_Nil [simp]: "mem_upd m i [] = m"
  by (auto simp: mem_upd_def fun_eq_iff)

lemma mem_upd_Cons: "mem_upd m i (x # xs) = mem_upd (m(i := Some x)) (Suc i) xs"
  by (auto simp: mem_upd_def fun_eq_iff nth_Cons' not_less le_Suc_eq Suc_diff_le
      split: nat_diff_split)

lemma mem_upd_snoc: "mem_upd m i (xs @ [x]) = (mem_upd m i xs)(i + length xs := Some x)"
  by (auto simp: mem_upd_def fun_eq_iff nth_append)

lemma slots_write_ok:
  assumes "\<And>j. i \<le> j \<Longrightarrow> j < i + length xs \<Longrightarrow> slot_ok tsz b j"
  shows "slots_write tsz b i xs = Inr (b\<lparr>b_mem := mem_upd (b_mem b) i xs\<rparr>)"
  using assms
proof (induction xs arbitrary: i b)
  case Nil
  then show ?case by simp
next
  case (Cons x xs)
  have "slot_ok tsz b i"
    using Cons.prems [of i] by simp
  moreover have "slots_write tsz (b\<lparr>b_mem := (b_mem b)(i := Some x)\<rparr>) (Suc i) xs =
      Inr (b\<lparr>b_mem := mem_upd ((b_mem b)(i := Some x)) (Suc i) xs\<rparr>)"
    using Cons.IH [of "Suc i" "b\<lparr>b_mem := (b_mem b)(i := Some x)\<rparr>"] Cons.prems
    by (simp add: fun_upd_def)
  ultimately show ?case by (simp add: mem_upd_Cons)
qed

definition vec_append :: "'a vec \<Rightarrow> 'a list \<Rightarrow> 'a vec" where
  "vec_append v xs =
     v\<lparr>v_buf := (v_buf v)\<lparr>b_mem := mem_upd (b_mem (v_buf v)) (v_len v) xs\<rparr>,
       v_len := v_len v + length xs\<rparr>"

lemma vec_append_inv:
  assumes "vec_inv tsz v" and "v_len v + length xs \<le> vec_capacity tsz v"
  shows "vec_inv tsz (vec_append v xs)"
  unfolding vec_append_def using assms by (intro vec_inv_buf) (auto simp: mem_upd_def vec_inv_def)

lemma vec_append_list: "vec_list (vec_append v xs) = vec_list v @ xs"
  by (rule nth_equalityI)
    (auto simp: vec_append_def vec_list_def mem_upd_def nth_append simp del: upt_Suc)

lemma vec_spare_write:
  assumes "vec_inv tsz v" and "v_len v + length xs \<le> vec_capacity tsz v"
  shows "slots_write tsz (v_buf v) (v_len v) xs =
         Inr ((v_buf v)\<lparr>b_mem := mem_upd (b_mem (v_buf v)) (v_len v) xs\<rparr>)"
  by (rule slots_write_ok) (use assms in \<open>auto intro!: vec_capacity_slots [OF assms(1)]\<close>)

lemma vec_push_unchecked_ok:
  assumes "vec_inv tsz v" and "v_len v < vec_capacity tsz v"
  shows "vec_push_within_capacity_unchecked tsz v x = Inr (vec_append v [x])"
proof -
  have "slot_ok tsz (v_buf v) (v_len v)"
    using assms by (rule vec_capacity_slots)
  with assms show ?thesis
    by (simp add: vec_push_within_capacity_unchecked_def vec_append_def mem_upd_Cons)
qed

text \<open>Outcome of an operation that appends \<open>xs\<close> or fails without changing the vector.\<close>

definition append_post ::
  "usize \<Rightarrow> 'a vec \<Rightarrow> 'a list \<Rightarrow> (unit, 'e) result \<Rightarrow> 'a vec \<Rightarrow> bool" where
  "append_post tsz v xs r v' \<longleftrightarrow>
     vec_inv tsz v' \<and>
     (case r of Ok _ \<Rightarrow> vec_list v' = vec_list v @ xs | Err _ \<Rightarrow> v' = v)"

lemma append_post_append:
  assumes "reserve_post tsz v (length xs) (Ok ()) v'"
  shows "append_post tsz v xs (Ok ()) (vec_append v' xs)"
  using assms
  by (simp add: append_post_def reserve_post_def vec_append_list vec_append_inv)

lemma reserve_post_Err: "reserve_post tsz v n (Err e) v' \<Longrightarrow> append_post tsz v xs (Err e') v'"
  by (auto simp: reserve_post_def append_post_def)

lemma push_within_capacity_ok:
  assumes "vec_inv tsz v"
  shows "vec_push_within_capacity tsz v x =
         Inr (if v_len v < vec_capacity tsz v then (Ok (), vec_append v [x]) else (Err (PushError x), v))"
  using assms by (simp add: vec_push_within_capacity_def vec_push_unchecked_ok)

context allocator
begin

lemma push_ok:
  assumes v: "vec_inv tsz v" and t: "type_ok tsz tal"
  shows "\<exists>r v'. vec_push realloc tsz tal v x fl = Inr (r, v') \<and> append_post tsz v [x] r v'"
proof -
  obtain r v' where rv: "vec_reserve realloc tsz tal v 1 fl = Inr (r, v')"
    and post: "reserve_post tsz v 1 r v'"
    using reserve_ok [OF v t] by blast
  show ?thesis
  proof (cases r)
    case (Ok u)
    then have "vec_inv tsz v'" and "v_len v' < vec_capacity tsz v'"
      using post by (auto simp: reserve_post_def)
    then have "vec_push realloc tsz tal v x fl = Inr (Ok (), vec_append v' [x])"
      using rv Ok by (simp add: vec_push_def vec_push_unchecked_ok)
    with append_post_append [of tsz v "[x]" v'] post Ok show ?thesis by simp
  next
    case (Err e)
    with rv post reserve_post_Err show ?thesis
      by (fastforce simp: vec_push_def)
  qed
qed

lemma extend_with_ok:
  assumes v: "vec_inv tsz v" and t: "type_ok tsz tal"
  shows "\<exists>r v'. vec_extend_with realloc tsz tal clone v n value fl = Inr (r, v') \<and>
           append_post tsz v (if n = 0 then [] else replicate (n - 1) (clone value) @ [value]) r v'"
proof (cases "n = 0")
  case True
  with v show ?thesis by (simp add: vec_extend_with_def append_post_def)
next
  case n: False
  let ?xs = "replicate (n - 1) (clone value)"
  obtain r v' where rv: "vec_reserve realloc tsz tal v n fl = Inr (r, v')"
    and post: "reserve_post tsz v n r v'"
    using reserve_ok [OF v t] by blast
  show ?thesis
  proof (cases r)
    case (Ok u)
    then have v': "vec_inv tsz v'" and cap: "v_len v' + n \<le> vec_capacity tsz v'"
      using post by (auto simp: reserve_post_def)
    have w: "slots_write tsz (v_buf v') (v_len v') ?xs =
        Inr ((v_buf v')\<lparr>b_mem := mem_upd (b_mem (v_buf v')) (v_len v') ?xs\<rparr>)"
      by (rule vec_spare_write [OF v']) (use cap in simp)
    have "slot_ok tsz (v_buf v') (v_len v' + (n - 1))"
      by (rule vec_capacity_slots [OF v']) (use cap n in simp)
    moreover have "min (n - 1) (vec_capacity tsz v' - v_len v') = n - 1"
      using cap by simp
    ultimately have "vec_extend_with realloc tsz tal clone v n value fl =
        Inr (Ok (), vec_append v' (?xs @ [value]))"
      using rv Ok n cap v' w by (simp add: vec_extend_with_def mem_upd_snoc vec_append_def)
    moreover have "length (?xs @ [value]) = n" using n by simp
    ultimately show ?thesis
      using append_post_append [of tsz v "?xs @ [value]" v'] post Ok n by simp
  next
    case (Err e)
    with rv post n reserve_post_Err show ?thesis
      by (fastforce simp: vec_extend_with_def)
  qed
qed

lemma extend_from_slice_ok:
  assumes v: "vec_inv tsz v" and t: "type_ok tsz tal"
  shows "\<exists>r v'. vec_extend_from_slice realloc tsz tal clone v other fl = Inr (r, v') \<and>
           append_post tsz v (map clone other) r v'"
proof -
  obtain r v' where rv: "vec_reserve realloc tsz tal v (length other) fl = Inr (r, v')"
    and post: "reserve_post tsz v (length other) r v'"
    using reserve_ok [OF v t] by blast
  show ?thesis
  proof (cases r)
    case (Ok u)
    then have v': "vec_inv tsz v'" and cap: "v_len v' + length other \<le> vec_capacity tsz v'"
      using post by (auto simp: reserve_post_def)
    have "slots_write tsz (v_buf v') (v_len v') (map clone other) =
        Inr ((v_buf v')\<lparr>b_mem := mem_upd (b_mem (v_buf v')) (v_len v') (map clone other)\<rparr>)"
      by (rule vec_spare_write [OF v']) (use cap in simp)
    then have "vec_extend_from_slice realloc tsz tal clone v other fl =
        Inr (Ok (), vec_append v' (map clone other))"
      using rv Ok cap v' by (simp add: vec_extend_from_slice_def vec_append_def)
    with append_post_append [of tsz v "map clone other" v'] post Ok show ?thesis by simp
  next
    case (Err e)
    with rv post reserve_post_Err show ?thesis
      by (fastforce simp: vec_extend_from_slice_def)
  qed
qed

lemma with_capacity_ok:
  assumes t: "type_ok tsz tal"
  shows "(\<exists>v. vec_with_capacity realloc tsz tal n fl = Inr (Ok v) \<and> vec_inv tsz v \<and>
              vec_list v = [] \<and> n \<le> vec_capacity tsz v)
       \<or> (\<exists>e. vec_with_capacity realloc tsz tal n fl = Inr (Err e))"
proof -
  obtain r v' where rv: "vec_reserve realloc tsz tal vec_new n fl = Inr (r, v')"
    and post: "reserve_post tsz vec_new n r v'"
    using reserve_ok [OF vec_new_inv t] by blast
  show ?thesis
  proof (cases r)
    case (Ok u)
    with rv post show ?thesis
      by (simp add: vec_with_capacity_def reserve_post_def vec_new_list)
  next
    case (Err e)
    with rv show ?thesis by (simp add: vec_with_capacity_def)
  qed
qed

end

section \<open>Removing\<close>

lemma vec_shrink_inv: "vec_inv tsz v \<Longrightarrow> n \<le> v_len v \<Longrightarrow> vec_inv tsz (v\<lparr>v_len := n\<rparr>)"
  by (auto simp: vec_inv_def)

lemma vec_shrink_list: "n \<le> v_len v \<Longrightarrow> vec_list (v\<lparr>v_len := n\<rparr>) = take n (vec_list v)"
  by (rule nth_equalityI) (simp_all add: vec_list_nth)

lemma vec_pop_ok:
  assumes "vec_inv tsz v"
  shows "vec_pop tsz v =
         Inr (if vec_list v = [] then (None, v)
              else (Some (last (vec_list v)), v\<lparr>v_len := v_len v - 1\<rparr>))"
proof (cases "v_len v = 0")
  case True
  then show ?thesis by (simp add: vec_pop_def vec_is_empty_def vec_list_def)
next
  case False
  then have "vec_list v \<noteq> []" by (simp flip: length_0_conv)
  with False assms show ?thesis
    by (simp add: vec_pop_def vec_is_empty_def last_conv_nth)
qed

lemma vec_truncate_ok:
  assumes "vec_inv tsz v"
  shows "vec_truncate tsz v n =
         Inr (if n \<le> v_len v then (drop n (vec_list v), v\<lparr>v_len := n\<rparr>) else ([], v))"
proof (cases "n \<le> v_len v")
  case True
  then have "slots_read tsz (v_buf v) n (v_len v - n) = Inr (drop n (vec_list v))"
    using slots_read_vec [OF assms, of n "v_len v - n"] by simp
  with True show ?thesis
    by (simp add: vec_truncate_def checked_sub_def)
next
  case False
  then show ?thesis by (simp add: vec_truncate_def checked_sub_def)
qed

lemma vec_drain_all_ok:
  assumes "vec_inv tsz v"
  shows "vec_drain_all tsz v = Inr (vec_list v, v\<lparr>v_len := 0\<rparr>)"
  using slots_read_vec [OF assms, of 0 "v_len v"] by (simp add: vec_drain_all_def)

lemma vec_copy_ok:
  assumes "vec_inv tsz v" and "src + n \<le> vec_capacity tsz v" and "dst + n \<le> vec_capacity tsz v"
  shows "slot_copy tsz (v_buf v) src dst n =
    Inr ((v_buf v)\<lparr>b_mem := (\<lambda>i. if dst \<le> i \<and> i < dst + n then b_mem (v_buf v) (src + (i - dst))
                                  else b_mem (v_buf v) i)\<rparr>)"
proof -
  have "k * tsz \<le> b_size (v_buf v)" if "k \<le> vec_capacity tsz v" for k
  proof (cases "tsz = 0")
    case False
    with that assms(1) have "k \<le> al_len (v_layout v)"
      by (simp add: vec_capacity_def vec_is_zst_def array_layout_len_def)
    then show ?thesis
      using assms(1) unfolding vec_inv_def by (meson le_trans mult_le_mono1)
  qed simp
  with assms(2,3) show ?thesis by (simp add: slot_copy_def)
qed

lemma vec_insert_ok:
  assumes v: "vec_inv tsz v"
  shows "\<exists>r v'. vec_insert_within_capacity tsz v i x = Inr (r, v') \<and> vec_inv tsz v' \<and>
    (if v_len v < i then r = Err (IndexOutOfBounds x) \<and> v' = v
     else if v_len v \<ge> vec_capacity tsz v then r = Err (OutOfCapacity x) \<and> v' = v
     else r = Ok () \<and> vec_list v' = take i (vec_list v) @ x # drop i (vec_list v))"
proof (cases "v_len v < i \<or> v_len v \<ge> vec_capacity tsz v")
  case True
  with v show ?thesis by (auto simp: vec_insert_within_capacity_def Let_def)
next
  case False
  then have i: "i \<le> v_len v" and cap: "v_len v < vec_capacity tsz v" by auto
  let ?m = "b_mem (v_buf v)"
  let ?b = "(v_buf v)\<lparr>b_mem := (\<lambda>j. if j = i then Some x else if Suc i \<le> j \<and> j < Suc (v_len v)
              then ?m (i + (j - (i + 1))) else ?m j)\<rparr>"
  let ?v = "v\<lparr>v_buf := ?b, v_len := v_len v + 1\<rparr>"
  have copy: "slot_copy tsz (v_buf v) i (i + 1) (v_len v - i) =
      Inr ((v_buf v)\<lparr>b_mem := (\<lambda>j. if i + 1 \<le> j \<and> j < i + 1 + (v_len v - i)
              then ?m (i + (j - (i + 1))) else ?m j)\<rparr>)"
    by (rule vec_copy_ok [OF v]) (use i cap in simp_all)
  have "slot_ok tsz (v_buf v) i"
    by (rule vec_capacity_slots [OF v]) (use i cap in simp)
  then have "vec_insert_within_capacity tsz v i x = Inr (Ok (), ?v)"
    using i cap copy by (simp add: vec_insert_within_capacity_def fun_upd_def Let_def)
  moreover have "vec_inv tsz ?v"
    by (rule vec_inv_buf [OF v]) (use v i cap in \<open>auto simp: vec_inv_def\<close>)
  moreover have "vec_list ?v = take i (vec_list v) @ x # drop i (vec_list v)"
    unfolding take_drop_insert [symmetric, OF i [folded length_vec_list]]
    by (rule nth_equalityI) (use i in \<open>auto simp: vec_list_nth vec_list_def simp del: upt_Suc\<close>)
  ultimately show ?thesis using i cap by auto
qed

lemma vec_remove_ok:
  assumes v: "vec_inv tsz v"
  shows "\<exists>r v'. vec_remove tsz v i = Inr (r, v') \<and> vec_inv tsz v' \<and>
    (if i < v_len v
     then r = Ok (vec_list v ! i) \<and> vec_list v' = take i (vec_list v) @ drop (Suc i) (vec_list v)
     else r = Err RemoveError \<and> v' = v)"
proof (cases "i < v_len v")
  case False
  with v show ?thesis by (simp add: vec_remove_def vec_get_ok)
next
  case i: True
  let ?m = "b_mem (v_buf v)"
  let ?b = "(v_buf v)\<lparr>b_mem := (\<lambda>j. if i \<le> j \<and> j < i + (v_len v - i - 1)
              then ?m (i + 1 + (j - i)) else ?m j)\<rparr>"
  let ?v = "v\<lparr>v_buf := ?b, v_len := v_len v - 1\<rparr>"
  have "slot_copy tsz (v_buf v) (i + 1) i (v_len v - i - 1) = Inr ?b"
    by (rule vec_copy_ok [OF v]) (use i vec_inv_len [OF v] in linarith)+
  then have "vec_remove tsz v i = Inr (Ok (vec_list v ! i), ?v)"
    using i v by (simp add: vec_remove_def vec_get_ok)
  moreover have "vec_inv tsz ?v"
    by (rule vec_inv_buf [OF v]) (use v i in \<open>auto simp: vec_inv_def\<close>)
  moreover have "vec_list ?v = take i (vec_list v) @ drop (Suc i) (vec_list v)"
    unfolding take_drop_remove [symmetric, OF i [folded length_vec_list]]
    by (rule nth_equalityI) (use i in \<open>auto simp: vec_list_nth vec_list_def\<close>)
  ultimately show ?thesis using i by auto
qed

section \<open>Retaining\<close>

text \<open>What \<open>retain\<close> does to a list: final closure state, kept elements, dropped elements.\<close>

fun retain_spec ::
  "('s \<Rightarrow> 'a \<Rightarrow> bool \<times> 'a \<times> 's) \<Rightarrow> 's \<Rightarrow> 'a list \<Rightarrow> 's \<times> 'a list \<times> 'a list" where
  "retain_spec f s [] = (s, [], [])"
| "retain_spec f s (x # xs) =
     (case f s x of (keep, x', s') \<Rightarrow>
        (case retain_spec f s' xs of (s'', kept, dropped) \<Rightarrow>
           if keep then (s'', x' # kept, dropped) else (s'', kept, x' # dropped)))"

lemma retain_spec_filter:
  "retain_spec (\<lambda>s x. (P x, x, s)) s xs = (s, filter P xs, filter (\<lambda>x. \<not> P x) xs)"
  by (induction xs) simp_all

lemma slots_swap_ok:
  assumes "slot_ok tsz b i" "slot_ok tsz b j" "i < len" "j < len"
    and "b_mem b i = Some x" "b_mem b j = Some y"
  shows "slots_swap tsz len b i j = Inr (b\<lparr>b_mem := (b_mem b)(i := Some y, j := Some x)\<rparr>)"
  using assms by (simp add: slots_swap_def)

definition retain_inv ::
  "usize \<Rightarrow> nat \<Rightarrow> nat \<Rightarrow> 'a block \<Rightarrow> bool" where
  "retain_inv tsz len n b \<longleftrightarrow>
     (\<forall>j < len. slot_ok tsz b j \<and> b_mem b j \<noteq> None) \<and> b_size b = n"

definition retain_post ::
  "nat \<Rightarrow> (nat \<Rightarrow> 'a option) \<Rightarrow> nat \<Rightarrow> nat \<Rightarrow> 'a list \<Rightarrow> 'a list \<Rightarrow> (nat \<Rightarrow> 'a option) \<Rightarrow> nat \<Rightarrow> bool" where
  "retain_post len m k i kept dropped m' k' \<longleftrightarrow>
     k' \<le> len \<and> mem_list m' 0 k' = mem_list m 0 k @ kept \<and>
     mset (mem_list m' k' (len - k')) = mset (mem_list m k (i - k)) + mset dropped"

lemma retain_post_keep:
  assumes "k \<le> i" and "retain_post len ((m(i := m k))(k := Some x)) (Suc k) (Suc i) kept dropped m' k'"
  shows "retain_post len m k i (x # kept) dropped m' k'"
proof -
  let ?m = "(m(i := m k))(k := Some x)"
  have "mem_list ?m 0 k = mem_list m 0 k"
    by (rule mem_list_cong) (use assms(1) in auto)
  then have front: "mem_list ?m 0 (Suc k) = mem_list m 0 k @ [x]"
    by (simp add: mem_list_snoc)
  have "mset (mem_list ?m (Suc k) (i - k)) = mset (mem_list m k (i - k))"
  proof (cases "k = i")
    case False
    then obtain n where n: "i - k = Suc n" "i = k + Suc n"
      using assms(1) by (metis Suc_diff_Suc le_add_diff_inverse le_neq_implies_less)
    have "mem_list ?m (Suc k) n = mem_list m (Suc k) n"
      by (rule mem_list_cong) (use n in auto)
    then show ?thesis
      using n False by (simp add: mem_list_snoc [of _ "Suc k"] mem_list_Suc [of m k])
  qed simp
  with assms(2) front show ?thesis
    by (simp add: retain_post_def)
qed

lemma retain_post_drop:
  assumes "k \<le> i" and "retain_post len (m(i := Some x)) k (Suc i) kept dropped m' k'"
  shows "retain_post len m k i kept (x # dropped) m' k'"
proof -
  have "mem_list (m(i := Some x)) 0 k = mem_list m 0 k"
    and "mem_list (m(i := Some x)) k (i - k) = mem_list m k (i - k)"
    by (rule mem_list_cong, use assms(1) in auto)+
  moreover have "mem_list (m(i := Some x)) k (Suc i - k) =
      mem_list (m(i := Some x)) k (i - k) @ [x]"
    using assms(1) by (simp add: Suc_diff_le mem_list_snoc)
  ultimately show ?thesis
    using assms(2) by (simp add: retain_post_def)
qed

lemma mem_list_rest:
  "(\<And>j. i < j \<Longrightarrow> m' j = m j) \<Longrightarrow> mem_list m' (Suc i) n = mem_list m (Suc i) n"
  by (rule mem_list_cong) auto

lemma retain_loop_end: "\<not> i < len \<Longrightarrow> retain_loop tsz f len s b k i = Inr (s, b, k)"
  by (subst retain_loop.simps) simp

lemma retain_loop_keep:
  assumes inv: "retain_inv tsz len n b" and ki: "k \<le> i" and i: "i < len"
    and f: "f s (the (b_mem b i)) = (True, x', s1)"
    and b2: "b2 = b\<lparr>b_mem := ((b_mem b)(i := b_mem b k))(k := Some x')\<rparr>"
  shows "retain_loop tsz f len s b k i = retain_loop tsz f len s1 b2 (Suc k) (Suc i)"
    and "retain_inv tsz len n b2"
    and "mem_list (b_mem b2) (Suc i) m = mem_list (b_mem b) (Suc i) m"
proof -
  obtain x y where x: "b_mem b i = Some x" and ok: "slot_ok tsz b i"
    and y: "b_mem b k = Some y" and okk: "slot_ok tsz b k"
    using inv ki i by (force simp: retain_inv_def)
  let ?b1 = "b\<lparr>b_mem := (b_mem b)(i := Some x')\<rparr>"
  have "slots_swap tsz len ?b1 k i = Inr b2"
  proof (cases "k = i")
    case True
    then show ?thesis
      using ok i by (simp add: slots_swap_ok [where x = x' and y = x'] b2)
  next
    case False
    then show ?thesis
      using ok okk i ki y by (simp add: slots_swap_ok [where x = y and y = x'] fun_upd_twist b2)
  qed
  then show "retain_loop tsz f len s b k i = retain_loop tsz f len s1 b2 (Suc k) (Suc i)"
    using i x ok f by (simp add: retain_loop.simps [of tsz f len s b k i])
  show "retain_inv tsz len n b2"
    using inv y by (auto simp: retain_inv_def b2)
  show "mem_list (b_mem b2) (Suc i) m = mem_list (b_mem b) (Suc i) m"
    by (rule mem_list_rest) (use ki in \<open>auto simp: b2\<close>)
qed

lemma retain_loop_drop:
  assumes inv: "retain_inv tsz len n b" and i: "i < len"
    and f: "f s (the (b_mem b i)) = (False, x', s1)"
    and b1: "b1 = b\<lparr>b_mem := (b_mem b)(i := Some x')\<rparr>"
  shows "retain_loop tsz f len s b k i = retain_loop tsz f len s1 b1 k (Suc i)"
    and "retain_inv tsz len n b1"
    and "mem_list (b_mem b1) (Suc i) m = mem_list (b_mem b) (Suc i) m"
proof -
  obtain x where "b_mem b i = Some x" and "slot_ok tsz b i"
    using inv i by (auto simp: retain_inv_def)
  then show "retain_loop tsz f len s b k i = retain_loop tsz f len s1 b1 k (Suc i)"
    using i f b1 by (simp add: retain_loop.simps [of tsz f len s b k i])
  show "retain_inv tsz len n b1"
    using inv by (auto simp: retain_inv_def b1)
  show "mem_list (b_mem b1) (Suc i) m = mem_list (b_mem b) (Suc i) m"
    by (rule mem_list_rest) (auto simp: b1)
qed

lemma retain_loop_ok:
  assumes "retain_inv tsz len n b" and "k \<le> i" and "i \<le> len"
    and "retain_spec f s (mem_list (b_mem b) i (len - i)) = (s', kept, dropped)"
  shows "\<exists>b' k'. retain_loop tsz f len s b k i = Inr (s', b', k') \<and> retain_inv tsz len n b' \<and>
           retain_post len (b_mem b) k i kept dropped (b_mem b') k'"
  using assms
proof (induction "len - i" arbitrary: i k b s kept dropped)
  case 0
  then show ?case
    by (simp add: retain_loop_end retain_post_def)
next
  case (Suc d)
  then have i: "i < len" and d: "d = len - Suc i" "len - i = Suc d" by simp_all
  note inv = Suc.prems(1) and ki = Suc.prems(2)
  obtain keep x' s1 where f: "f s (the (b_mem b i)) = (keep, x', s1)"
    by (metis prod_cases3)
  obtain ks ds where spec: "retain_spec f s1 (mem_list (b_mem b) (Suc i) d) = (s', ks, ds)"
    and kd: "kept = (if keep then x' # ks else ks)" "dropped = (if keep then ds else x' # ds)"
    using Suc.prems(4) d f by (auto simp: mem_list_Suc split: prod.splits if_splits)
  show ?case
  proof (cases keep)
    case True
    let ?b = "b\<lparr>b_mem := ((b_mem b)(i := b_mem b k))(k := Some x')\<rparr>"
    have f': "f s (the (b_mem b i)) = (True, x', s1)" using f True by simp
    note step = retain_loop_keep [where f = f and s = s, OF inv ki i f' refl]
    have "retain_spec f s1 (mem_list (b_mem ?b) (Suc i) (len - Suc i)) = (s', ks, ds)"
      unfolding step(3) d(1) [symmetric] by (rule spec)
    from Suc.hyps(1) [where k = "Suc k", OF d(1) step(2) _ _ this] ki i
    obtain b' k' where "retain_loop tsz f len s1 ?b (Suc k) (Suc i) = Inr (s', b', k')"
      and "retain_inv tsz len n b'"
      and "retain_post len (b_mem ?b) (Suc k) (Suc i) ks ds (b_mem b') k'" by auto
    with step(1) kd True retain_post_keep [OF ki, of len "b_mem b" x' ks ds] show ?thesis by simp
  next
    case False
    let ?b = "b\<lparr>b_mem := (b_mem b)(i := Some x')\<rparr>"
    have f': "f s (the (b_mem b i)) = (False, x', s1)" using f False by simp
    note step = retain_loop_drop [where f = f and s = s, OF inv i f' refl]
    have "retain_spec f s1 (mem_list (b_mem ?b) (Suc i) (len - Suc i)) = (s', ks, ds)"
      unfolding step(3) d(1) [symmetric] by (rule spec)
    from Suc.hyps(1) [where k = k, OF d(1) step(2) _ _ this] ki i
    obtain b' k' where "retain_loop tsz f len s1 ?b k (Suc i) = Inr (s', b', k')"
      and "retain_inv tsz len n b'"
      and "retain_post len (b_mem ?b) k (Suc i) ks ds (b_mem b') k'" by auto
    with step(1) kd False retain_post_drop [OF ki, of len "b_mem b" x' ks ds] show ?thesis by simp
  qed
qed

lemma vec_retain_ok:
  assumes v: "vec_inv tsz v" and spec: "retain_spec f s (vec_list v) = (s', kept, dropped)"
  shows "\<exists>ds v'. vec_retain tsz f s v = Inr (s', ds, v') \<and> vec_inv tsz v' \<and>
           vec_list v' = kept \<and> mset ds = mset dropped"
proof -
  let ?len = "v_len v" and ?n = "b_size (v_buf v)"
  have "retain_inv tsz ?len ?n (v_buf v)"
    using v by (auto simp: retain_inv_def vec_slot_ok) (simp add: vec_inv_def)
  moreover have "retain_spec f s (mem_list (b_mem (v_buf v)) 0 (?len - 0)) = (s', kept, dropped)"
    using spec by (simp add: vec_list_mem_list)
  ultimately obtain b' k' where r: "retain_loop tsz f ?len s (v_buf v) 0 0 = Inr (s', b', k')"
    and inv': "retain_inv tsz ?len ?n b'"
    and post: "retain_post ?len (b_mem (v_buf v)) 0 0 kept dropped (b_mem b') k'"
    using retain_loop_ok [of tsz ?len ?n "v_buf v" 0 0 f s s' kept dropped] by auto
  let ?v = "v\<lparr>v_buf := b'\<rparr>"
  have "vec_inv tsz (v\<lparr>v_buf := b', v_len := ?len\<rparr>)"
    by (rule vec_inv_buf [OF v]) (use inv' v in \<open>auto simp: retain_inv_def\<close>)
  then have v': "vec_inv tsz ?v" by simp
  have k': "k' \<le> v_len ?v" using post by (simp add: retain_post_def)
  have "vec_list (?v\<lparr>v_len := k'\<rparr>) = kept"
    using post by (simp add: vec_list_mem_list retain_post_def)
  moreover have "drop k' (vec_list ?v) = mem_list (b_mem b') k' (?len - k')"
    using k' by (auto simp: vec_list_nth intro!: nth_equalityI)
  ultimately show ?thesis
    using r vec_truncate_ok [OF v', of k'] k' vec_shrink_inv [OF v' k'] post
    by (simp add: vec_retain_def retain_post_def)
qed

section \<open>Iterators\<close>

definition iter_inv :: "usize \<Rightarrow> 'a into_iter \<Rightarrow> bool" where
  "iter_inv tsz it \<longleftrightarrow>
     array_layout_inv tsz (it_layout it) \<and>
     al_len (it_layout it) * tsz \<le> b_size (it_buf it) \<and>
     (tsz \<noteq> 0 \<longrightarrow> it_pos it + it_len it \<le> al_len (it_layout it)) \<and>
     (tsz = 0 \<longrightarrow> al_len (it_layout it) = 0 \<and> it_len it \<le> usize_max) \<and>
     (\<forall>i < it_len it. b_mem (it_buf it) (it_pos it + i) \<noteq> None)"

definition iter_list :: "'a into_iter \<Rightarrow> 'a list" where
  "iter_list it = mem_list (b_mem (it_buf it)) (it_pos it) (it_len it)"

lemma vec_into_iter_ok:
  "vec_inv tsz v \<Longrightarrow> iter_inv tsz (vec_into_iter v) \<and> iter_list (vec_into_iter v) = vec_list v"
  by (auto simp: iter_inv_def iter_list_def vec_into_iter_def vec_inv_def vec_list_mem_list
      vec_capacity_def vec_is_zst_def array_layout_len_def)

lemma iter_slot:
  assumes "iter_inv tsz it" and "i < it_len it"
  shows "slot_ok tsz (it_buf it) (it_pos it + i)"
proof (cases "tsz = 0")
  case False
  with assms have "it_pos it + i < al_len (it_layout it)"
    and "al_len (it_layout it) * tsz \<le> b_size (it_buf it)"
    by (auto simp: iter_inv_def)
  then show ?thesis by (rule slot_okI)
qed (simp add: slot_ok_def)

lemma into_iter_next_ok:
  assumes it: "iter_inv tsz it"
  shows "\<exists>it'. into_iter_next tsz it =
           Inr (if iter_list it = [] then None else Some (hd (iter_list it)), it') \<and>
         iter_inv tsz it' \<and> iter_list it' = tl (iter_list it)"
proof (cases "it_len it")
  case 0
  with it show ?thesis by (simp add: into_iter_next_def iter_list_def)
next
  case (Suc n)
  obtain x where x: "b_mem (it_buf it) (it_pos it) = Some x"
    using it Suc unfolding iter_inv_def by (metis add_0_right not_None_eq zero_less_Suc)
  have "slot_ok tsz (it_buf it) (it_pos it)"
    using iter_slot [OF it, of 0] Suc by simp
  moreover have "b_mem (it_buf it) (Suc (it_pos it + i)) \<noteq> None" if "i < n" for i
    using it Suc that unfolding iter_inv_def by (metis Suc_mono add_Suc_right)
  ultimately show ?thesis
    using Suc x it by (auto simp: into_iter_next_def iter_list_def mem_list_Suc iter_inv_def)
qed

lemma slots_read_iter:
  "iter_inv tsz it \<Longrightarrow> slots_read tsz (it_buf it) (it_pos it) (it_len it) = Inr (iter_list it)"
  unfolding iter_list_def
  by (rule slots_read_Inr) (metis add_less_cancel_left iter_inv_def iter_slot le_add_diff_inverse)

lemma into_iter_drop_ok:
  "iter_inv tsz it \<Longrightarrow> type_ok tsz tal \<Longrightarrow>
   into_iter_drop tsz tal it = Inr (iter_list it, it_buf it,
     \<lparr>l_size = al_len (it_layout it) * tsz, l_align = tal\<rparr>)"
  by (simp add: into_iter_drop_def slots_read_iter) (simp add: iter_inv_def)

context allocator
begin

lemma collect_shrink:
  assumes b: "realloc (Some b) \<lparr>l_size = n * tsz, l_align = tal\<rparr>
                \<lparr>l_size = c * tsz, l_align = tal\<rparr> fl = Ok b'"
    and "0 < tal" "0 < tsz" "n \<le> c" "c * tsz \<le> b_size b" "i < n"
  shows "b_mem b' i = b_mem b i"
proof (rule grow_keeps_prefix [OF _ b])
  show "n * tsz \<le> min (l_size \<lparr>l_size = n * tsz, l_align = tal\<rparr>)
          (l_size \<lparr>l_size = c * tsz, l_align = tal\<rparr>)"
    using assms(4) by simp
qed (use assms in simp_all)

lemma collect_ok:
  assumes it: "iter_inv tsz it" and t: "type_ok tsz tal" "0 < tsz"
  shows "\<exists>v. into_iter_collect realloc tsz tal it fl = Inr v \<and> vec_inv tsz v \<and>
             vec_list v = iter_list it"
proof (cases "it_pos it = 0")
  case True
  with it t show ?thesis
    by (auto simp: into_iter_collect_def vec_from_raw_parts_def vec_inv_def iter_inv_def vec_is_zst_def
        vec_capacity_def array_layout_len_def array_layout_new_unchecked_def vec_list_mem_list
        iter_list_def Let_def array_layout_inv_def)
next
  case False
  let ?n = "it_len it" and ?c = "al_len (it_layout it)" and ?m = "b_mem (it_buf it)"
  let ?b = "(it_buf it)\<lparr>b_mem := (\<lambda>i. if i < ?n then ?m (it_pos it + i) else ?m i)\<rparr>"
  have c: "it_pos it + ?n \<le> ?c" "?c * tsz \<le> b_size (it_buf it)" "?c * tsz \<le> isize_max"
    using it t by (simp_all add: iter_inv_def array_layout_inv_def)
  have le: "(it_pos it + ?n) * tsz \<le> ?c * tsz" "?n * tsz \<le> ?c * tsz"
    using c(1) by (rule mult_le_mono1, intro mult_le_mono1) (use c(1) in simp)
  have copy: "slot_copy tsz (it_buf it) (it_pos it) 0 ?n = Inr ?b"
    using le [THEN le_trans, OF c(2)] by (simp add: slot_copy_def cong: if_cong)
  have n: "array_layout_inv tsz \<lparr>al_len = ?n\<rparr>"
    using le(2) [THEN le_trans, OF c(3)] by (simp add: array_layout_inv_def)
  let ?new = "\<lparr>l_size = ?n * tsz, l_align = tal\<rparr>" and ?old = "\<lparr>l_size = ?c * tsz, l_align = tal\<rparr>"
  have red: "into_iter_collect realloc tsz tal it fl =
      (case realloc (Some ?b) ?new ?old fl of
         Err _ \<Rightarrow> Inr (vec_from_raw_parts tsz ?b ?n ?c)
       | Ok ptr \<Rightarrow> Inr (vec_from_raw_parts tsz ptr ?n ?n))"
    using False t copy n c
    by (simp add: into_iter_collect_def Let_def array_layout_len_def array_layout_new_unchecked_def
        array_layout_inv_def)
  have some: "?m (it_pos it + i) \<noteq> None" if "i < ?n" for i
    using it that by (simp add: iter_inv_def)
  have list: "mem_list m 0 ?n = iter_list it" if "\<And>i. i < ?n \<Longrightarrow> m i = ?m (it_pos it + i)" for m
    by (rule nth_equalityI) (use that in \<open>simp_all add: iter_list_def\<close>)
  have fin: "vec_inv tsz (vec_from_raw_parts tsz b ?n k) \<and>
      vec_list (vec_from_raw_parts tsz b ?n k) = iter_list it"
    if "?n \<le> k" "k * tsz \<le> b_size b" "k * tsz \<le> isize_max"
      "\<And>i. i < ?n \<Longrightarrow> b_mem b i = ?m (it_pos it + i)" for b k
    using that t some list [of "b_mem b"]
    by (simp add: vec_from_raw_parts_def vec_inv_def vec_is_zst_def vec_capacity_def
        array_layout_len_def array_layout_new_unchecked_def vec_list_mem_list array_layout_inv_def)
  show ?thesis
  proof (cases "realloc (Some ?b) ?new ?old fl")
    case (Ok b')
    have "?n * tsz \<le> b_size b'"
      using realloc_size [OF _ Ok] t(1) by simp
    moreover have "b_mem b' i = ?m (it_pos it + i)" if "i < ?n" for i
      using collect_shrink [OF Ok _ t(2) _ _ that] t(1) c that by simp
    ultimately show ?thesis
      using red Ok fin [of ?n b'] n by (simp add: array_layout_inv_def)
  next
    case (Err e)
    then show ?thesis
      using red fin [of ?c ?b] c by simp
  qed
qed

end


section \<open>Operation sequences\<close>

text \<open>
  The mutating methods as one alphabet. \<open>vec_step\<close> runs a method on the concrete vector and returns
  the elements it hands out or drops; \<open>list_step\<close> is the promise made to the caller, in terms of
  the list of elements only. The only freedom it leaves is that an operation that may allocate can
  leave the list as it was.
\<close>

datatype 'a vec_op =
  VReserve usize | VPush 'a | VPushWithin 'a | VInsert nat 'a | VExtend "'a list" | VResize usize 'a
  | VPop | VRemove nat | VTruncate usize | VClear | VDrainAll | VRetain "'a \<Rightarrow> bool"

fun vec_step ::
  "'a realloc_fn \<Rightarrow> usize \<Rightarrow> usize \<Rightarrow> ('a \<Rightarrow> 'a) \<Rightarrow> flags \<Rightarrow> 'a vec_op \<Rightarrow> 'a vec \<Rightarrow> ('a list \<times> 'a vec) exec" where
  "vec_step A tsz tal clone fl (VReserve n) v =
     exec_bind (vec_reserve A tsz tal v n fl) (\<lambda>(_, v'). Inr ([], v'))"
| "vec_step A tsz tal clone fl (VPush x) v =
     exec_bind (vec_push A tsz tal v x fl) (\<lambda>(_, v'). Inr ([], v'))"
| "vec_step A tsz tal clone fl (VPushWithin x) v =
     exec_bind (vec_push_within_capacity tsz v x) (\<lambda>(_, v'). Inr ([], v'))"
| "vec_step A tsz tal clone fl (VInsert i x) v =
     exec_bind (vec_insert_within_capacity tsz v i x) (\<lambda>(_, v'). Inr ([], v'))"
| "vec_step A tsz tal clone fl (VExtend xs) v =
     exec_bind (vec_extend_from_slice A tsz tal clone v xs fl) (\<lambda>(_, v'). Inr ([], v'))"
| "vec_step A tsz tal clone fl (VResize n x) v =
     exec_bind (vec_resize A tsz tal clone v n x fl) (\<lambda>(_, out, v'). Inr (out, v'))"
| "vec_step A tsz tal clone fl VPop v =
     exec_bind (vec_pop tsz v) (\<lambda>(r, v'). Inr (case r of Some x \<Rightarrow> [x] | None \<Rightarrow> [], v'))"
| "vec_step A tsz tal clone fl (VRemove i) v =
     exec_bind (vec_remove tsz v i) (\<lambda>(r, v'). Inr (case r of Ok x \<Rightarrow> [x] | Err _ \<Rightarrow> [], v'))"
| "vec_step A tsz tal clone fl (VTruncate n) v = vec_truncate tsz v n"
| "vec_step A tsz tal clone fl VClear v = vec_clear tsz v"
| "vec_step A tsz tal clone fl VDrainAll v = vec_drain_all tsz v"
| "vec_step A tsz tal clone fl (VRetain P) v =
     exec_bind (vec_retain tsz (\<lambda>_ x. (P x, x, ())) () v) (\<lambda>(_, out, v'). Inr (out, v'))"

fun vec_run ::
  "'a realloc_fn \<Rightarrow> usize \<Rightarrow> usize \<Rightarrow> ('a \<Rightarrow> 'a) \<Rightarrow> flags \<Rightarrow> 'a vec_op list \<Rightarrow> 'a vec \<Rightarrow>
   ('a list list \<times> 'a vec) exec" where
  "vec_run A tsz tal clone fl [] v = Inr ([], v)"
| "vec_run A tsz tal clone fl (c # cs) v =
     exec_bind (vec_step A tsz tal clone fl c v) (\<lambda>(out, v').
     exec_bind (vec_run A tsz tal clone fl cs v') (\<lambda>(outs, v''). Inr (out # outs, v'')))"

fun list_step :: "('a \<Rightarrow> 'a) \<Rightarrow> 'a vec_op \<Rightarrow> 'a list \<Rightarrow> 'a list \<Rightarrow> 'a list \<Rightarrow> bool" where
  "list_step clone (VReserve n) xs out ys \<longleftrightarrow> out = [] \<and> ys = xs"
| "list_step clone (VPush x) xs out ys \<longleftrightarrow> out = [] \<and> (ys = xs @ [x] \<or> ys = xs)"
| "list_step clone (VPushWithin x) xs out ys \<longleftrightarrow> out = [] \<and> (ys = xs @ [x] \<or> ys = xs)"
| "list_step clone (VInsert i x) xs out ys \<longleftrightarrow>
     out = [] \<and> (i \<le> length xs \<and> ys = take i xs @ x # drop i xs \<or> ys = xs)"
| "list_step clone (VExtend zs) xs out ys \<longleftrightarrow> out = [] \<and> (ys = xs @ map clone zs \<or> ys = xs)"
| "list_step clone (VResize n x) xs out ys \<longleftrightarrow>
     (if n < length xs then out = drop n xs \<and> ys = take n xs
      else out = [] \<and> (ys = xs \<or> length xs < n \<and>
             ys = xs @ replicate (n - length xs - 1) (clone x) @ [x]))"
| "list_step clone VPop xs out ys \<longleftrightarrow>
     (if xs = [] then out = [] \<and> ys = [] else out = [last xs] \<and> ys = butlast xs)"
| "list_step clone (VRemove i) xs out ys \<longleftrightarrow>
     (if i < length xs then out = [xs ! i] \<and> ys = take i xs @ drop (Suc i) xs
      else out = [] \<and> ys = xs)"
| "list_step clone (VTruncate n) xs out ys \<longleftrightarrow> out = drop n xs \<and> ys = take n xs"
| "list_step clone VClear xs out ys \<longleftrightarrow> out = xs \<and> ys = []"
| "list_step clone VDrainAll xs out ys \<longleftrightarrow> out = xs \<and> ys = []"
| "list_step clone (VRetain P) xs out ys \<longleftrightarrow>
     mset out = mset (filter (\<lambda>x. \<not> P x) xs) \<and> ys = filter P xs"

fun list_run ::
  "('a \<Rightarrow> 'a) \<Rightarrow> 'a vec_op list \<Rightarrow> 'a list \<Rightarrow> 'a list list \<Rightarrow> 'a list \<Rightarrow> bool" where
  "list_run clone [] xs outs ys \<longleftrightarrow> outs = [] \<and> ys = xs"
| "list_run clone (c # cs) xs outs ys \<longleftrightarrow>
     (\<exists>out outs' zs. outs = out # outs' \<and> list_step clone c xs out zs \<and> list_run clone cs zs outs' ys)"

lemma vec_truncate_post:
  assumes "vec_inv tsz v"
  shows "\<exists>v'. vec_truncate tsz v n = Inr (drop n (vec_list v), v') \<and> vec_inv tsz v' \<and>
              vec_list v' = take n (vec_list v)"
  using assms by (auto simp: vec_truncate_ok vec_shrink_inv vec_shrink_list)

lemma vec_pop_post:
  assumes "vec_inv tsz v"
  shows "\<exists>v'. vec_pop tsz v =
           Inr (if vec_list v = [] then None else Some (last (vec_list v)), v') \<and>
         vec_inv tsz v' \<and> vec_list v' = butlast (vec_list v)"
  using assms by (simp add: vec_pop_ok vec_shrink_inv vec_shrink_list butlast_conv_take)

context allocator
begin

lemma resize_ok:
  assumes v: "vec_inv tsz v" and t: "type_ok tsz tal"
  shows "\<exists>r out v'. vec_resize realloc tsz tal clone v n x fl = Inr (r, out, v') \<and> vec_inv tsz v' \<and>
    (if n < v_len v
     then r = Ok () \<and> out = drop n (vec_list v) \<and> vec_list v' = take n (vec_list v)
     else out = [] \<and>
          append_post tsz v (if n = v_len v then [] else
             replicate (n - v_len v - 1) (clone x) @ [x]) r v')"
proof (cases "n < v_len v")
  case True
  then show ?thesis
    using vec_truncate_post [OF v, of n] by (auto simp: vec_resize_def checked_sub_def)
next
  case False
  then show ?thesis
    using extend_with_ok [OF v t, of clone "n - v_len v" x fl]
    by (auto simp: vec_resize_def checked_sub_def append_post_def)
qed

lemma vec_step_ok:
  assumes v: "vec_inv tsz v" and t: "type_ok tsz tal"
  shows "\<exists>out v'. vec_step realloc tsz tal clone fl c v = Inr (out, v') \<and> vec_inv tsz v' \<and>
           list_step clone c (vec_list v) out (vec_list v')"
proof (cases c)
  case (VReserve n)
  then show ?thesis
    using reserve_ok [OF v t, of n fl] by (force simp: reserve_post_def)
next
  case (VPush x)
  then show ?thesis
    using push_ok [OF v t, of x fl] by (force simp: append_post_def split: result.splits)
next
  case (VPushWithin x)
  then show ?thesis
    using v by (auto simp: push_within_capacity_ok vec_append_list vec_append_inv)
next
  case (VInsert i x)
  then show ?thesis
    using vec_insert_ok [OF v, of i x] by (force split: if_splits)
next
  case (VExtend xs)
  then show ?thesis
    using extend_from_slice_ok [OF v t, of clone xs fl]
    by (force simp: append_post_def split: result.splits)
next
  case (VResize n x)
  then show ?thesis
    using resize_ok [OF v t, of clone n x fl]
    by (force simp: append_post_def split: result.splits if_splits)
next
  case VPop
  then show ?thesis
    using vec_pop_post [OF v] by (cases "vec_list v = []") auto
next
  case (VRemove i)
  then show ?thesis
    using vec_remove_ok [OF v, of i] by (force split: if_splits)
next
  case (VTruncate n)
  then show ?thesis
    using vec_truncate_post [OF v, of n] by simp
next
  case VClear
  then show ?thesis
    using vec_truncate_post [OF v, of 0] by (simp add: vec_clear_def)
next
  case VDrainAll
  then show ?thesis
    using v by (simp add: vec_drain_all_ok vec_shrink_inv vec_shrink_list)
next
  case (VRetain P)
  then show ?thesis
    using vec_retain_ok [OF v retain_spec_filter [of P "()" "vec_list v"]] by fastforce
qed

lemma vec_run_ok:
  assumes "vec_inv tsz v" and "type_ok tsz tal"
  shows "\<exists>outs v'. vec_run realloc tsz tal clone fl cs v = Inr (outs, v') \<and> vec_inv tsz v' \<and>
           list_run clone cs (vec_list v) outs (vec_list v')"
  using assms(1)
proof (induction cs arbitrary: v)
  case Nil
  then show ?case by simp
next
  case (Cons c cs)
  obtain out v1 where step: "vec_step realloc tsz tal clone fl c v = Inr (out, v1)" "vec_inv tsz v1"
    "list_step clone c (vec_list v) out (vec_list v1)"
    using vec_step_ok [OF Cons.prems assms(2)] by blast
  with Cons.IH [OF step(2)] show ?case by fastforce
qed

end

text \<open>Calling \<open>next\<close> up to \<open>n\<close> times, and a vector of four-byte elements for the examples below.\<close>

fun into_iter_take :: "usize \<Rightarrow> nat \<Rightarrow> 'a into_iter \<Rightarrow> ('a list \<times> 'a into_iter) exec" where
  "into_iter_take tsz 0 it = Inr ([], it)"
| "into_iter_take tsz (Suc n) it =
     exec_bind (into_iter_next tsz it) (\<lambda>(r, it').
     case r of
       None \<Rightarrow> Inr ([], it')
     | Some x \<Rightarrow> exec_bind (into_iter_take tsz n it') (\<lambda>(xs, it''). Inr (x # xs, it'')))"

definition sample_vec :: "nat list \<Rightarrow> nat \<Rightarrow> nat vec" where
  "sample_vec xs cap =
     \<lparr>v_buf = \<lparr>b_size = cap * 4, b_mem = (\<lambda>i. if i < length xs then Some (xs ! i) else None)\<rparr>,
      v_layout = \<lparr>al_len = cap\<rparr>, v_len = length xs\<rparr>"

lemma sample_vec_inv: "length xs \<le> cap \<Longrightarrow> cap * 4 \<le> isize_max \<Longrightarrow> vec_inv 4 (sample_vec xs cap)"
  by (simp add: vec_inv_def sample_vec_def vec_capacity_def vec_is_zst_def array_layout_len_def
      array_layout_inv_def)

lemma into_iter_take_ok:
  assumes "iter_inv tsz it"
  shows "\<exists>it'. into_iter_take tsz n it = Inr (take n (iter_list it), it') \<and> iter_inv tsz it' \<and>
           iter_list it' = drop n (iter_list it) \<and> it_buf it' = it_buf it \<and> it_layout it' = it_layout it"
  using assms
proof (induction n arbitrary: it)
  case 0
  then show ?case by simp
next
  case (Suc n)
  obtain it' where nx: "into_iter_next tsz it =
      Inr (if iter_list it = [] then None else Some (hd (iter_list it)), it')"
    and it': "iter_inv tsz it'" "iter_list it' = tl (iter_list it)"
    using into_iter_next_ok [OF Suc.prems] by blast
  have same: "it_buf it' = it_buf it" "it_layout it' = it_layout it"
    using nx by (auto simp: into_iter_next_def split: if_splits)
  show ?case
  proof (cases "iter_list it")
    case Nil
    with nx it' same show ?thesis by simp
  next
    case (Cons x xs)
    with nx it' same Suc.IH [OF it'(1)] show ?thesis by auto
  qed
qed

section \<open>Properties\<close>



text \<open>
  \<open>reserve\<close> on a well-formed vector returns: on success there is room for \<open>n\<close> more elements and
  the elements are unchanged; on an error the vector itself is unchanged. The capacity
  computation does not overflow on the way.
\<close>

lemma vec_reserve_correct:
  assumes "c_realloc_ok tsz f" and "type_ok tsz tal" and "vec_inv tsz v"
  shows "\<exists>r v'. vec_reserve (kmalloc_realloc f) tsz tal v n fl = Inr (r, v') \<and> vec_inv tsz v' \<and>
           vec_list v' = vec_list v \<and>
           (case r of Ok _ \<Rightarrow> v_len v + n \<le> vec_capacity tsz v' | Err _ \<Rightarrow> v' = v)"
  using allocator.reserve_ok [OF kmalloc_allocator [OF assms(1)] assms(3,2), of n fl]
  by (auto simp: reserve_post_def)

text \<open>
  \<open>insert_within_capacity\<close> inserts at the index and shifts the rest by one; an index past the
  length is reported as \<open>IndexOutOfBounds\<close> and a full vector as \<open>OutOfCapacity\<close>, both returning the
  element and leaving the vector unchanged. It never panics.
\<close>

lemma vec_insert_correct:
  assumes "vec_inv tsz v"
  shows "\<exists>r v'. vec_insert_within_capacity tsz v i x = Inr (r, v') \<and> vec_inv tsz v' \<and>
    (if v_len v < i then r = Err (IndexOutOfBounds x) \<and> v' = v
     else if v_len v \<ge> vec_capacity tsz v then r = Err (OutOfCapacity x) \<and> v' = v
     else r = Ok () \<and> vec_list v' = take i (vec_list v) @ x # drop i (vec_list v))"
  by (rule vec_insert_ok) (rule assms)

text \<open>
  \<open>retain\<close> calls the closure once on every element in order, keeps exactly the elements it
  accepts, in order and as the closure left them, and drops each of the others exactly once; the
  swaps and the final truncation stay inside the initialised part of the vector.
\<close>

lemma vec_retain_correct:
  assumes "vec_inv tsz v" and "retain_spec f s (vec_list v) = (s', kept, dropped)"
  shows "\<exists>ds v'. vec_retain tsz f s v = Inr (s', ds, v') \<and> vec_inv tsz v' \<and>
           vec_list v' = kept \<and> mset ds = mset dropped"
  by (rule vec_retain_ok) (fact assms)+

text \<open>
  \<open>IntoIter::collect\<close> of a partly consumed iterator yields a well-formed vector with exactly the
  remaining elements, whether shrinking the allocation succeeds or fails.
\<close>

lemma into_iter_collect_correct:
  assumes "c_realloc_ok tsz f" and "type_ok tsz tal" and "0 < tsz" and "iter_inv tsz it"
  shows "\<exists>v. into_iter_collect (vmalloc_realloc f) tsz tal it fl = Inr v \<and> vec_inv tsz v \<and>
             vec_list v = iter_list it"
  by (rule allocator.collect_ok [OF vmalloc_allocator]) (fact assms)+

text \<open>
  \<open>vec.into_iter()\<close> owns exactly the vector's elements: after any number of \<open>next\<close> calls, the items
  yielded followed by what dropping the iterator drops are the vector's elements in order, and
  the allocation is released with the layout it was made with.
\<close>

lemma into_iter_owns_elements:
  assumes "vec_inv tsz v" and "type_ok tsz tal"
  shows "\<exists>xs it ys. into_iter_take tsz n (vec_into_iter v) = Inr (xs, it) \<and>
           into_iter_drop tsz tal it =
             Inr (ys, v_buf v, \<lparr>l_size = al_len (v_layout v) * tsz, l_align = tal\<rparr>) \<and>
           xs @ ys = vec_list v"
proof -
  have it: "iter_inv tsz (vec_into_iter v)" and l: "iter_list (vec_into_iter v) = vec_list v"
    using vec_into_iter_ok [OF assms(1)] by auto
  from into_iter_take_ok [OF it, of n] l show ?thesis
    using into_iter_drop_ok [OF _ assms(2)] by (fastforce simp: vec_into_iter_def)
qed

end
