(* ===== verification/Bitmap_Vec.thy ===== *)
theory Bitmap_Vec
  imports Allocators
begin

text \<open>
  \<open>rust/src/bitmap.rs\<close>: the borrowed \<open>Bitmap\<close>, the owned \<open>BitmapVec\<close> with its inline and its
  allocated representation, and their bit operations.

  The storage is the list of 64-bit words behind the pointer. The kernel's C bitmap functions are the
  parameter \<open>c\<close>, a record of functions on such lists with the documented behaviour \<open>c_bitmap_ok\<close>;
  the flag \<open>h\<close> is \<open>CONFIG_RUST_BITMAP_HARDENED\<close>. Reading the wrong member of the representation union, or
  an index outside the words, is \<open>UB\<close>. The contract that \<open>IdPool\<close> relies on is the locale \<open>bitset\<close>.
\<close>

section \<open>Storage and the C interface\<close>

definition bm_bit :: "u64 list \<Rightarrow> nat \<Rightarrow> bool" where
  "bm_bit ws i \<longleftrightarrow> i < 64 * length ws \<and> bit (ws ! (i div 64)) (i mod 64)"

record c_bitmap =
  c_set_bit :: "nat \<Rightarrow> u64 list \<Rightarrow> u64 list"
  c_clear_bit :: "nat \<Rightarrow> u64 list \<Rightarrow> u64 list"
  c_atomic_set_bit :: "nat \<Rightarrow> u64 list \<Rightarrow> u64 list"
  c_atomic_clear_bit :: "nat \<Rightarrow> u64 list \<Rightarrow> u64 list"
  c_copy_and_extend :: "u64 list \<Rightarrow> u64 list \<Rightarrow> nat \<Rightarrow> nat \<Rightarrow> u64 list"
  c_find_last_bit :: "u64 list \<Rightarrow> nat \<Rightarrow> nat"
  c_find_next_bit :: "u64 list \<Rightarrow> nat \<Rightarrow> nat \<Rightarrow> nat"
  c_find_next_zero_bit :: "u64 list \<Rightarrow> nat \<Rightarrow> nat \<Rightarrow> nat"
  c_bitmap_zalloc :: "nat \<Rightarrow> flags \<Rightarrow> u64 list option"

definition sets_bit_ok :: "(nat \<Rightarrow> u64 list \<Rightarrow> u64 list) \<Rightarrow> bool \<Rightarrow> bool" where
  "sets_bit_ok f v \<longleftrightarrow>
     (\<forall>i ws. i < 64 * length ws \<longrightarrow> length (f i ws) = length ws \<and>
        (\<forall>j. bm_bit (f i ws) j = (if j = i then v else bm_bit ws j)))"

definition finds_next_ok :: "(u64 list \<Rightarrow> nat \<Rightarrow> nat \<Rightarrow> nat) \<Rightarrow> bool \<Rightarrow> bool" where
  "finds_next_ok f v \<longleftrightarrow>
     (\<forall>ws n s. n \<le> 64 * length ws \<longrightarrow>
        (if f ws n s < n
         then s \<le> f ws n s \<and> bm_bit ws (f ws n s) = v \<and> (\<forall>j. s \<le> j \<longrightarrow> j < f ws n s \<longrightarrow> bm_bit ws j \<noteq> v)
         else (\<forall>j. s \<le> j \<longrightarrow> j < n \<longrightarrow> bm_bit ws j \<noteq> v)))"

definition finds_last_ok :: "(u64 list \<Rightarrow> nat \<Rightarrow> nat) \<Rightarrow> bool" where
  "finds_last_ok f \<longleftrightarrow>
     (\<forall>ws n. n \<le> 64 * length ws \<longrightarrow>
        (if f ws n < n
         then bm_bit ws (f ws n) \<and> (\<forall>j. f ws n < j \<longrightarrow> j < n \<longrightarrow> \<not> bm_bit ws j)
         else (\<forall>j < n. \<not> bm_bit ws j)))"

definition copies_ok :: "(u64 list \<Rightarrow> u64 list \<Rightarrow> nat \<Rightarrow> nat \<Rightarrow> u64 list) \<Rightarrow> bool" where
  "copies_ok f \<longleftrightarrow>
     (\<forall>to from n k. n \<le> k \<longrightarrow> k \<le> 64 * length to \<longrightarrow> n \<le> 64 * length from \<longrightarrow>
        length (f to from n k) = length to \<and>
        (\<forall>j < k. bm_bit (f to from n k) j = (j < n \<and> bm_bit from j)))"

definition zallocs_ok :: "(nat \<Rightarrow> flags \<Rightarrow> u64 list option) \<Rightarrow> bool" where
  "zallocs_ok f \<longleftrightarrow>
     (\<forall>n fl ws. f n fl = Some ws \<longrightarrow> n \<le> 64 * length ws \<and> (\<forall>j. \<not> bm_bit ws j))"

text \<open>The documented behaviour of the C functions.\<close>

definition c_bitmap_ok :: "c_bitmap \<Rightarrow> bool" where
  "c_bitmap_ok c \<longleftrightarrow>
     sets_bit_ok (c_set_bit c) True \<and> sets_bit_ok (c_atomic_set_bit c) True \<and>
     sets_bit_ok (c_clear_bit c) False \<and> sets_bit_ok (c_atomic_clear_bit c) False \<and>
     finds_next_ok (c_find_next_bit c) True \<and> finds_next_ok (c_find_next_zero_bit c) False \<and>
     finds_last_ok (c_find_last_bit c) \<and> copies_ok (c_copy_and_extend c) \<and>
     zallocs_ok (c_bitmap_zalloc c)"

section \<open>Bitmap\<close>

record bitmap =
  bm_words :: "u64 list"
  bm_nbits :: usize

definition bitmap_from_raw :: "u64 list \<Rightarrow> usize \<Rightarrow> bitmap" where
  "bitmap_from_raw ptr nbits = \<lparr>bm_words = ptr, bm_nbits = nbits\<rparr>"

definition bitmap_len :: "bitmap \<Rightarrow> usize" where
  "bitmap_len b = bm_nbits b"

text \<open>The two assertion macros: with hardening they panic, without it they return or fall through.\<close>

definition bitmap_assert_return :: "bool \<Rightarrow> bool \<Rightarrow> 'a \<Rightarrow> 'a exec \<Rightarrow> 'a exec" where
  "bitmap_assert_return h cond early rest =
     (if cond then rest else if h then Inl Panic else Inr early)"

definition bitmap_assert :: "bool \<Rightarrow> bool \<Rightarrow> 'a exec \<Rightarrow> 'a exec" where
  "bitmap_assert h cond rest = (if h \<and> \<not> cond then Inl Panic else rest)"

text \<open>A C call that touches bit \<open>i\<close> of the words.\<close>

definition bm_update :: "(nat \<Rightarrow> u64 list \<Rightarrow> u64 list) \<Rightarrow> bitmap \<Rightarrow> usize \<Rightarrow> bitmap exec" where
  "bm_update f b i =
     (if i < 64 * length (bm_words b) then Inr (b\<lparr>bm_words := f i (bm_words b)\<rparr>) else Inl UB)"

definition bitmap_set_bit :: "c_bitmap \<Rightarrow> bool \<Rightarrow> bitmap \<Rightarrow> usize \<Rightarrow> bitmap exec" where
  "bitmap_set_bit c h b index =
     bitmap_assert_return h (index < bitmap_len b) b (bm_update (c_set_bit c) b index)"

definition bitmap_set_bit_atomic :: "c_bitmap \<Rightarrow> bool \<Rightarrow> bitmap \<Rightarrow> usize \<Rightarrow> bitmap exec" where
  "bitmap_set_bit_atomic c h b index =
     bitmap_assert_return h (index < bitmap_len b) b (bm_update (c_atomic_set_bit c) b index)"

definition bitmap_clear_bit :: "c_bitmap \<Rightarrow> bool \<Rightarrow> bitmap \<Rightarrow> usize \<Rightarrow> bitmap exec" where
  "bitmap_clear_bit c h b index =
     bitmap_assert_return h (index < bitmap_len b) b (bm_update (c_clear_bit c) b index)"

definition bitmap_clear_bit_atomic :: "c_bitmap \<Rightarrow> bool \<Rightarrow> bitmap \<Rightarrow> usize \<Rightarrow> bitmap exec" where
  "bitmap_clear_bit_atomic c h b index =
     bitmap_assert_return h (index < bitmap_len b) b (bm_update (c_atomic_clear_bit c) b index)"

definition bitmap_copy_and_extend :: "c_bitmap \<Rightarrow> bitmap \<Rightarrow> bitmap \<Rightarrow> bitmap exec" where
  "bitmap_copy_and_extend c b src =
     (let len = min (bitmap_len src) (bitmap_len b) in
      exec_bind (require UB (bitmap_len b \<le> 64 * length (bm_words b) \<and>
                             len \<le> 64 * length (bm_words src))) (\<lambda>_.
      Inr (b\<lparr>bm_words := c_copy_and_extend c (bm_words b) (bm_words src)
                            (len mod 2 ^ 32) (bitmap_len b mod 2 ^ 32)\<rparr>)))"

text \<open>A C search over the first \<open>len\<close> bits, and what the callers make of its result.\<close>

definition bm_search :: "bitmap \<Rightarrow> nat \<Rightarrow> nat option exec" where
  "bm_search b index =
     exec_bind (require UB (bitmap_len b \<le> 64 * length (bm_words b))) (\<lambda>_.
     Inr (if index \<ge> bitmap_len b then None else Some index))"

definition bitmap_last_bit :: "c_bitmap \<Rightarrow> bitmap \<Rightarrow> usize option exec" where
  "bitmap_last_bit c b = bm_search b (c_find_last_bit c (bm_words b) (bitmap_len b))"

definition bitmap_next_bit :: "c_bitmap \<Rightarrow> bool \<Rightarrow> bitmap \<Rightarrow> usize \<Rightarrow> usize option exec" where
  "bitmap_next_bit c h b start =
     bitmap_assert h (start < bitmap_len b)
       (bm_search b (c_find_next_bit c (bm_words b) (bitmap_len b) start))"

definition bitmap_next_zero_bit :: "c_bitmap \<Rightarrow> bool \<Rightarrow> bitmap \<Rightarrow> usize \<Rightarrow> usize option exec" where
  "bitmap_next_zero_bit c h b start =
     bitmap_assert h (start < bitmap_len b)
       (bm_search b (c_find_next_zero_bit c (bm_words b) (bitmap_len b) start))"

section \<open>BitmapVec\<close>

datatype bitmap_repr = InlineBits u64 | PtrBits "u64 list"

record bitmap_vec =
  bv_repr :: bitmap_repr
  bv_nbits :: usize

definition MAX_LEN :: usize where
  "MAX_LEN = i32_max"

definition MAX_INLINE_LEN :: usize where
  "MAX_INLINE_LEN = 64"

definition bitmap_vec_new_inline :: bitmap_vec where
  "bitmap_vec_new_inline = \<lparr>bv_repr = InlineBits 0, bv_nbits = MAX_INLINE_LEN\<rparr>"

text \<open>\<open>u32::try_from(nbits).unwrap()\<close> panics above \<open>u32::MAX\<close>.\<close>

definition bitmap_vec_new ::
  "c_bitmap \<Rightarrow> usize \<Rightarrow> flags \<Rightarrow> (bitmap_vec, error_source) result exec" where
  "bitmap_vec_new c nbits fl =
     (if nbits \<le> MAX_INLINE_LEN then Inr (Ok \<lparr>bv_repr = InlineBits 0, bv_nbits = nbits\<rparr>)
      else if nbits > MAX_LEN then Inr (Err AllocError)
      else exec_bind (require Panic (nbits < 2 ^ 32)) (\<lambda>_.
           case c_bitmap_zalloc c nbits fl of
             None \<Rightarrow> Inr (Err AllocError)
           | Some ptr \<Rightarrow> Inr (Ok \<lparr>bv_repr = PtrBits ptr, bv_nbits = nbits\<rparr>)))"

definition bitmap_vec_len :: "bitmap_vec \<Rightarrow> usize" where
  "bitmap_vec_len v = bv_nbits v"

definition bitmap_vec_deref :: "bitmap_vec \<Rightarrow> bitmap exec" where
  "bitmap_vec_deref v =
     exec_bind
       (if bv_nbits v \<le> MAX_INLINE_LEN
        then (case bv_repr v of InlineBits w \<Rightarrow> Inr [w] | PtrBits _ \<Rightarrow> Inl UB)
        else (case bv_repr v of PtrBits ws \<Rightarrow> Inr ws | InlineBits _ \<Rightarrow> Inl UB))
       (\<lambda>ptr. Inr (bitmap_from_raw ptr (bv_nbits v)))"

text \<open>
  \<open>deref_mut\<close> hands out the same storage for writing: \<open>f\<close> is what the borrower does with it, and the
  words it leaves are the vector's storage afterwards.
\<close>

definition bitmap_vec_deref_mut ::
  "bitmap_vec \<Rightarrow> (bitmap \<Rightarrow> bitmap exec) \<Rightarrow> bitmap_vec exec" where
  "bitmap_vec_deref_mut v f =
     exec_bind (bitmap_vec_deref v) (\<lambda>b. exec_bind (f b) (\<lambda>b'.
     Inr (v\<lparr>bv_repr := (if bv_nbits v \<le> MAX_INLINE_LEN then InlineBits (hd (bm_words b'))
                        else PtrBits (bm_words b'))\<rparr>)))"

text \<open>\<open>Drop\<close>: the words handed to \<open>bitmap_free\<close>, if any.\<close>

definition bitmap_vec_drop :: "bitmap_vec \<Rightarrow> u64 list option exec" where
  "bitmap_vec_drop v =
     (if bv_nbits v \<le> MAX_INLINE_LEN then Inr None
      else case bv_repr v of PtrBits ws \<Rightarrow> Inr (Some ws) | InlineBits _ \<Rightarrow> Inl UB)"

text \<open>
  \<open>fill_random\<close> passes \<open>get_random_bytes\<close> a length in bytes; \<open>rnd\<close> is the stream of words it writes.
\<close>

definition bitmap_vec_fill_random :: "(nat \<Rightarrow> u64) \<Rightarrow> bitmap_vec \<Rightarrow> bitmap_vec exec" where
  "bitmap_vec_fill_random rnd v =
     (let bytes = (bv_nbits v + 63) div 64 * 64 div 8 in
      bitmap_vec_deref_mut v (\<lambda>b.
        if bytes \<le> 8 * length (bm_words b)
        then Inr (b\<lparr>bm_words := map rnd [0..<bytes div 8] @ drop (bytes div 8) (bm_words b)\<rparr>)
        else Inl UB))"

definition bv_set_bit :: "c_bitmap \<Rightarrow> bool \<Rightarrow> bitmap_vec \<Rightarrow> usize \<Rightarrow> bitmap_vec exec" where
  "bv_set_bit c h v i = bitmap_vec_deref_mut v (\<lambda>b. bitmap_set_bit c h b i)"

definition bv_clear_bit :: "c_bitmap \<Rightarrow> bool \<Rightarrow> bitmap_vec \<Rightarrow> usize \<Rightarrow> bitmap_vec exec" where
  "bv_clear_bit c h v i = bitmap_vec_deref_mut v (\<lambda>b. bitmap_clear_bit c h b i)"

definition bv_copy_and_extend :: "c_bitmap \<Rightarrow> bitmap_vec \<Rightarrow> bitmap_vec \<Rightarrow> bitmap_vec exec" where
  "bv_copy_and_extend c v src =
     exec_bind (bitmap_vec_deref src) (\<lambda>s. bitmap_vec_deref_mut v (\<lambda>b. bitmap_copy_and_extend c b s))"

definition bv_last_bit :: "c_bitmap \<Rightarrow> bitmap_vec \<Rightarrow> usize option exec" where
  "bv_last_bit c v = exec_bind (bitmap_vec_deref v) (bitmap_last_bit c)"

definition bv_next_bit :: "c_bitmap \<Rightarrow> bool \<Rightarrow> bitmap_vec \<Rightarrow> usize \<Rightarrow> usize option exec" where
  "bv_next_bit c h v start = exec_bind (bitmap_vec_deref v) (\<lambda>b. bitmap_next_bit c h b start)"

definition bv_next_zero_bit :: "c_bitmap \<Rightarrow> bool \<Rightarrow> bitmap_vec \<Rightarrow> usize \<Rightarrow> usize option exec" where
  "bv_next_zero_bit c h v start = exec_bind (bitmap_vec_deref v) (\<lambda>b. bitmap_next_zero_bit c h b start)"

section \<open>Invariants and abstraction\<close>

definition bitmap_inv :: "bitmap \<Rightarrow> bool" where
  "bitmap_inv b \<longleftrightarrow> bm_nbits b \<le> 64 * length (bm_words b) \<and> bm_nbits b \<le> MAX_LEN"

definition bitmap_bits :: "bitmap \<Rightarrow> nat set" where
  "bitmap_bits b = {i. i < bm_nbits b \<and> bm_bit (bm_words b) i}"

definition bv_inv :: "bitmap_vec \<Rightarrow> bool" where
  "bv_inv v \<longleftrightarrow>
     bv_nbits v \<le> MAX_LEN \<and>
     (case bv_repr v of
        InlineBits _ \<Rightarrow> bv_nbits v \<le> MAX_INLINE_LEN
      | PtrBits ws \<Rightarrow> MAX_INLINE_LEN < bv_nbits v \<and> bv_nbits v \<le> 64 * length ws)"

definition bv_view :: "bitmap_vec \<Rightarrow> bitmap" where
  "bv_view v =
     \<lparr>bm_words = (case bv_repr v of InlineBits w \<Rightarrow> [w] | PtrBits ws \<Rightarrow> ws), bm_nbits = bv_nbits v\<rparr>"

definition bv_bits :: "bitmap_vec \<Rightarrow> nat set" where
  "bv_bits v = bitmap_bits (bv_view v)"

named_theorems bitmap_simps

lemmas bitmap_op_defs [bitmap_simps] =
  bitmap_len_def bitmap_assert_return_def bitmap_assert_def bm_update_def bm_search_def

lemma bv_bits_bound: "i \<in> bv_bits v \<Longrightarrow> i < bv_nbits v"
  by (simp add: bv_bits_def bitmap_bits_def bv_view_def)

lemma finite_bv_bits: "finite (bv_bits v)"
  by (rule finite_subset [of _ "{..<bv_nbits v}"]) (auto dest: bv_bits_bound)

lemma bv_deref_ok: "bv_inv v \<Longrightarrow> bitmap_vec_deref v = Inr (bv_view v)"
  by (auto simp: bitmap_vec_deref_def bitmap_from_raw_def bv_inv_def bv_view_def MAX_INLINE_LEN_def
      split: bitmap_repr.splits)

lemma bv_view_inv: "bv_inv v \<Longrightarrow> bitmap_inv (bv_view v)"
  by (auto simp: bitmap_inv_def bv_inv_def bv_view_def MAX_INLINE_LEN_def split: bitmap_repr.splits)

lemma bv_view_nbits [simp]: "bm_nbits (bv_view v) = bv_nbits v"
  by (simp add: bv_view_def)

text \<open>A borrower that keeps the number of words and the length leaves a well-formed vector.\<close>

lemma bv_deref_mut_ok:
  assumes v: "bv_inv v" and f: "f (bv_view v) = Inr b"
    and len: "length (bm_words b) = length (bm_words (bv_view v))" "bm_nbits b = bv_nbits v"
  shows "\<exists>v'. bitmap_vec_deref_mut v f = Inr v' \<and> bv_inv v' \<and> bv_view v' = b \<and> bv_nbits v' = bv_nbits v"
proof -
  let ?r = "if bv_nbits v \<le> MAX_INLINE_LEN then InlineBits (hd (bm_words b)) else PtrBits (bm_words b)"
  have red: "bitmap_vec_deref_mut v f = Inr (v\<lparr>bv_repr := ?r\<rparr>)"
    by (simp add: bitmap_vec_deref_mut_def bv_deref_ok [OF v] f)
  have "bv_inv (v\<lparr>bv_repr := ?r\<rparr>) \<and> bv_view (v\<lparr>bv_repr := ?r\<rparr>) = b"
  proof (cases "bv_repr v")
    case (InlineBits w)
    with len(1) obtain w' where "bm_words b = [w']"
      by (auto simp: bv_view_def length_Suc_conv)
    with InlineBits v len(2) show ?thesis
      by (cases b) (simp add: bv_inv_def bv_view_def)
  next
    case (PtrBits ws)
    with v len show ?thesis
      by (cases b) (simp add: bv_inv_def bv_view_def)
  qed
  with red show ?thesis by auto
qed

section \<open>Bit operations\<close>

lemma bm_update_ok:
  assumes "sets_bit_ok f v" and "bitmap_inv b" and "i < bm_nbits b"
  shows "\<exists>b'. bm_update f b i = Inr b' \<and> bitmap_inv b' \<and> bm_nbits b' = bm_nbits b \<and>
           length (bm_words b') = length (bm_words b) \<and>
           bitmap_bits b' = (if v then insert i (bitmap_bits b) else bitmap_bits b - {i})"
proof -
  have "i < 64 * length (bm_words b)"
    using assms(2,3) by (simp add: bitmap_inv_def)
  with assms show ?thesis
    by (auto simp: bm_update_def sets_bit_ok_def bitmap_inv_def bitmap_bits_def)
qed

lemma bitmap_copy_ok:
  assumes c: "copies_ok (c_copy_and_extend c)" and b: "bitmap_inv b" and s: "bitmap_inv s"
  shows "\<exists>b'. bitmap_copy_and_extend c b s = Inr b' \<and> bm_nbits b' = bm_nbits b \<and>
           length (bm_words b') = length (bm_words b) \<and>
           bitmap_bits b' = {i \<in> bitmap_bits s. i < bm_nbits b}"
proof -
  let ?n = "min (bm_nbits s) (bm_nbits b)"
  have small: "bm_nbits b < 2 ^ 32" "?n < 2 ^ 32"
    using b by (auto simp: bitmap_inv_def MAX_LEN_def i32_max_def)
  have le: "?n \<le> bm_nbits b" "bm_nbits b \<le> 64 * length (bm_words b)" "?n \<le> 64 * length (bm_words s)"
    using b s by (auto simp: bitmap_inv_def)
  let ?ws = "c_copy_and_extend c (bm_words b) (bm_words s) ?n (bm_nbits b)"
  have spec: "length ?ws = length (bm_words b)"
    "\<And>j. j < bm_nbits b \<Longrightarrow> bm_bit ?ws j = (j < ?n \<and> bm_bit (bm_words s) j)"
    using c le by (simp_all add: copies_ok_def)
  have "bitmap_copy_and_extend c b s = Inr (b\<lparr>bm_words := ?ws\<rparr>)"
    unfolding bitmap_copy_and_extend_def bitmap_len_def Let_def mod_less [OF small(1)] mod_less [OF small(2)]
    using le by simp
  with spec show ?thesis
    by (auto simp: bitmap_bits_def)
qed

lemma bitmap_last_ok:
  assumes "finds_last_ok (c_find_last_bit c)" and "bitmap_inv b"
  shows "\<exists>r. bitmap_last_bit c b = Inr r \<and>
           (case r of None \<Rightarrow> bitmap_bits b = {}
            | Some i \<Rightarrow> i \<in> bitmap_bits b \<and> (\<forall>j \<in> bitmap_bits b. j \<le> i))"
proof -
  have n: "bm_nbits b \<le> 64 * length (bm_words b)"
    using assms(2) by (simp add: bitmap_inv_def)
  with assms(1) have "let r = c_find_last_bit c (bm_words b) (bm_nbits b) in
      if r < bm_nbits b
      then bm_bit (bm_words b) r \<and> (\<forall>j. r < j \<longrightarrow> j < bm_nbits b \<longrightarrow> \<not> bm_bit (bm_words b) j)
      else (\<forall>j < bm_nbits b. \<not> bm_bit (bm_words b) j)"
    by (simp add: finds_last_ok_def Let_def)
  with n show ?thesis
    by (auto simp: bitmap_last_bit_def bitmap_simps bitmap_bits_def Let_def not_less [symmetric]
        split: if_splits)
qed

definition next_post :: "nat set \<Rightarrow> nat \<Rightarrow> nat option \<Rightarrow> bool" where
  "next_post S s r \<longleftrightarrow>
     (case r of None \<Rightarrow> (\<forall>j \<in> S. j < s) | Some i \<Rightarrow> i \<in> S \<and> s \<le> i \<and> (\<forall>j \<in> S. s \<le> j \<longrightarrow> i \<le> j))"

lemma bm_search_next_ok:
  assumes "finds_next_ok f v" and "bitmap_inv b"
  shows "\<exists>r. bm_search b (f (bm_words b) (bm_nbits b) s) = Inr r \<and>
           next_post {i. i < bm_nbits b \<and> bm_bit (bm_words b) i = v} s r"
proof -
  have n: "bm_nbits b \<le> 64 * length (bm_words b)"
    using assms(2) by (simp add: bitmap_inv_def)
  let ?r = "f (bm_words b) (bm_nbits b) s"
  have spec: "if ?r < bm_nbits b
      then s \<le> ?r \<and> bm_bit (bm_words b) ?r = v \<and>
           (\<forall>j. s \<le> j \<longrightarrow> j < ?r \<longrightarrow> bm_bit (bm_words b) j \<noteq> v)
      else (\<forall>j. s \<le> j \<longrightarrow> j < bm_nbits b \<longrightarrow> bm_bit (bm_words b) j \<noteq> v)"
    using assms(1) n by (simp add: finds_next_ok_def)
  show ?thesis
  proof (cases "?r < bm_nbits b")
    case True
    with spec n show ?thesis
      by (simp add: bm_search_def bitmap_len_def next_post_def) (meson not_le)
  next
    case False
    with spec n show ?thesis
      by (simp add: bm_search_def bitmap_len_def next_post_def) (meson not_le)
  qed
qed

section \<open>The contract of the owned bitmap\<close>

text \<open>
  What a client of an owned bitmap may rely on, in terms of its length and its set of bits: in-range
  updates, migration into another bitmap, and the searches.
\<close>

locale bitset =
  fixes inv :: "'b \<Rightarrow> bool" and len :: "'b \<Rightarrow> nat" and bits :: "'b \<Rightarrow> nat set"
    and set_b :: "'b \<Rightarrow> nat \<Rightarrow> 'b exec" and clear_b :: "'b \<Rightarrow> nat \<Rightarrow> 'b exec"
    and copy_b :: "'b \<Rightarrow> 'b \<Rightarrow> 'b exec" and last_b :: "'b \<Rightarrow> nat option exec"
    and next_zero_b :: "'b \<Rightarrow> nat \<Rightarrow> nat option exec"
  assumes bits_bound: "inv b \<Longrightarrow> i \<in> bits b \<Longrightarrow> i < len b"
  and set_law: "inv b \<Longrightarrow> i < len b \<Longrightarrow>
        \<exists>b'. set_b b i = Inr b' \<and> inv b' \<and> len b' = len b \<and> bits b' = insert i (bits b)"
  and clear_law: "inv b \<Longrightarrow> i < len b \<Longrightarrow>
        \<exists>b'. clear_b b i = Inr b' \<and> inv b' \<and> len b' = len b \<and> bits b' = bits b - {i}"
  and copy_law: "inv b \<Longrightarrow> inv s \<Longrightarrow>
        \<exists>b'. copy_b b s = Inr b' \<and> inv b' \<and> len b' = len b \<and> bits b' = {i \<in> bits s. i < len b}"
  and last_law: "inv b \<Longrightarrow> \<exists>r. last_b b = Inr r \<and>
        (case r of None \<Rightarrow> bits b = {} | Some i \<Rightarrow> i \<in> bits b \<and> (\<forall>j \<in> bits b. j \<le> i))"
  and next_zero_law: "inv b \<Longrightarrow> k < len b \<Longrightarrow>
        \<exists>r. next_zero_b b k = Inr r \<and> next_post ({..<len b} - bits b) k r"
begin

lemma migrate:
  assumes "inv b" "inv s" and "\<forall>i \<in> bits s. i < len b"
  shows "\<exists>b'. copy_b b s = Inr b' \<and> inv b' \<and> len b' = len b \<and> bits b' = bits s"
  using copy_law [OF assms(1,2)] assms(3) by auto

lemma claim:
  assumes "inv b" and "next_zero_b b s = Inr (Some i)" and "s < len b"
  shows "i < len b \<and> i \<notin> bits b \<and>
         (\<exists>b'. set_b b i = Inr b' \<and> inv b' \<and> len b' = len b \<and> bits b' = insert i (bits b))"
proof -
  have "i < len b" and "i \<notin> bits b"
    using next_zero_law [OF assms(1,3)] assms(2) by (auto simp: next_post_def)
  with set_law [OF assms(1)] show ?thesis by blast
qed

lemma search_complete:
  assumes "inv b" and "next_zero_b b s = Inr None" and "s < len b"
  shows "{s..<len b} \<subseteq> bits b"
proof -
  have "\<forall>j \<in> {..<len b} - bits b. j < s"
    using next_zero_law [OF assms(1,3)] assms(2) by (auto simp: next_post_def)
  then show ?thesis by (auto simp: not_less [symmetric])
qed

end

lemma bv_update_ok:
  assumes f: "sets_bit_ok f val" and v: "bv_inv v" and i: "i < bv_nbits v"
    and g: "\<And>b. bm_nbits b = bv_nbits v \<Longrightarrow> g b = bm_update f b i"
  shows "\<exists>v'. bitmap_vec_deref_mut v g = Inr v' \<and> bv_inv v' \<and> bv_nbits v' = bv_nbits v \<and>
           bv_bits v' = (if val then insert i (bv_bits v) else bv_bits v - {i})"
proof -
  obtain b' where "bm_update f (bv_view v) i = Inr b'" "bm_nbits b' = bv_nbits v"
    "length (bm_words b') = length (bm_words (bv_view v))"
    "bitmap_bits b' = (if val then insert i (bv_bits v) else bv_bits v - {i})"
    using bm_update_ok [OF f bv_view_inv [OF v], of i] i by (auto simp: bv_bits_def)
  then show ?thesis
    using bv_deref_mut_ok [OF v, of g b'] g by (auto simp: bv_bits_def)
qed

lemma bv_set_ok:
  assumes "c_bitmap_ok c" and "bv_inv v" and "i < bv_nbits v"
  shows "\<exists>v'. bv_set_bit c h v i = Inr v' \<and> bv_inv v' \<and> bv_nbits v' = bv_nbits v \<and>
           bv_bits v' = insert i (bv_bits v)"
  using bv_update_ok [where val = True, OF _ assms(2,3), of "c_set_bit c" "\<lambda>b. bitmap_set_bit c h b i"] assms
  by (simp add: bv_set_bit_def bitmap_set_bit_def bitmap_assert_return_def bitmap_len_def c_bitmap_ok_def)

lemma bv_clear_ok:
  assumes "c_bitmap_ok c" and "bv_inv v" and "i < bv_nbits v"
  shows "\<exists>v'. bv_clear_bit c h v i = Inr v' \<and> bv_inv v' \<and> bv_nbits v' = bv_nbits v \<and>
           bv_bits v' = bv_bits v - {i}"
  using bv_update_ok [where val = False, OF _ assms(2,3), of "c_clear_bit c" "\<lambda>b. bitmap_clear_bit c h b i"]
    assms
  by (simp add: bv_clear_bit_def bitmap_clear_bit_def bitmap_assert_return_def bitmap_len_def
      c_bitmap_ok_def)

lemma bv_copy_ok:
  assumes c: "c_bitmap_ok c" and v: "bv_inv v" and s: "bv_inv s"
  shows "\<exists>v'. bv_copy_and_extend c v s = Inr v' \<and> bv_inv v' \<and> bv_nbits v' = bv_nbits v \<and>
           bv_bits v' = {i \<in> bv_bits s. i < bv_nbits v}"
proof -
  obtain b' where "bitmap_copy_and_extend c (bv_view v) (bv_view s) = Inr b'" "bm_nbits b' = bv_nbits v"
    "length (bm_words b') = length (bm_words (bv_view v))"
    "bitmap_bits b' = {i \<in> bv_bits s. i < bv_nbits v}"
    using bitmap_copy_ok [of c, OF _ bv_view_inv [OF v] bv_view_inv [OF s]] c
    by (force simp: bv_bits_def c_bitmap_ok_def)
  then show ?thesis
    using bv_deref_mut_ok [OF v, of "\<lambda>b. bitmap_copy_and_extend c b (bv_view s)" b']
    by (auto simp: bv_copy_and_extend_def bv_deref_ok [OF s] bv_bits_def)
qed

lemma bv_last_ok:
  assumes "c_bitmap_ok c" and "bv_inv v"
  shows "\<exists>r. bv_last_bit c v = Inr r \<and>
           (case r of None \<Rightarrow> bv_bits v = {} | Some i \<Rightarrow> i \<in> bv_bits v \<and> (\<forall>j \<in> bv_bits v. j \<le> i))"
  unfolding bv_bits_def
  using bitmap_last_ok [of c, OF _ bv_view_inv [OF assms(2)]] assms
  by (simp add: bv_last_bit_def bv_deref_ok c_bitmap_ok_def)

lemma bv_next_zero_ok:
  assumes "c_bitmap_ok c" and "bv_inv v" and "\<not> h \<or> s < bv_nbits v"
  shows "\<exists>r. bv_next_zero_bit c h v s = Inr r \<and> next_post ({..<bv_nbits v} - bv_bits v) s r"
proof -
  have "{i. i < bv_nbits v \<and> \<not> bm_bit (bm_words (bv_view v)) i} = {..<bv_nbits v} - bv_bits v"
    by (auto simp: bv_bits_def bitmap_bits_def)
  then show ?thesis
    using bm_search_next_ok [where v = False, OF _ bv_view_inv [OF assms(2)], of _ s] assms
    by (auto simp: bv_next_zero_bit_def bitmap_next_zero_bit_def bv_deref_ok bitmap_assert_def
        bitmap_len_def c_bitmap_ok_def)
qed

lemma bv_next_ok:
  assumes "c_bitmap_ok c" and "bv_inv v" and "\<not> h \<or> s < bv_nbits v"
  shows "\<exists>r. bv_next_bit c h v s = Inr r \<and> next_post (bv_bits v) s r"
  using bm_search_next_ok [where v = True, OF _ bv_view_inv [OF assms(2)], of _ s] assms
  by (auto simp: bv_next_bit_def bitmap_next_bit_def bv_deref_ok bitmap_assert_def
      bitmap_len_def c_bitmap_ok_def bv_bits_def bitmap_bits_def)

lemma bitmap_vec_bitset:
  assumes "c_bitmap_ok c"
  shows "bitset bv_inv bv_nbits bv_bits (bv_set_bit c h) (bv_clear_bit c h) (bv_copy_and_extend c)
           (bv_last_bit c) (bv_next_zero_bit c h)"
  using assms
  by unfold_locales
    (simp_all add: bv_bits_bound bv_set_ok bv_clear_ok bv_copy_ok bv_last_ok bv_next_zero_ok)

lemma bv_new_ok:
  assumes "c_bitmap_ok c"
  shows "(\<exists>v. bitmap_vec_new c n fl = Inr (Ok v) \<and> bv_inv v \<and> bv_nbits v = n \<and> bv_bits v = {})
       \<or> bitmap_vec_new c n fl = Inr (Err AllocError) \<and> MAX_INLINE_LEN < n"
proof (cases "n \<le> MAX_INLINE_LEN")
  case True
  then show ?thesis
    by (auto simp: bitmap_vec_new_def bv_inv_def bv_bits_def bitmap_bits_def bv_view_def bm_bit_def
        MAX_INLINE_LEN_def MAX_LEN_def i32_max_def nth_Cons')
next
  case False
  then show ?thesis
    using assms
    by (auto simp: bitmap_vec_new_def bv_inv_def bv_bits_def bitmap_bits_def bv_view_def
        MAX_LEN_def i32_max_def c_bitmap_ok_def zallocs_ok_def split: option.splits)
qed

lemma bv_new_inline_ok:
  "bv_inv bitmap_vec_new_inline" "bv_bits bitmap_vec_new_inline = {}"
  "bv_nbits bitmap_vec_new_inline = 64"
  by (auto simp: bitmap_vec_new_inline_def bv_inv_def bv_bits_def bitmap_bits_def bv_view_def
      bm_bit_def MAX_INLINE_LEN_def MAX_LEN_def i32_max_def nth_Cons')

section \<open>A word-level instance of the C functions\<close>

text \<open>Used to show that the contract can hold, and by the concrete examples.\<close>

definition ref_set_bit :: "nat \<Rightarrow> u64 list \<Rightarrow> u64 list" where
  "ref_set_bit i ws = ws[i div 64 := set_bit (i mod 64) (ws ! (i div 64))]"

definition ref_clear_bit :: "nat \<Rightarrow> u64 list \<Rightarrow> u64 list" where
  "ref_clear_bit i ws = ws[i div 64 := unset_bit (i mod 64) (ws ! (i div 64))]"

definition ref_next :: "bool \<Rightarrow> u64 list \<Rightarrow> nat \<Rightarrow> nat \<Rightarrow> nat" where
  "ref_next v ws n s = (case List.find (\<lambda>i. bm_bit ws i = v) [s..<n] of Some i \<Rightarrow> i | None \<Rightarrow> n)"

definition ref_last :: "u64 list \<Rightarrow> nat \<Rightarrow> nat" where
  "ref_last ws n = (case List.find (bm_bit ws) (rev [0..<n]) of Some i \<Rightarrow> i | None \<Rightarrow> n)"

definition ref_copy :: "u64 list \<Rightarrow> u64 list \<Rightarrow> nat \<Rightarrow> nat \<Rightarrow> u64 list" where
  "ref_copy to from n k =
     fold (\<lambda>i ws. if i < n \<and> bm_bit from i then ref_set_bit i ws else ref_clear_bit i ws) [0..<k] to"

definition ref_bitmap :: c_bitmap where
  "ref_bitmap = \<lparr>c_set_bit = ref_set_bit, c_clear_bit = ref_clear_bit,
     c_atomic_set_bit = ref_set_bit, c_atomic_clear_bit = ref_clear_bit,
     c_copy_and_extend = ref_copy, c_find_last_bit = ref_last,
     c_find_next_bit = ref_next True, c_find_next_zero_bit = ref_next False,
     c_bitmap_zalloc = (\<lambda>n fl. Some (replicate ((n + 63) div 64) 0))\<rparr>"

lemma ref_bit_update:
  assumes "i < 64 * length ws"
  shows "bm_bit (ref_set_bit i ws) j = (j = i \<or> bm_bit ws j)"
    and "bm_bit (ref_clear_bit i ws) j = (j \<noteq> i \<and> bm_bit ws j)"
proof -
  have "i div 64 < length ws"
    using assms by (simp add: less_mult_imp_div_less mult.commute)
  moreover have "j = i" if "j div 64 = i div 64" "j mod 64 = i mod 64"
    using that by (metis div_mult_mod_eq)
  moreover have "i mod 64 < 64" by simp
  ultimately show "bm_bit (ref_set_bit i ws) j = (j = i \<or> bm_bit ws j)"
    and "bm_bit (ref_clear_bit i ws) j = (j \<noteq> i \<and> bm_bit ws j)"
    using assms
    by (auto simp: bm_bit_def ref_set_bit_def ref_clear_bit_def nth_list_update bit_set_bit_iff
        bit_unset_bit_iff)
qed

lemma ref_length [simp]:
  "length (ref_set_bit i ws) = length ws" "length (ref_clear_bit i ws) = length ws"
  by (simp_all add: ref_set_bit_def ref_clear_bit_def)

lemma ref_sets_bit: "sets_bit_ok ref_set_bit True" "sets_bit_ok ref_clear_bit False"
  by (simp_all add: sets_bit_ok_def ref_bit_update)

lemma ref_finds_next: "finds_next_ok (ref_next v) v"
  unfolding finds_next_ok_def
proof (intro allI impI)
  fix ws :: "u64 list" and n s
  assume "n \<le> 64 * length ws"
  show "if ref_next v ws n s < n
        then s \<le> ref_next v ws n s \<and> bm_bit ws (ref_next v ws n s) = v \<and>
             (\<forall>j. s \<le> j \<longrightarrow> j < ref_next v ws n s \<longrightarrow> bm_bit ws j \<noteq> v)
        else \<forall>j. s \<le> j \<longrightarrow> j < n \<longrightarrow> bm_bit ws j \<noteq> v"
  proof (cases "List.find (\<lambda>i. bm_bit ws i = v) [s..<n]")
    case None
    then have "ref_next v ws n s = n" by (simp add: ref_next_def)
    with None show ?thesis by (auto simp: find_None_iff)
  next
    case (Some i)
    then obtain k where k: "k < n - s" "i = s + k" "bm_bit ws i = v" "\<forall>j<k. bm_bit ws (s + j) \<noteq> v"
      by (auto simp: find_Some_iff)
    have "bm_bit ws j \<noteq> v" if "s \<le> j" "j < i" for j
      using k(4) [rule_format, of "j - s"] that k(2) by simp
    with k Some show ?thesis by (auto simp: ref_next_def)
  qed
qed

lemma ref_finds_last: "finds_last_ok ref_last"
  unfolding finds_last_ok_def
proof (intro allI impI)
  fix ws :: "u64 list" and n
  assume "n \<le> 64 * length ws"
  show "if ref_last ws n < n
        then bm_bit ws (ref_last ws n) \<and> (\<forall>j. ref_last ws n < j \<longrightarrow> j < n \<longrightarrow> \<not> bm_bit ws j)
        else \<forall>j<n. \<not> bm_bit ws j"
  proof (cases "List.find (bm_bit ws) (rev [0..<n])")
    case None
    then have "ref_last ws n = n" by (simp add: ref_last_def)
    with None show ?thesis by (auto simp: find_None_iff)
  next
    case (Some i)
    then obtain k where k: "k < n" "i = n - Suc k" "bm_bit ws i" "\<forall>j<k. \<not> bm_bit ws (n - Suc j)"
      by (auto simp: find_Some_iff rev_nth)
    have "\<not> bm_bit ws j" if "i < j" "j < n" for j
      using k(4) [rule_format, of "n - Suc j"] that k(1,2) by simp
    with k Some show ?thesis by (auto simp: ref_last_def)
  qed
qed

lemma ref_copy_bits:
  assumes "k \<le> 64 * length to"
  shows "length (ref_copy to from n k) = length to \<and>
         (\<forall>j. bm_bit (ref_copy to from n k) j =
            (if j < k then j < n \<and> bm_bit from j else bm_bit to j))"
  using assms
proof (induction k)
  case 0
  then show ?case by (simp add: ref_copy_def)
next
  case (Suc k)
  let ?g = "\<lambda>ws. if k < n \<and> bm_bit from k then ref_set_bit k ws else ref_clear_bit k ws"
  have "ref_copy to from n (Suc k) = ?g (ref_copy to from n k)"
    by (simp add: ref_copy_def)
  with Suc show ?case
    by (auto simp: ref_bit_update less_Suc_eq)
qed

lemma ref_zallocs: "zallocs_ok (\<lambda>n fl. Some (replicate ((n + 63) div 64) 0))"
  by (auto simp: zallocs_ok_def bm_bit_def less_mult_imp_div_less mult.commute)

lemma ref_bitmap_ok: "c_bitmap_ok ref_bitmap"
  by (simp add: c_bitmap_ok_def ref_bitmap_def ref_sets_bit ref_finds_next ref_finds_last ref_zallocs
      copies_ok_def ref_copy_bits)

interpretation bv: bitset bv_inv bv_nbits bv_bits "bv_set_bit ref_bitmap h" "bv_clear_bit ref_bitmap h"
  "bv_copy_and_extend ref_bitmap" "bv_last_bit ref_bitmap" "bv_next_zero_bit ref_bitmap h" for h
  by (rule bitmap_vec_bitset [OF ref_bitmap_ok])

section \<open>Properties\<close>



text \<open>
  An index outside the bitmap never reaches the C function: with hardening the bit operations panic,
  without it they leave the bitmap unchanged.
\<close>

lemma bitmap_out_of_range:
  assumes "bitmap_len b \<le> i"
  shows "let r = (if h then Inl Panic else Inr b) in
         bitmap_set_bit c h b i = r \<and> bitmap_clear_bit c h b i = r \<and>
         bitmap_set_bit_atomic c h b i = r \<and> bitmap_clear_bit_atomic c h b i = r"
  using assms
  by (simp add: Let_def bitmap_set_bit_def bitmap_clear_bit_def bitmap_set_bit_atomic_def
      bitmap_clear_bit_atomic_def bitmap_assert_return_def)

text \<open>
  \<open>BitmapVec::new\<close> returns a well-formed, empty bitmap of the requested length, or \<open>AllocError\<close>; it
  fails only for lengths that do not fit inline, and always above \<open>MAX_LEN\<close>. The \<open>unwrap\<close> on the
  conversion to \<open>u32\<close> is never reached with a larger value.
\<close>

lemma bitmap_vec_new_correct:
  assumes "c_bitmap_ok c"
  shows "case bitmap_vec_new c n fl of
           Inl _ \<Rightarrow> False
         | Inr (Ok v) \<Rightarrow> bv_inv v \<and> bv_nbits v = n \<and> bv_bits v = {} \<and> n \<le> MAX_LEN
         | Inr (Err e) \<Rightarrow> e = AllocError \<and> MAX_INLINE_LEN < n"
  using bv_new_ok [OF assms, of n fl] by (auto simp: bv_inv_def)

end
