(* ===== verification/Id_Pool.thy ===== *)
theory Id_Pool
  imports Bitmap_Vec
begin

text \<open>
  \<open>rust/src/id_pool.rs\<close>: the dynamic pool of ids over a \<open>BitmapVec\<close>, resized in two phases (a request
  computed under the lock, an allocation made without it, and a resize that validates the request
  again). An \<open>UnusedId\<close> borrows the pool mutably, so it is the pair of the pool and the id it carries. The
  parameters \<open>c\<close> and \<open>h\<close> are those of \<open>Bitmap_Vec\<close>.
\<close>

section \<open>Operations\<close>

record id_pool =
  pool_map :: bitmap_vec

record realloc_request =
  rr_num_ids :: usize

record pool_resizer =
  rs_new :: bitmap_vec

record unused_id =
  ui_id :: usize
  ui_pool :: id_pool

definition realloc_request_realloc ::
  "c_bitmap \<Rightarrow> realloc_request \<Rightarrow> flags \<Rightarrow> (pool_resizer, error_source) result exec" where
  "realloc_request_realloc c rr fl =
     exec_bind (bitmap_vec_new c (rr_num_ids rr) fl) (\<lambda>r. exec_try r (\<lambda>new. Inr (Ok \<lparr>rs_new = new\<rparr>)))"


definition id_pool_with_capacity ::
  "c_bitmap \<Rightarrow> usize \<Rightarrow> flags \<Rightarrow> (id_pool, error_source) result exec" where
  "id_pool_with_capacity c num_ids fl =
     exec_bind (bitmap_vec_new c (max num_ids MAX_INLINE_LEN) fl) (\<lambda>r.
     exec_try r (\<lambda>map. Inr (Ok \<lparr>pool_map = map\<rparr>)))"

definition id_pool_capacity :: "id_pool \<Rightarrow> usize" where
  "id_pool_capacity p = bitmap_vec_len (pool_map p)"

definition id_pool_shrink_request :: "c_bitmap \<Rightarrow> id_pool \<Rightarrow> realloc_request option exec" where
  "id_pool_shrink_request c p =
     (let cap = id_pool_capacity p in
      if cap \<le> MAX_INLINE_LEN then Inr None
      else exec_bind (bv_last_bit c (pool_map p)) (\<lambda>r.
        case r of
          None \<Rightarrow> Inr (Some \<lparr>rr_num_ids = MAX_INLINE_LEN\<rparr>)
        | Some b \<Rightarrow>
            if b \<ge> cap div 4 then Inr None
            else Inr (Some \<lparr>rr_num_ids = max MAX_INLINE_LEN (cap div 2)\<rparr>)))"

definition id_pool_shrink :: "c_bitmap \<Rightarrow> id_pool \<Rightarrow> pool_resizer \<Rightarrow> id_pool exec" where
  "id_pool_shrink c p resizer =
     exec_bind (id_pool_shrink_request c p) (\<lambda>r.
     case r of
       None \<Rightarrow> Inr p
     | Some updated \<Rightarrow>
         if rr_num_ids updated > bitmap_vec_len (rs_new resizer) then Inr p
         else exec_bind (bv_copy_and_extend c (rs_new resizer) (pool_map p)) (\<lambda>new.
              Inr (p\<lparr>pool_map := new\<rparr>)))"

definition id_pool_grow_request :: "id_pool \<Rightarrow> realloc_request option exec" where
  "id_pool_grow_request p =
     exec_bind (require Panic (id_pool_capacity p * 2 \<le> usize_max)) (\<lambda>_.
     let num_ids = id_pool_capacity p * 2 in
     if num_ids > MAX_LEN then Inr None else Inr (Some \<lparr>rr_num_ids = num_ids\<rparr>))"


definition id_pool_find_unused_id ::
  "c_bitmap \<Rightarrow> bool \<Rightarrow> id_pool \<Rightarrow> usize \<Rightarrow> unused_id option exec" where
  "id_pool_find_unused_id c h p offset =
     exec_bind (bv_next_zero_bit c h (pool_map p) offset) (\<lambda>r.
     Inr (map_option (\<lambda>i. \<lparr>ui_id = i, ui_pool = p\<rparr>) r))"


definition unused_id_as_usize :: "unused_id \<Rightarrow> usize" where
  "unused_id_as_usize u = ui_id u"

definition unused_id_as_u32 :: "unused_id \<Rightarrow> u32" where
  "unused_id_as_u32 u = of_nat (ui_id u)"





section \<open>Invariant and abstraction\<close>

definition pool_inv :: "id_pool \<Rightarrow> bool" where
  "pool_inv p \<longleftrightarrow> bv_inv (pool_map p) \<and> MAX_INLINE_LEN \<le> bv_nbits (pool_map p)"

definition pool_ids :: "id_pool \<Rightarrow> nat set" where
  "pool_ids p = bv_bits (pool_map p)"






lemma shrink_request_ok:
  assumes c: "c_bitmap_ok c" and p: "pool_inv p"
  shows "\<exists>r. id_pool_shrink_request c p = Inr r \<and>
           (\<forall>rr. r = Some rr \<longrightarrow> MAX_INLINE_LEN \<le> rr_num_ids rr \<and> rr_num_ids rr < id_pool_capacity p \<and>
              (\<forall>i \<in> pool_ids p. i < rr_num_ids rr))"
proof -
  have v: "bv_inv (pool_map p)" using p by (simp add: pool_inv_def)
  obtain r where "bv_last_bit c (pool_map p) = Inr r"
    and r: "case r of None \<Rightarrow> pool_ids p = {}
            | Some i \<Rightarrow> i \<in> pool_ids p \<and> (\<forall>j \<in> pool_ids p. j \<le> i)"
    using bv_last_ok [OF c v] unfolding pool_ids_def by blast
  then show ?thesis
    by (cases r) (force simp: id_pool_shrink_request_def Let_def MAX_INLINE_LEN_def)+
qed

text \<open>Moving the ids into another bitmap that is long enough for them.\<close>

lemma pool_migrate:
  assumes "c_bitmap_ok c" and "pool_inv p" and "bv_inv m" and "MAX_INLINE_LEN \<le> bv_nbits m"
    and "\<forall>i \<in> pool_ids p. i < bv_nbits m"
  shows "\<exists>m'. bv_copy_and_extend c m (pool_map p) = Inr m' \<and> pool_inv (p\<lparr>pool_map := m'\<rparr>) \<and>
           pool_ids (p\<lparr>pool_map := m'\<rparr>) = pool_ids p \<and> bv_nbits m' = bv_nbits m"
  using bitset.migrate [OF bitmap_vec_bitset [OF assms(1), of True] assms(3), of "pool_map p"] assms
  by (auto simp: pool_inv_def pool_ids_def)

lemma id_pool_shrink_to:
  assumes c: "c_bitmap_ok c" and p: "pool_inv p" and rs: "bv_inv (rs_new rs)"
    and rr: "id_pool_shrink_request c p = Inr (Some rr)" "rr_num_ids rr \<le> bv_nbits (rs_new rs)"
  shows "\<exists>p'. id_pool_shrink c p rs = Inr p' \<and> pool_inv p' \<and> pool_ids p' = pool_ids p \<and>
           id_pool_capacity p' = bv_nbits (rs_new rs)"
proof -
  have "MAX_INLINE_LEN \<le> bv_nbits (rs_new rs)" "\<forall>i \<in> pool_ids p. i < bv_nbits (rs_new rs)"
    using shrink_request_ok [OF c p] rr by fastforce+
  from pool_migrate [OF c p rs this] rr show ?thesis
    by (auto simp: id_pool_shrink_def bitmap_vec_len_def id_pool_capacity_def)
qed



lemma find_unused_ok:
  assumes "c_bitmap_ok c" and "pool_inv p" and "\<not> h \<or> off < id_pool_capacity p"
  shows "\<exists>r. id_pool_find_unused_id c h p off = Inr (map_option (\<lambda>i. \<lparr>ui_id = i, ui_pool = p\<rparr>) r) \<and>
           next_post ({..<id_pool_capacity p} - pool_ids p) off r"
  using bv_next_zero_ok [OF assms(1), of "pool_map p" h off] assms
  by (auto simp: id_pool_find_unused_id_def pool_inv_def id_pool_capacity_def bitmap_vec_len_def
      pool_ids_def)






text \<open>A pool of 256 ids in which id 10 is in use, for the examples.\<close>

definition sample_pool :: id_pool where
  "sample_pool = \<lparr>pool_map = \<lparr>bv_repr = PtrBits [1024, 0, 0, 0], bv_nbits = 256\<rparr>\<rparr>"

lemma sample_pool_ok:
  "pool_inv sample_pool"
  "id_pool_shrink_request ref_bitmap sample_pool = Inr (Some \<lparr>rr_num_ids = 128\<rparr>)"
  "id_pool_capacity sample_pool = 256"
proof -
  show "pool_inv sample_pool"
    by (simp add: sample_pool_def pool_inv_def bv_inv_def MAX_LEN_def MAX_INLINE_LEN_def i32_max_def)
  show "id_pool_shrink_request ref_bitmap sample_pool = Inr (Some \<lparr>rr_num_ids = 128\<rparr>)"
    by code_simp
  show "id_pool_capacity sample_pool = 256"
    by (simp add: sample_pool_def id_pool_capacity_def bitmap_vec_len_def)
qed

section \<open>Properties\<close>



text \<open>
  \<open>find_unused_id\<close> returns the least free id at or above the offset, and \<open>None\<close> only when every
  id from the offset up to the capacity is taken, which is when the documentation asks for a grow.
\<close>

lemma find_unused_id_least:
  assumes "c_bitmap_ok c" and "pool_inv p" and "off < id_pool_capacity p"
  shows "\<exists>r. id_pool_find_unused_id c h p off = Inr (map_option (\<lambda>i. \<lparr>ui_id = i, ui_pool = p\<rparr>) r) \<and>
           (case r of
              None \<Rightarrow> {off..<id_pool_capacity p} \<subseteq> pool_ids p
            | Some i \<Rightarrow> off \<le> i \<and> i < id_pool_capacity p \<and> i \<notin> pool_ids p \<and> {off..<i} \<subseteq> pool_ids p)"
proof -
  obtain r where "id_pool_find_unused_id c h p off = Inr (map_option (\<lambda>i. \<lparr>ui_id = i, ui_pool = p\<rparr>) r)"
    and "next_post ({..<id_pool_capacity p} - pool_ids p) off r"
    using find_unused_ok [OF assms(1,2)] assms(3) by blast
  then show ?thesis
    by (intro exI [of _ r]) (force simp: next_post_def not_less [symmetric] split: option.splits)
qed

text \<open>
  A shrink request, carried out at once, makes the pool strictly smaller, never below the inline
  length, and keeps every id in use.
\<close>

lemma id_pool_shrink_correct:
  assumes "c_bitmap_ok c" and "pool_inv p"
    and "id_pool_shrink_request c p = Inr (Some rr)"
    and "realloc_request_realloc c rr fl = Inr (Ok rs)"
  shows "\<exists>p'. id_pool_shrink c p rs = Inr p' \<and> pool_inv p' \<and> pool_ids p' = pool_ids p \<and>
           id_pool_capacity p' = rr_num_ids rr \<and> id_pool_capacity p' < id_pool_capacity p"
proof -
  have rs: "bv_inv (rs_new rs)" "bv_nbits (rs_new rs) = rr_num_ids rr"
    using assms(4) bv_new_ok [OF assms(1), of "rr_num_ids rr" fl]
    by (auto simp: realloc_request_realloc_def)
  have "rr_num_ids rr < id_pool_capacity p"
    using shrink_request_ok [OF assms(1,2)] assms(3) by auto
  with id_pool_shrink_to [OF assms(1,2) rs(1) assms(3)] rs show ?thesis by auto
qed

text \<open>
  \<open>shrink\<close> accepts a stale resizer that is longer than the pool: the pool below has 256 ids of
  capacity, the largest id in use is 10, and shrinking it with a resizer of 512 ids doubles its
  capacity, although the method is documented to shrink.
\<close>

lemma id_pool_shrink_can_grow:
  "id_pool_capacity sample_pool = 256 \<and>
   (case id_pool_shrink ref_bitmap sample_pool
           \<lparr>rs_new = \<lparr>bv_repr = PtrBits (replicate 8 0), bv_nbits = 512\<rparr>\<rparr> of
      Inl _ \<Rightarrow> False
    | Inr p \<Rightarrow> id_pool_capacity p = 512 \<and> pool_ids p = pool_ids sample_pool)"
  using id_pool_shrink_to [OF ref_bitmap_ok sample_pool_ok(1) _ sample_pool_ok(2),
      of "\<lparr>rs_new = \<lparr>bv_repr = PtrBits (replicate 8 0), bv_nbits = 512\<rparr>\<rparr>"]
  by (auto simp: sample_pool_ok bv_inv_def MAX_LEN_def MAX_INLINE_LEN_def i32_max_def)

end
