(* ===== verification/Linked_List.thy ===== *)
theory Linked_List
  imports Kernel_Prelude
begin

text \<open>
  \<open>rust/src/list.rs\<close> and \<open>rust/src/list/impl_list_item_mod.rs\<close>: the intrusive, circular, doubly linked
  list, its cursors and iterators, and the two implementations of \<open>ListItem\<close>.

  The links are cells of an explicit heap, so that the aliasing of neighbours is part of the model; an
  access to a cell that does not exist is \<open>UB\<close>. A list is the address of its first links, \<open>0\<close> being the
  null pointer. Owning a \<open>ListArc\<close> is holding the address of the item. The trait \<open>ListItem\<close> is the
  locale \<open>list_item\<close>, interpreted for the two macros that implement it.
\<close>

section \<open>Heap and links\<close>

record links =
  lk_next :: addr
  lk_prev :: addr

text \<open>Links by the address of their fields, and self pointers by the address of their cell.\<close>

record heap =
  h_links :: "addr \<Rightarrow> links option"
  h_self :: "addr \<Rightarrow> addr option"

definition read_links :: "heap \<Rightarrow> addr \<Rightarrow> links exec" where
  "read_links h a = (case h_links h a of Some l \<Rightarrow> Inr l | None \<Rightarrow> Inl UB)"

definition write_next :: "heap \<Rightarrow> addr \<Rightarrow> addr \<Rightarrow> heap exec" where
  "write_next h a v =
     exec_bind (read_links h a) (\<lambda>l. Inr (h\<lparr>h_links := (h_links h)(a := Some (l\<lparr>lk_next := v\<rparr>))\<rparr>))"

definition write_prev :: "heap \<Rightarrow> addr \<Rightarrow> addr \<Rightarrow> heap exec" where
  "write_prev h a v =
     exec_bind (read_links h a) (\<lambda>l. Inr (h\<lparr>h_links := (h_links h)(a := Some (l\<lparr>lk_prev := v\<rparr>))\<rparr>))"

definition list_links_new :: links where
  "list_links_new = \<lparr>lk_next = 0, lk_prev = 0\<rparr>"

section \<open>ListItem\<close>

record item_ops =
  li_view_links :: "addr \<Rightarrow> addr"
  li_view_value :: "heap \<Rightarrow> addr \<Rightarrow> addr exec"
  li_prepare_to_insert :: "heap \<Rightarrow> addr \<Rightarrow> (addr \<times> heap) exec"
  li_post_remove :: "heap \<Rightarrow> addr \<Rightarrow> addr exec"

text \<open>\<open>impl_list_item!\<close> using \<open>ListLinks\<close>: the value is found by subtracting the offset of the field.\<close>

definition raw_get_list_links :: "usize \<Rightarrow> addr \<Rightarrow> addr" where
  "raw_get_list_links offset ptr = ptr + offset"

definition links_item :: "usize \<Rightarrow> item_ops" where
  "links_item offset =
     \<lparr>li_view_links = raw_get_list_links offset,
      li_view_value = (\<lambda>h me. Inr (me - offset)),
      li_prepare_to_insert = (\<lambda>h me. Inr (raw_get_list_links offset me, h)),
      li_post_remove = (\<lambda>h me. Inr (me - offset))\<rparr>"

text \<open>
  \<open>impl_list_item!\<close> using \<open>ListLinksSelfPtr\<close>: the value is read back from the cell \<open>spoff\<close> bytes behind
  the links, which \<open>prepare_to_insert\<close> writes.
\<close>

definition self_ptr_read :: "usize \<Rightarrow> heap \<Rightarrow> addr \<Rightarrow> addr exec" where
  "self_ptr_read spoff h links_field =
     (case h_self h (links_field + spoff) of Some p \<Rightarrow> Inr p | None \<Rightarrow> Inl UB)"

definition self_ptr_item :: "usize \<Rightarrow> usize \<Rightarrow> item_ops" where
  "self_ptr_item offset spoff =
     \<lparr>li_view_links = raw_get_list_links offset,
      li_view_value = self_ptr_read spoff,
      li_prepare_to_insert = (\<lambda>h me.
        let links_field = raw_get_list_links offset me in
        Inr (links_field, h\<lparr>h_self := (h_self h)(links_field + spoff := Some me)\<rparr>)),
      li_post_remove = self_ptr_read spoff\<rparr>"

section \<open>List\<close>

record llist =
  l_first :: addr

definition list_new :: llist where
  "list_new = \<lparr>l_first = 0\<rparr>"

definition list_is_empty :: "llist \<Rightarrow> bool" where
  "list_is_empty l \<longleftrightarrow> l_first l = 0"

definition list_insert_inner ::
  "item_ops \<Rightarrow> heap \<Rightarrow> llist \<Rightarrow> addr \<Rightarrow> addr \<Rightarrow> (addr \<times> heap \<times> llist) exec" where
  "list_insert_inner I h l raw_item next =
     exec_bind (li_prepare_to_insert I h raw_item) (\<lambda>(item, h).
     if next = 0 then
       exec_bind (write_next h item item) (\<lambda>h.
       exec_bind (write_prev h item item) (\<lambda>h.
       Inr (item, h, l\<lparr>l_first := item\<rparr>)))
     else
       exec_bind (read_links h next) (\<lambda>ln. let prev = lk_prev ln in
       exec_bind (write_next h item next) (\<lambda>h.
       exec_bind (write_prev h item prev) (\<lambda>h.
       exec_bind (write_next h prev item) (\<lambda>h.
       exec_bind (write_prev h next item) (\<lambda>h.
       Inr (item, h, l)))))))"

definition list_push_back :: "item_ops \<Rightarrow> heap \<Rightarrow> llist \<Rightarrow> addr \<Rightarrow> (heap \<times> llist) exec" where
  "list_push_back I h l item =
     exec_bind (list_insert_inner I h l item (l_first l)) (\<lambda>(_, h, l). Inr (h, l))"

definition list_push_front :: "item_ops \<Rightarrow> heap \<Rightarrow> llist \<Rightarrow> addr \<Rightarrow> (heap \<times> llist) exec" where
  "list_push_front I h l item =
     exec_bind (list_insert_inner I h l item (l_first l)) (\<lambda>(new_elem, h, l).
     Inr (h, l\<lparr>l_first := new_elem\<rparr>))"

definition list_remove_internal_inner ::
  "item_ops \<Rightarrow> heap \<Rightarrow> llist \<Rightarrow> addr \<Rightarrow> addr \<Rightarrow> addr \<Rightarrow> (addr \<times> heap \<times> llist) exec" where
  "list_remove_internal_inner I h l item next prev =
     exec_bind (write_prev h next prev) (\<lambda>h.
     exec_bind (write_next h prev next) (\<lambda>h.
     exec_bind (write_prev h item 0) (\<lambda>h.
     exec_bind (write_next h item 0) (\<lambda>h.
     exec_bind (if l_first l = item
                then exec_bind (read_links h prev) (\<lambda>lp. Inr (l\<lparr>l_first := lk_next lp\<rparr>))
                else Inr l) (\<lambda>l.
     exec_bind (li_post_remove I h item) (\<lambda>raw_item. Inr (raw_item, h, l)))))))"

definition list_remove_internal ::
  "item_ops \<Rightarrow> heap \<Rightarrow> llist \<Rightarrow> addr \<Rightarrow> (addr \<times> heap \<times> llist) exec" where
  "list_remove_internal I h l item =
     exec_bind (read_links h item) (\<lambda>li.
     list_remove_internal_inner I h l item (lk_next li) (lk_prev li))"

definition list_pop_back :: "item_ops \<Rightarrow> heap \<Rightarrow> llist \<Rightarrow> (addr option \<times> heap \<times> llist) exec" where
  "list_pop_back I h l =
     (if l_first l = 0 then Inr (None, h, l)
      else exec_bind (read_links h (l_first l)) (\<lambda>lf.
           exec_bind (list_remove_internal I h l (lk_prev lf)) (\<lambda>(p, h, l). Inr (Some p, h, l))))"

definition list_pop_front :: "item_ops \<Rightarrow> heap \<Rightarrow> llist \<Rightarrow> (addr option \<times> heap \<times> llist) exec" where
  "list_pop_front I h l =
     (if l_first l = 0 then Inr (None, h, l)
      else exec_bind (list_remove_internal I h l (l_first l)) (\<lambda>(p, h, l). Inr (Some p, h, l)))"

text \<open>\<open>debug_assert_eq!\<close> is taken as enabled.\<close>

definition list_remove :: "item_ops \<Rightarrow> heap \<Rightarrow> llist \<Rightarrow> addr \<Rightarrow> (addr option \<times> heap \<times> llist) exec" where
  "list_remove I h l p =
     (let item = li_view_links I p in
      exec_bind (read_links h item) (\<lambda>li.
      let next = lk_next li; prev = lk_prev li in
      exec_bind (require Panic ((next = 0) = (prev = 0))) (\<lambda>_.
      if next \<noteq> 0 then
        exec_bind (read_links h next) (\<lambda>ln.
        exec_bind (require Panic (item = lk_prev ln)) (\<lambda>_.
        exec_bind (list_remove_internal_inner I h l (lk_prev ln) next prev) (\<lambda>(p, h, l).
        Inr (Some p, h, l))))
      else Inr (None, h, l))))"

text \<open>Both lists afterwards: \<open>self\<close> and \<open>other\<close>.\<close>

definition list_push_all_back :: "heap \<Rightarrow> llist \<Rightarrow> llist \<Rightarrow> (heap \<times> llist \<times> llist) exec" where
  "list_push_all_back h self other =
     exec_bind
       (if list_is_empty self then Inr (h, self\<lparr>l_first := l_first other\<rparr>)
        else if \<not> list_is_empty other then
          (let other_first = l_first other in
           exec_bind (read_links h other_first) (\<lambda>lo. let other_last = lk_prev lo; self_first = l_first self in
           exec_bind (read_links h self_first) (\<lambda>ls. let self_last = lk_prev ls in
           exec_bind (write_prev h self_first other_last) (\<lambda>h.
           exec_bind (write_next h other_last self_first) (\<lambda>h.
           exec_bind (write_next h self_last other_first) (\<lambda>h.
           exec_bind (write_prev h other_first self_last) (\<lambda>h.
           Inr (h, self))))))))
        else Inr (h, self))
       (\<lambda>(h, self). Inr (h, self, other\<lparr>l_first := 0\<rparr>))"

text \<open>\<open>Drop\<close>: the loop over \<open>pop_front\<close>, with the items it dropped. \<open>None\<close> is out of fuel.\<close>

fun list_drop :: "nat \<Rightarrow> item_ops \<Rightarrow> heap \<Rightarrow> llist \<Rightarrow> (addr list \<times> heap \<times> llist) exec option" where
  "list_drop 0 I h l = None"
| "list_drop (Suc fuel) I h l =
     (case list_pop_front I h l of
        Inl e \<Rightarrow> Some (Inl e)
      | Inr (None, h, l) \<Rightarrow> Some (Inr ([], h, l))
      | Inr (Some p, h, l) \<Rightarrow>
          map_option (\<lambda>r. exec_bind r (\<lambda>(ps, h, l). Inr (p # ps, h, l))) (list_drop fuel I h l))"

section \<open>Iterators\<close>

record list_iter =
  i_current :: addr
  i_stop :: addr

definition list_iter_new :: "llist \<Rightarrow> list_iter" where
  "list_iter_new l = \<lparr>i_current = l_first l, i_stop = l_first l\<rparr>"

definition list_iter_next :: "item_ops \<Rightarrow> heap \<Rightarrow> list_iter \<Rightarrow> (addr option \<times> list_iter) exec" where
  "list_iter_next I h it =
     (if i_current it = 0 then Inr (None, it)
      else exec_bind (read_links h (i_current it)) (\<lambda>lc.
           let it' = it\<lparr>i_current := (if lk_next lc \<noteq> i_stop it then lk_next lc else 0)\<rparr> in
           exec_bind (li_view_value I h (i_current it)) (\<lambda>p. Inr (Some p, it'))))"

text \<open>A \<open>for\<close> loop over the iterator: the items in the order they come; \<open>None\<close> is out of fuel.\<close>

fun list_iter_collect :: "nat \<Rightarrow> item_ops \<Rightarrow> heap \<Rightarrow> list_iter \<Rightarrow> addr list exec option" where
  "list_iter_collect 0 I h it = None"
| "list_iter_collect (Suc fuel) I h it =
     (case list_iter_next I h it of
        Inl e \<Rightarrow> Some (Inl e)
      | Inr (None, _) \<Rightarrow> Some (Inr [])
      | Inr (Some p, it') \<Rightarrow>
          map_option (\<lambda>r. exec_bind r (\<lambda>ps. Inr (p # ps))) (list_iter_collect fuel I h it'))"

definition list_into_iter_next :: "item_ops \<Rightarrow> heap \<Rightarrow> llist \<Rightarrow> (addr option \<times> heap \<times> llist) exec" where
  "list_into_iter_next I h l = list_pop_front I h l"

definition list_into_iter_next_back ::
  "item_ops \<Rightarrow> heap \<Rightarrow> llist \<Rightarrow> (addr option \<times> heap \<times> llist) exec" where
  "list_into_iter_next_back I h l = list_pop_back I h l"

section \<open>Cursors\<close>

record cursor =
  cu_list :: llist
  cu_next :: addr

definition list_cursor_front :: "llist \<Rightarrow> cursor" where
  "list_cursor_front l = \<lparr>cu_list = l, cu_next = l_first l\<rparr>"

definition list_cursor_back :: "llist \<Rightarrow> cursor" where
  "list_cursor_back l = \<lparr>cu_list = l, cu_next = 0\<rparr>"

definition cursor_prev_ptr :: "heap \<Rightarrow> cursor \<Rightarrow> addr exec" where
  "cursor_prev_ptr h c =
     (let first = l_first (cu_list c) in
      if cu_next c = first then Inr 0
      else exec_bind (read_links h (if cu_next c = 0 then first else cu_next c)) (\<lambda>l. Inr (lk_prev l)))"

text \<open>The peek is the address it points at; \<open>None\<close> at the end.\<close>

definition cursor_peek_next :: "cursor \<Rightarrow> addr option" where
  "cursor_peek_next c = (if cu_next c = 0 then None else Some (cu_next c))"

definition cursor_peek_prev :: "heap \<Rightarrow> cursor \<Rightarrow> addr option exec" where
  "cursor_peek_prev h c =
     exec_bind (cursor_prev_ptr h c) (\<lambda>prev. Inr (if prev = 0 then None else Some prev))"

definition cursor_peek_arc :: "item_ops \<Rightarrow> heap \<Rightarrow> addr \<Rightarrow> addr exec" where
  "cursor_peek_arc I h ptr = li_view_value I h ptr"

definition cursor_move_next :: "heap \<Rightarrow> cursor \<Rightarrow> (bool \<times> cursor) exec" where
  "cursor_move_next h c =
     (if cu_next c = 0 then Inr (False, c)
      else exec_bind (read_links h (cu_next c)) (\<lambda>l.
           Inr (True, c\<lparr>cu_next := (if lk_next l = l_first (cu_list c) then 0 else lk_next l)\<rparr>)))"

definition cursor_move_prev :: "heap \<Rightarrow> cursor \<Rightarrow> (bool \<times> cursor) exec" where
  "cursor_move_prev h c =
     (if cu_next c = l_first (cu_list c) then Inr (False, c)
      else exec_bind (cursor_prev_ptr h c) (\<lambda>p. Inr (True, c\<lparr>cu_next := p\<rparr>)))"

definition cursor_insert_inner ::
  "item_ops \<Rightarrow> heap \<Rightarrow> cursor \<Rightarrow> addr \<Rightarrow> (addr \<times> heap \<times> cursor) exec" where
  "cursor_insert_inner I h c item =
     (let ptr = (if cu_next c = 0 then l_first (cu_list c) else cu_next c) in
      exec_bind (list_insert_inner I h (cu_list c) item ptr) (\<lambda>(item, h, l).
      Inr (item, h, c\<lparr>cu_list := (if cu_next c = l_first l then l\<lparr>l_first := item\<rparr> else l)\<rparr>)))"

text \<open>\<open>insert\<close> consumes the cursor: the list it leaves.\<close>

definition cursor_insert :: "item_ops \<Rightarrow> heap \<Rightarrow> cursor \<Rightarrow> addr \<Rightarrow> (heap \<times> llist) exec" where
  "cursor_insert I h c item =
     exec_bind (cursor_insert_inner I h c item) (\<lambda>(_, h, c). Inr (h, cu_list c))"

definition cursor_insert_next :: "item_ops \<Rightarrow> heap \<Rightarrow> cursor \<Rightarrow> addr \<Rightarrow> (heap \<times> cursor) exec" where
  "cursor_insert_next I h c item =
     exec_bind (cursor_insert_inner I h c item) (\<lambda>(new, h, c). Inr (h, c\<lparr>cu_next := new\<rparr>))"

definition cursor_insert_prev :: "item_ops \<Rightarrow> heap \<Rightarrow> cursor \<Rightarrow> addr \<Rightarrow> (heap \<times> cursor) exec" where
  "cursor_insert_prev I h c item =
     exec_bind (cursor_insert_inner I h c item) (\<lambda>(_, h, c). Inr (h, c))"

definition cursor_peek_remove ::
  "bool \<Rightarrow> item_ops \<Rightarrow> heap \<Rightarrow> cursor \<Rightarrow> addr \<Rightarrow> (addr \<times> heap \<times> cursor) exec" where
  "cursor_peek_remove ISNEXT I h c ptr =
     exec_bind (if ISNEXT then exec_bind (cursor_move_next h c) (\<lambda>(_, c). Inr c) else Inr c) (\<lambda>c.
     exec_bind (list_remove_internal I h (cu_list c) ptr) (\<lambda>(p, h, l).
     Inr (p, h, c\<lparr>cu_list := l\<rparr>)))"

definition cursor_remove_next :: "item_ops \<Rightarrow> heap \<Rightarrow> cursor \<Rightarrow> (addr option \<times> heap \<times> cursor) exec" where
  "cursor_remove_next I h c =
     (case cursor_peek_next c of
        None \<Rightarrow> Inr (None, h, c)
      | Some ptr \<Rightarrow> exec_bind (cursor_peek_remove True I h c ptr) (\<lambda>(p, h, c). Inr (Some p, h, c)))"

definition cursor_remove_prev :: "item_ops \<Rightarrow> heap \<Rightarrow> cursor \<Rightarrow> (addr option \<times> heap \<times> cursor) exec" where
  "cursor_remove_prev I h c =
     exec_bind (cursor_peek_prev h c) (\<lambda>r.
     case r of
       None \<Rightarrow> Inr (None, h, c)
     | Some ptr \<Rightarrow> exec_bind (cursor_peek_remove False I h c ptr) (\<lambda>(p, h, c). Inr (Some p, h, c)))"

section \<open>Rings of links\<close>

definition upd_next :: "(addr \<Rightarrow> links option) \<Rightarrow> addr \<Rightarrow> addr \<Rightarrow> addr \<Rightarrow> links option" where
  "upd_next L a v = L(a := Some ((the (L a))\<lparr>lk_next := v\<rparr>))"

definition upd_prev :: "(addr \<Rightarrow> links option) \<Rightarrow> addr \<Rightarrow> addr \<Rightarrow> addr \<Rightarrow> links option" where
  "upd_prev L a v = L(a := Some ((the (L a))\<lparr>lk_prev := v\<rparr>))"

lemma read_links_ok [simp]: "h_links h a = Some l \<Longrightarrow> read_links h a = Inr l"
  by (simp add: read_links_def)

lemma write_ok [simp]:
  "h_links h a \<noteq> None \<Longrightarrow> write_next h a v = Inr (h\<lparr>h_links := upd_next (h_links h) a v\<rparr>)"
  "h_links h a \<noteq> None \<Longrightarrow> write_prev h a v = Inr (h\<lparr>h_links := upd_prev (h_links h) a v\<rparr>)"
  by (auto simp: write_next_def write_prev_def upd_next_def upd_prev_def)

lemma upd_other [simp]:
  "b \<noteq> a \<Longrightarrow> upd_next L a v b = L b" "b \<noteq> a \<Longrightarrow> upd_prev L a v b = L b"
  by (simp_all add: upd_next_def upd_prev_def)

lemma upd_same [simp]:
  "upd_next L a v a = Some ((the (L a))\<lparr>lk_next := v\<rparr>)"
  "upd_prev L a v a = Some ((the (L a))\<lparr>lk_prev := v\<rparr>)"
  by (simp_all add: upd_next_def upd_prev_def)

lemma upd_dom [simp]:
  "upd_next L a v b = None \<longleftrightarrow> b \<noteq> a \<and> L b = None"
  "upd_prev L a v b = None \<longleftrightarrow> b \<noteq> a \<and> L b = None"
  by (simp_all add: upd_next_def upd_prev_def)

text \<open>\<open>xs\<close> is a chain of links between the neighbours \<open>p\<close> and \<open>n\<close>.\<close>

fun seg :: "(addr \<Rightarrow> links option) \<Rightarrow> addr \<Rightarrow> addr list \<Rightarrow> addr \<Rightarrow> bool" where
  "seg L p [] n \<longleftrightarrow> True"
| "seg L p (x # xs) n \<longleftrightarrow> L x = Some \<lparr>lk_next = hd (xs @ [n]), lk_prev = p\<rparr> \<and> seg L x xs n"

definition ring :: "(addr \<Rightarrow> links option) \<Rightarrow> addr list \<Rightarrow> bool" where
  "ring L qs \<longleftrightarrow> distinct qs \<and> 0 \<notin> set qs \<and> seg L (last qs) qs (hd qs)"

lemma seg_append:
  "seg L p (xs @ ys) n \<longleftrightarrow> seg L p xs (hd (ys @ [n])) \<and> seg L (last (p # xs)) ys n"
  by (induction xs arbitrary: p) (auto simp: hd_append)

lemma seg_frame: "(\<And>x. x \<in> set xs \<Longrightarrow> L' x = L x) \<Longrightarrow> seg L' p xs n = seg L p xs n"
  by (induction xs arbitrary: p) auto

lemma seg_dom: "seg L p xs n \<Longrightarrow> x \<in> set xs \<Longrightarrow> L x \<noteq> None"
  by (induction xs arbitrary: p) auto

lemma seg_first_prev:
  assumes "seg L p (x # xs) n" and "x \<notin> set xs"
  shows "seg (upd_prev L x p') p' (x # xs) n"
proof -
  have "seg (upd_prev L x p') x xs n = seg L x xs n"
    by (rule seg_frame) (use assms(2) in \<open>metis upd_other(2)\<close>)
  with assms(1) show ?thesis by simp
qed

lemma seg_last_next:
  assumes "seg L p (xs @ [x]) n" and "x \<notin> set xs"
  shows "seg (upd_next L x n') p (xs @ [x]) n'"
proof -
  have "seg (upd_next L x n') p xs x = seg L p xs x"
    by (rule seg_frame) (use assms(2) in \<open>metis upd_other(1)\<close>)
  with assms(1) show ?thesis by (simp add: seg_append)
qed

lemma ring_Nil [simp]: "ring L []"
  by (simp add: ring_def)

lemma ring_rotate: "ring L (xs @ ys) \<Longrightarrow> ring L (ys @ xs)"
  by (cases "xs = []"; cases "ys = []") (auto simp: ring_def seg_append hd_append)

lemma ring_frame: "ring L qs \<Longrightarrow> (\<And>x. x \<in> set qs \<Longrightarrow> L' x = L x) \<Longrightarrow> ring L' qs"
  unfolding ring_def using seg_frame by blast

lemma ring_dom: "ring L qs \<Longrightarrow> x \<in> set qs \<Longrightarrow> L x \<noteq> None"
  unfolding ring_def using seg_dom by blast

text \<open>The cell of a member, with its two neighbours on the ring.\<close>

lemma ring_cell:
  assumes "ring L (xs @ x # ys)"
  shows "L x = Some \<lparr>lk_next = hd ((ys @ xs) @ [x]), lk_prev = last (x # ys @ xs)\<rparr>"
proof -
  have "ring L (x # ys @ xs)" using ring_rotate [OF assms] by simp
  then have "seg L (last (x # ys @ xs)) (x # (ys @ xs)) (hd (x # ys @ xs))"
    by (simp only: ring_def)
  then show ?thesis by (simp only: seg.simps list.sel)
qed

lemma split_last:
  assumes "distinct (x # xs)"
  obtains us where "x # xs = us @ [last (x # xs)]" and "last (x # xs) \<notin> set us"
proof
  show split: "x # xs = butlast (x # xs) @ [last (x # xs)]"
    by (simp only: append_butlast_last_id list.distinct not_False_eq_True)
  show "last (x # xs) \<notin> set (butlast (x # xs))"
    using assms split by (metis distinct_append disjoint_iff list.set_intros(1))
qed

text \<open>Linking \<open>item\<close> in before \<open>y\<close>, as the code does it: on the ring, at its end.\<close>

definition link_before :: "(addr \<Rightarrow> links option) \<Rightarrow> addr \<Rightarrow> addr \<Rightarrow> addr \<Rightarrow> addr \<Rightarrow> links option" where
  "link_before L item y prev =
     upd_prev (upd_next (upd_prev (upd_next L item y) item prev) prev item) y item"

lemma ring_insert:
  assumes r: "ring L (y # zs)" and "item \<notin> set (y # zs)" "item \<noteq> 0"
  shows "ring (link_before L item y (last (y # zs))) (y # zs @ [item])"
proof -
  let ?l = "last (y # zs)"
  let ?M = "upd_prev (upd_next L item y) item ?l"
  obtain xs where split: "y # zs = xs @ [?l]" and l: "?l \<notin> set xs"
    using r split_last [of y zs] unfolding ring_def by blast
  have dist: "?l \<notin> set xs" "y \<notin> set zs"
    using r l by (simp_all add: ring_def)
  have "seg ?M ?l (y # zs) y = seg L ?l (y # zs) y"
    by (rule seg_frame) (use assms(2) in \<open>auto simp: upd_next_def upd_prev_def\<close>)
  with r have "seg ?M ?l (y # zs) y" by (simp only: ring_def list.sel)
  then have "seg (upd_next ?M ?l item) ?l (y # zs) item"
    using seg_last_next [of ?M ?l xs ?l y item] dist(1) split by metis
  then have "seg (link_before L item y ?l) item (y # zs) item"
    unfolding link_before_def using dist(2) by (rule seg_first_prev)
  moreover have "link_before L item y ?l item = Some \<lparr>lk_next = y, lk_prev = ?l\<rparr>"
    using assms(2) last_in_set [of "y # zs"] unfolding link_before_def
    by (auto simp: upd_next_def upd_prev_def)
  ultimately have "seg (link_before L item y ?l) item ((y # zs) @ [item]) y"
    by (simp only: seg_append) simp
  with r assms(2,3) show ?thesis by (auto simp: ring_def)
qed

definition unlink :: "(addr \<Rightarrow> links option) \<Rightarrow> addr \<Rightarrow> addr \<Rightarrow> addr \<Rightarrow> addr \<Rightarrow> links option" where
  "unlink L item next prev =
     upd_next (upd_prev (upd_next (upd_prev L next prev) prev next) item 0) item 0"

lemma ring_remove:
  assumes r: "ring L (x # zs)"
  shows "ring (unlink L x (hd (zs @ [x])) (last (x # zs))) zs"
proof (cases zs)
  case (Cons y ys)
  let ?l = "last zs"
  let ?M = "upd_prev L y ?l"
  have dist: "distinct zs" "x \<notin> set zs" "0 \<notin> set zs" using r by (auto simp: ring_def)
  obtain xs where split: "zs = xs @ [?l]" "?l \<notin> set xs"
    using split_last [of y ys] dist(1) Cons by blast
  have "seg L x (y # ys) x"
    using r Cons by (simp add: ring_def)
  then have "seg ?M ?l (y # ys) x"
    by (rule seg_first_prev) (use dist Cons in simp)
  then have "seg (upd_next ?M ?l y) ?l zs y"
    using seg_last_next [of ?M ?l xs ?l x y] split Cons by metis
  moreover have "seg (unlink L x y ?l) ?l zs y = seg (upd_next ?M ?l y) ?l zs y"
    by (rule seg_frame) (use dist(2) in \<open>auto simp: unlink_def upd_next_def [of _ x] upd_prev_def [of _ x]\<close>)
  ultimately have "seg (unlink L x y ?l) ?l zs y" by simp
  with Cons dist show ?thesis by (simp add: ring_def)
qed simp

lemma unlink_item:
  "L item \<noteq> None \<Longrightarrow> unlink L item next prev item = Some list_links_new"
  by (auto simp: unlink_def list_links_new_def)

lemma link_frame:
  "a \<noteq> item \<Longrightarrow> a \<noteq> y \<Longrightarrow> a \<noteq> prev \<Longrightarrow> link_before L item y prev a = L a"
  "a \<noteq> item \<Longrightarrow> a \<noteq> y \<Longrightarrow> a \<noteq> prev \<Longrightarrow> unlink L item y prev a = L a"
  by (simp_all add: link_before_def unlink_def)

text \<open>Joining two rings.\<close>

lemma ring_join:
  assumes a: "ring L (x # xs)" and b: "ring L (y # ys)" and disj: "set (x # xs) \<inter> set (y # ys) = {}"
  shows "ring (upd_prev (upd_next (upd_next (upd_prev L x (last (y # ys))) (last (y # ys)) x)
                 (last (x # xs)) y) y (last (x # xs))) (x # xs @ y # ys)"
    (is "ring ?L _")
proof -
  let ?lx = "last (x # xs)" and ?ly = "last (y # ys)"
  have mem: "?lx \<in> set (x # xs)" "?ly \<in> set (y # ys)" by (rule last_in_set, simp)+
  obtain us where us: "x # xs = us @ [?lx]" "?lx \<notin> set us"
    using a split_last [of x xs] unfolding ring_def by blast
  obtain vs where vs: "y # ys = vs @ [?ly]" "?ly \<notin> set vs"
    using b split_last [of y ys] unfolding ring_def by blast
  have dx: "x \<notin> set xs" and dy: "y \<notin> set ys"
    using a b by (simp_all add: ring_def)
  let ?A = "upd_next (upd_prev L x ?ly) ?lx y" and ?B = "upd_prev (upd_next L ?ly x) y ?lx"
  have sa: "seg L ?lx (x # xs) x" and sb: "seg L ?ly (y # ys) y"
    using a b by (simp_all only: ring_def list.sel)
  have "seg (upd_prev L x ?ly) ?ly (x # xs) x"
    using sa dx by (rule seg_first_prev)
  then have A: "seg ?A ?ly (x # xs) y"
    using seg_last_next [of _ ?ly us ?lx x y] us by metis
  have "seg (upd_next L ?ly x) ?ly (y # ys) x"
    using seg_last_next [of L ?ly vs ?ly y x] sb vs by metis
  then have B: "seg ?B ?lx (y # ys) x"
    using dy by (rule seg_first_prev)
  have "x \<notin> set (y # ys)" "?lx \<notin> set (y # ys)" "y \<notin> set (x # xs)" "?ly \<notin> set (x # xs)"
    using mem disj by auto
  then have "seg ?L ?ly (x # xs) y = seg ?A ?ly (x # xs) y"
    and "seg ?L ?lx (y # ys) x = seg ?B ?lx (y # ys) x"
    using mem by (intro seg_frame; fastforce simp: upd_next_def upd_prev_def)+
  with A B have "seg ?L ?ly ((x # xs) @ (y # ys)) x"
    by (simp only: seg_append) simp
  with a b disj show ?thesis by (auto simp: ring_def)
qed

section \<open>The ListItem contract\<close>

definition items_ok :: "item_ops \<Rightarrow> heap \<Rightarrow> addr list \<Rightarrow> bool" where
  "items_ok I h ps \<longleftrightarrow> (\<forall>p \<in> set ps. li_view_value I h (li_view_links I p) = Inr p)"

text \<open>An item that is in no list: its links are the two null pointers.\<close>

definition item_free :: "item_ops \<Rightarrow> heap \<Rightarrow> addr \<Rightarrow> bool" where
  "item_free I h p \<longleftrightarrow>
     li_view_links I p \<noteq> 0 \<and> h_links h (li_view_links I p) = Some list_links_new"

definition list_rep :: "item_ops \<Rightarrow> heap \<Rightarrow> llist \<Rightarrow> addr list \<Rightarrow> bool" where
  "list_rep I h l ps \<longleftrightarrow>
     ring (h_links h) (map (li_view_links I) ps) \<and> items_ok I h ps \<and>
     l_first l = hd (map (li_view_links I) ps @ [0])"

text \<open>Only the items of \<open>S\<close> may change between \<open>h\<close> and \<open>h'\<close>.\<close>

definition heap_frame :: "item_ops \<Rightarrow> heap \<Rightarrow> heap \<Rightarrow> addr set \<Rightarrow> bool" where
  "heap_frame I h h' S \<longleftrightarrow>
     (\<forall>q. q \<notin> S \<longrightarrow> h_links h' (li_view_links I q) = h_links h (li_view_links I q) \<and>
          li_view_value I h' (li_view_links I q) = li_view_value I h (li_view_links I q))"

locale list_item =
  fixes I :: item_ops
  assumes links_inj: "li_view_links I p = li_view_links I q \<Longrightarrow> p = q"
  and prepare_law:
    "\<exists>h'. li_prepare_to_insert I h p = Inr (li_view_links I p, h') \<and> h_links h' = h_links h \<and>
       li_view_value I h' (li_view_links I p) = Inr p \<and>
       (\<forall>q. q \<noteq> p \<longrightarrow> li_view_value I h' (li_view_links I q) = li_view_value I h (li_view_links I q))"
  and value_self: "h_self h1 = h_self h2 \<Longrightarrow> li_view_value I h1 a = li_view_value I h2 a"
  and post_law: "li_post_remove I h a = li_view_value I h a"
begin

lemma links_inj_iff [simp]: "li_view_links I p = li_view_links I q \<longleftrightarrow> p = q"
  using links_inj by blast

lemma links_mem [simp]: "li_view_links I p \<in> li_view_links I ` S \<longleftrightarrow> p \<in> S"
  by auto

lemma value_links [simp]:
  "li_view_value I (h\<lparr>h_links := L\<rparr>) a = li_view_value I h a"
  by (rule value_self) simp

lemma items_ok_links [simp]: "items_ok I (h\<lparr>h_links := L\<rparr>) ps = items_ok I h ps"
  by (simp add: items_ok_def)

lemma insert_empty:
  assumes "item_free I h p"
  shows "\<exists>h'. list_insert_inner I h l p 0 = Inr (li_view_links I p, h', l\<lparr>l_first := li_view_links I p\<rparr>) \<and>
           ring (h_links h') [li_view_links I p] \<and> items_ok I h' [p] \<and> heap_frame I h h' {p}"
proof -
  obtain h1 where h1: "li_prepare_to_insert I h p = Inr (li_view_links I p, h1)" "h_links h1 = h_links h"
    "li_view_value I h1 (li_view_links I p) = Inr p"
    "\<And>q. q \<noteq> p \<Longrightarrow> li_view_value I h1 (li_view_links I q) = li_view_value I h (li_view_links I q)"
    using prepare_law [of h p] by blast
  with assms show ?thesis
    by (simp add: list_insert_inner_def item_free_def ring_def items_ok_def heap_frame_def)
qed

lemma insert_ring:
  assumes r: "ring (h_links h) (map (li_view_links I) (fs @ y # bs))" and ok: "items_ok I h (fs @ y # bs)"
    and free: "item_free I h p" and p: "p \<notin> set (fs @ y # bs)"
  shows "\<exists>h'. list_insert_inner I h l p (li_view_links I y) = Inr (li_view_links I p, h', l) \<and>
           ring (h_links h') (map (li_view_links I) (fs @ p # y # bs)) \<and>
           items_ok I h' (fs @ p # y # bs) \<and> heap_frame I h h' (set (p # fs @ y # bs))"
proof -
  let ?V = "li_view_links I"
  let ?zs = "map ?V (bs @ fs)"
  obtain h1 where h1: "li_prepare_to_insert I h p = Inr (?V p, h1)" "h_links h1 = h_links h"
    "li_view_value I h1 (?V p) = Inr p"
    "\<And>q. q \<noteq> p \<Longrightarrow> li_view_value I h1 (?V q) = li_view_value I h (?V q)"
    using prepare_law [of h p] by blast
  have r': "ring (h_links h) (?V y # ?zs)"
    using ring_rotate [of "h_links h" "map ?V fs" "?V y # map ?V bs"] r by simp
  define prev where "prev = last (?V y # ?zs)"
  have prev: "prev \<in> ?V ` set (y # bs @ fs)"
    using last_in_set [of "?V y # ?zs"] by (auto simp: prev_def simp del: last.simps)
  have cell: "h_links h (?V y) = Some \<lparr>lk_next = hd (?zs @ [?V y]), lk_prev = prev\<rparr>"
    using ring_cell [of _ "[]" "?V y" ?zs] r' by (simp add: prev_def)
  let ?h = "h1\<lparr>h_links := link_before (h_links h) (?V p) (?V y) prev\<rparr>"
  have nz: "?V y \<noteq> 0" using r' by (simp add: ring_def)
  have dom: "h_links h prev \<noteq> None" "h_links h (?V p) \<noteq> None" "h_links h (?V y) \<noteq> None"
    using ring_dom [OF r'] prev free by (auto simp: item_free_def)
  have "list_insert_inner I h l p (?V y) = Inr (?V p, ?h, l)"
    using h1 cell nz dom by (simp add: list_insert_inner_def link_before_def)
  moreover have "ring (h_links ?h) (map ?V (fs @ p # y # bs))"
    using ring_insert [OF r', of "?V p"] p free
      ring_rotate [of _ "?V y # map ?V bs" "map ?V fs @ [?V p]"]
    by (auto simp: item_free_def prev_def simp del: last.simps)
  moreover have "items_ok I ?h (fs @ p # y # bs)"
  proof -
    have "li_view_value I h1 (?V q) = Inr q" if "q \<in> set (fs @ y # bs)" for q
    proof -
      have "q \<noteq> p" using that p by blast
      with that h1(4) [of q] ok show ?thesis unfolding items_ok_def by metis
    qed
    with h1(3) show ?thesis by (simp add: items_ok_def)
  qed
  moreover have "heap_frame I h ?h (set (p # fs @ y # bs))"
  proof -
    have "?V q \<noteq> prev" if "q \<notin> set (p # fs @ y # bs)" for q
      using prev that by auto
    with h1(4) show ?thesis by (simp add: heap_frame_def link_frame)
  qed
  ultimately show ?thesis by blast
qed

lemma remove_ring:
  assumes r: "ring (h_links h) (map (li_view_links I) (fs @ y # bs))" and ok: "items_ok I h (fs @ y # bs)"
  shows "\<exists>h'. list_remove_internal I h l (li_view_links I y) =
             Inr (y, h', if l_first l = li_view_links I y
                         then l\<lparr>l_first := hd (map (li_view_links I) (bs @ fs) @ [0])\<rparr> else l) \<and>
           ring (h_links h') (map (li_view_links I) (fs @ bs)) \<and> items_ok I h' (fs @ bs) \<and>
           item_free I h' y \<and> heap_frame I h h' (set (fs @ y # bs))"
proof -
  let ?V = "li_view_links I"
  let ?zs = "map ?V (bs @ fs)"
  have r': "ring (h_links h) (?V y # ?zs)"
    using ring_rotate [of "h_links h" "map ?V fs" "?V y # map ?V bs"] r by simp
  define nxt prv where "nxt = hd (?zs @ [?V y])" and "prv = last (?V y # ?zs)"
  have mem: "nxt \<in> ?V ` set (y # bs @ fs)" "prv \<in> ?V ` set (y # bs @ fs)"
    using last_in_set [of "?V y # ?zs"] list.set_sel(1) [of "?zs @ [?V y]"]
    by (auto simp: nxt_def prv_def simp del: last.simps)
  have cell: "h_links h (?V y) = Some \<lparr>lk_next = nxt, lk_prev = prv\<rparr>"
    using ring_cell [of _ "[]" "?V y" ?zs] r' by (simp add: nxt_def prv_def)
  have dom: "h_links h nxt \<noteq> None" "h_links h prv \<noteq> None"
    using ring_dom [OF r'] mem by auto
  let ?L = "unlink (h_links h) (?V y) nxt prv"
  let ?h = "h\<lparr>h_links := ?L\<rparr>"
  have r2: "ring ?L ?zs"
    unfolding nxt_def prv_def by (rule ring_remove [OF r'])
  have free: "item_free I ?h y"
    using r' cell by (simp add: item_free_def unlink_item ring_def)
  have first: "lk_next (the (?L prv)) = hd (?zs @ [0])" "?L prv \<noteq> None"
  proof -
    show "lk_next (the (?L prv)) = hd (?zs @ [0])"
    proof (cases ?zs)
      case Nil
      then show ?thesis using unlink_item [of "h_links h" "?V y"] cell
        by (simp add: prv_def list_links_new_def)
    next
      case (Cons z zs)
      then have "prv \<noteq> ?V y"
        using r' last_in_set [of "z # zs"] by (auto simp: ring_def prv_def simp del: last_in_set)
      with Cons show ?thesis by (simp add: unlink_def nxt_def)
    qed
    show "?L prv \<noteq> None" using dom by (simp add: unlink_def)
  qed
  have "li_view_value I h (?V y) = Inr y" using ok by (simp add: items_ok_def)
  then have "list_remove_internal I h l (?V y) =
      Inr (y, ?h, if l_first l = ?V y then l\<lparr>l_first := hd (?zs @ [0])\<rparr> else l)"
    using cell dom first
    by (auto simp: list_remove_internal_def list_remove_internal_inner_def post_law
        unlink_def [symmetric])
  moreover have "ring (h_links ?h) (map ?V (fs @ bs))"
    using ring_rotate [of ?L "map ?V bs" "map ?V fs"] r2 by simp
  moreover have "items_ok I ?h (fs @ bs)"
    using ok by (auto simp: items_ok_def)
  moreover have "heap_frame I h ?h (set (fs @ y # bs))"
  proof -
    have "?V q \<noteq> nxt \<and> ?V q \<noteq> prv" if "q \<notin> set (fs @ y # bs)" for q
      using mem that by auto
    then show ?thesis by (simp add: heap_frame_def link_frame)
  qed
  ultimately show ?thesis using free by blast
qed

lemma rep_first [simp]: "list_rep I h l ps \<Longrightarrow> l_first l = 0 \<longleftrightarrow> ps = []"
  by (cases ps) (auto simp: list_rep_def ring_def)

lemma rep_distinct: "list_rep I h l ps \<Longrightarrow> distinct ps"
  unfolding list_rep_def ring_def distinct_map by blast

lemma rep_frame:
  assumes "list_rep I h l ps" and "heap_frame I h h' S" and "set ps \<inter> S = {}"
  shows "list_rep I h' l ps"
proof -
  have eq: "h_links h' (li_view_links I p) = h_links h (li_view_links I p)"
    "li_view_value I h' (li_view_links I p) = li_view_value I h (li_view_links I p)" if "p \<in> set ps" for p
    using assms(2,3) that by (auto simp: heap_frame_def)
  have "ring (h_links h') (map (li_view_links I) ps)"
    by (rule ring_frame [of "h_links h"]) (use assms(1) eq(1) in \<open>auto simp: list_rep_def\<close>)
  with assms(1) eq(2) show ?thesis by (simp add: list_rep_def items_ok_def)
qed

lemma free_frame: "item_free I h p \<Longrightarrow> heap_frame I h h' S \<Longrightarrow> p \<notin> S \<Longrightarrow> item_free I h' p"
  by (simp add: item_free_def heap_frame_def)

lemma push_back_ok:
  assumes r: "list_rep I h l ps" and p: "item_free I h p" "p \<notin> set ps"
  shows "\<exists>h' l'. list_push_back I h l p = Inr (h', l') \<and> list_rep I h' l' (ps @ [p]) \<and>
           heap_frame I h h' (set (p # ps))"
proof (cases ps)
  case Nil
  with r insert_empty [OF p(1), of l] show ?thesis
    by (auto simp: list_push_back_def list_rep_def)
next
  case (Cons y bs)
  with r have y: "l_first l = li_view_links I y" by (simp add: list_rep_def)
  have ring: "ring (h_links h) (map (li_view_links I) ([] @ y # bs))" and ok: "items_ok I h ([] @ y # bs)"
    using r Cons by (simp_all add: list_rep_def)
  from insert_ring [OF ring ok p(1), of l] p(2) Cons obtain h' where
    h': "list_insert_inner I h l p (li_view_links I y) = Inr (li_view_links I p, h', l)"
    "ring (h_links h') (map (li_view_links I) (p # y # bs))" "items_ok I h' (p # y # bs)"
    "heap_frame I h h' (set (p # y # bs))"
    by auto
  have "ring (h_links h') (map (li_view_links I) (ps @ [p]))"
    using ring_rotate [of _ "[li_view_links I p]" "map (li_view_links I) ps"] h'(2) Cons by simp
  with h' y Cons show ?thesis
    by (auto simp: list_push_back_def list_rep_def items_ok_def)
qed

lemma push_front_ok:
  assumes r: "list_rep I h l ps" and p: "item_free I h p" "p \<notin> set ps"
  shows "\<exists>h' l'. list_push_front I h l p = Inr (h', l') \<and> list_rep I h' l' (p # ps) \<and>
           heap_frame I h h' (set (p # ps))"
proof (cases ps)
  case Nil
  with r insert_empty [OF p(1), of l] show ?thesis
    by (auto simp: list_push_front_def list_rep_def)
next
  case (Cons y bs)
  with r have y: "l_first l = li_view_links I y" by (simp add: list_rep_def)
  have ring: "ring (h_links h) (map (li_view_links I) ([] @ y # bs))" and ok: "items_ok I h ([] @ y # bs)"
    using r Cons by (simp_all add: list_rep_def)
  from insert_ring [OF ring ok p(1), of l] p(2) Cons y show ?thesis
    by (auto simp: list_push_front_def list_rep_def)
qed

lemma remove_internal_ok:
  assumes r: "list_rep I h l (fs @ y # bs)"
  shows "\<exists>h' l'. list_remove_internal I h l (li_view_links I y) = Inr (y, h', l') \<and>
           list_rep I h' l' (fs @ bs) \<and> item_free I h' y \<and> heap_frame I h h' (set (fs @ y # bs))"
proof -
  have ring: "ring (h_links h) (map (li_view_links I) (fs @ y # bs))" and ok: "items_ok I h (fs @ y # bs)"
    and dist: "distinct (fs @ y # bs)"
    using r rep_distinct [OF r] by (simp_all add: list_rep_def)
  have "l_first l = li_view_links I y \<longleftrightarrow> fs = []"
    using r dist by (cases fs) (auto simp: list_rep_def)
  with remove_ring [OF ring ok, of l] r show ?thesis
    by (cases fs) (auto simp: list_rep_def)
qed

lemma pop_front_ok:
  assumes r: "list_rep I h l ps"
  shows "\<exists>h' l'. list_pop_front I h l = Inr (if ps = [] then None else Some (hd ps), h', l') \<and>
           list_rep I h' l' (tl ps) \<and> (ps \<noteq> [] \<longrightarrow> item_free I h' (hd ps)) \<and> heap_frame I h h' (set ps)"
proof (cases ps)
  case Nil
  with r show ?thesis by (auto simp: list_pop_front_def heap_frame_def)
next
  case (Cons y bs)
  with r have "l_first l = li_view_links I y" "l_first l \<noteq> 0" by (auto simp: list_rep_def ring_def)
  with remove_internal_ok [of h l "[]" y bs] r Cons show ?thesis
    by (auto simp: list_pop_front_def)
qed

lemma pop_back_ok:
  assumes r: "list_rep I h l ps"
  shows "\<exists>h' l'. list_pop_back I h l = Inr (if ps = [] then None else Some (last ps), h', l') \<and>
           list_rep I h' l' (butlast ps) \<and> (ps \<noteq> [] \<longrightarrow> item_free I h' (last ps)) \<and>
           heap_frame I h h' (set ps)"
proof (cases ps rule: rev_cases)
  case Nil
  with r show ?thesis by (auto simp: list_pop_back_def heap_frame_def)
next
  case (snoc ys y)
  obtain z zs where zs: "ys @ [y] = z # zs" by (cases "ys @ [y]") auto
  have first: "l_first l = li_view_links I z" "l_first l \<noteq> 0"
    using r snoc zs rep_first [OF r] by (auto simp: list_rep_def)
  have "h_links h (li_view_links I z) =
      Some \<lparr>lk_next = hd (map (li_view_links I) zs @ [li_view_links I z]), lk_prev = li_view_links I y\<rparr>"
    using ring_cell [of "h_links h" "[]" "li_view_links I z" "map (li_view_links I) zs"] r snoc zs
      last_map [of "z # zs" "li_view_links I"]
    by (auto simp: list_rep_def simp del: last.simps) (metis last_snoc list.map(2) zs)
  with remove_internal_ok [of h l ys y "[]"] r snoc first show ?thesis
    by (auto simp: list_pop_back_def)
qed

end

context list_item
begin

lemma remove_ok:
  assumes r: "list_rep I h l ps" and p: "p \<notin> set ps \<Longrightarrow> item_free I h p"
  shows "\<exists>h' l'. list_remove I h l p = Inr (if p \<in> set ps then Some p else None, h', l') \<and>
           list_rep I h' l' (removeAll p ps) \<and> item_free I h' p \<and> heap_frame I h h' (set ps)"
proof (cases "p \<in> set ps")
  case False
  with r p show ?thesis
    by (auto simp: list_remove_def item_free_def list_links_new_def heap_frame_def)
next
  case True
  then obtain fs bs where ps: "ps = fs @ p # bs" by (auto simp: in_set_conv_decomp)
  let ?V = "li_view_links I"
  have ring: "ring (h_links h) (map ?V fs @ ?V p # map ?V bs)" and dist: "distinct ps"
    using r ps rep_distinct [OF r] by (simp_all add: list_rep_def)
  then have fresh: "removeAll p ps = fs @ bs" using ps by (simp add: removeAll_id)
  let ?zs = "map ?V bs @ map ?V fs"
  have cell: "h_links h (?V p) = Some \<lparr>lk_next = hd (?zs @ [?V p]), lk_prev = last (?V p # ?zs)\<rparr>"
    using ring_cell [OF ring] by simp
  have nz: "hd (?zs @ [?V p]) \<noteq> 0" "last (?V p # ?zs) \<noteq> 0"
    using ring last_in_set [of "?V p # ?zs"] list.set_sel(1) [of "?zs @ [?V p]"]
    by (auto simp: ring_def simp del: last.simps)
  obtain c where c: "h_links h (hd (?zs @ [?V p])) = Some c" "lk_prev c = ?V p"
  proof (cases ?zs)
    case Nil
    with cell that show ?thesis by auto
  next
    case (Cons z zs)
    have "ring (h_links h) (?V p # z # zs)" using ring_rotate [OF ring] Cons by simp
    with that Cons show ?thesis by (simp add: ring_def)
  qed
  have "list_remove I h l p =
      exec_bind (list_remove_internal I h l (?V p)) (\<lambda>(p, h, l). Inr (Some p, h, l))"
    using cell nz c by (simp add: list_remove_def list_remove_internal_def Let_def)
  with remove_internal_ok [of h l fs p bs] r ps True fresh show ?thesis by auto
qed

lemma push_all_back_ok:
  assumes a: "list_rep I h l ps" and b: "list_rep I h m qs" and disj: "set ps \<inter> set qs = {}"
  shows "\<exists>h' l' m'. list_push_all_back h l m = Inr (h', l', m') \<and> list_rep I h' l' (ps @ qs) \<and>
           list_rep I h' m' [] \<and> heap_frame I h h' (set ps \<union> set qs)"
proof (cases "ps = [] \<or> qs = []")
  case True
  with a b show ?thesis
    by (auto simp: list_push_all_back_def list_is_empty_def list_rep_def items_ok_def heap_frame_def)
next
  case False
  then obtain x xs y ys where xy: "ps = x # xs" "qs = y # ys" by (meson neq_Nil_conv)
  let ?V = "li_view_links I"
  let ?X = "map ?V xs" and ?Y = "map ?V ys"
  let ?lx = "last (?V x # ?X)" and ?ly = "last (?V y # ?Y)"
  have ra: "ring (h_links h) (?V x # ?X)" and rb: "ring (h_links h) (?V y # ?Y)"
    using a b xy by (simp_all add: list_rep_def)
  have first: "l_first l = ?V x" "l_first m = ?V y" "?V x \<noteq> 0" "?V y \<noteq> 0"
    using a b xy ra rb by (simp_all add: list_rep_def ring_def)
  have cx: "h_links h (?V x) = Some \<lparr>lk_next = hd (?X @ [?V x]), lk_prev = ?lx\<rparr>"
    and cy: "h_links h (?V y) = Some \<lparr>lk_next = hd (?Y @ [?V y]), lk_prev = ?ly\<rparr>"
    using ring_cell [of _ "[]" "?V x" ?X] ring_cell [of _ "[]" "?V y" ?Y] ra rb by auto
  have mem: "?lx \<in> ?V ` set ps" "?ly \<in> ?V ` set qs"
    using last_in_set [of "?V x # ?X"] last_in_set [of "?V y # ?Y"] xy by (auto simp del: last.simps)
  then have dom: "h_links h ?lx \<noteq> None" "h_links h ?ly \<noteq> None"
    using ring_dom [OF ra] ring_dom [OF rb] xy by auto
  let ?L = "upd_prev (upd_next (upd_next (upd_prev (h_links h) (?V x) ?ly) ?ly (?V x)) ?lx (?V y)) (?V y) ?lx"
  have "list_push_all_back h l m = Inr (h\<lparr>h_links := ?L\<rparr>, l, m\<lparr>l_first := 0\<rparr>)"
    using first cx cy dom by (simp add: list_push_all_back_def list_is_empty_def Let_def)
  moreover have "ring ?L (?V x # ?X @ ?V y # ?Y)"
    by (rule ring_join [OF ra rb]) (use disj xy in auto)
  moreover have "heap_frame I h (h\<lparr>h_links := ?L\<rparr>) (set ps \<union> set qs)"
  proof -
    have "?V q \<noteq> ?lx \<and> ?V q \<noteq> ?ly" if "q \<notin> set ps \<union> set qs" for q
      using mem that by auto
    with xy show ?thesis by (simp add: heap_frame_def)
  qed
  ultimately show ?thesis
    using a b first xy by (auto simp: list_rep_def items_ok_def)
qed

lemma drop_ok:
  assumes "list_rep I h l ps" and "length ps < fuel"
  shows "\<exists>h' l'. list_drop fuel I h l = Some (Inr (ps, h', l')) \<and> list_rep I h' l' [] \<and>
           (\<forall>p \<in> set ps. item_free I h' p) \<and> heap_frame I h h' (set ps)"
  using assms
proof (induction fuel arbitrary: h l ps)
  case 0
  then show ?case by simp
next
  case (Suc fuel)
  obtain h1 l1 where pop: "list_pop_front I h l = Inr (if ps = [] then None else Some (hd ps), h1, l1)"
    "list_rep I h1 l1 (tl ps)" "ps \<noteq> [] \<longrightarrow> item_free I h1 (hd ps)" "heap_frame I h h1 (set ps)"
    using pop_front_ok [OF Suc.prems(1)] by blast
  show ?case
  proof (cases ps)
    case Nil
    with pop show ?thesis by simp
  next
    case (Cons p qs)
    have dist: "p \<notin> set qs"
      using rep_distinct [OF Suc.prems(1)] Cons by simp
    obtain h2 l2 where rest: "list_drop fuel I h1 l1 = Some (Inr (qs, h2, l2))" "list_rep I h2 l2 []"
      "\<forall>p \<in> set qs. item_free I h2 p" "heap_frame I h1 h2 (set qs)"
      using Suc.IH [OF pop(2)] Cons Suc.prems(2) by auto
    have "item_free I h2 p"
      using free_frame [OF _ rest(4) dist] pop(3) Cons by simp
    with pop(1,4) rest Cons show ?thesis
      by (auto simp: heap_frame_def)
  qed
qed

lemma iter_collect_ok:
  assumes "list_rep I h l (fs @ bs)" and "length bs < fuel"
    and "i_stop it = l_first l" and "i_current it = hd (map (li_view_links I) bs @ [0])"
  shows "list_iter_collect fuel I h it = Some (Inr bs)"
  using assms
proof (induction fuel arbitrary: fs bs it)
  case 0
  then show ?case by simp
next
  case (Suc fuel)
  let ?V = "li_view_links I"
  show ?case
  proof (cases bs)
    case Nil
    with Suc.prems show ?thesis by (simp add: list_iter_next_def)
  next
    case (Cons y ys)
    have ring: "ring (h_links h) (map ?V fs @ ?V y # map ?V ys)"
      and val: "li_view_value I h (?V y) = Inr y"
      using Suc.prems(1) Cons by (simp_all add: list_rep_def items_ok_def)
    let ?c = "hd ((map ?V ys @ map ?V fs) @ [?V y])"
    have "?V y \<noteq> 0" using ring by (simp add: ring_def)
    then have step: "list_iter_next I h it = Inr (Some y, it\<lparr>i_current := (if ?c \<noteq> i_stop it then ?c else 0)\<rparr>)"
      using ring_cell [OF ring] val Suc.prems(4) Cons by (simp add: list_iter_next_def Let_def)
    have "(if ?c \<noteq> i_stop it then ?c else 0) = hd (map ?V ys @ [0])"
      using Suc.prems(1,3) Cons ring by (cases ys; cases fs) (auto simp: list_rep_def ring_def)
    then have "list_iter_collect fuel I h (it\<lparr>i_current := (if ?c \<noteq> i_stop it then ?c else 0)\<rparr>) =
        Some (Inr ys)"
      using Suc.IH [of "fs @ [y]" ys] Suc.prems Cons by simp
    with step Cons show ?thesis by simp
  qed
qed

end

section \<open>Cursors as positions\<close>

text \<open>The cursor stands between \<open>fs\<close> and \<open>bs\<close>.\<close>

definition cursor_rep :: "item_ops \<Rightarrow> heap \<Rightarrow> cursor \<Rightarrow> addr list \<Rightarrow> addr list \<Rightarrow> bool" where
  "cursor_rep I h c fs bs \<longleftrightarrow>
     list_rep I h (cu_list c) (fs @ bs) \<and> cu_next c = hd (map (li_view_links I) bs @ [0])"

context list_item
begin

lemma rep_member_nonzero: "list_rep I h l ps \<Longrightarrow> p \<in> set ps \<Longrightarrow> li_view_links I p \<noteq> 0"
  by (metis (no_types, lifting) image_eqI list.set_map list_rep_def ring_def)

lemma cursor_ends:
  assumes "cursor_rep I h c fs bs"
  shows "cu_next c = 0 \<longleftrightarrow> bs = []"
    and "cu_next c = l_first (cu_list c) \<longleftrightarrow> fs = []"
proof -
  have r: "list_rep I h (cu_list c) (fs @ bs)" and n: "cu_next c = hd (map (li_view_links I) bs @ [0])"
    using assms by (simp_all add: cursor_rep_def)
  show "cu_next c = 0 \<longleftrightarrow> bs = []"
    using n rep_member_nonzero [OF r] by (cases bs) auto
  show "cu_next c = l_first (cu_list c) \<longleftrightarrow> fs = []"
  proof (cases fs)
    case Nil
    with r n show ?thesis by (cases bs) (auto simp: list_rep_def)
  next
    case (Cons x xs)
    then have "l_first (cu_list c) = li_view_links I x" using r by (simp add: list_rep_def)
    moreover have "cu_next c \<noteq> li_view_links I x"
      using n rep_distinct [OF r] Cons rep_member_nonzero [OF r, of x] by (cases bs) auto
    ultimately show ?thesis using Cons by simp
  qed
qed

lemma cursor_move_next_ok:
  assumes c: "cursor_rep I h c fs bs"
  shows "\<exists>c'. cursor_move_next h c = Inr (bs \<noteq> [], c') \<and>
           (case bs of [] \<Rightarrow> c' = c | y # ys \<Rightarrow> cursor_rep I h c' (fs @ [y]) ys)"
proof (cases bs)
  case Nil
  with c cursor_ends(1) [OF c] show ?thesis by (simp add: cursor_move_next_def)
next
  case (Cons y ys)
  let ?V = "li_view_links I"
  have ring: "ring (h_links h) (map ?V fs @ ?V y # map ?V ys)" and r: "list_rep I h (cu_list c) (fs @ y # ys)"
    and n: "cu_next c = ?V y" "cu_next c \<noteq> 0"
    using c Cons cursor_ends(1) [OF c] by (simp_all add: cursor_rep_def list_rep_def)
  let ?c = "hd ((map ?V ys @ map ?V fs) @ [?V y])"
  have "(if ?c = l_first (cu_list c) then 0 else ?c) = hd (map ?V ys @ [0])"
    using r ring by (cases ys; cases fs) (auto simp: list_rep_def ring_def)
  with ring_cell [OF ring] n r Cons show ?thesis
    by (auto simp: cursor_move_next_def cursor_rep_def)
qed

lemma cursor_prev_ptr_ok:
  assumes c: "cursor_rep I h c fs bs"
  shows "cursor_prev_ptr h c = Inr (if fs = [] then 0 else li_view_links I (last fs))"
proof (cases fs rule: rev_cases)
  case Nil
  with cursor_ends(2) [OF c] show ?thesis by (simp add: cursor_prev_ptr_def)
next
  case (snoc xs x)
  let ?V = "li_view_links I"
  have r: "list_rep I h (cu_list c) (xs @ x # bs)" using c snoc by (simp add: cursor_rep_def)
  then have ring: "ring (h_links h) (map ?V bs @ map ?V xs @ [?V x])"
    using ring_rotate [of "h_links h" "map ?V (xs @ [x])" "map ?V bs"] by (simp add: list_rep_def)
  have ne: "cu_next c \<noteq> l_first (cu_list c)" using cursor_ends(2) [OF c] snoc by simp
  have "\<exists>l. h_links h (if cu_next c = 0 then l_first (cu_list c) else cu_next c) = Some l \<and> lk_prev l = ?V x"
  proof (cases bs)
    case (Cons y ys)
    then have "cu_next c = ?V y" using c by (simp add: cursor_rep_def)
    with ring_cell [of "h_links h" "[]" "?V y" "map ?V ys @ map ?V xs @ [?V x]"] ring Cons
      cursor_ends(1) [OF c] show ?thesis by simp
  next
    case Nil
    obtain z zs where z: "xs @ [x] = z # zs" by (cases "xs @ [x]") auto
    then have "map ?V xs @ [?V x] = ?V z # map ?V zs" by (metis list.simps(9) map_append list.simps(8))
    moreover have "l_first (cu_list c) = ?V z" using r z Nil by (auto simp: list_rep_def hd_append split: list.splits)
    moreover have "last (?V z # map ?V zs) = ?V x" using calculation(1) by (metis last_snoc)
    ultimately show ?thesis
      using ring_cell [of "h_links h" "[]" "?V z" "map ?V zs"] ring Nil cursor_ends(1) [OF c]
      by (simp del: last.simps)
  qed
  with ne snoc show ?thesis by (auto simp: cursor_prev_ptr_def Let_def)
qed

lemma cursor_move_prev_ok:
  assumes c: "cursor_rep I h c fs bs"
  shows "\<exists>c'. cursor_move_prev h c = Inr (fs \<noteq> [], c') \<and>
           (if fs = [] then c' = c else cursor_rep I h c' (butlast fs) (last fs # bs))"
proof (cases "fs = []")
  case True
  with cursor_ends(2) [OF c] show ?thesis by (simp add: cursor_move_prev_def)
next
  case False
  then obtain xs x where "fs = xs @ [x]" by (metis rev_exhaust)
  with c cursor_prev_ptr_ok [OF c] cursor_ends(2) [OF c] show ?thesis
    by (simp add: cursor_move_prev_def cursor_rep_def)
qed

lemma cursor_insert_inner_ok:
  assumes c: "cursor_rep I h c fs bs" and p: "item_free I h p" "p \<notin> set (fs @ bs)"
  shows "\<exists>h' c'. cursor_insert_inner I h c p = Inr (li_view_links I p, h', c') \<and>
           list_rep I h' (cu_list c') (fs @ p # bs) \<and> cu_next c' = cu_next c \<and>
           heap_frame I h h' (set (p # fs @ bs))"
proof -
  let ?V = "li_view_links I" and ?l = "cu_list c"
  have r: "list_rep I h ?l (fs @ bs)" using c by (simp add: cursor_rep_def)
  note ends = cursor_ends [OF c]
  consider (none) "fs = []" "bs = []" | (at_end) y ys where "fs = y # ys" "bs = []"
    | (front) y ys where "bs = y # ys"
    by (cases fs; cases bs) auto
  then show ?thesis
  proof cases
    case none
    obtain h' where h': "list_insert_inner I h ?l p 0 = Inr (?V p, h', ?l\<lparr>l_first := ?V p\<rparr>)"
      "ring (h_links h') [?V p]" "items_ok I h' [p]" "heap_frame I h h' {p}"
      using insert_empty [OF p(1), of ?l] by blast
    moreover have "?V p \<noteq> 0" "l_first ?l = 0" using p(1) r none by (simp_all add: item_free_def list_rep_def)
    ultimately have "cursor_insert_inner I h c p = Inr (?V p, h', c\<lparr>cu_list := ?l\<lparr>l_first := ?V p\<rparr>\<rparr>)"
      using ends none by (simp add: cursor_insert_inner_def)
    with h' none show ?thesis by (simp add: list_rep_def)
  next
    case at_end
    have f: "l_first ?l = ?V y" using r at_end by (simp add: list_rep_def)
    from insert_ring [of h "[]" y ys p ?l] r at_end p obtain h' where
      h': "list_insert_inner I h ?l p (?V y) = Inr (?V p, h', ?l)"
      "ring (h_links h') (map ?V (p # y # ys))" "items_ok I h' (p # y # ys)"
      "heap_frame I h h' (set (p # y # ys))" by (auto simp: list_rep_def)
    have "ring (h_links h') (map ?V (fs @ [p]))"
      using ring_rotate [of _ "[?V p]" "map ?V fs"] h'(2) at_end by simp
    with h' f at_end ends c show ?thesis
      by (auto simp: cursor_insert_inner_def list_rep_def items_ok_def)
  next
    case front
    have n: "cu_next c = ?V y" "cu_next c \<noteq> 0" using c front ends by (simp_all add: cursor_rep_def)
    from insert_ring [of h fs y ys p ?l] r front p obtain h' where
      h': "list_insert_inner I h ?l p (?V y) = Inr (?V p, h', ?l)"
      "ring (h_links h') (map ?V (fs @ p # y # ys))" "items_ok I h' (fs @ p # y # ys)"
      "heap_frame I h h' (set (p # fs @ y # ys))" by (auto simp: list_rep_def)
    with n r front ends show ?thesis
      by (cases fs) (auto simp: cursor_insert_inner_def list_rep_def)
  qed
qed

lemma cursor_remove_next_ok:
  assumes c: "cursor_rep I h c fs bs"
  shows "\<exists>h' c'. cursor_remove_next I h c = Inr (if bs = [] then None else Some (hd bs), h', c') \<and>
           cursor_rep I h' c' fs (tl bs) \<and> (bs \<noteq> [] \<longrightarrow> item_free I h' (hd bs)) \<and>
           heap_frame I h h' (set (fs @ bs))"
proof (cases bs)
  case Nil
  with c cursor_ends(1) [OF c] show ?thesis
    by (simp add: cursor_remove_next_def cursor_peek_next_def heap_frame_def)
next
  case (Cons y ys)
  have n: "cu_next c = li_view_links I y" "cu_next c \<noteq> 0"
    using c Cons cursor_ends(1) [OF c] by (simp_all add: cursor_rep_def)
  obtain c1 where c1: "cursor_move_next h c = Inr (True, c1)" "cursor_rep I h c1 (fs @ [y]) ys"
    using cursor_move_next_ok [OF c] Cons by auto
  then have "list_rep I h (cu_list c1) (fs @ y # ys)" by (simp add: cursor_rep_def)
  from remove_internal_ok [OF this] obtain h' l' where
    "list_remove_internal I h (cu_list c1) (li_view_links I y) = Inr (y, h', l')"
    "list_rep I h' l' (fs @ ys)" "item_free I h' y" "heap_frame I h h' (set (fs @ y # ys))" by blast
  with c1 n Cons show ?thesis
    by (auto simp: cursor_remove_next_def cursor_peek_next_def cursor_peek_remove_def cursor_rep_def)
qed

lemma cursor_remove_prev_ok:
  assumes c: "cursor_rep I h c fs bs"
  shows "\<exists>h' c'. cursor_remove_prev I h c = Inr (if fs = [] then None else Some (last fs), h', c') \<and>
           cursor_rep I h' c' (butlast fs) bs \<and> (fs \<noteq> [] \<longrightarrow> item_free I h' (last fs)) \<and>
           heap_frame I h h' (set (fs @ bs))"
proof (cases fs rule: rev_cases)
  case Nil
  with c cursor_prev_ptr_ok [OF c] show ?thesis
    by (simp add: cursor_remove_prev_def cursor_peek_prev_def heap_frame_def)
next
  case (snoc xs x)
  have r: "list_rep I h (cu_list c) (xs @ x # bs)" using c snoc by (simp add: cursor_rep_def)
  have x: "li_view_links I x \<noteq> 0" by (rule rep_member_nonzero [OF r]) simp
  from remove_internal_ok [OF r] obtain h' l' where
    "list_remove_internal I h (cu_list c) (li_view_links I x) = Inr (x, h', l')"
    "list_rep I h' l' (xs @ bs)" "item_free I h' x" "heap_frame I h h' (set (xs @ x # bs))" by blast
  with c snoc x cursor_prev_ptr_ok [OF c] show ?thesis
    by (auto simp: cursor_remove_prev_def cursor_peek_prev_def cursor_peek_remove_def cursor_rep_def)
qed

end

section \<open>Operation sequences\<close>

text \<open>
  Two lists over one heap, and the calls a client makes on the first of them; \<open>LSwap\<close> exchanges
  their roles. \<open>dl_spec\<close> is the promise, on the lists of items. A client may insert only an item whose
  \<open>ListArc\<close> it owns (an item of \<open>U\<close> in neither list), and may name to \<open>remove\<close> only an item that is not
  in the other list, as its safety requirement says; otherwise \<open>dl_spec\<close> is undefined.
\<close>

datatype dl_op = LPushBack addr | LPushFront addr | LPopBack | LPopFront | LRemove addr | LAppend | LSwap

fun dl_step ::
  "item_ops \<Rightarrow> dl_op \<Rightarrow> heap \<times> llist \<times> llist \<Rightarrow> (addr option \<times> heap \<times> llist \<times> llist) exec" where
  "dl_step I (LPushBack p) (h, l, m) = exec_bind (list_push_back I h l p) (\<lambda>(h, l). Inr (None, h, l, m))"
| "dl_step I (LPushFront p) (h, l, m) = exec_bind (list_push_front I h l p) (\<lambda>(h, l). Inr (None, h, l, m))"
| "dl_step I LPopBack (h, l, m) = exec_bind (list_pop_back I h l) (\<lambda>(r, h, l). Inr (r, h, l, m))"
| "dl_step I LPopFront (h, l, m) = exec_bind (list_pop_front I h l) (\<lambda>(r, h, l). Inr (r, h, l, m))"
| "dl_step I (LRemove p) (h, l, m) = exec_bind (list_remove I h l p) (\<lambda>(r, h, l). Inr (r, h, l, m))"
| "dl_step I LAppend (h, l, m) = exec_bind (list_push_all_back h l m) (\<lambda>(h, l, m). Inr (None, h, l, m))"
| "dl_step I LSwap (h, l, m) = Inr (None, h, m, l)"

fun dl_run ::
  "item_ops \<Rightarrow> dl_op list \<Rightarrow> heap \<times> llist \<times> llist \<Rightarrow> (addr option list \<times> heap \<times> llist \<times> llist) exec" where
  "dl_run I [] s = Inr ([], s)"
| "dl_run I (c # cs) s =
     exec_bind (dl_step I c s) (\<lambda>(r, s'). exec_bind (dl_run I cs s') (\<lambda>(rs, s''). Inr (r # rs, s'')))"

fun dl_spec ::
  "addr set \<Rightarrow> dl_op \<Rightarrow> addr list \<times> addr list \<Rightarrow> (addr option \<times> addr list \<times> addr list) option" where
  "dl_spec U (LPushBack p) (ps, qs) =
     (if p \<in> U \<and> p \<notin> set ps \<union> set qs then Some (None, ps @ [p], qs) else None)"
| "dl_spec U (LPushFront p) (ps, qs) =
     (if p \<in> U \<and> p \<notin> set ps \<union> set qs then Some (None, p # ps, qs) else None)"
| "dl_spec U LPopBack (ps, qs) = Some (if ps = [] then None else Some (last ps), butlast ps, qs)"
| "dl_spec U LPopFront (ps, qs) = Some (if ps = [] then None else Some (hd ps), tl ps, qs)"
| "dl_spec U (LRemove p) (ps, qs) =
     (if p \<in> U \<and> p \<notin> set qs then Some (if p \<in> set ps then Some p else None, removeAll p ps, qs) else None)"
| "dl_spec U LAppend (ps, qs) = Some (None, ps @ qs, [])"
| "dl_spec U LSwap (ps, qs) = Some (None, qs, ps)"

fun dl_spec_run ::
  "addr set \<Rightarrow> dl_op list \<Rightarrow> addr list \<times> addr list \<Rightarrow> (addr option list \<times> addr list \<times> addr list) option" where
  "dl_spec_run U [] s = Some ([], s)"
| "dl_spec_run U (c # cs) s =
     (case dl_spec U c s of
        None \<Rightarrow> None
      | Some (r, s') \<Rightarrow> (case dl_spec_run U cs s' of None \<Rightarrow> None | Some (rs, s'') \<Rightarrow> Some (r # rs, s'')))"

fun dl_inv :: "item_ops \<Rightarrow> addr set \<Rightarrow> heap \<times> llist \<times> llist \<Rightarrow> addr list \<times> addr list \<Rightarrow> bool" where
  "dl_inv I U (h, l, m) (ps, qs) \<longleftrightarrow>
     list_rep I h l ps \<and> list_rep I h m qs \<and> set ps \<inter> set qs = {} \<and> set ps \<union> set qs \<subseteq> U \<and>
     (\<forall>p \<in> U - (set ps \<union> set qs). item_free I h p)"

context list_item
begin

text \<open>A call that changes only items of the first list, or the one it inserts or removes.\<close>

lemma dl_invI:
  assumes inv: "dl_inv I U (h, l, m) (ps, qs)" and r: "list_rep I h' l' ps'" and fr: "heap_frame I h h' S"
    and S: "S \<inter> set qs = {}" "set ps' \<subseteq> U" "set ps' \<inter> set qs = {}"
    and free: "\<And>p. p \<in> U \<Longrightarrow> p \<in> S \<union> set ps \<Longrightarrow> p \<notin> set ps' \<Longrightarrow> p \<notin> set qs \<Longrightarrow> item_free I h' p"
  shows "dl_inv I U (h', l', m) (ps', qs)"
proof -
  have "list_rep I h' m qs"
    by (rule rep_frame [OF _ fr]) (use inv S(1) in auto)
  moreover have "item_free I h' p" if "p \<in> U" "p \<notin> set ps'" "p \<notin> set qs" for p
  proof (cases "p \<in> S \<union> set ps")
    case True
    with that show ?thesis using free by blast
  next
    case False
    with inv that show ?thesis using free_frame [OF _ fr, of p] by auto
  qed
  ultimately show ?thesis using r S inv by auto
qed

lemma dl_step_ok:
  assumes inv: "dl_inv I U (h, l, m) (ps, qs)" and spec: "dl_spec U c (ps, qs) = Some (r, ps', qs')"
  shows "\<exists>s. dl_step I c (h, l, m) = Inr (r, s) \<and> dl_inv I U s (ps', qs')"
proof -
  have rep: "list_rep I h l ps" "list_rep I h m qs" and disj: "set ps \<inter> set qs = {}" "set ps \<union> set qs \<subseteq> U"
    and free: "\<And>p. p \<in> U \<Longrightarrow> p \<notin> set ps \<union> set qs \<Longrightarrow> item_free I h p"
    using inv by auto
  show ?thesis
  proof (cases c)
    case (LPushBack p)
    with spec have p: "p \<in> U" "p \<notin> set ps \<union> set qs" "ps' = ps @ [p]" "qs' = qs" "r = None"
      by (auto split: if_splits)
    with push_back_ok [OF rep(1) free, of p] obtain h' l' where
      ins: "list_push_back I h l p = Inr (h', l')" "list_rep I h' l' (ps @ [p])" "heap_frame I h h' (set (p # ps))"
      by auto
    have "dl_inv I U (h', l', m) (ps @ [p], qs)"
      by (rule dl_invI [OF inv ins(2,3)]) (use p disj in auto)
    with ins(1) show ?thesis using LPushBack p by auto
  next
    case (LPushFront p)
    with spec have p: "p \<in> U" "p \<notin> set ps \<union> set qs" "ps' = p # ps" "qs' = qs" "r = None"
      by (auto split: if_splits)
    with push_front_ok [OF rep(1) free, of p] obtain h' l' where
      ins: "list_push_front I h l p = Inr (h', l')" "list_rep I h' l' (p # ps)" "heap_frame I h h' (set (p # ps))"
      by auto
    have "dl_inv I U (h', l', m) (p # ps, qs)"
      by (rule dl_invI [OF inv ins(2,3)]) (use p disj in auto)
    with ins(1) show ?thesis using LPushFront p by auto
  next
    case LPopBack
    obtain h' l' where pop: "list_pop_back I h l = Inr (if ps = [] then None else Some (last ps), h', l')"
      "list_rep I h' l' (butlast ps)" "ps \<noteq> [] \<longrightarrow> item_free I h' (last ps)" "heap_frame I h h' (set ps)"
      using pop_back_ok [OF rep(1)] by blast
    have "dl_inv I U (h', l', m) (butlast ps, qs)"
      by (rule dl_invI [OF inv pop(2,4)])
        (use pop disj in \<open>auto dest: in_set_butlastD\<close>, (cases ps rule: rev_cases, auto)+)
    with LPopBack spec pop(1) show ?thesis by auto
  next
    case LPopFront
    obtain h' l' where pop: "list_pop_front I h l = Inr (if ps = [] then None else Some (hd ps), h', l')"
      "list_rep I h' l' (tl ps)" "ps \<noteq> [] \<longrightarrow> item_free I h' (hd ps)" "heap_frame I h h' (set ps)"
      using pop_front_ok [OF rep(1)] by blast
    have "dl_inv I U (h', l', m) (tl ps, qs)"
      by (rule dl_invI [OF inv pop(2,4)]) (use pop disj in \<open>(cases ps, auto)+\<close>)
    with LPopFront spec pop(1) show ?thesis by auto
  next
    case (LRemove p)
    with spec have p: "p \<in> U" "p \<notin> set qs" "ps' = removeAll p ps" "qs' = qs"
      "r = (if p \<in> set ps then Some p else None)"
      by (auto split: if_splits)
    obtain h' l' where rm: "list_remove I h l p = Inr (if p \<in> set ps then Some p else None, h', l')"
      "list_rep I h' l' (removeAll p ps)" "item_free I h' p" "heap_frame I h h' (set ps)"
      using remove_ok [OF rep(1)] free p by (metis UnE)
    have "dl_inv I U (h', l', m) (removeAll p ps, qs)"
      by (rule dl_invI [OF inv rm(2,4)]) (use rm disj in auto)
    with LRemove p rm(1) show ?thesis by auto
  next
    case LAppend
    obtain h' l' m' where app: "list_push_all_back h l m = Inr (h', l', m')" "list_rep I h' l' (ps @ qs)"
      "list_rep I h' m' []" "heap_frame I h h' (set ps \<union> set qs)"
      using push_all_back_ok [OF rep disj(1)] by blast
    have "item_free I h' p" if "p \<in> U" "p \<notin> set ps \<union> set qs" for p
      using free_frame [OF free app(4)] that by blast
    with app(2,3) disj have "dl_inv I U (h', l', m') (ps @ qs, [])" by auto
    with LAppend spec app(1) show ?thesis by auto
  next
    case LSwap
    with inv spec show ?thesis by auto
  qed
qed

lemma dl_run_ok:
  assumes "dl_inv I U s t" and "dl_spec_run U cs t = Some (rs, t')"
  shows "\<exists>s'. dl_run I cs s = Inr (rs, s') \<and> dl_inv I U s' t'"
  using assms
proof (induction cs arbitrary: s t rs)
  case Nil
  then show ?case by simp
next
  case (Cons c cs)
  from Cons.prems(2) obtain r t1 rs' where
    c: "dl_spec U c t = Some (r, t1)" "dl_spec_run U cs t1 = Some (rs', t')" "rs = r # rs'"
    by (auto split: option.splits)
  obtain h l m ps qs ps' qs' where "s = (h, l, m)" "t = (ps, qs)" "t1 = (ps', qs')"
    by (metis prod.exhaust)
  then obtain s1 where "dl_step I c s = Inr (r, s1)" "dl_inv I U s1 t1"
    using dl_step_ok c(1) Cons.prems(1) by blast
  with Cons.IH [OF _ c(2)] c(3) show ?case by fastforce
qed

end

text \<open>The same for a cursor: the promise is a list split at the position of the cursor.\<close>

datatype cu_op = CMoveNext | CMovePrev | CInsertNext addr | CInsertPrev addr | CRemoveNext | CRemovePrev
datatype cu_out = CDone | CMoved bool | CItem "addr option"

fun cu_step :: "item_ops \<Rightarrow> cu_op \<Rightarrow> heap \<times> cursor \<Rightarrow> (cu_out \<times> heap \<times> cursor) exec" where
  "cu_step I CMoveNext (h, c) = exec_bind (cursor_move_next h c) (\<lambda>(b, c). Inr (CMoved b, h, c))"
| "cu_step I CMovePrev (h, c) = exec_bind (cursor_move_prev h c) (\<lambda>(b, c). Inr (CMoved b, h, c))"
| "cu_step I (CInsertNext p) (h, c) = exec_bind (cursor_insert_next I h c p) (\<lambda>(h, c). Inr (CDone, h, c))"
| "cu_step I (CInsertPrev p) (h, c) = exec_bind (cursor_insert_prev I h c p) (\<lambda>(h, c). Inr (CDone, h, c))"
| "cu_step I CRemoveNext (h, c) = exec_bind (cursor_remove_next I h c) (\<lambda>(r, h, c). Inr (CItem r, h, c))"
| "cu_step I CRemovePrev (h, c) = exec_bind (cursor_remove_prev I h c) (\<lambda>(r, h, c). Inr (CItem r, h, c))"

fun cu_run :: "item_ops \<Rightarrow> cu_op list \<Rightarrow> heap \<times> cursor \<Rightarrow> (cu_out list \<times> heap \<times> cursor) exec" where
  "cu_run I [] s = Inr ([], s)"
| "cu_run I (x # xs) s =
     exec_bind (cu_step I x s) (\<lambda>(r, s'). exec_bind (cu_run I xs s') (\<lambda>(rs, s''). Inr (r # rs, s'')))"

fun cu_spec ::
  "addr set \<Rightarrow> cu_op \<Rightarrow> addr list \<times> addr list \<Rightarrow> (cu_out \<times> addr list \<times> addr list) option" where
  "cu_spec U CMoveNext (fs, bs) =
     Some (case bs of [] \<Rightarrow> (CMoved False, fs, bs) | y # ys \<Rightarrow> (CMoved True, fs @ [y], ys))"
| "cu_spec U CMovePrev (fs, bs) =
     Some (if fs = [] then (CMoved False, fs, bs) else (CMoved True, butlast fs, last fs # bs))"
| "cu_spec U (CInsertNext p) (fs, bs) =
     (if p \<in> U \<and> p \<notin> set (fs @ bs) then Some (CDone, fs, p # bs) else None)"
| "cu_spec U (CInsertPrev p) (fs, bs) =
     (if p \<in> U \<and> p \<notin> set (fs @ bs) then Some (CDone, fs @ [p], bs) else None)"
| "cu_spec U CRemoveNext (fs, bs) = Some (CItem (if bs = [] then None else Some (hd bs)), fs, tl bs)"
| "cu_spec U CRemovePrev (fs, bs) = Some (CItem (if fs = [] then None else Some (last fs)), butlast fs, bs)"

fun cu_spec_run ::
  "addr set \<Rightarrow> cu_op list \<Rightarrow> addr list \<times> addr list \<Rightarrow> (cu_out list \<times> addr list \<times> addr list) option" where
  "cu_spec_run U [] s = Some ([], s)"
| "cu_spec_run U (x # xs) s =
     (case cu_spec U x s of
        None \<Rightarrow> None
      | Some (r, s') \<Rightarrow> (case cu_spec_run U xs s' of None \<Rightarrow> None | Some (rs, s'') \<Rightarrow> Some (r # rs, s'')))"

fun cu_inv :: "item_ops \<Rightarrow> addr set \<Rightarrow> heap \<times> cursor \<Rightarrow> addr list \<times> addr list \<Rightarrow> bool" where
  "cu_inv I U (h, c) (fs, bs) \<longleftrightarrow>
     cursor_rep I h c fs bs \<and> set (fs @ bs) \<subseteq> U \<and> (\<forall>p \<in> U - set (fs @ bs). item_free I h p)"

context list_item
begin

lemma cu_invI:
  assumes inv: "cu_inv I U (h, c) (fs, bs)" and r: "cursor_rep I h' c' fs' bs'" "set (fs' @ bs') \<subseteq> U"
    and fr: "heap_frame I h h' S"
    and free: "\<And>p. p \<in> U \<Longrightarrow> p \<in> S \<union> set (fs @ bs) \<Longrightarrow> p \<notin> set (fs' @ bs') \<Longrightarrow> item_free I h' p"
  shows "cu_inv I U (h', c') (fs', bs')"
proof -
  have "item_free I h' p" if "p \<in> U" "p \<notin> set (fs' @ bs')" for p
  proof (cases "p \<in> S \<union> set (fs @ bs)")
    case True
    with that free show ?thesis by blast
  next
    case False
    with inv that(1) show ?thesis using free_frame [OF _ fr, of p] by auto
  qed
  with r show ?thesis by auto
qed

lemma cu_insert_inv:
  assumes inv: "cu_inv I U (h, c) (fs, bs)" and p: "p \<in> U" "p \<notin> set (fs @ bs)"
  shows "\<exists>h' c'. cursor_insert_inner I h c p = Inr (li_view_links I p, h', c') \<and>
           cu_inv I U (h', c'\<lparr>cu_next := li_view_links I p\<rparr>) (fs, p # bs) \<and>
           cu_inv I U (h', c') (fs @ [p], bs)"
proof -
  have c: "cursor_rep I h c fs bs" and free: "item_free I h p" using inv p by auto
  obtain h' c' where ins: "cursor_insert_inner I h c p = Inr (li_view_links I p, h', c')"
    "list_rep I h' (cu_list c') (fs @ p # bs)" "cu_next c' = cu_next c" "heap_frame I h h' (set (p # fs @ bs))"
    using cursor_insert_inner_ok [OF c free p(2)] by blast
  have "cu_inv I U (h', c'\<lparr>cu_next := li_view_links I p\<rparr>) (fs, p # bs)"
    by (rule cu_invI [OF inv _ _ ins(4)]) (use ins inv p in \<open>auto simp: cursor_rep_def\<close>)
  moreover have "cu_inv I U (h', c') (fs @ [p], bs)"
    by (rule cu_invI [OF inv _ _ ins(4)]) (use ins inv p c in \<open>auto simp: cursor_rep_def\<close>)
  ultimately show ?thesis using ins(1) by blast
qed

lemma cu_step_ok:
  assumes inv: "cu_inv I U (h, c) (fs, bs)" and spec: "cu_spec U x (fs, bs) = Some (r, fs', bs')"
  shows "\<exists>s. cu_step I x (h, c) = Inr (r, s) \<and> cu_inv I U s (fs', bs')"
proof -
  have c: "cursor_rep I h c fs bs" using inv by simp
  show ?thesis
  proof (cases x)
    case CMoveNext
    obtain c' where mv: "cursor_move_next h c = Inr (bs \<noteq> [], c')"
      "case bs of [] \<Rightarrow> c' = c | y # ys \<Rightarrow> cursor_rep I h c' (fs @ [y]) ys"
      using cursor_move_next_ok [OF c] by blast
    then have "cu_step I x (h, c) = Inr (CMoved (bs \<noteq> []), h, c')" using CMoveNext by simp
    moreover have "cu_inv I U (h, c') (fs', bs') \<and> r = CMoved (bs \<noteq> [])"
      using CMoveNext mv(2) spec inv by (cases bs) auto
    ultimately show ?thesis by blast
  next
    case CMovePrev
    obtain c' where mv: "cursor_move_prev h c = Inr (fs \<noteq> [], c')"
      "if fs = [] then c' = c else cursor_rep I h c' (butlast fs) (last fs # bs)"
      using cursor_move_prev_ok [OF c] by blast
    then have "cu_step I x (h, c) = Inr (CMoved (fs \<noteq> []), h, c')" using CMovePrev by simp
    moreover have "cu_inv I U (h, c') (fs', bs') \<and> r = CMoved (fs \<noteq> [])"
      using CMovePrev mv(2) spec inv by (cases fs rule: rev_cases) auto
    ultimately show ?thesis by blast
  next
    case (CInsertNext p)
    with spec cu_insert_inv [OF inv, of p] show ?thesis
      by (auto simp: cursor_insert_next_def split: if_splits)
  next
    case (CInsertPrev p)
    with spec cu_insert_inv [OF inv, of p] show ?thesis
      by (auto simp: cursor_insert_prev_def split: if_splits)
  next
    case CRemoveNext
    obtain h' c' where rm: "cursor_remove_next I h c = Inr (if bs = [] then None else Some (hd bs), h', c')"
      "cursor_rep I h' c' fs (tl bs)" "bs \<noteq> [] \<longrightarrow> item_free I h' (hd bs)" "heap_frame I h h' (set (fs @ bs))"
      using cursor_remove_next_ok [OF c] by blast
    have "cu_inv I U (h', c') (fs, tl bs)"
      by (rule cu_invI [OF inv rm(2) _ rm(4)]) (use rm inv in \<open>(cases bs, auto)+\<close>)
    with CRemoveNext spec rm(1) show ?thesis by auto
  next
    case CRemovePrev
    obtain h' c' where rm: "cursor_remove_prev I h c = Inr (if fs = [] then None else Some (last fs), h', c')"
      "cursor_rep I h' c' (butlast fs) bs" "fs \<noteq> [] \<longrightarrow> item_free I h' (last fs)"
      "heap_frame I h h' (set (fs @ bs))"
      using cursor_remove_prev_ok [OF c] by blast
    have "cu_inv I U (h', c') (butlast fs, bs)"
      by (rule cu_invI [OF inv rm(2) _ rm(4)]) (use rm inv in \<open>(cases fs rule: rev_cases, auto)+\<close>)
    with CRemovePrev spec rm(1) show ?thesis by auto
  qed
qed

lemma cu_run_ok:
  assumes "cu_inv I U s t" and "cu_spec_run U xs t = Some (rs, t')"
  shows "\<exists>s'. cu_run I xs s = Inr (rs, s') \<and> cu_inv I U s' t'"
  using assms
proof (induction xs arbitrary: s t rs)
  case Nil
  then show ?case by simp
next
  case (Cons x xs)
  from Cons.prems(2) obtain r t1 rs' where
    c: "cu_spec U x t = Some (r, t1)" "cu_spec_run U xs t1 = Some (rs', t')" "rs = r # rs'"
    by (auto split: option.splits)
  obtain h l ps qs ps' qs' where "s = (h, l)" "t = (ps, qs)" "t1 = (ps', qs')"
    by (metis prod.exhaust)
  then obtain s1 where "cu_step I x s = Inr (r, s1)" "cu_inv I U s1 t1"
    using cu_step_ok c(1) Cons.prems(1) by blast
  with Cons.IH [OF _ c(2)] c(3) show ?case by fastforce
qed

end

section \<open>The two implementations of ListItem\<close>

interpretation links: list_item "links_item off" for off
  by unfold_locales (simp_all add: links_item_def raw_get_list_links_def)

interpretation self_ptr: list_item "self_ptr_item off spoff" for off spoff
  by unfold_locales
    (simp_all add: self_ptr_item_def raw_get_list_links_def self_ptr_read_def Let_def)

lemma list_item_macros:
  "I = links_item off \<or> I = self_ptr_item off spoff \<Longrightarrow> list_item I"
  using links.list_item_axioms self_ptr.list_item_axioms by blast

text \<open>A heap in which the four items at 16, 32, 48 and 64 are in no list, for the examples.\<close>

definition sample_heap :: "usize \<Rightarrow> heap" where
  "sample_heap off =
     \<lparr>h_links = (\<lambda>a. if a \<in> {16 + off, 32 + off, 48 + off, 64 + off} then Some list_links_new else None),
      h_self = (\<lambda>_. None)\<rparr>"

lemma sample_heap_inv:
  assumes "I = links_item 8 \<or> I = self_ptr_item 8 16"
  shows "dl_inv I {16, 32, 48, 64} (sample_heap 8, list_new, list_new) ([], [])"
proof -
  have "li_view_links I p = p + 8" for p
    using assms by (auto simp: links_item_def self_ptr_item_def raw_get_list_links_def)
  then show ?thesis
    by (simp add: list_rep_def items_ok_def item_free_def list_new_def sample_heap_def)
qed

section \<open>Properties\<close>

text \<open>
  C2: Any sequence of list operations a client is entitled to (it inserts only items whose \<open>ListArc\<close> it owns
  and removes only items that are not in the other list) runs without undefined behaviour or panic on
  the linked representation and has exactly the effect and the results of the same operations on
  sequences of items; both implementations of \<open>ListItem\<close> are covered.
\<close>

theorem list_ops_refine_sequences:
  assumes "I = links_item off \<or> I = self_ptr_item off spoff"
    and "dl_inv I U s t" and "dl_spec_run U cs t = Some (rs, t')"
  shows "\<exists>s'. dl_run I cs s = Inr (rs, s') \<and> dl_inv I U s' t'"
  by (rule list_item.dl_run_ok [OF list_item_macros [OF assms(1)] assms(2,3)])

theorem list_ops_refine_sequences_witness:
  "\<exists>s'. dl_run (self_ptr_item 8 16)
          [LPushBack 16, LPushFront 32, LSwap, LPushBack 48, LAppend, LRemove 16, LPopBack]
          (sample_heap 8, list_new, list_new) =
        Inr ([None, None, None, None, None, Some 16, Some 32], s') \<and>
        dl_inv (self_ptr_item 8 16) {16, 32, 48, 64} s' ([48], [])"
  by (rule list_ops_refine_sequences [OF disjI2 [OF refl] sample_heap_inv]) simp_all

text \<open>
  C8: A cursor behaves as a position in the sequence of items: moving, inserting on either side and removing
  on either side change the sequence and the position as documented, for every run of cursor calls,
  at both ends and on the empty list, without undefined behaviour.
\<close>

theorem cursor_ops_refine_position:
  assumes "I = links_item off \<or> I = self_ptr_item off spoff"
    and "cu_inv I U s t" and "cu_spec_run U xs t = Some (rs, t')"
  shows "\<exists>s'. cu_run I xs s = Inr (rs, s') \<and> cu_inv I U s' t'"
  by (rule list_item.cu_run_ok [OF list_item_macros [OF assms(1)] assms(2,3)])

theorem cursor_ops_refine_position_witness:
  "\<exists>s'. cu_run (links_item 8) [CInsertNext 16, CInsertPrev 32, CMovePrev, CRemoveNext, CMoveNext]
          (sample_heap 8, list_cursor_front list_new) =
        Inr ([CDone, CDone, CMoved True, CItem (Some 32), CMoved True], s') \<and>
        cu_inv (links_item 8) {16, 32, 48, 64} s' ([16], [])"
proof (rule cursor_ops_refine_position [OF disjI1 [OF refl]])
  show "cu_inv (links_item 8) {16, 32, 48, 64} (sample_heap 8, list_cursor_front list_new) ([], [])"
    using sample_heap_inv [of "links_item 8"]
    by (auto simp: cursor_rep_def list_cursor_front_def list_new_def)
qed simp_all

text \<open>
  Iterating over a list terminates and yields every item exactly once, from the first to the last; the
  number of steps is the length of the list plus one.
\<close>

lemma list_iter_complete:
  assumes "I = links_item off \<or> I = self_ptr_item off spoff"
    and "list_rep I h l ps" and "length ps < fuel"
  shows "list_iter_collect fuel I h (list_iter_new l) = Some (Inr ps)"
  by (rule list_item.iter_collect_ok [OF list_item_macros [OF assms(1)], where fs = "[]"])
    (use assms in \<open>auto simp: list_iter_new_def list_rep_def\<close>)

text \<open>
  Dropping a list terminates, drops each of its items exactly once in order, and leaves every item with
  null links, so that it may be inserted again.
\<close>

lemma list_drop_complete:
  assumes "I = links_item off \<or> I = self_ptr_item off spoff"
    and "list_rep I h l ps" and "length ps < fuel"
  shows "\<exists>h' l'. list_drop fuel I h l = Some (Inr (ps, h', l')) \<and> list_rep I h' l' [] \<and>
           list_all (item_free I h') ps"
  using list_item.drop_ok [OF list_item_macros [OF assms(1)] assms(2,3)] by (auto simp: list_all_iff)

end
