(* ===== verification/RB_Tree.thy ===== *)
theory RB_Tree
  imports Kernel_Error
begin

text \<open>
  \<open>rust/src/rbtree.rs\<close>: the ordered map over the kernel's red-black trees, with its entries, cursors,
  iterators and node reservations.

  The tree is a tree of node addresses, and the nodes are cells of a store, so that the search loops read
  keys through pointers as the code does; an access to a cell that holds no node is \<open>UB\<close>. A pointer to
  the child field of a parent is the path from the root to that field. The kernel's C functions
  (linking apart, which only writes a field) are the parameter \<open>c\<close> with the documented behaviour \<open>c_rb_ok\<close>
  in terms of the in-order sequence; colours are private to them. \<open>K: Ord\<close> is a linear order.
\<close>

section \<open>Nodes, store and the C interface\<close>

datatype ptree = Leaf | Br ptree addr ptree

datatype ('k, 'v) cell = Free | Uninit | Node 'k 'v

type_synonym ('k, 'v) store = "addr \<Rightarrow> ('k, 'v) cell"

fun inorder :: "ptree \<Rightarrow> addr list" where
  "inorder Leaf = []"
| "inorder (Br l n r) = inorder l @ n # inorder r"

fun postorder :: "ptree \<Rightarrow> addr list" where
  "postorder Leaf = []"
| "postorder (Br l n r) = postorder l @ postorder r @ [n]"

record c_rb =
  c_insert_color :: "ptree \<Rightarrow> addr \<Rightarrow> ptree"
  c_erase :: "ptree \<Rightarrow> addr \<Rightarrow> ptree"
  c_replace_node :: "ptree \<Rightarrow> addr \<Rightarrow> addr \<Rightarrow> ptree"
  c_first :: "ptree \<Rightarrow> addr"
  c_last :: "ptree \<Rightarrow> addr"
  c_next :: "ptree \<Rightarrow> addr \<Rightarrow> addr"
  c_prev :: "ptree \<Rightarrow> addr \<Rightarrow> addr"
  c_first_postorder :: "ptree \<Rightarrow> addr"
  c_next_postorder :: "ptree \<Rightarrow> addr \<Rightarrow> addr"

definition ptree_ok :: "ptree \<Rightarrow> bool" where
  "ptree_ok t \<longleftrightarrow> distinct (inorder t) \<and> 0 \<notin> set (inorder t)"

text \<open>
  Rebalancing keeps the in-order sequence, erasing and replacing change one position of it, and
  the traversal functions walk it (or the post-order sequence) and end in a null pointer.
\<close>

definition c_rb_ok :: "c_rb \<Rightarrow> bool" where
  "c_rb_ok c \<longleftrightarrow>
     (\<forall>t n. ptree_ok t \<longrightarrow> n \<in> set (inorder t) \<longrightarrow>
        inorder (c_insert_color c t n) = inorder t \<and>
        inorder (c_erase c t n) = removeAll n (inorder t) \<and>
        (\<forall>n'. inorder (c_replace_node c t n n') = map (\<lambda>x. if x = n then n' else x) (inorder t))) \<and>
     (\<forall>t. ptree_ok t \<longrightarrow> c_first c t = hd (inorder t @ [0]) \<and> c_last c t = last (0 # inorder t)) \<and>
     (\<forall>t xs n ys. ptree_ok t \<longrightarrow> inorder t = xs @ n # ys \<longrightarrow>
        c_next c t n = hd (ys @ [0]) \<and> c_prev c t n = last (0 # xs)) \<and>
     (\<forall>t. ptree_ok t \<longrightarrow> c_first_postorder c t = hd (postorder t @ [0])) \<and>
     (\<forall>t xs n ys. ptree_ok t \<longrightarrow> postorder t = xs @ n # ys \<longrightarrow> c_next_postorder c t n = hd (ys @ [0]))"

text \<open>\<open>container_of!\<close> followed by a read of the node.\<close>

definition read_node :: "('k, 'v) store \<Rightarrow> addr \<Rightarrow> ('k \<times> 'v) exec" where
  "read_node st n = (case st n of Node k v \<Rightarrow> Inr (k, v) | _ \<Rightarrow> Inl UB)"

section \<open>Node reservations\<close>

text \<open>\<open>alloc\<close> is \<open>KBox::new_uninit\<close> for a node: the address of fresh memory, or nothing.\<close>

type_synonym ('k, 'v) alloc = "('k, 'v) store \<Rightarrow> addr option"

definition alloc_ok :: "('k, 'v) alloc \<Rightarrow> bool" where
  "alloc_ok alloc \<longleftrightarrow> (\<forall>st a. alloc st = Some a \<longrightarrow> a \<noteq> 0 \<and> st a = Free)"

definition reservation_new ::
  "('k, 'v) alloc \<Rightarrow> ('k, 'v) store \<Rightarrow> (addr, error_source) result \<times> ('k, 'v) store" where
  "reservation_new alloc st =
     (case alloc st of None \<Rightarrow> (Err AllocError, st) | Some a \<Rightarrow> (Ok a, st(a := Uninit)))"

definition reservation_into_node :: "('k, 'v) store \<Rightarrow> addr \<Rightarrow> 'k \<Rightarrow> 'v \<Rightarrow> ('k, 'v) store exec" where
  "reservation_into_node st a key val =
     (case st a of Free \<Rightarrow> Inl UB | _ \<Rightarrow> Inr (st(a := Node key val)))"

definition rbtree_node_new ::
  "('k, 'v) alloc \<Rightarrow> ('k, 'v) store \<Rightarrow> 'k \<Rightarrow> 'v \<Rightarrow> ((addr, error_source) result \<times> ('k, 'v) store) exec" where
  "rbtree_node_new alloc st key val =
     (case reservation_new alloc st of
        (Err e, st) \<Rightarrow> Inr (Err e, st)
      | (Ok a, st) \<Rightarrow> exec_bind (reservation_into_node st a key val) (\<lambda>st. Inr (Ok a, st)))"

text \<open>\<open>KBox::into_inner\<close>: the contents, and the memory given back.\<close>

definition node_to_key_value :: "('k, 'v) store \<Rightarrow> addr \<Rightarrow> (('k \<times> 'v) \<times> ('k, 'v) store) exec" where
  "node_to_key_value st n = exec_bind (read_node st n) (\<lambda>kv. Inr (kv, st(n := Free)))"

definition node_into_reservation :: "('k, 'v) store \<Rightarrow> addr \<Rightarrow> ('k, 'v) store exec" where
  "node_into_reservation st n = exec_bind (read_node st n) (\<lambda>_. Inr (st(n := Uninit)))"

section \<open>Searching\<close>

datatype side = L | R

text \<open>\<open>OccupiedEntry\<close> and \<open>RawVacantEntry\<close>: the node found, or the parent and the field to link into.\<close>

datatype rb_raw_entry = Occupied addr | Vacant addr "side list"

fun raw_entry_loop ::
  "('k :: linorder, 'v) store \<Rightarrow> 'k \<Rightarrow> addr \<Rightarrow> side list \<Rightarrow> ptree \<Rightarrow> rb_raw_entry exec" where
  "raw_entry_loop st key parent field Leaf = Inr (Vacant parent field)"
| "raw_entry_loop st key parent field (Br l n r) =
     exec_bind (read_node st n) (\<lambda>(k, _).
       if key < k then raw_entry_loop st key n (field @ [L]) l
       else if k < key then raw_entry_loop st key n (field @ [R]) r
       else Inr (Occupied n))"

definition raw_entry :: "('k :: linorder, 'v) store \<Rightarrow> ptree \<Rightarrow> 'k \<Rightarrow> rb_raw_entry exec" where
  "raw_entry st root key = raw_entry_loop st key 0 [] root"

definition find_mut :: "('k :: linorder, 'v) store \<Rightarrow> ptree \<Rightarrow> 'k \<Rightarrow> addr option exec" where
  "find_mut st root key =
     exec_bind (raw_entry st root key) (\<lambda>e.
     case e of Occupied n \<Rightarrow> Inr (Some n) | Vacant _ _ \<Rightarrow> Inr None)"

fun get_loop :: "('k :: linorder, 'v) store \<Rightarrow> 'k \<Rightarrow> ptree \<Rightarrow> 'v option exec" where
  "get_loop st key Leaf = Inr None"
| "get_loop st key (Br l n r) =
     exec_bind (read_node st n) (\<lambda>(k, v).
       if key < k then get_loop st key l else if k < key then get_loop st key r else Inr (Some v))"

definition rbtree_get :: "('k :: linorder, 'v) store \<Rightarrow> ptree \<Rightarrow> 'k \<Rightarrow> 'v option exec" where
  "rbtree_get st root key = get_loop st key root"

text \<open>\<open>get_mut\<close>, with the value the caller stores through the reference.\<close>

definition rbtree_get_mut ::
  "('k :: linorder, 'v) store \<Rightarrow> ptree \<Rightarrow> 'k \<Rightarrow> ('v \<Rightarrow> 'v) \<Rightarrow> ('v option \<times> ('k, 'v) store) exec" where
  "rbtree_get_mut st root key f =
     exec_bind (find_mut st root key) (\<lambda>r.
     case r of
       None \<Rightarrow> Inr (None, st)
     | Some n \<Rightarrow> exec_bind (read_node st n) (\<lambda>(k, v). Inr (Some v, st(n := Node k (f v)))))"

fun lower_bound_loop ::
  "('k :: linorder, 'v) store \<Rightarrow> 'k \<Rightarrow> addr option \<Rightarrow> ptree \<Rightarrow> addr option exec" where
  "lower_bound_loop st key best Leaf = Inr best"
| "lower_bound_loop st key best (Br l n r) =
     exec_bind (read_node st n) (\<lambda>(this_key, _).
       if key = this_key then Inr (Some n)
       else if this_key < key then lower_bound_loop st key best r
       else exec_bind (case best of
                         None \<Rightarrow> Inr True
                       | Some b \<Rightarrow> exec_bind (read_node st b) (\<lambda>(best_key, _). Inr (best_key > this_key)))
              (\<lambda>is_better_match. lower_bound_loop st key (if is_better_match then Some n else best) l))"

text \<open>The cursor is the node it stands on.\<close>

definition cursor_lower_bound :: "('k :: linorder, 'v) store \<Rightarrow> ptree \<Rightarrow> 'k \<Rightarrow> addr option exec" where
  "cursor_lower_bound st root key = lower_bound_loop st key None root"

section \<open>Inserting and removing\<close>

text \<open>\<open>rb_link_node\<close>: writes the new node into the field; the field of a vacant entry holds null.\<close>

fun rb_link_node :: "addr \<Rightarrow> side list \<Rightarrow> ptree \<Rightarrow> ptree exec" where
  "rb_link_node n [] Leaf = Inr (Br Leaf n Leaf)"
| "rb_link_node n (L # ds) (Br l m r) = exec_bind (rb_link_node n ds l) (\<lambda>l'. Inr (Br l' m r))"
| "rb_link_node n (R # ds) (Br l m r) = exec_bind (rb_link_node n ds r) (\<lambda>r'. Inr (Br l m r'))"
| "rb_link_node n _ _ = Inl UB"

definition vacant_insert :: "c_rb \<Rightarrow> ptree \<Rightarrow> side list \<Rightarrow> addr \<Rightarrow> ptree exec" where
  "vacant_insert c root field n =
     exec_bind (rb_link_node n field root) (\<lambda>root. Inr (c_insert_color c root n))"

text \<open>The old node, now owned by the caller, and the tree.\<close>

definition occupied_replace :: "c_rb \<Rightarrow> ptree \<Rightarrow> addr \<Rightarrow> addr \<Rightarrow> addr \<times> ptree" where
  "occupied_replace c root node_links n = (node_links, c_replace_node c root node_links n)"

definition occupied_remove_node :: "c_rb \<Rightarrow> ptree \<Rightarrow> addr \<Rightarrow> addr \<times> ptree" where
  "occupied_remove_node c root node_links = (node_links, c_erase c root node_links)"

definition occupied_remove ::
  "c_rb \<Rightarrow> ('k, 'v) store \<Rightarrow> ptree \<Rightarrow> addr \<Rightarrow> ('v \<times> ('k, 'v) store \<times> ptree) exec" where
  "occupied_remove c st root node_links =
     (case occupied_remove_node c root node_links of (n, root) \<Rightarrow>
      exec_bind (node_to_key_value st n) (\<lambda>((_, v), st). Inr (v, st, root)))"

definition rbtree_insert ::
  "c_rb \<Rightarrow> ('k :: linorder, 'v) store \<Rightarrow> ptree \<Rightarrow> addr \<Rightarrow> (addr option \<times> ptree) exec" where
  "rbtree_insert c st root n =
     exec_bind (read_node st n) (\<lambda>(key, _).
     exec_bind (raw_entry st root key) (\<lambda>e.
     case e of
       Occupied old \<Rightarrow> (case occupied_replace c root old n of (o', root) \<Rightarrow> Inr (Some o', root))
     | Vacant _ field \<Rightarrow> exec_bind (vacant_insert c root field n) (\<lambda>root. Inr (None, root))))"

definition rbtree_try_create_and_insert ::
  "c_rb \<Rightarrow> ('k :: linorder, 'v) alloc \<Rightarrow> ('k, 'v) store \<Rightarrow> ptree \<Rightarrow> 'k \<Rightarrow> 'v \<Rightarrow>
   ((addr option, error_source) result \<times> ('k, 'v) store \<times> ptree) exec" where
  "rbtree_try_create_and_insert c alloc st root key val =
     exec_bind (rbtree_node_new alloc st key val) (\<lambda>(r, st).
     case r of
       Err e \<Rightarrow> Inr (Err e, st, root)
     | Ok n \<Rightarrow> exec_bind (rbtree_insert c st root n) (\<lambda>(old, root). Inr (Ok old, st, root)))"

definition rbtree_remove_node ::
  "c_rb \<Rightarrow> ('k :: linorder, 'v) store \<Rightarrow> ptree \<Rightarrow> 'k \<Rightarrow> (addr option \<times> ptree) exec" where
  "rbtree_remove_node c st root key =
     exec_bind (find_mut st root key) (\<lambda>r.
     case r of
       None \<Rightarrow> Inr (None, root)
     | Some n \<Rightarrow> (case occupied_remove_node c root n of (n, root) \<Rightarrow> Inr (Some n, root)))"

definition rbtree_remove ::
  "c_rb \<Rightarrow> ('k :: linorder, 'v) store \<Rightarrow> ptree \<Rightarrow> 'k \<Rightarrow> ('v option \<times> ('k, 'v) store \<times> ptree) exec" where
  "rbtree_remove c st root key =
     exec_bind (find_mut st root key) (\<lambda>r.
     case r of
       None \<Rightarrow> Inr (None, st, root)
     | Some n \<Rightarrow> exec_bind (occupied_remove c st root n) (\<lambda>(v, st, root). Inr (Some v, st, root)))"

text \<open>\<open>entry(key)\<close> then \<open>insert(value, reservation)\<close> on a vacant entry.\<close>

definition vacant_entry_insert ::
  "c_rb \<Rightarrow> ('k, 'v) store \<Rightarrow> ptree \<Rightarrow> side list \<Rightarrow> 'k \<Rightarrow> 'v \<Rightarrow> addr \<Rightarrow> (('k, 'v) store \<times> ptree) exec" where
  "vacant_entry_insert c st root field key val reservation =
     exec_bind (reservation_into_node st reservation key val) (\<lambda>st.
     exec_bind (vacant_insert c root field reservation) (\<lambda>root. Inr (st, root)))"

text \<open>\<open>Drop\<close>: the post-order loop, with the contents it dropped; \<open>None\<close> is out of fuel.\<close>

fun rbtree_drop_loop ::
  "nat \<Rightarrow> c_rb \<Rightarrow> ptree \<Rightarrow> ('k, 'v) store \<Rightarrow> addr \<Rightarrow> (('k \<times> 'v) list \<times> ('k, 'v) store) exec option" where
  "rbtree_drop_loop 0 c root st next = None"
| "rbtree_drop_loop (Suc fuel) c root st next =
     (if next = 0 then Some (Inr ([], st))
      else case node_to_key_value st next of
             Inl e \<Rightarrow> Some (Inl e)
           | Inr (kv, st') \<Rightarrow>
               map_option (\<lambda>r. exec_bind r (\<lambda>(kvs, st). Inr (kv # kvs, st)))
                 (rbtree_drop_loop fuel c root st' (c_next_postorder c root next)))"

definition rbtree_drop ::
  "nat \<Rightarrow> c_rb \<Rightarrow> ptree \<Rightarrow> ('k, 'v) store \<Rightarrow> (('k \<times> 'v) list \<times> ('k, 'v) store) exec option" where
  "rbtree_drop fuel c root st = rbtree_drop_loop fuel c root st (c_first_postorder c root)"

section \<open>Iterators and cursors\<close>

definition rbtree_iter :: "c_rb \<Rightarrow> ptree \<Rightarrow> addr" where
  "rbtree_iter c root = c_first c root"

definition iter_raw_next ::
  "c_rb \<Rightarrow> ('k, 'v) store \<Rightarrow> ptree \<Rightarrow> addr \<Rightarrow> (('k \<times> 'v) option \<times> addr) exec" where
  "iter_raw_next c st root next =
     (if next = 0 then Inr (None, next)
      else exec_bind (read_node st next) (\<lambda>kv. Inr (Some kv, c_next c root next)))"

fun iter_collect ::
  "nat \<Rightarrow> c_rb \<Rightarrow> ('k, 'v) store \<Rightarrow> ptree \<Rightarrow> addr \<Rightarrow> ('k \<times> 'v) list exec option" where
  "iter_collect 0 c st root next = None"
| "iter_collect (Suc fuel) c st root next =
     (case iter_raw_next c st root next of
        Inl e \<Rightarrow> Some (Inl e)
      | Inr (None, _) \<Rightarrow> Some (Inr [])
      | Inr (Some kv, next') \<Rightarrow>
          map_option (\<lambda>r. exec_bind r (\<lambda>kvs. Inr (kv # kvs))) (iter_collect fuel c st root next'))"

definition nonnull :: "addr \<Rightarrow> addr option" where
  "nonnull a = (if a = 0 then None else Some a)"

definition rbtree_cursor_front :: "c_rb \<Rightarrow> ptree \<Rightarrow> addr option" where
  "rbtree_cursor_front c root = nonnull (c_first c root)"

definition rbtree_cursor_back :: "c_rb \<Rightarrow> ptree \<Rightarrow> addr option" where
  "rbtree_cursor_back c root = nonnull (c_last c root)"

datatype direction = Prev | Next

definition get_neighbor_raw :: "c_rb \<Rightarrow> ptree \<Rightarrow> addr \<Rightarrow> direction \<Rightarrow> addr option" where
  "get_neighbor_raw c root current d =
     nonnull (case d of Prev \<Rightarrow> c_prev c root current | Next \<Rightarrow> c_next c root current)"

definition rb_cursor_mv :: "c_rb \<Rightarrow> ptree \<Rightarrow> addr \<Rightarrow> direction \<Rightarrow> addr option" where
  "rb_cursor_mv c root current d = get_neighbor_raw c root current d"

definition rb_cursor_peek ::
  "c_rb \<Rightarrow> ('k, 'v) store \<Rightarrow> ptree \<Rightarrow> addr \<Rightarrow> direction \<Rightarrow> ('k \<times> 'v) option exec" where
  "rb_cursor_peek c st root current d =
     (case get_neighbor_raw c root current d of
        None \<Rightarrow> Inr None
      | Some n \<Rightarrow> exec_bind (read_node st n) (\<lambda>kv. Inr (Some kv)))"

text \<open>The cursor left behind, if any, the node removed, and the tree.\<close>

definition rb_cursor_remove_current :: "c_rb \<Rightarrow> ptree \<Rightarrow> addr \<Rightarrow> addr option \<times> addr \<times> ptree" where
  "rb_cursor_remove_current c root current =
     (let prev = get_neighbor_raw c root current Prev;
          next = get_neighbor_raw c root current Next;
          root' = c_erase c root current
      in (case (prev, next) of
            (_, Some n) \<Rightarrow> (Some n, current, root')
          | (Some p, None) \<Rightarrow> (Some p, current, root')
          | (None, None) \<Rightarrow> (None, current, root')))"

definition rb_cursor_remove_neighbor :: "c_rb \<Rightarrow> ptree \<Rightarrow> addr \<Rightarrow> direction \<Rightarrow> addr option \<times> ptree" where
  "rb_cursor_remove_neighbor c root current d =
     (case get_neighbor_raw c root current d of
        Some n \<Rightarrow> (Some n, c_erase c root n)
      | None \<Rightarrow> (None, root))"

section \<open>Invariant and abstraction\<close>

fun cell_kv :: "('k, 'v) cell \<Rightarrow> ('k \<times> 'v) option" where
  "cell_kv (Node k v) = Some (k, v)"
| "cell_kv _ = None"

definition kv :: "('k, 'v) store \<Rightarrow> addr \<Rightarrow> 'k \<times> 'v" where
  "kv st n = the (cell_kv (st n))"

definition nkey :: "('k, 'v) store \<Rightarrow> addr \<Rightarrow> 'k" where
  "nkey st n = fst (kv st n)"

definition nval :: "('k, 'v) store \<Rightarrow> addr \<Rightarrow> 'v" where
  "nval st n = snd (kv st n)"

definition rb_list :: "('k, 'v) store \<Rightarrow> ptree \<Rightarrow> ('k \<times> 'v) list" where
  "rb_list st t = map (kv st) (inorder t)"

definition rb_inv :: "('k :: linorder, 'v) store \<Rightarrow> ptree \<Rightarrow> bool" where
  "rb_inv st t \<longleftrightarrow>
     ptree_ok t \<and> (\<forall>n \<in> set (inorder t). cell_kv (st n) \<noteq> None) \<and>
     sorted_wrt (<) (map (nkey st) (inorder t))"

text \<open>The map a tree stands for.\<close>

definition rb_map :: "('k :: linorder, 'v) store \<Rightarrow> ptree \<Rightarrow> 'k \<rightharpoonup> 'v" where
  "rb_map st t = map_of (rb_list st t)"

lemma kv_pair [simp]: "kv st n = (nkey st n, nval st n)"
  by (simp add: nkey_def nval_def)

lemma read_node_ok [simp]: "cell_kv (st n) \<noteq> None \<Longrightarrow> read_node st n = Inr (nkey st n, nval st n)"
  by (cases "st n") (simp_all add: read_node_def kv_def nkey_def nval_def del: kv_pair)

lemma node_key: "st n = Node k v \<Longrightarrow> nkey st n = k" "st n = Node k v \<Longrightarrow> nval st n = v"
  by (simp_all add: kv_def nkey_def nval_def del: kv_pair)

lemma rb_inv_Br:
  assumes "rb_inv st (Br l n r)"
  shows "rb_inv st l" "rb_inv st r" "cell_kv (st n) \<noteq> None"
    and "\<And>m. m \<in> set (inorder l) \<Longrightarrow> nkey st m < nkey st n"
    and "\<And>m. m \<in> set (inorder r) \<Longrightarrow> nkey st n < nkey st m"
  using assms by (auto simp: rb_inv_def ptree_ok_def sorted_wrt_append)

lemma map_of_kv_None: "(\<And>m. m \<in> set ns \<Longrightarrow> nkey st m \<noteq> key) \<Longrightarrow> map_of (map (kv st) ns) key = None"
  by (induction ns) auto

lemma map_of_append_case:
  "map_of (xs @ ys) key = (case map_of xs key of Some v \<Rightarrow> Some v | None \<Rightarrow> map_of ys key)"
  by (induction xs) auto

lemma find_append:
  "List.find P (xs @ ys) = (case List.find P xs of Some x \<Rightarrow> Some x | None \<Rightarrow> List.find P ys)"
  by (induction xs) auto

lemma rb_map_Br:
  assumes "rb_inv st (Br l n r)"
  shows "rb_map st (Br l n r) key =
         (if key < nkey st n then rb_map st l key
          else if nkey st n < key then rb_map st r key else Some (nval st n))"
proof -
  note inv = rb_inv_Br [OF assms]
  have eq: "rb_map st (Br l n r) key = (case rb_map st l key of Some v \<Rightarrow> Some v
      | None \<Rightarrow> if key = nkey st n then Some (nval st n) else rb_map st r key)"
    unfolding rb_map_def rb_list_def inorder.simps map_append map_of_append_case
    by (simp split: option.split)
  have l: "rb_map st l key = None" if "\<not> key < nkey st n"
    unfolding rb_map_def rb_list_def by (rule map_of_kv_None) (use inv(4) that in force)
  have r: "rb_map st r key = None" if "\<not> nkey st n < key"
    unfolding rb_map_def rb_list_def by (rule map_of_kv_None) (use inv(5) that in force)
  consider "key < nkey st n" | "nkey st n < key" | "nkey st n = key" by (metis neqE)
  then show ?thesis
  proof cases
    case 1
    with r [OF less_not_sym [OF 1]] show ?thesis
      unfolding eq by (simp add: less_imp_neq split: option.split)
  next
    case 2
    with l [OF less_not_sym [OF 2]] show ?thesis
      unfolding eq by (simp add: less_not_sym less_imp_neq [THEN not_sym])
  next
    case 3
    with l show ?thesis unfolding eq by simp
  qed
qed

section \<open>Searches\<close>

lemma get_loop_ok: "rb_inv st t \<Longrightarrow> get_loop st key t = Inr (rb_map st t key)"
proof (induction t)
  case Leaf
  then show ?case by (simp add: rb_map_def rb_list_def)
next
  case (Br l n r)
  note inv = rb_inv_Br [OF Br.prems]
  from inv Br.IH rb_map_Br [OF Br.prems, of key] show ?case
    by auto
qed

text \<open>What the search for a key finds: its node, or the gap in which a new node belongs.\<close>

definition entry_post ::
  "('k :: linorder, 'v) store \<Rightarrow> 'k \<Rightarrow> ptree \<Rightarrow> side list \<Rightarrow> rb_raw_entry \<Rightarrow> bool" where
  "entry_post st key t field e \<longleftrightarrow>
     (case e of
        Occupied n \<Rightarrow> n \<in> set (inorder t) \<and> nkey st n = key
      | Vacant p ds \<Rightarrow>
          (\<exists>path xs ys. ds = field @ path \<and> inorder t = xs @ ys \<and>
             (\<forall>m \<in> set xs. nkey st m < key) \<and> (\<forall>m \<in> set ys. key < nkey st m) \<and>
             (\<forall>a. \<exists>t'. rb_link_node a path t = Inr t' \<and> inorder t' = xs @ a # ys)))"

lemma entry_post_L:
  assumes "entry_post st key l (field @ [L]) e" and "key < nkey st n"
    and "\<And>m. m \<in> set (inorder r) \<Longrightarrow> nkey st n < nkey st m"
  shows "entry_post st key (Br l n r) field e"
proof (cases e)
  case (Vacant p ds)
  with assms(1) obtain path xs ys where
    v: "ds = (field @ [L]) @ path" "inorder l = xs @ ys" "\<forall>m \<in> set xs. nkey st m < key"
      "\<forall>m \<in> set ys. key < nkey st m"
      "\<And>a. \<exists>t'. rb_link_node a path l = Inr t' \<and> inorder t' = xs @ a # ys"
    by (auto simp: entry_post_def)
  have "\<exists>t'. rb_link_node a (L # path) (Br l n r) = Inr t' \<and> inorder t' = xs @ a # (ys @ n # inorder r)" for a
    using v(5) [of a] by auto
  moreover have "\<forall>m \<in> set (ys @ n # inorder r). key < nkey st m"
    using v(4) assms(2,3) by force
  moreover have "inorder (Br l n r) = xs @ (ys @ n # inorder r)" using v(2) by simp
  moreover have "ds = field @ (L # path)" using v(1) by simp
  ultimately show ?thesis
    unfolding entry_post_def Vacant rb_raw_entry.case using v(3) by blast
qed (use assms in \<open>simp add: entry_post_def\<close>)

lemma entry_post_R:
  assumes "entry_post st key r (field @ [R]) e" and "nkey st n < key"
    and "\<And>m. m \<in> set (inorder l) \<Longrightarrow> nkey st m < nkey st n"
  shows "entry_post st key (Br l n r) field e"
proof (cases e)
  case (Vacant p ds)
  with assms(1) obtain path xs ys where
    v: "ds = (field @ [R]) @ path" "inorder r = xs @ ys" "\<forall>m \<in> set xs. nkey st m < key"
      "\<forall>m \<in> set ys. key < nkey st m"
      "\<And>a. \<exists>t'. rb_link_node a path r = Inr t' \<and> inorder t' = xs @ a # ys"
    by (auto simp: entry_post_def)
  have "\<exists>t'. rb_link_node a (R # path) (Br l n r) = Inr t' \<and> inorder t' = (inorder l @ n # xs) @ a # ys" for a
    using v(5) [of a] by auto
  moreover have "\<forall>m \<in> set (inorder l @ n # xs). nkey st m < key"
    using v(3) assms(2,3) by force
  moreover have "inorder (Br l n r) = (inorder l @ n # xs) @ ys" using v(2) by simp
  moreover have "ds = field @ (R # path)" using v(1) by simp
  ultimately show ?thesis
    unfolding entry_post_def Vacant rb_raw_entry.case using v(4) by blast
qed (use assms in \<open>simp add: entry_post_def\<close>)

lemma raw_entry_loop_ok:
  "rb_inv st t \<Longrightarrow> \<exists>e. raw_entry_loop st key p field t = Inr e \<and> entry_post st key t field e"
proof (induction t arbitrary: p field)
  case Leaf
  then show ?case by (simp add: entry_post_def)
next
  case (Br l n r)
  note inv = rb_inv_Br [OF Br.prems]
  consider "key < nkey st n" | "nkey st n < key" | "nkey st n = key" by (metis neqE)
  then show ?case
  proof cases
    case 1
    obtain e where "raw_entry_loop st key n (field @ [L]) l = Inr e" "entry_post st key l (field @ [L]) e"
      using Br.IH(1) [OF inv(1)] by blast
    with 1 inv(3) entry_post_L [OF _ 1 inv(5)] show ?thesis by simp
  next
    case 2
    obtain e where "raw_entry_loop st key n (field @ [R]) r = Inr e" "entry_post st key r (field @ [R]) e"
      using Br.IH(2) [OF inv(2)] by blast
    with 2 inv(3) entry_post_R [OF _ 2 inv(4)] less_not_sym [OF 2] show ?thesis by simp
  next
    case 3
    with inv show ?thesis by (simp add: entry_post_def)
  qed
qed

lemma lower_bound_loop_ok:
  assumes "rb_inv st t"
    and "\<And>b. best = Some b \<Longrightarrow> cell_kv (st b) \<noteq> None \<and> (\<forall>m \<in> set (inorder t). nkey st m < nkey st b)"
  shows "lower_bound_loop st key best t =
         Inr (case List.find (\<lambda>m. key \<le> nkey st m) (inorder t) of Some m \<Rightarrow> Some m | None \<Rightarrow> best)"
  using assms
proof (induction t arbitrary: best)
  case Leaf
  then show ?case by simp
next
  case (Br l n r)
  note inv = rb_inv_Br [OF Br.prems(1)]
  have fnd: "List.find (\<lambda>m. key \<le> nkey st m) (inorder (Br l n r)) =
      (case List.find (\<lambda>m. key \<le> nkey st m) (inorder l) of Some m \<Rightarrow> Some m
       | None \<Rightarrow> if key \<le> nkey st n then Some n else List.find (\<lambda>m. key \<le> nkey st m) (inorder r))"
    unfolding inorder.simps find_append by (simp split: option.split)
  have left: "List.find (\<lambda>m. key \<le> nkey st m) (inorder l) = None" if "\<not> key < nkey st n"
    using inv(4) that by (force simp: find_None_iff)
  consider "key < nkey st n" | "nkey st n < key" | "nkey st n = key" by (metis neqE)
  then show ?case
  proof cases
    case 1
    have better: "(case best of None \<Rightarrow> Inr True
        | Some b \<Rightarrow> exec_bind (read_node st b) (\<lambda>(best_key, _). Inr (best_key > nkey st n))) = Inr True"
      using Br.prems(2) by (auto split: option.splits)
    have "lower_bound_loop st key (Some n) l =
        Inr (case List.find (\<lambda>m. key \<le> nkey st m) (inorder l) of Some m \<Rightarrow> Some m | None \<Rightarrow> Some n)"
      by (rule Br.IH(1) [OF inv(1)]) (use inv in auto)
    with 1 inv(3) better show ?thesis
      unfolding fnd by (simp add: less_not_sym less_imp_neq less_imp_le split: option.split)
  next
    case 2
    have "lower_bound_loop st key best r =
        Inr (case List.find (\<lambda>m. key \<le> nkey st m) (inorder r) of Some m \<Rightarrow> Some m | None \<Rightarrow> best)"
      by (rule Br.IH(2) [OF inv(2)]) (use Br.prems(2) in auto)
    moreover have "\<not> key \<le> nkey st n" using 2 by simp
    ultimately show ?thesis
      using 2 inv(3) left [OF less_not_sym [OF 2]]
      unfolding fnd by (simp add: less_not_sym less_imp_neq [THEN not_sym] del: not_le)
  next
    case 3
    with inv(3) left show ?thesis unfolding fnd by simp
  qed
qed

section \<open>Updates\<close>

lemma c_rb_okD:
  assumes "c_rb_ok c" and "ptree_ok t"
  shows "n \<in> set (inorder t) \<Longrightarrow> inorder (c_insert_color c t n) = inorder t"
    and "n \<in> set (inorder t) \<Longrightarrow> inorder (c_erase c t n) = removeAll n (inorder t)"
    and "n \<in> set (inorder t) \<Longrightarrow>
         inorder (c_replace_node c t n n') = map (\<lambda>x. if x = n then n' else x) (inorder t)"
    and "c_first c t = hd (inorder t @ [0])" and "c_last c t = last (0 # inorder t)"
    and "inorder t = xs @ n # ys \<Longrightarrow> c_next c t n = hd (ys @ [0])"
    and "inorder t = xs @ n # ys \<Longrightarrow> c_prev c t n = last (0 # xs)"
    and "c_first_postorder c t = hd (postorder t @ [0])"
    and "postorder t = xs @ n # ys \<Longrightarrow> c_next_postorder c t n = hd (ys @ [0])"
  using assms unfolding c_rb_ok_def by blast+

lemma rb_inv_ptree [simp]: "rb_inv st t \<Longrightarrow> ptree_ok t"
  by (simp add: rb_inv_def)

text \<open>The map of a sequence of nodes with increasing keys, node by node.\<close>

lemma rb_map_Some:
  assumes "rb_inv st t"
  shows "rb_map st t key = Some v \<longleftrightarrow> (\<exists>n \<in> set (inorder t). nkey st n = key \<and> nval st n = v)"
proof -
  have "distinct (map fst (rb_list st t))"
    using assms by (auto simp: rb_inv_def rb_list_def strict_sorted_iff comp_def)
  then have "rb_map st t key = Some v \<longleftrightarrow> (key, v) \<in> set (rb_list st t)"
    by (simp add: rb_map_def)
  then show ?thesis by (auto simp: rb_list_def)
qed

lemma rb_map_eqI:
  assumes "rb_inv st t" and "\<And>key v. (\<exists>n \<in> set (inorder t). nkey st n = key \<and> nval st n = v) \<longleftrightarrow> m key = Some v"
  shows "rb_map st t = m"
proof
  fix key
  show "rb_map st t key = m key"
    using rb_map_Some [OF assms(1), of key] assms(2) [of key] by (metis not_None_eq)
qed

lemma rb_unique_key:
  assumes "rb_inv st t" and "n \<in> set (inorder t)" "m \<in> set (inorder t)" and "nkey st n = nkey st m"
  shows "n = m"
proof -
  have "distinct (map (nkey st) (inorder t))"
    using assms(1) by (simp add: rb_inv_def strict_sorted_iff)
  with assms show ?thesis by (simp add: distinct_map inj_on_def)
qed

lemma entry_vacant_None:
  assumes "rb_inv st t" and "entry_post st key t field (Vacant p ds)"
  shows "rb_map st t key = None"
proof (rule ccontr)
  assume "rb_map st t key \<noteq> None"
  then obtain n where n: "n \<in> set (inorder t)" "nkey st n = key"
    using rb_map_Some [OF assms(1)] by blast
  obtain xs ys where "inorder t = xs @ ys" "\<forall>m \<in> set xs. nkey st m < key" "\<forall>m \<in> set ys. key < nkey st m"
    using assms(2) by (auto simp: entry_post_def)
  with n show False by auto
qed

lemma vacant_insert_ok:
  assumes c: "c_rb_ok c" and inv: "rb_inv st t" and n: "cell_kv (st n) \<noteq> None" "n \<noteq> 0" "n \<notin> set (inorder t)"
    and e: "entry_post st (nkey st n) t [] (Vacant p field)"
  shows "\<exists>t'. vacant_insert c t field n = Inr t' \<and> rb_inv st t' \<and>
           set (inorder t') = insert n (set (inorder t)) \<and> rb_map st t' = (rb_map st t)(nkey st n \<mapsto> nval st n)"
proof -
  obtain xs ys where xy: "inorder t = xs @ ys" "\<forall>m \<in> set xs. nkey st m < nkey st n"
    "\<forall>m \<in> set ys. nkey st n < nkey st m"
    "\<And>a. \<exists>t'. rb_link_node a field t = Inr t' \<and> inorder t' = xs @ a # ys"
    using e by (auto simp: entry_post_def)
  obtain t1 where t1: "rb_link_node n field t = Inr t1" "inorder t1 = xs @ n # ys"
    "inorder t = xs @ ys" "\<forall>m \<in> set xs. nkey st m < nkey st n" "\<forall>m \<in> set ys. nkey st n < nkey st m"
    using xy(4) [of n] xy(1-3) by blast
  have ok: "ptree_ok t1"
    using inv n t1 by (auto simp: rb_inv_def ptree_ok_def)
  let ?t = "c_insert_color c t1 n"
  have io: "inorder ?t = xs @ n # ys"
    using c_rb_okD(1) [OF c ok, of n] t1(2) by simp
  have inv': "rb_inv st ?t"
    using inv n t1 ok io by (auto simp: rb_inv_def ptree_ok_def sorted_wrt_append)
  have "rb_map st ?t = (rb_map st t)(nkey st n \<mapsto> nval st n)"
    by (rule rb_map_eqI [OF inv']) (use t1 io in \<open>auto simp: rb_map_Some [OF inv]\<close>)
  with t1 io inv' show ?thesis by (auto simp: vacant_insert_def)
qed

lemma map_replace_key:
  "\<forall>x \<in> set xs. x = n \<longrightarrow> nkey st n' = nkey st n \<Longrightarrow>
   map (nkey st) (map (\<lambda>x. if x = n then n' else x) xs) = map (nkey st) xs"
  by auto

lemma occupied_replace_ok:
  assumes c: "c_rb_ok c" and inv: "rb_inv st t" and n: "cell_kv (st n) \<noteq> None" "n \<noteq> 0" "n \<notin> set (inorder t)"
    and o: "old \<in> set (inorder t)" "nkey st old = nkey st n"
  shows "rb_inv st (c_replace_node c t old n) \<and>
         set (inorder (c_replace_node c t old n)) = insert n (set (inorder t) - {old}) \<and>
         rb_map st (c_replace_node c t old n) = (rb_map st t)(nkey st n \<mapsto> nval st n)"
proof -
  let ?t = "c_replace_node c t old n"
  have io: "inorder ?t = map (\<lambda>x. if x = old then n else x) (inorder t)"
    using c_rb_okD(3) [OF c _ o(1)] inv by simp
  have inj: "inj_on (\<lambda>x. if x = old then n else x) (set (inorder t))"
    using n(3) by (auto simp: inj_on_def)
  have set: "set (inorder ?t) = insert n (set (inorder t) - {old})"
    using io o(1) n(3) by auto
  have keys: "map (nkey st) (inorder ?t) = map (nkey st) (inorder t)"
    unfolding io by (rule map_replace_key) (use o in auto)
  have inv': "rb_inv st ?t"
    unfolding rb_inv_def ptree_ok_def keys set
    using inv inj n io by (auto simp: rb_inv_def ptree_ok_def distinct_map)
  have "rb_map st ?t = (rb_map st t)(nkey st n \<mapsto> nval st n)"
  proof (rule rb_map_eqI [OF inv'])
    fix key v
    have "(\<exists>m \<in> set (inorder t) - {old}. nkey st m = key \<and> nval st m = v) \<longleftrightarrow>
        key \<noteq> nkey st n \<and> rb_map st t key = Some v"
      using rb_unique_key [OF inv _ o(1)] o(2) by (auto simp: rb_map_Some [OF inv])
    then show "(\<exists>m \<in> set (inorder ?t). nkey st m = key \<and> nval st m = v) \<longleftrightarrow>
        ((rb_map st t)(nkey st n \<mapsto> nval st n)) key = Some v"
      unfolding set by auto
  qed
  with inv' set show ?thesis by blast
qed

lemma erase_ok:
  assumes c: "c_rb_ok c" and inv: "rb_inv st t" and n: "n \<in> set (inorder t)"
  shows "rb_inv st (c_erase c t n) \<and> set (inorder (c_erase c t n)) = set (inorder t) - {n} \<and>
         rb_map st (c_erase c t n) = (rb_map st t)(nkey st n := None)"
proof -
  let ?t = "c_erase c t n"
  have io: "inorder ?t = removeAll n (inorder t)"
    using c_rb_okD(2) [OF c _ n] inv by simp
  have inv': "rb_inv st ?t"
    using inv unfolding rb_inv_def ptree_ok_def io removeAll_filter_not_eq
    by (auto simp: sorted_wrt_map intro: sorted_wrt_filter)
  have "rb_map st ?t = (rb_map st t)(nkey st n := None)"
    by (rule rb_map_eqI [OF inv'])
      (use io n rb_unique_key [OF inv _ n] in \<open>auto simp: rb_map_Some [OF inv]\<close>)
  with inv' io show ?thesis by simp
qed

lemma rbtree_insert_ok:
  assumes c: "c_rb_ok c" and inv: "rb_inv st t" and n: "cell_kv (st n) \<noteq> None" "n \<noteq> 0" "n \<notin> set (inorder t)"
  shows "\<exists>old t'. rbtree_insert c st t n = Inr (old, t') \<and> rb_inv st t' \<and>
           rb_map st t' = (rb_map st t)(nkey st n \<mapsto> nval st n) \<and>
           (case old of
              None \<Rightarrow> rb_map st t (nkey st n) = None \<and> set (inorder t') = insert n (set (inorder t))
            | Some x \<Rightarrow> x \<in> set (inorder t) \<and> nkey st x = nkey st n \<and>
                        set (inorder t') = insert n (set (inorder t) - {x}))"
proof -
  obtain e where e: "raw_entry_loop st (nkey st n) 0 [] t = Inr e" "entry_post st (nkey st n) t [] e"
    using raw_entry_loop_ok [OF inv] by blast
  show ?thesis
  proof (cases e)
    case (Occupied x)
    with e occupied_replace_ok [OF c inv n] show ?thesis
      using n(1) by (auto simp: rbtree_insert_def raw_entry_def occupied_replace_def entry_post_def)
  next
    case (Vacant p field)
    have "rb_map st t (nkey st n) = None"
      using e(2) Vacant entry_vacant_None [OF inv] by blast
    with e Vacant vacant_insert_ok [OF c inv n, of p field] show ?thesis
      using n(1) by (auto simp: rbtree_insert_def raw_entry_def)
  qed
qed

lemma find_mut_ok:
  assumes "rb_inv st t"
  shows "\<exists>r. find_mut st t key = Inr r \<and>
           (case r of None \<Rightarrow> rb_map st t key = None
            | Some n \<Rightarrow> n \<in> set (inorder t) \<and> nkey st n = key \<and> rb_map st t key = Some (nval st n))"
proof -
  obtain e where e: "raw_entry_loop st key 0 [] t = Inr e" "entry_post st key t [] e"
    using raw_entry_loop_ok [OF assms] by blast
  have "rb_map st t key = None" if "e = Vacant p field" for p field
    using e(2) that entry_vacant_None [OF assms] by blast
  with e rb_map_Some [OF assms, of key] show ?thesis
    by (cases e) (auto simp: find_mut_def raw_entry_def entry_post_def)
qed

lemma rb_frame:
  assumes "\<And>n. n \<in> set (inorder t) \<Longrightarrow> st' n = st n"
  shows "rb_inv st' t = rb_inv st t" and "rb_map st' t = rb_map st t"
proof -
  have eq: "nkey st' n = nkey st n" "nval st' n = nval st n" "cell_kv (st' n) = cell_kv (st n)"
    if "n \<in> set (inorder t)" for n
    using assms [OF that] by (simp_all add: nkey_def nval_def kv_def del: kv_pair)
  then show "rb_inv st' t = rb_inv st t" by (simp add: rb_inv_def cong: map_cong)
  show "rb_map st' t = rb_map st t" using eq by (simp add: rb_map_def rb_list_def cong: map_cong)
qed

lemma rb_frame_upd [simp]:
  assumes "n \<notin> set (inorder t)"
  shows "rb_inv (st(n := x)) t = rb_inv st t" and "rb_map (st(n := x)) t = rb_map st t"
proof -
  have eq: "(st(n := x)) m = st m" if "m \<in> set (inorder t)" for m using that assms by auto
  show "rb_inv (st(n := x)) t = rb_inv st t" by (rule rb_frame(1) [OF eq])
  show "rb_map (st(n := x)) t = rb_map st t" by (rule rb_frame(2) [OF eq])
qed

text \<open>No leak and no dangling node: the allocated cells are the nodes of the tree.\<close>

definition rb_own :: "('k, 'v) store \<Rightarrow> ptree \<Rightarrow> bool" where
  "rb_own st t \<longleftrightarrow> (\<forall>a. st a \<noteq> Free \<longleftrightarrow> a \<in> set (inorder t))"

text \<open>The map operations as one alphabet; a node that is handed back is dropped by the client.\<close>

datatype ('k, 'v) rb_op = RInsert 'k 'v | RRemove 'k | RGet 'k | RUpdate 'k 'v

fun rb_step ::
  "c_rb \<Rightarrow> ('k :: linorder, 'v) alloc \<Rightarrow> ('k, 'v) rb_op \<Rightarrow> ('k, 'v) store \<times> ptree \<Rightarrow>
   ('v option \<times> ('k, 'v) store \<times> ptree) exec" where
  "rb_step c alloc (RInsert k v) (st, t) =
     exec_bind (rbtree_try_create_and_insert c alloc st t k v) (\<lambda>(r, st, t).
     case r of
       Ok (Some old) \<Rightarrow> exec_bind (node_to_key_value st old) (\<lambda>((_, v), st). Inr (Some v, st, t))
     | _ \<Rightarrow> Inr (None, st, t))"
| "rb_step c alloc (RRemove k) (st, t) = rbtree_remove c st t k"
| "rb_step c alloc (RGet k) (st, t) = exec_bind (rbtree_get st t k) (\<lambda>r. Inr (r, st, t))"
| "rb_step c alloc (RUpdate k v) (st, t) =
     exec_bind (rbtree_get_mut st t k (\<lambda>_. v)) (\<lambda>(r, st). Inr (r, st, t))"

fun rb_run ::
  "c_rb \<Rightarrow> ('k :: linorder, 'v) alloc \<Rightarrow> ('k, 'v) rb_op list \<Rightarrow> ('k, 'v) store \<times> ptree \<Rightarrow>
   ('v option list \<times> ('k, 'v) store \<times> ptree) exec" where
  "rb_run c alloc [] s = Inr ([], s)"
| "rb_run c alloc (x # xs) s =
     exec_bind (rb_step c alloc x s) (\<lambda>(r, s'). exec_bind (rb_run c alloc xs s') (\<lambda>(rs, s''). Inr (r # rs, s'')))"

fun map_step :: "('k, 'v) rb_op \<Rightarrow> ('k \<rightharpoonup> 'v) \<Rightarrow> 'v option \<Rightarrow> ('k \<rightharpoonup> 'v) \<Rightarrow> bool" where
  "map_step (RInsert k v) m r m' \<longleftrightarrow> r = m k \<and> m' = m(k \<mapsto> v) \<or> r = None \<and> m' = m"
| "map_step (RRemove k) m r m' \<longleftrightarrow> r = m k \<and> m' = m(k := None)"
| "map_step (RGet k) m r m' \<longleftrightarrow> r = m k \<and> m' = m"
| "map_step (RUpdate k v) m r m' \<longleftrightarrow> r = m k \<and> m' = (if k \<in> dom m then m(k \<mapsto> v) else m)"

fun map_run :: "('k, 'v) rb_op list \<Rightarrow> ('k \<rightharpoonup> 'v) \<Rightarrow> 'v option list \<Rightarrow> ('k \<rightharpoonup> 'v) \<Rightarrow> bool" where
  "map_run [] m rs m' \<longleftrightarrow> rs = [] \<and> m' = m"
| "map_run (x # xs) m rs m' \<longleftrightarrow> (\<exists>r rs' m1. rs = r # rs' \<and> map_step x m r m1 \<and> map_run xs m1 rs' m')"

lemma rb_step_insert:
  assumes c: "c_rb_ok c" and a: "alloc_ok alloc" and inv: "rb_inv st t" and own: "rb_own st t"
  shows "\<exists>r st' t'. rb_step c alloc (RInsert k v) (st, t) = Inr (r, st', t') \<and> rb_inv st' t' \<and> rb_own st' t' \<and>
           map_step (RInsert k v) (rb_map st t) r (rb_map st' t')"
proof (cases "alloc st")
  case None
  with inv own show ?thesis
    by (simp add: rbtree_try_create_and_insert_def rbtree_node_new_def reservation_new_def)
next
  case (Some n)
  with a have n: "n \<noteq> 0" "st n = Free" by (auto simp: alloc_ok_def)
  then have fresh: "n \<notin> set (inorder t)" using own by (auto simp: rb_own_def)
  let ?st = "st(n := Node k v)"
  have node: "nkey ?st n = k" "nval ?st n = v" by (rule node_key, simp)+
  have fr: "rb_inv ?st t" "rb_map ?st t = rb_map st t"
    using fresh inv by simp_all
  obtain old t' where ins: "rbtree_insert c ?st t n = Inr (old, t')" "rb_inv ?st t'"
    "rb_map ?st t' = (rb_map st t)(k \<mapsto> v)"
    "case old of None \<Rightarrow> rb_map st t k = None \<and> set (inorder t') = insert n (set (inorder t))
     | Some x \<Rightarrow> x \<in> set (inorder t) \<and> nkey ?st x = k \<and> set (inorder t') = insert n (set (inorder t) - {x})"
    using rbtree_insert_ok [OF c fr(1) _ n(1) fresh] unfolding node fr(2) by auto
  have new: "rbtree_try_create_and_insert c alloc st t k v = Inr (Ok old, ?st, t')"
    using Some ins(1)
    by (simp add: rbtree_try_create_and_insert_def rbtree_node_new_def reservation_new_def
        reservation_into_node_def)
  show ?thesis
  proof (cases old)
    case None
    with ins new own n show ?thesis by (auto simp: rb_own_def)
  next
    case (Some x)
    then have x: "x \<in> set (inorder t)" "nkey ?st x = k" "x \<notin> set (inorder t')" "x \<noteq> n"
      "set (inorder t') = insert n (set (inorder t) - {x})"
      using ins(4) fresh by auto
    then have cell: "cell_kv (?st x) \<noteq> None" using fr(1) by (auto simp: rb_inv_def)
    have "rb_map st t k = Some (nval ?st x)"
      using rb_map_Some [OF fr(1), of k] x fr(2) by auto
    moreover have "rb_inv (?st(x := Free)) t' \<and> rb_map (?st(x := Free)) t' = (rb_map st t)(k \<mapsto> v)"
      using x(3) ins(2,3) by simp
    moreover have "rb_own (?st(x := Free)) t'"
      using own n x by (auto simp: rb_own_def)
    moreover have "rb_step c alloc (RInsert k v) (st, t) = Inr (Some (nval ?st x), ?st(x := Free), t')"
      using new cell Some by (simp add: node_to_key_value_def del: fun_upd_apply)
    ultimately show ?thesis by auto
  qed
qed

lemma rb_step_remove:
  assumes c: "c_rb_ok c" and inv: "rb_inv st t" and own: "rb_own st t"
  shows "\<exists>r st' t'. rbtree_remove c st t k = Inr (r, st', t') \<and> rb_inv st' t' \<and> rb_own st' t' \<and>
           r = rb_map st t k \<and> rb_map st' t' = (rb_map st t)(k := None)"
proof -
  obtain r where r: "find_mut st t k = Inr r"
    "case r of None \<Rightarrow> rb_map st t k = None
     | Some n \<Rightarrow> n \<in> set (inorder t) \<and> nkey st n = k \<and> rb_map st t k = Some (nval st n)"
    using find_mut_ok [OF inv] by blast
  show ?thesis
  proof (cases r)
    case None
    with r inv own show ?thesis by (auto simp: rbtree_remove_def)
  next
    case (Some n)
    with r have n: "n \<in> set (inorder t)" "nkey st n = k" "rb_map st t k = Some (nval st n)" by auto
    let ?t = "c_erase c t n"
    have er: "rb_inv st ?t" "set (inorder ?t) = set (inorder t) - {n}" "rb_map st ?t = (rb_map st t)(k := None)"
      using erase_ok [OF c inv n(1)] n(2) by auto
    have "cell_kv (st n) \<noteq> None" using inv n(1) by (auto simp: rb_inv_def)
    then have "rbtree_remove c st t k = Inr (Some (nval st n), st(n := Free), ?t)"
      using r Some by (simp add: rbtree_remove_def occupied_remove_def occupied_remove_node_def
          node_to_key_value_def)
    moreover have "rb_inv (st(n := Free)) ?t \<and> rb_map (st(n := Free)) ?t = rb_map st ?t"
      using er by simp
    moreover have "rb_own (st(n := Free)) ?t"
      using own er(2) by (auto simp: rb_own_def)
    ultimately show ?thesis using n er by auto
  qed
qed

lemma rb_step_update:
  assumes inv: "rb_inv st t" and own: "rb_own st t"
  shows "\<exists>st'. rbtree_get_mut st t k f = Inr (rb_map st t k, st') \<and> rb_inv st' t \<and> rb_own st' t \<and>
           rb_map st' t = (case rb_map st t k of None \<Rightarrow> rb_map st t | Some v \<Rightarrow> (rb_map st t)(k \<mapsto> f v))"
proof -
  obtain r where r: "find_mut st t k = Inr r"
    "case r of None \<Rightarrow> rb_map st t k = None
     | Some n \<Rightarrow> n \<in> set (inorder t) \<and> nkey st n = k \<and> rb_map st t k = Some (nval st n)"
    using find_mut_ok [OF inv] by blast
  show ?thesis
  proof (cases r)
    case None
    with r inv own show ?thesis by (auto simp: rbtree_get_mut_def)
  next
    case (Some n)
    with r have n: "n \<in> set (inorder t)" "nkey st n = k" "rb_map st t k = Some (nval st n)" by auto
    let ?st = "st(n := Node k (f (nval st n)))"
    have keys: "nkey ?st m = nkey st m" "nval ?st m = (if m = n then f (nval st n) else nval st m)" for m
      using n(2) by (simp_all add: nkey_def nval_def kv_def del: kv_pair)
    have "cell_kv (st n) \<noteq> None" using inv n(1) by (auto simp: rb_inv_def)
    then have "rbtree_get_mut st t k f = Inr (rb_map st t k, ?st)"
      using r Some n by (simp add: rbtree_get_mut_def)
    moreover have inv': "rb_inv ?st t"
      using inv by (simp add: rb_inv_def keys cong: map_cong)
    moreover have "rb_map ?st t = (rb_map st t)(k \<mapsto> f (nval st n))"
    proof (rule rb_map_eqI [OF inv'])
      fix key v
      have "(\<exists>m \<in> set (inorder t). nkey ?st m = key \<and> nval ?st m = v) \<longleftrightarrow>
          key = k \<and> v = f (nval st n) \<or> (\<exists>m \<in> set (inorder t) - {n}. nkey st m = key \<and> nval st m = v)"
        unfolding keys using n(1,2) by auto
      moreover have "(\<exists>m \<in> set (inorder t) - {n}. nkey st m = key \<and> nval st m = v) \<longleftrightarrow>
          key \<noteq> k \<and> rb_map st t key = Some v"
        using rb_unique_key [OF inv _ n(1)] n(2) by (auto simp: rb_map_Some [OF inv])
      ultimately show "(\<exists>m \<in> set (inorder t). nkey ?st m = key \<and> nval ?st m = v) \<longleftrightarrow>
          ((rb_map st t)(k \<mapsto> f (nval st n))) key = Some v"
        by auto
    qed
    moreover have "rb_own ?st t"
      using own n(1) by (auto simp: rb_own_def)
    ultimately show ?thesis using n by simp
  qed
qed

lemma rb_run_ok:
  assumes c: "c_rb_ok c" and a: "alloc_ok alloc" and "rb_inv st t" and "rb_own st t"
  shows "\<exists>rs st' t'. rb_run c alloc xs (st, t) = Inr (rs, st', t') \<and> rb_inv st' t' \<and> rb_own st' t' \<and>
           map_run xs (rb_map st t) rs (rb_map st' t')"
  using assms(3,4)
proof (induction xs arbitrary: st t)
  case Nil
  then show ?case by simp
next
  case (Cons x xs)
  have "\<exists>r st' t'. rb_step c alloc x (st, t) = Inr (r, st', t') \<and> rb_inv st' t' \<and> rb_own st' t' \<and>
      map_step x (rb_map st t) r (rb_map st' t')"
  proof (cases x)
    case (RInsert k v)
    with rb_step_insert [OF c a Cons.prems] show ?thesis by blast
  next
    case (RRemove k)
    with rb_step_remove [OF c Cons.prems, of k] show ?thesis by auto
  next
    case (RGet k)
    with Cons.prems show ?thesis by (simp add: rbtree_get_def get_loop_ok)
  next
    case (RUpdate k v)
    with rb_step_update [OF Cons.prems, of k "\<lambda>_. v"] show ?thesis
      by (cases "rb_map st t k") auto
  qed
  then obtain r st1 t1 where step: "rb_step c alloc x (st, t) = Inr (r, st1, t1)" "rb_inv st1 t1" "rb_own st1 t1"
    "map_step x (rb_map st t) r (rb_map st1 t1)" by blast
  from Cons.IH [OF step(2,3)] step(1,4) show ?case by fastforce
qed

section \<open>Traversals\<close>

lemma rb_iter_collect_ok:
  assumes c: "c_rb_ok c" and inv: "rb_inv st t"
  shows "inorder t = xs @ ys \<Longrightarrow> length ys < fuel \<Longrightarrow>
         iter_collect fuel c st t (hd (ys @ [0])) = Some (Inr (map (kv st) ys))"
proof (induction fuel arbitrary: xs ys)
  case 0
  then show ?case by simp
next
  case (Suc fuel)
  show ?case
  proof (cases ys)
    case Nil
    then show ?thesis by (simp add: iter_raw_next_def)
  next
    case (Cons n zs)
    have n: "n \<noteq> 0" "cell_kv (st n) \<noteq> None" "c_next c t n = hd (zs @ [0])"
      using inv Suc.prems(1) Cons c_rb_okD(6) [OF c, of t xs n zs] by (auto simp: rb_inv_def ptree_ok_def)
    have "iter_collect fuel c st t (hd (zs @ [0])) = Some (Inr (map (kv st) zs))"
      using Suc.IH [of "xs @ [n]" zs] Suc.prems Cons by simp
    with n Cons show ?thesis by (simp add: iter_raw_next_def)
  qed
qed

lemma set_postorder [simp]: "set (postorder t) = set (inorder t)"
  by (induction t) auto

lemma length_postorder [simp]: "length (postorder t) = length (inorder t)"
  by (induction t) auto

lemma distinct_postorder: "distinct (inorder t) \<Longrightarrow> distinct (postorder t)"
  by (induction t) auto

lemma drop_loop_ok:
  assumes c: "c_rb_ok c" and t: "ptree_ok t"
  shows "postorder t = xs @ ys \<Longrightarrow> length ys < fuel \<Longrightarrow> (\<And>n. n \<in> set ys \<Longrightarrow> cell_kv (st n) \<noteq> None) \<Longrightarrow>
         rbtree_drop_loop fuel c t st (hd (ys @ [0])) =
           Some (Inr (map (kv st) ys, \<lambda>a. if a \<in> set ys then Free else st a))"
proof (induction fuel arbitrary: xs ys st)
  case 0
  then show ?case by simp
next
  case (Suc fuel)
  show ?case
  proof (cases ys)
    case Nil
    then show ?thesis by simp
  next
    case (Cons n zs)
    have "distinct (xs @ n # zs)" "set (xs @ n # zs) = set (inorder t)"
      using t distinct_postorder [of t] set_postorder [of t] Suc.prems(1) Cons by (auto simp: ptree_ok_def)
    then have n: "n \<noteq> 0" "n \<notin> set zs" "cell_kv (st n) \<noteq> None" "c_next_postorder c t n = hd (zs @ [0])"
      using t Suc.prems(1,3) Cons c_rb_okD(9) [OF c t, of xs n zs] by (auto simp: ptree_ok_def)
    let ?st = "st(n := Free)"
    have st: "?st m = st m" if "m \<in> set zs" for m using n(2) that by auto
    have kv: "kv ?st m = kv st m" if "m \<in> set zs" for m
      using st [OF that] by (simp add: kv_def nkey_def nval_def del: kv_pair fun_upd_apply)
    have "rbtree_drop_loop fuel c t ?st (hd (zs @ [0])) =
        Some (Inr (map (kv ?st) zs, \<lambda>a. if a \<in> set zs then Free else ?st a))"
    proof (rule Suc.IH)
      show "postorder t = (xs @ [n]) @ zs" "length zs < fuel" using Suc.prems Cons by simp_all
      show "cell_kv (?st m) \<noteq> None" if "m \<in> set zs" for m
        unfolding st [OF that] using Suc.prems(3) that Cons by simp
    qed
    moreover have "map (kv ?st) zs = map (kv st) zs" by (rule map_cong [OF refl kv])
    moreover have "(\<lambda>a. if a \<in> set zs then Free else ?st a) = (\<lambda>a. if a \<in> set ys then Free else st a)"
      using Cons by auto
    ultimately show ?thesis using n Cons by (simp add: node_to_key_value_def del: kv_pair) simp
  qed
qed

lemma neighbor_ok:
  assumes c: "c_rb_ok c" and t: "ptree_ok t" and io: "inorder t = xs @ n # ys"
  shows "get_neighbor_raw c t n Next = (case ys of [] \<Rightarrow> None | y # _ \<Rightarrow> Some y)"
    and "get_neighbor_raw c t n Prev = (if xs = [] then None else Some (last xs))"
proof -
  have nz: "0 \<notin> set xs" "0 \<notin> set ys" using t io by (auto simp: ptree_ok_def)
  show "get_neighbor_raw c t n Next = (case ys of [] \<Rightarrow> None | y # _ \<Rightarrow> Some y)"
    using c_rb_okD(6) [OF c t io] nz by (cases ys) (auto simp: get_neighbor_raw_def nonnull_def)
  show "get_neighbor_raw c t n Prev = (if xs = [] then None else Some (last xs))"
  proof (cases xs rule: rev_cases)
    case Nil
    with c_rb_okD(7) [OF c t io] show ?thesis by (simp add: get_neighbor_raw_def nonnull_def)
  next
    case (snoc zs z)
    with c_rb_okD(7) [OF c t io] nz show ?thesis by (auto simp: get_neighbor_raw_def nonnull_def)
  qed
qed

section \<open>An instance of the C functions\<close>

text \<open>Without rebalancing; it shows that the contract can hold and serves the examples.\<close>

fun spine :: "addr list \<Rightarrow> ptree" where
  "spine [] = Leaf"
| "spine (n # ns) = Br Leaf n (spine ns)"

definition after :: "addr list \<Rightarrow> addr \<Rightarrow> addr" where
  "after ns n = hd (tl (dropWhile (\<lambda>x. x \<noteq> n) ns) @ [0])"

definition before :: "addr list \<Rightarrow> addr \<Rightarrow> addr" where
  "before ns n = last (0 # takeWhile (\<lambda>x. x \<noteq> n) ns)"

definition ref_rb :: c_rb where
  "ref_rb = \<lparr>c_insert_color = (\<lambda>t n. t),
     c_erase = (\<lambda>t n. spine (removeAll n (inorder t))),
     c_replace_node = (\<lambda>t n n'. spine (map (\<lambda>x. if x = n then n' else x) (inorder t))),
     c_first = (\<lambda>t. hd (inorder t @ [0])), c_last = (\<lambda>t. last (0 # inorder t)),
     c_next = (\<lambda>t. after (inorder t)), c_prev = (\<lambda>t. before (inorder t)),
     c_first_postorder = (\<lambda>t. hd (postorder t @ [0])), c_next_postorder = (\<lambda>t. after (postorder t))\<rparr>"

lemma inorder_spine [simp]: "inorder (spine ns) = ns"
  by (induction ns) simp_all

lemma after_split: "distinct (xs @ n # ys) \<Longrightarrow> after (xs @ n # ys) n = hd (ys @ [0])"
proof -
  assume "distinct (xs @ n # ys)"
  then have "dropWhile (\<lambda>x. x \<noteq> n) (xs @ n # ys) = n # ys" by (subst dropWhile_append2) auto
  then show ?thesis by (simp add: after_def)
qed

lemma before_split: "distinct (xs @ n # ys) \<Longrightarrow> before (xs @ n # ys) n = last (0 # xs)"
proof -
  assume "distinct (xs @ n # ys)"
  then have "takeWhile (\<lambda>x. x \<noteq> n) (xs @ n # ys) = xs" by (subst takeWhile_append2) auto
  then show ?thesis by (simp add: before_def)
qed

lemma ref_rb_ok: "c_rb_ok ref_rb"
  unfolding c_rb_ok_def
proof (intro conjI allI impI)
  fix t xs n ys
  assume "ptree_ok t" "inorder t = xs @ n # ys"
  then show "c_next ref_rb t n = hd (ys @ [0])" "c_prev ref_rb t n = last (0 # xs)"
    using after_split [of xs n ys] before_split [of xs n ys] by (simp_all add: ref_rb_def ptree_ok_def)
next
  fix t xs n ys
  assume "ptree_ok t" "postorder t = xs @ n # ys"
  then show "c_next_postorder ref_rb t n = hd (ys @ [0])"
    using after_split [of xs n ys] distinct_postorder [of t] by (simp add: ref_rb_def ptree_ok_def)
qed (simp_all add: ref_rb_def)

definition bump_alloc :: "nat \<Rightarrow> (nat, nat) alloc" where
  "bump_alloc lim st = List.find (\<lambda>a. st a = Free) [1..<lim]"

lemma bump_alloc_ok: "alloc_ok (bump_alloc lim)"
  by (auto simp: alloc_ok_def bump_alloc_def find_Some_iff)

lemma rb_new_ok: "rb_inv (\<lambda>_. Free) Leaf" "rb_own (\<lambda>_. Free) Leaf"
  by (simp_all add: rb_inv_def ptree_ok_def rb_own_def)

definition sample_store :: "(nat, nat) store" where
  "sample_store a = (if a = 1 then Node 10 100 else if a = 2 then Node 20 200
                     else if a = 3 then Node 30 300 else Free)"

definition sample_tree :: ptree where
  "sample_tree = Br (Br Leaf 1 Leaf) 2 (Br Leaf 3 Leaf)"

lemma sample_tree_inv: "rb_inv sample_store sample_tree"
  by (simp add: rb_inv_def ptree_ok_def sample_tree_def sample_store_def nkey_def kv_def del: kv_pair)

section \<open>Properties\<close>

text \<open>
  C3: Any sequence of insertions, removals, lookups and updates through references behaves as a finite map,
  for every rebalancing that keeps the in-order sequence: the tree stays a search tree, every result
  is the map's, a failed allocation changes nothing, and the nodes allocated are exactly the nodes of
  the tree, so that none is leaked, freed twice or used after it was freed.
\<close>

theorem rbtree_refines_map:
  assumes "c_rb_ok c" and "alloc_ok alloc" and "rb_inv st t" and "rb_own st t"
  shows "\<exists>rs st' t'. rb_run c alloc xs (st, t) = Inr (rs, st', t') \<and> rb_inv st' t' \<and> rb_own st' t' \<and>
           map_run xs (rb_map st t) rs (rb_map st' t')"
  using assms by (rule rb_run_ok)

theorem rbtree_refines_map_witness:
  "\<exists>rs st' t'. rb_run ref_rb (bump_alloc 8) [RInsert 5 50, RInsert 3 30, RInsert 5 51, RRemove 3, RGet 5]
       (\<lambda>_. Free, Leaf) = Inr (rs, st', t') \<and> rb_inv st' t' \<and> rb_own st' t' \<and>
     map_run [RInsert 5 50, RInsert 3 30, RInsert 5 51, RRemove 3, RGet 5]
       (rb_map (\<lambda>_. Free) Leaf) rs (rb_map st' t')"
  by (rule rbtree_refines_map) (rule ref_rb_ok, rule bump_alloc_ok, (rule rb_new_ok)+)

text \<open>
  \<open>cursor_lower_bound\<close> returns the node with the key if there is one, otherwise the node with the first larger
  key, and nothing when every key is smaller.
\<close>

lemma cursor_lower_bound_correct:
  assumes "rb_inv st t"
  shows "\<exists>r. cursor_lower_bound st t key = Inr r \<and>
           (case r of
              None \<Rightarrow> (\<forall>n \<in> set (inorder t). nkey st n < key)
            | Some n \<Rightarrow> n \<in> set (inorder t) \<and> key \<le> nkey st n \<and>
                        (\<forall>m \<in> set (inorder t). key \<le> nkey st m \<longrightarrow> nkey st n \<le> nkey st m))"
proof -
  have sorted: "sorted_wrt (<) (map (nkey st) (inorder t))" using assms by (simp add: rb_inv_def)
  have lb: "cursor_lower_bound st t key = Inr (List.find (\<lambda>m. key \<le> nkey st m) (inorder t))"
    using lower_bound_loop_ok [OF assms, of None key] by (simp add: cursor_lower_bound_def split: option.splits)
  show ?thesis
  proof (cases "List.find (\<lambda>m. key \<le> nkey st m) (inorder t)")
    case None
    with lb show ?thesis by (auto simp: find_None_iff not_le)
  next
    case (Some n)
    then obtain i where i: "i < length (inorder t)" "n = inorder t ! i" "key \<le> nkey st n"
      "\<forall>j < i. \<not> key \<le> nkey st (inorder t ! j)"
      by (auto simp: find_Some_iff)
    have "nkey st n \<le> nkey st m" if m: "m \<in> set (inorder t)" "key \<le> nkey st m" for m
    proof -
      obtain j where j: "j < length (inorder t)" "m = inorder t ! j" using m(1) by (auto simp: in_set_conv_nth)
      with i(4) m(2) have "i \<le> j" by (meson not_le)
      with sorted i j show ?thesis
        by (cases "i = j") (auto simp: sorted_wrt_iff_nth_less intro: less_imp_le)
    qed
    with i lb Some show ?thesis by auto
  qed
qed

text \<open>
  C15: Iterating over the tree terminates and yields exactly its entries, each once, in strictly increasing
  order of the keys.
\<close>

theorem rbtree_iter_sorted:
  assumes "c_rb_ok c" and "rb_inv st t" and "length (inorder t) < fuel"
  shows "\<exists>kvs. iter_collect fuel c st t (rbtree_iter c t) = Some (Inr kvs) \<and> map_of kvs = rb_map st t \<and>
           sorted_wrt (<) (map fst kvs)"
proof -
  have "iter_collect fuel c st t (rbtree_iter c t) = Some (Inr (rb_list st t))"
    using rb_iter_collect_ok [OF assms(1,2), of "[]" "inorder t" fuel] assms c_rb_okD(4) [OF assms(1), of t]
    by (simp add: rbtree_iter_def rb_list_def)
  moreover have "sorted_wrt (<) (map fst (rb_list st t))"
    using assms(2) by (simp add: rb_inv_def rb_list_def comp_def)
  ultimately show ?thesis by (simp add: rb_map_def)
qed

theorem rbtree_iter_sorted_witness:
  "\<exists>kvs. iter_collect 4 ref_rb sample_store sample_tree (rbtree_iter ref_rb sample_tree) = Some (Inr kvs) \<and>
     map_of kvs = rb_map sample_store sample_tree \<and> sorted_wrt (<) (map fst kvs)"
  by (rule rbtree_iter_sorted) (rule ref_rb_ok, rule sample_tree_inv, simp add: sample_tree_def)

text \<open>
  Dropping a tree terminates, drops every entry exactly once, and frees exactly the nodes of the tree; the
  next node is always found before the current one is freed.
\<close>

lemma rbtree_drop_complete:
  assumes "c_rb_ok c" and "rb_inv st t" and "length (inorder t) < fuel"
  shows "\<exists>kvs. rbtree_drop fuel c t st =
             Some (Inr (kvs, \<lambda>a. if a \<in> set (inorder t) then Free else st a)) \<and>
           length kvs = length (inorder t) \<and> set kvs = set (rb_list st t) \<and> distinct kvs"
proof -
  have t: "ptree_ok t" using assms(2) by simp
  have cells: "cell_kv (st n) \<noteq> None" if "n \<in> set (postorder t)" for n
    using assms(2) that by (auto simp: rb_inv_def)
  have "rbtree_drop fuel c t st =
      Some (Inr (map (kv st) (postorder t), \<lambda>a. if a \<in> set (inorder t) then Free else st a))"
    using drop_loop_ok [OF assms(1) t, of "[]" "postorder t" fuel st] cells assms(3) c_rb_okD(8) [OF assms(1) t]
    by (simp add: rbtree_drop_def)
  moreover have "distinct (map (kv st) (postorder t))"
    using distinct_postorder [of t] t rb_unique_key [OF assms(2)]
    by (auto simp: ptree_ok_def distinct_map inj_on_def)
  ultimately show ?thesis by (simp add: rb_list_def)
qed

text \<open>
  Removing at a cursor: \<open>remove_current\<close> takes exactly the current node out and leaves the cursor on
  the next node, on the previous one at the end, and nowhere on a tree that became empty;
  \<open>remove_prev\<close> and \<open>remove_next\<close> take exactly the neighbour out. The tree stays a search tree.
\<close>

lemma rb_cursor_remove_correct:
  assumes "c_rb_ok c" and "rb_inv st t" and "inorder t = xs @ n # ys"
  shows "(\<exists>t'. rb_cursor_remove_current c t n =
            ((case ys of y # _ \<Rightarrow> Some y | [] \<Rightarrow> if xs = [] then None else Some (last xs)), n, t') \<and>
            inorder t' = xs @ ys \<and> rb_inv st t') \<and>
         (case rb_cursor_remove_neighbor c t n Next of
            (r, t') \<Rightarrow> r = (case ys of [] \<Rightarrow> None | y # _ \<Rightarrow> Some y) \<and> inorder t' = xs @ n # tl ys \<and> rb_inv st t') \<and>
         (case rb_cursor_remove_neighbor c t n Prev of
            (r, t') \<Rightarrow> r = (if xs = [] then None else Some (last xs)) \<and> inorder t' = butlast xs @ n # ys \<and>
                       rb_inv st t')"
proof -
  have t: "ptree_ok t" using assms(2) by simp
  have dist: "distinct (xs @ n # ys)" using t assms(3) by (simp add: ptree_ok_def)
  note nb = neighbor_ok [OF assms(1) t assms(3)]
  have er: "inorder (c_erase c t m) = removeAll m (xs @ n # ys) \<and> rb_inv st (c_erase c t m)"
    if "m \<in> set (xs @ n # ys)" for m
    using c_rb_okD(2) [OF assms(1) t] erase_ok [OF assms(1,2)] that assms(3) by simp
  have "rb_cursor_remove_current c t n =
      ((case ys of y # _ \<Rightarrow> Some y | [] \<Rightarrow> if xs = [] then None else Some (last xs)), n, c_erase c t n)"
    using nb by (auto simp: rb_cursor_remove_current_def split: list.splits)
  moreover have "inorder (c_erase c t n) = xs @ ys \<and> rb_inv st (c_erase c t n)"
    using er [of n] dist by (simp add: removeAll_id)
  moreover have "case rb_cursor_remove_neighbor c t n Next of
      (r, t') \<Rightarrow> r = (case ys of [] \<Rightarrow> None | y # _ \<Rightarrow> Some y) \<and> inorder t' = xs @ n # tl ys \<and> rb_inv st t'"
    using nb(1) er [of "hd ys"] dist assms(2,3)
    by (cases ys) (auto simp: rb_cursor_remove_neighbor_def removeAll_id)
  moreover have "case rb_cursor_remove_neighbor c t n Prev of
      (r, t') \<Rightarrow> r = (if xs = [] then None else Some (last xs)) \<and> inorder t' = butlast xs @ n # ys \<and> rb_inv st t'"
    using nb(2) er [of "last xs"] dist assms(2,3)
    by (cases xs rule: rev_cases) (auto simp: rb_cursor_remove_neighbor_def removeAll_id)
  ultimately show ?thesis by blast
qed

end
