(* ===== verification/Sync_Arc.thy ===== *)
theory Sync_Arc
  imports Kernel_Error "HOL-Library.Word" "HOL-Library.Multiset"
begin

text \<open>
  \<open>rust/src/sync/arc.rs\<close>: reference-counted objects.

  The heap maps the address of an \<open>ArcInner\<close> to its reference count and its data; data that is not yet
  initialised (\<open>MaybeUninit\<close>) is \<open>None\<close>. An \<open>Arc\<close>, an \<open>ArcBorrow\<close> and a \<open>UniqueArc\<close> are the address; who
  owns which handles is the state of the step relation \<open>arc_step\<close>. Every access to an address without
  an object is \<open>UB\<close>, so is a read of uninitialised data. The kernel's saturating counter is the parameter
  \<open>c_refcount\<close>; each call to it is one atomic step, and the operations touch the object before or
  after that step only when they own a count, so whole operations are the unit of interleaving.
\<close>

section \<open>Reference counts of the kernel\<close>

record c_refcount =
  rc_init :: "nat \<Rightarrow> u32"
  rc_inc :: "u32 \<Rightarrow> u32"
  rc_dec_and_test :: "u32 \<Rightarrow> bool \<times> u32"

definition rc_saturated :: "u32 \<Rightarrow> bool" where
  "rc_saturated n \<longleftrightarrow> 2 ^ 31 \<le> unat n"

text \<open>A count from one to \<open>INT_MAX\<close> is exact; an increment of \<open>INT_MAX\<close> saturates, for good.\<close>

definition c_refcount_ok :: "c_refcount \<Rightarrow> bool" where
  "c_refcount_ok C \<longleftrightarrow>
     unat (rc_init C 1) = 1 \<and>
     (\<forall>n. 0 < unat n \<and> unat n < 2 ^ 31 - 1 \<longrightarrow> unat (rc_inc C n) = unat n + 1) \<and>
     (\<forall>n. unat n \<ge> 2 ^ 31 - 1 \<longrightarrow> rc_saturated (rc_inc C n)) \<and>
     (\<forall>n. 0 < unat n \<and> \<not> rc_saturated n \<longrightarrow>
        fst (rc_dec_and_test C n) = (unat n = 1) \<and> unat (snd (rc_dec_and_test C n)) = unat n - 1) \<and>
     (\<forall>n. rc_saturated n \<longrightarrow>
        \<not> fst (rc_dec_and_test C n) \<and> rc_saturated (snd (rc_dec_and_test C n)))"

section \<open>Objects\<close>

record 'a arc_inner =
  ai_refcount :: u32
  ai_data :: "'a option"

type_synonym 'a arc_heap = "addr \<rightharpoonup> 'a arc_inner"
type_synonym arc = addr
type_synonym unique_arc = addr
type_synonym arc_borrow = addr

type_synonym 'a arc_alloc = "'a arc_heap \<Rightarrow> addr option"

definition arc_alloc_ok :: "'a arc_alloc \<Rightarrow> bool" where
  "arc_alloc_ok alloc \<longleftrightarrow> (\<forall>h a. alloc h = Some a \<longrightarrow> a \<noteq> 0 \<and> h a = None)"

definition arc_as_ref :: "'a arc_heap \<Rightarrow> addr \<Rightarrow> 'a arc_inner exec" where
  "arc_as_ref h a = (case h a of None \<Rightarrow> Inl UB | Some i \<Rightarrow> Inr i)"

text \<open>
  \<open>Layout::extend\<close> puts the data at the end of the four-byte counter, rounded up to the data's
  alignment \<open>al\<close>; \<open>repr(C)\<close> places the field there too.
\<close>

definition layout_extend_offset :: "nat \<Rightarrow> nat" where
  "layout_extend_offset al = (4 + al - 1) div al * al"

definition arc_DATA_OFFSET :: "nat \<Rightarrow> nat" where
  "arc_DATA_OFFSET al = (if 4 mod al = 0 then 4 else 4 + (al - 4 mod al))"

definition arc_container_of :: "nat \<Rightarrow> addr \<Rightarrow> addr exec" where
  "arc_container_of al p =
     exec_bind (require UB (layout_extend_offset al \<le> p)) (\<lambda>_. Inr (p - layout_extend_offset al))"

definition arc_new ::
  "c_refcount \<Rightarrow> 'a arc_alloc \<Rightarrow> 'a arc_heap \<Rightarrow> 'a \<Rightarrow> (arc, error_source) result \<times> 'a arc_heap" where
  "arc_new C alloc h contents =
     (case alloc h of
        None \<Rightarrow> (Err AllocError, h)
      | Some a \<Rightarrow> (Ok a, h(a \<mapsto> \<lparr>ai_refcount = rc_init C 1, ai_data = Some contents\<rparr>)))"

definition arc_into_raw :: "nat \<Rightarrow> arc \<Rightarrow> addr" where
  "arc_into_raw al a = a + arc_DATA_OFFSET al"

definition arc_from_raw :: "nat \<Rightarrow> addr \<Rightarrow> arc exec" where
  "arc_from_raw al p = arc_container_of al p"

definition arc_as_arc_borrow :: "arc \<Rightarrow> arc_borrow" where
  "arc_as_arc_borrow a = a"

definition arc_ptr_eq :: "arc \<Rightarrow> arc \<Rightarrow> bool" where
  "arc_ptr_eq a b \<longleftrightarrow> a = b"

definition arc_into_unique_or_drop ::
  "c_refcount \<Rightarrow> 'a arc_heap \<Rightarrow> arc \<Rightarrow> (unique_arc option \<times> 'a arc_heap) exec" where
  "arc_into_unique_or_drop C h a =
     exec_bind (arc_as_ref h a) (\<lambda>i.
     let (is_zero, n) = rc_dec_and_test C (ai_refcount i); h = h(a \<mapsto> i\<lparr>ai_refcount := n\<rparr>) in
     if is_zero then
       exec_bind (arc_as_ref h a) (\<lambda>i.
       Inr (Some a, h(a \<mapsto> i\<lparr>ai_refcount := rc_init C 1\<rparr>)))
     else Inr (None, h))"

definition arc_into_foreign :: "arc \<Rightarrow> addr" where
  "arc_into_foreign a = a"

text \<open>\<open>borrow\<close> and \<open>from_foreign\<close> unwrap the pointer: a null pointer panics.\<close>

definition arc_foreign_borrow :: "addr \<Rightarrow> arc_borrow exec" where
  "arc_foreign_borrow p = exec_bind (require Panic (p \<noteq> 0)) (\<lambda>_. Inr p)"

definition arc_from_foreign :: "addr \<Rightarrow> arc exec" where
  "arc_from_foreign p = exec_bind (require Panic (p \<noteq> 0)) (\<lambda>_. Inr p)"

definition arc_deref :: "'a arc_heap \<Rightarrow> arc \<Rightarrow> 'a exec" where
  "arc_deref h a =
     exec_bind (arc_as_ref h a) (\<lambda>i. case ai_data i of None \<Rightarrow> Inl UB | Some x \<Rightarrow> Inr x)"

definition arc_clone :: "c_refcount \<Rightarrow> 'a arc_heap \<Rightarrow> arc \<Rightarrow> (arc \<times> 'a arc_heap) exec" where
  "arc_clone C h a =
     exec_bind (arc_as_ref h a) (\<lambda>i.
     Inr (a, h(a \<mapsto> i\<lparr>ai_refcount := rc_inc C (ai_refcount i)\<rparr>)))"

text \<open>
  \<open>drop\<close> returns what dropping the box drops: the data when \<open>T\<close> is initialised, nothing when \<open>T\<close> is
  \<open>MaybeUninit\<close> (the flag \<open>init\<close>).
\<close>

definition arc_drop_glue ::
  "bool \<Rightarrow> c_refcount \<Rightarrow> 'a arc_heap \<Rightarrow> arc \<Rightarrow> ('a list \<times> 'a arc_heap) exec" where
  "arc_drop_glue init C h a =
     exec_bind (arc_as_ref h a) (\<lambda>i.
     let (is_zero, n) = rc_dec_and_test C (ai_refcount i); h = h(a \<mapsto> i\<lparr>ai_refcount := n\<rparr>) in
     if is_zero then
       (if init then exec_bind (arc_deref h a) (\<lambda>x. Inr ([x], h(a := None)))
        else Inr ([], h(a := None)))
     else Inr ([], h))"

definition arc_drop :: "c_refcount \<Rightarrow> 'a arc_heap \<Rightarrow> arc \<Rightarrow> ('a list \<times> 'a arc_heap) exec" where
  "arc_drop C h a = arc_drop_glue True C h a"

definition arc_from_borrow :: "c_refcount \<Rightarrow> 'a arc_heap \<Rightarrow> arc_borrow \<Rightarrow> (arc \<times> 'a arc_heap) exec" where
  "arc_from_borrow C h b = arc_clone C h b"

definition arc_borrow_from_raw :: "nat \<Rightarrow> addr \<Rightarrow> arc_borrow exec" where
  "arc_borrow_from_raw al p = arc_container_of al p"


section \<open>Unique handles\<close>

definition arc_from_unique :: "unique_arc \<Rightarrow> arc" where
  "arc_from_unique u = u"

definition unique_arc_new ::
  "c_refcount \<Rightarrow> 'a arc_alloc \<Rightarrow> 'a arc_heap \<Rightarrow> 'a \<Rightarrow> (unique_arc, error_source) result \<times> 'a arc_heap" where
  "unique_arc_new C alloc h v = arc_new C alloc h v"

definition unique_arc_new_uninit ::
  "c_refcount \<Rightarrow> 'a arc_alloc \<Rightarrow> 'a arc_heap \<Rightarrow> (unique_arc, error_source) result \<times> 'a arc_heap" where
  "unique_arc_new_uninit C alloc h =
     (case alloc h of
        None \<Rightarrow> (Err AllocError, h)
      | Some a \<Rightarrow> (Ok a, h(a \<mapsto> \<lparr>ai_refcount = rc_init C 1, ai_data = None\<rparr>)))"

definition unique_arc_assume_init :: "'a arc_heap \<Rightarrow> unique_arc \<Rightarrow> (unique_arc \<times> 'a arc_heap) exec" where
  "unique_arc_assume_init h u = exec_bind (arc_deref h u) (\<lambda>_. Inr (u, h))"

definition unique_arc_write :: "'a arc_heap \<Rightarrow> unique_arc \<Rightarrow> 'a \<Rightarrow> (unique_arc \<times> 'a arc_heap) exec" where
  "unique_arc_write h u v =
     exec_bind (arc_as_ref h u) (\<lambda>i. unique_arc_assume_init (h(u \<mapsto> i\<lparr>ai_data := Some v\<rparr>)) u)"

text \<open>
  An initialiser acts on the slot; its contract is that success leaves the slot initialised and failure
  leaves nothing to drop.
\<close>

type_synonym ('a, 'e) initialiser = "'a option \<Rightarrow> (unit, 'e) result \<times> 'a option"

definition init_ok :: "('a, 'e) initialiser \<Rightarrow> bool" where
  "init_ok f \<longleftrightarrow> (\<forall>s. case f s of (Ok _, s') \<Rightarrow> s' \<noteq> None | (Err _, s') \<Rightarrow> s' = None)"

definition unique_arc_init_with ::
  "c_refcount \<Rightarrow> 'a arc_heap \<Rightarrow> unique_arc \<Rightarrow> ('a, 'e) initialiser \<Rightarrow>
   ((unique_arc, 'e) result \<times> 'a arc_heap) exec" where
  "unique_arc_init_with C h u init =
     exec_bind (arc_as_ref h u) (\<lambda>i.
     let (r, s) = init (ai_data i); h = h(u \<mapsto> i\<lparr>ai_data := s\<rparr>) in
     case r of
       Ok _ \<Rightarrow> exec_bind (unique_arc_assume_init h u) (\<lambda>(u, h). Inr (Ok u, h))
     | Err e \<Rightarrow> exec_bind (arc_drop_glue False C h u) (\<lambda>(_, h). Inr (Err e, h)))"

definition unique_arc_pin_init_with ::
  "c_refcount \<Rightarrow> 'a arc_heap \<Rightarrow> unique_arc \<Rightarrow> ('a, 'e) initialiser \<Rightarrow>
   ((unique_arc, 'e) result \<times> 'a arc_heap) exec" where
  "unique_arc_pin_init_with C h u init =
     exec_bind (arc_as_ref h u) (\<lambda>i.
     let (r, s) = init (ai_data i); h = h(u \<mapsto> i\<lparr>ai_data := s\<rparr>) in
     case r of
       Ok _ \<Rightarrow> exec_bind (unique_arc_assume_init h u) (\<lambda>(u, h). Inr (Ok u, h))
     | Err e \<Rightarrow> exec_bind (arc_drop_glue False C h u) (\<lambda>(_, h). Inr (Err e, h)))"

definition unique_arc_deref :: "'a arc_heap \<Rightarrow> unique_arc \<Rightarrow> 'a exec" where
  "unique_arc_deref h u = arc_deref h u"

text \<open>\<open>deref_mut\<close>: \<open>f\<close> is what the borrower does to the value.\<close>

definition unique_arc_deref_mut :: "'a arc_heap \<Rightarrow> unique_arc \<Rightarrow> ('a \<Rightarrow> 'a) \<Rightarrow> ('a \<times> 'a arc_heap) exec" where
  "unique_arc_deref_mut h u f =
     exec_bind (arc_as_ref h u) (\<lambda>i.
     exec_bind (arc_deref h u) (\<lambda>x.
     Inr (x, h(u \<mapsto> i\<lparr>ai_data := Some (f x)\<rparr>))))"

section \<open>Ownership\<close>

text \<open>
  The handles in circulation, with the values that entered objects and those that were dropped.
  \<open>u = value\<close> through \<open>deref_mut\<close> drops the old value.
\<close>

record 'a arc_world =
  w_heap :: "'a arc_heap"
  w_arcs :: "addr multiset"
  w_uniq :: "addr multiset"
  w_uninit :: "addr multiset"
  w_stored :: "'a multiset"
  w_dropped :: "'a multiset"

definition arc_world_init :: "'a arc_world" where
  "arc_world_init = \<lparr>w_heap = Map.empty, w_arcs = {#}, w_uniq = {#}, w_uninit = {#},
     w_stored = {#}, w_dropped = {#}\<rparr>"

text \<open>One operation by an owner of a handle, or on a borrow of a handle that exists.\<close>

inductive arc_step :: "c_refcount \<Rightarrow> 'a arc_alloc \<Rightarrow> 'a arc_world \<Rightarrow> 'a arc_world \<Rightarrow> bool"
  for C alloc where
  step_new: "arc_new C alloc (w_heap w) x = (Ok a, h) \<Longrightarrow>
    arc_step C alloc w (w\<lparr>w_heap := h, w_arcs := add_mset a (w_arcs w), w_stored := add_mset x (w_stored w)\<rparr>)"
| step_clone: "a \<in># w_arcs w \<Longrightarrow> arc_clone C (w_heap w) a = Inr (b, h) \<Longrightarrow>
    arc_step C alloc w (w\<lparr>w_heap := h, w_arcs := add_mset b (w_arcs w)\<rparr>)"
| step_from_borrow: "a \<in># w_arcs w \<Longrightarrow> arc_from_borrow C (w_heap w) (arc_as_arc_borrow a) = Inr (b, h) \<Longrightarrow>
    arc_step C alloc w (w\<lparr>w_heap := h, w_arcs := add_mset b (w_arcs w)\<rparr>)"
| step_drop: "a \<in># w_arcs w \<Longrightarrow> arc_drop C (w_heap w) a = Inr (ds, h) \<Longrightarrow>
    arc_step C alloc w (w\<lparr>w_heap := h, w_arcs := w_arcs w - {#a#}, w_dropped := w_dropped w + mset ds\<rparr>)"
| step_into_unique: "a \<in># w_arcs w \<Longrightarrow> arc_into_unique_or_drop C (w_heap w) a = Inr (Some u, h) \<Longrightarrow>
    arc_step C alloc w (w\<lparr>w_heap := h, w_arcs := w_arcs w - {#a#}, w_uniq := add_mset u (w_uniq w)\<rparr>)"
| step_or_drop: "a \<in># w_arcs w \<Longrightarrow> arc_into_unique_or_drop C (w_heap w) a = Inr (None, h) \<Longrightarrow>
    arc_step C alloc w (w\<lparr>w_heap := h, w_arcs := w_arcs w - {#a#}\<rparr>)"
| step_unique_new: "unique_arc_new C alloc (w_heap w) x = (Ok u, h) \<Longrightarrow>
    arc_step C alloc w (w\<lparr>w_heap := h, w_uniq := add_mset u (w_uniq w), w_stored := add_mset x (w_stored w)\<rparr>)"
| step_new_uninit: "unique_arc_new_uninit C alloc (w_heap w) = (Ok u, h) \<Longrightarrow>
    arc_step C alloc w (w\<lparr>w_heap := h, w_uninit := add_mset u (w_uninit w)\<rparr>)"
| step_write: "u \<in># w_uninit w \<Longrightarrow> unique_arc_write (w_heap w) u x = Inr (u', h) \<Longrightarrow>
    arc_step C alloc w (w\<lparr>w_heap := h, w_uninit := w_uninit w - {#u#}, w_uniq := add_mset u' (w_uniq w),
      w_stored := add_mset x (w_stored w)\<rparr>)"
| step_init: "u \<in># w_uninit w \<Longrightarrow> init_ok (f :: ('a, error) initialiser) \<Longrightarrow>
    unique_arc_init_with C (w_heap w) u f = Inr (Ok u', h) \<Longrightarrow> arc_deref h u' = Inr x \<Longrightarrow>
    arc_step C alloc w (w\<lparr>w_heap := h, w_uninit := w_uninit w - {#u#}, w_uniq := add_mset u' (w_uniq w),
      w_stored := add_mset x (w_stored w)\<rparr>)"
| step_init_fail: "u \<in># w_uninit w \<Longrightarrow> init_ok (f :: ('a, error) initialiser) \<Longrightarrow>
    unique_arc_init_with C (w_heap w) u f = Inr (Err e, h) \<Longrightarrow>
    arc_step C alloc w (w\<lparr>w_heap := h, w_uninit := w_uninit w - {#u#}\<rparr>)"
| step_uninit_drop: "u \<in># w_uninit w \<Longrightarrow> arc_drop_glue False C (w_heap w) u = Inr (ds, h) \<Longrightarrow>
    arc_step C alloc w (w\<lparr>w_heap := h, w_uninit := w_uninit w - {#u#}, w_dropped := w_dropped w + mset ds\<rparr>)"
| step_assign: "u \<in># w_uniq w \<Longrightarrow> unique_arc_deref_mut (w_heap w) u (\<lambda>_. y) = Inr (x, h) \<Longrightarrow>
    arc_step C alloc w (w\<lparr>w_heap := h, w_stored := add_mset y (w_stored w), w_dropped := add_mset x (w_dropped w)\<rparr>)"
| step_from_unique: "u \<in># w_uniq w \<Longrightarrow>
    arc_step C alloc w (w\<lparr>w_uniq := w_uniq w - {#u#}, w_arcs := add_mset (arc_from_unique u) (w_arcs w)\<rparr>)"
| step_unique_drop: "u \<in># w_uniq w \<Longrightarrow> arc_drop C (w_heap w) u = Inr (ds, h) \<Longrightarrow>
    arc_step C alloc w (w\<lparr>w_heap := h, w_uniq := w_uniq w - {#u#}, w_dropped := w_dropped w + mset ds\<rparr>)"

inductive arc_reach :: "c_refcount \<Rightarrow> 'a arc_alloc \<Rightarrow> 'a arc_world \<Rightarrow> bool" for C alloc where
  reach_init: "arc_reach C alloc arc_world_init"
| reach_step: "arc_reach C alloc w \<Longrightarrow> arc_step C alloc w w' \<Longrightarrow> arc_reach C alloc w'"

section \<open>The invariant\<close>

text \<open>The object at an address against the numbers of its shared, unique and uninitialised handles.\<close>

fun arc_cell_ok :: "nat \<Rightarrow> nat \<Rightarrow> nat \<Rightarrow> 'a arc_inner option \<Rightarrow> bool" where
  "arc_cell_ok n u m None \<longleftrightarrow> n = 0 \<and> u = 0 \<and> m = 0"
| "arc_cell_ok n u m (Some i) \<longleftrightarrow>
     (if rc_saturated (ai_refcount i) then u = 0 \<and> m = 0 \<and> ai_data i \<noteq> None
      else 0 < unat (ai_refcount i) \<and> unat (ai_refcount i) = n + u + m \<and>
           (u + m > 0 \<longrightarrow> n + u + m = 1) \<and> (ai_data i = None \<longleftrightarrow> m = 1))"

fun arc_contents :: "'a arc_inner option \<Rightarrow> 'a multiset" where
  "arc_contents None = {#}"
| "arc_contents (Some i) = (case ai_data i of None \<Rightarrow> {#} | Some x \<Rightarrow> {#x#})"

definition arc_live :: "'a arc_heap \<Rightarrow> 'a multiset" where
  "arc_live h = (\<Sum>a \<in> dom h. arc_contents (h a))"

definition arc_inv :: "'a arc_world \<Rightarrow> bool" where
  "arc_inv w \<longleftrightarrow> finite (dom (w_heap w)) \<and>
     (\<forall>a. arc_cell_ok (count (w_arcs w) a) (count (w_uniq w) a) (count (w_uninit w) a) (w_heap w a)) \<and>
     w_stored w = w_dropped w + arc_live (w_heap w)"

lemma arc_live_superset: "finite S \<Longrightarrow> dom h \<subseteq> S \<Longrightarrow> arc_live h = (\<Sum>a \<in> S. arc_contents (h a))"
  unfolding arc_live_def by (rule sum.mono_neutral_left) (auto simp: domIff)

lemma arc_live_upd:
  assumes "finite (dom h)"
  shows "arc_live (h(a := c)) + arc_contents (h a) = arc_live h + arc_contents c"
proof -
  let ?S = "insert a (dom h)"
  have S: "finite ?S" "dom (h(a := c)) \<subseteq> ?S" "dom h \<subseteq> ?S" using assms by auto
  have "(\<Sum>b \<in> ?S. arc_contents ((h(a := c)) b)) =
      arc_contents c + (\<Sum>b \<in> ?S - {a}. arc_contents ((h(a := c)) b))"
    using S(1) by (subst sum.remove [of _ a]) auto
  also have "(\<Sum>b \<in> ?S - {a}. arc_contents ((h(a := c)) b)) = (\<Sum>b \<in> ?S - {a}. arc_contents (h b))"
    by (rule sum.cong) auto
  finally have new: "arc_live (h(a := c)) = arc_contents c + (\<Sum>b \<in> ?S - {a}. arc_contents (h b))"
    using arc_live_superset [OF S(1,2)] by simp
  have "arc_live h = arc_contents (h a) + (\<Sum>b \<in> ?S - {a}. arc_contents (h b))"
    using arc_live_superset [OF S(1,3)] S(1) sum.remove [OF S(1), of a "\<lambda>b. arc_contents (h b)"] by simp
  with new show ?thesis by (simp add: ac_simps)
qed

text \<open>A step changes one cell, and the counts of that address only.\<close>

lemma arc_inv_upd:
  assumes inv: "arc_inv w" and heap: "w_heap w' = (w_heap w)(a := c)"
    and other: "\<And>b. b \<noteq> a \<Longrightarrow> count (w_arcs w') b = count (w_arcs w) b \<and>
        count (w_uniq w') b = count (w_uniq w) b \<and> count (w_uninit w') b = count (w_uninit w) b"
    and cell: "arc_cell_ok (count (w_arcs w') a) (count (w_uniq w') a) (count (w_uninit w') a) c"
    and flow: "w_stored w' + w_dropped w + arc_contents (w_heap w a) =
        w_stored w + w_dropped w' + arc_contents c"
  shows "arc_inv w'"
proof -
  have fin: "finite (dom (w_heap w))" and st: "w_stored w = w_dropped w + arc_live (w_heap w)"
    using inv by (auto simp: arc_inv_def)
  have "w_stored w' + (w_dropped w + arc_contents (w_heap w a)) =
      w_dropped w' + (w_dropped w + (arc_live (w_heap w) + arc_contents c))"
    using flow st by (simp add: ac_simps)
  also have "\<dots> = w_dropped w' + (w_dropped w + (arc_live (w_heap w') + arc_contents (w_heap w a)))"
    using arc_live_upd [OF fin, of a c] heap by simp
  also have "\<dots> = w_dropped w' + arc_live (w_heap w') + (w_dropped w + arc_contents (w_heap w a))"
    by (simp add: ac_simps)
  finally have "w_stored w' = w_dropped w' + arc_live (w_heap w')" by simp
  moreover have "finite (dom (w_heap w'))"
    by (rule finite_subset [of _ "insert a (dom (w_heap w))"]) (use fin heap in auto)
  moreover have "arc_cell_ok (count (w_arcs w') b) (count (w_uniq w') b) (count (w_uninit w') b) (w_heap w' b)"
    for b
    using inv cell other [of b] heap by (cases "b = a") (auto simp: arc_inv_def)
  ultimately show ?thesis by (simp add: arc_inv_def)
qed

section \<open>Operations on a cell\<close>

named_theorems arc_ops
lemmas [arc_ops] = arc_as_ref_def arc_deref_def arc_clone_def arc_from_borrow_def arc_as_arc_borrow_def
  arc_into_unique_or_drop_def arc_drop_def arc_drop_glue_def unique_arc_write_def unique_arc_assume_init_def
  unique_arc_init_with_def unique_arc_deref_mut_def arc_new_def unique_arc_new_def unique_arc_new_uninit_def

lemma arc_cell_shared:
  assumes "arc_cell_ok n u m c" and "0 < n + u"
  obtains i x where "c = Some i" "ai_data i = Some x" "m = 0"
  using assms by (cases c) (auto split: if_splits)

lemma arc_cell_uninit:
  assumes "arc_cell_ok n u m c" and "0 < m"
  obtains i where "c = Some i" "ai_data i = None" "unat (ai_refcount i) = 1" "n = 0" "u = 0" "m = 1"
    "\<not> rc_saturated (ai_refcount i)"
  using assms by (cases c) (auto split: if_splits)

lemma arc_cell_inc:
  assumes C: "c_refcount_ok C" and ok: "arc_cell_ok n u m (Some i)" and n: "0 < n"
  shows "arc_cell_ok (Suc n) u m (Some (i\<lparr>ai_refcount := rc_inc C (ai_refcount i)\<rparr>))"
proof (cases "unat (ai_refcount i) < 2 ^ 31 - 1")
  case True
  then have ns: "\<not> rc_saturated (ai_refcount i)" by (simp add: rc_saturated_def)
  then have pos: "0 < unat (ai_refcount i)" "unat (ai_refcount i) = n" "u = 0" "m = 0" "ai_data i \<noteq> None"
    using ok n by auto
  have inc: "unat (rc_inc C (ai_refcount i)) = unat (ai_refcount i) + 1"
    using C True pos(1) unfolding c_refcount_ok_def by blast
  with True have "\<not> rc_saturated (rc_inc C (ai_refcount i))" by (simp add: rc_saturated_def)
  with inc pos show ?thesis by simp
next
  case False
  then have "rc_saturated (rc_inc C (ai_refcount i))"
    using C unfolding c_refcount_ok_def by (meson not_less)
  with ok n show ?thesis by (auto split: if_splits)
qed

lemma arc_cell_dec:
  assumes C: "c_refcount_ok C" and ok: "arc_cell_ok n u m (Some i)" and pos: "0 < n + u + m"
    and d: "rc_dec_and_test C (ai_refcount i) = (z, k)"
  shows "z \<Longrightarrow> n + u + m = 1"
    and "\<not> z \<Longrightarrow> u = 0 \<and> m = 0 \<and> arc_cell_ok (n - 1) 0 0 (Some (i\<lparr>ai_refcount := k\<rparr>))"
    and "\<not> rc_saturated (ai_refcount i) \<Longrightarrow> z \<longleftrightarrow> n + u + m = 1"
proof -
  have sat: "\<not> z \<and> rc_saturated k" if "rc_saturated (ai_refcount i)"
    using C that d unfolding c_refcount_ok_def by (metis fst_conv snd_conv)
  have ns: "z \<longleftrightarrow> unat (ai_refcount i) = 1" "unat k = unat (ai_refcount i) - 1"
    if "\<not> rc_saturated (ai_refcount i)"
    using C that d ok unfolding c_refcount_ok_def by (auto dest!: spec [of _ "ai_refcount i"])
  show "z \<Longrightarrow> n + u + m = 1" using sat ns ok by (auto split: if_splits)
  show "\<not> rc_saturated (ai_refcount i) \<Longrightarrow> z \<longleftrightarrow> n + u + m = 1" using ns ok by auto
  have "\<not> rc_saturated k" if "\<not> rc_saturated (ai_refcount i)"
    using ns(2) [OF that] that by (simp add: rc_saturated_def)
  then show "\<not> z \<Longrightarrow> u = 0 \<and> m = 0 \<and> arc_cell_ok (n - 1) 0 0 (Some (i\<lparr>ai_refcount := k\<rparr>))"
    using sat ns ok by (cases "rc_saturated (ai_refcount i)") auto
qed

section \<open>Preservation\<close>

lemma arc_inv_cell:
  "arc_inv w \<Longrightarrow>
   arc_cell_ok (count (w_arcs w) a) (count (w_uniq w) a) (count (w_uninit w) a) (w_heap w a)"
  by (simp add: arc_inv_def)

lemma arc_handle_cell:
  assumes "arc_inv w" and "a \<in># w_arcs w + w_uniq w"
  obtains i x where "w_heap w a = Some i" "ai_data i = Some x" "count (w_uninit w) a = 0"
    "0 < count (w_arcs w) a + count (w_uniq w) a"
    "arc_cell_ok (count (w_arcs w) a) (count (w_uniq w) a) 0 (Some i)"
proof -
  have n: "0 < count (w_arcs w) a + count (w_uniq w) a" using assms(2) by auto
  note cell = arc_inv_cell [OF assms(1), of a]
  from arc_cell_shared [OF cell n] obtain i x where
    "w_heap w a = Some i" "ai_data i = Some x" "count (w_uninit w) a = 0" by blast
  with n cell that show ?thesis by simp
qed

lemma arc_uninit_cell:
  assumes "arc_inv w" and "a \<in># w_uninit w"
  obtains i where "w_heap w a = Some i" "ai_data i = None" "unat (ai_refcount i) = 1"
    "\<not> rc_saturated (ai_refcount i)" "count (w_arcs w) a = 0" "count (w_uniq w) a = 0" "count (w_uninit w) a = 1"
  using arc_cell_uninit [OF arc_inv_cell [OF assms(1)], of a] assms(2) by auto

text \<open>Releasing a shared or unique handle: the object is freed exactly when that was the last one.\<close>

lemma arc_drop_ok:
  assumes C: "c_refcount_ok C" and inv: "arc_inv w" and a: "a \<in># w_arcs w + w_uniq w"
  obtains i x z k where "w_heap w a = Some i" "ai_data i = Some x"
    "rc_dec_and_test C (ai_refcount i) = (z, k)"
    "arc_drop C (w_heap w) a =
       Inr (if z then [x] else [], (w_heap w)(a := if z then None else Some (i\<lparr>ai_refcount := k\<rparr>)))"
    "arc_cell_ok (count (w_arcs w) a + count (w_uniq w) a - 1) 0 (count (w_uninit w) a)
       (if z then None else Some (i\<lparr>ai_refcount := k\<rparr>))"
    "count (w_arcs w) a = 0 \<or> count (w_uniq w) a = 0" "z \<Longrightarrow> count (w_arcs w) a + count (w_uniq w) a = 1"
proof -
  obtain i x where c: "w_heap w a = Some i" "ai_data i = Some x" "count (w_uninit w) a = 0"
    "0 < count (w_arcs w) a + count (w_uniq w) a"
    "arc_cell_ok (count (w_arcs w) a) (count (w_uniq w) a) 0 (Some i)"
    using arc_handle_cell [OF inv a] by blast
  obtain z k where d: "rc_dec_and_test C (ai_refcount i) = (z, k)" by (cases "rc_dec_and_test C (ai_refcount i)")
  have dec: "z \<Longrightarrow> count (w_arcs w) a + count (w_uniq w) a = 1"
    "\<not> z \<Longrightarrow> count (w_uniq w) a = 0 \<and> arc_cell_ok (count (w_arcs w) a - 1) 0 0 (Some (i\<lparr>ai_refcount := k\<rparr>))"
    using arc_cell_dec [OF C c(5) _ d] c(4) by auto
  have "arc_drop C (w_heap w) a =
      Inr (if z then [x] else [], (w_heap w)(a := if z then None else Some (i\<lparr>ai_refcount := k\<rparr>)))"
    using c(1,2) d by (simp add: arc_ops)
  moreover have "arc_cell_ok (count (w_arcs w) a + count (w_uniq w) a - 1) 0 (count (w_uninit w) a)
      (if z then None else Some (i\<lparr>ai_refcount := k\<rparr>))"
    using dec c(3) by (cases z) (simp, metis (full_types) add.right_neutral)
  moreover have "count (w_arcs w) a = 0 \<or> count (w_uniq w) a = 0"
    using c(5) by (auto simp flip: count_greater_zero_iff split: if_splits)
  ultimately show ?thesis using that c(1,2) d dec(1) by blast
qed

lemma arc_clone_ok:
  assumes inv: "arc_inv w" and a: "a \<in># w_arcs w"
  obtains i where "w_heap w a = Some i"
    "arc_clone C (w_heap w) a = Inr (a, (w_heap w)(a := Some (i\<lparr>ai_refcount := rc_inc C (ai_refcount i)\<rparr>)))"
  using arc_handle_cell [OF inv, of a] a by (auto simp: arc_ops)

lemma arc_clone_inv:
  assumes C: "c_refcount_ok C" and inv: "arc_inv w" and a: "a \<in># w_arcs w"
    and h: "arc_clone C (w_heap w) a = Inr (b, h)"
  shows "arc_inv (w\<lparr>w_heap := h, w_arcs := add_mset b (w_arcs w)\<rparr>)"
proof -
  obtain i where i: "w_heap w a = Some i"
    "arc_clone C (w_heap w) a = Inr (a, (w_heap w)(a := Some (i\<lparr>ai_refcount := rc_inc C (ai_refcount i)\<rparr>)))"
    by (rule arc_clone_ok [OF inv a])
  have cell: "arc_cell_ok (count (w_arcs w) a) (count (w_uniq w) a) (count (w_uninit w) a) (Some i)"
    using arc_inv_cell [OF inv, of a] i(1) by simp
  show ?thesis
    by (rule arc_inv_upd [OF inv, of _ a "Some (i\<lparr>ai_refcount := rc_inc C (ai_refcount i)\<rparr>)"])
      (use i h a arc_cell_inc [OF C cell] in auto)
qed

lemma arc_release_inv:
  assumes C: "c_refcount_ok C" and inv: "arc_inv w" and a: "a \<in># w_arcs w + w_uniq w"
    and h: "arc_drop C (w_heap w) a = Inr (ds, h)"
    and w': "w' = w\<lparr>w_heap := h, w_arcs := w_arcs w - {#a#}, w_dropped := w_dropped w + mset ds\<rparr> \<and> a \<in># w_arcs w \<or>
             w' = w\<lparr>w_heap := h, w_uniq := w_uniq w - {#a#}, w_dropped := w_dropped w + mset ds\<rparr> \<and> a \<in># w_uniq w"
  shows "arc_inv w'"
proof -
  obtain i x z k where d: "w_heap w a = Some i" "ai_data i = Some x"
    "arc_drop C (w_heap w) a =
       Inr (if z then [x] else [], (w_heap w)(a := if z then None else Some (i\<lparr>ai_refcount := k\<rparr>)))"
    "arc_cell_ok (count (w_arcs w) a + count (w_uniq w) a - 1) 0 (count (w_uninit w) a)
       (if z then None else Some (i\<lparr>ai_refcount := k\<rparr>))"
    "count (w_arcs w) a = 0 \<or> count (w_uniq w) a = 0" "z \<Longrightarrow> count (w_arcs w) a + count (w_uniq w) a = 1"
    using arc_drop_ok [OF C inv a] by metis
  let ?c = "if z then None else Some (i\<lparr>ai_refcount := k\<rparr>)"
  have cell: "count (w_arcs w') a + count (w_uniq w') a = count (w_arcs w) a + count (w_uniq w) a - 1"
    "count (w_uninit w') a = count (w_uninit w) a" "count (w_uniq w') a = 0 \<or> count (w_arcs w') a = 0"
    using w' d(5) by (auto simp flip: count_greater_zero_iff)
  have "count (w_uniq w') a = 0"
    using w' d(5) arc_inv_cell [OF inv, of a] d(1)
    by (auto simp flip: count_greater_zero_iff split: if_splits)
  with cell d(4) have ok: "arc_cell_ok (count (w_arcs w') a) (count (w_uniq w') a) (count (w_uninit w') a) ?c"
    by simp
  show ?thesis
    by (rule arc_inv_upd [OF inv _ _ ok]) (use w' d(1-3) h in auto)
qed

lemma rc_one_unsaturated:
  assumes "c_refcount_ok C"
  shows "unat (rc_init C 1) = 1" and "\<not> rc_saturated (rc_init C 1)"
  using assms by (simp_all add: c_refcount_ok_def rc_saturated_def)

lemma rc_dec_one:
  assumes "c_refcount_ok C" and "unat n = 1"
  shows "\<exists>k. rc_dec_and_test C n = (True, k)"
proof -
  have "0 < unat n" "\<not> rc_saturated n" using assms(2) by (simp_all add: rc_saturated_def)
  with assms have "fst (rc_dec_and_test C n)" unfolding c_refcount_ok_def by blast
  then show ?thesis by (cases "rc_dec_and_test C n") simp
qed

lemma arc_into_unique_ok:
  assumes C: "c_refcount_ok C" and inv: "arc_inv w" and a: "a \<in># w_arcs w"
  obtains i x z k where "w_heap w a = Some i" "ai_data i = Some x"
    "arc_into_unique_or_drop C (w_heap w) a =
       Inr (if z then Some a else None,
         (w_heap w)(a := Some (i\<lparr>ai_refcount := if z then rc_init C 1 else k\<rparr>)))"
    "z \<Longrightarrow> count (w_arcs w) a = 1 \<and> count (w_uniq w) a = 0 \<and> count (w_uninit w) a = 0"
    "\<not> z \<Longrightarrow> arc_cell_ok (count (w_arcs w) a - 1) (count (w_uniq w) a) (count (w_uninit w) a)
        (Some (i\<lparr>ai_refcount := k\<rparr>))"
    "\<not> rc_saturated (ai_refcount i) \<Longrightarrow> z \<longleftrightarrow> count (w_arcs w) a = 1"
proof -
  have a': "a \<in># w_arcs w + w_uniq w" "0 < count (w_arcs w) a" using a by auto
  obtain i x where c: "w_heap w a = Some i" "ai_data i = Some x" "count (w_uninit w) a = 0"
    "arc_cell_ok (count (w_arcs w) a) (count (w_uniq w) a) 0 (Some i)"
    using arc_handle_cell [OF inv a'(1)] by blast
  obtain z k where d: "rc_dec_and_test C (ai_refcount i) = (z, k)" by (cases "rc_dec_and_test C (ai_refcount i)")
  have u0: "count (w_uniq w) a = 0" using c(4) a'(2) by (auto simp del: count_greater_zero_iff split: if_splits)
  note dec = arc_cell_dec [OF C c(4) _ d, simplified u0 add_0_right, OF a'(2)]
  have "arc_into_unique_or_drop C (w_heap w) a =
       Inr (if z then Some a else None,
         (w_heap w)(a := Some (i\<lparr>ai_refcount := if z then rc_init C 1 else k\<rparr>)))"
    using c(1) d by (simp add: arc_ops)
  with that c(1,2,3) u0 dec show ?thesis by metis
qed

lemma arc_into_unique_inv:
  assumes C: "c_refcount_ok C" and inv: "arc_inv w" and a: "a \<in># w_arcs w"
    and h: "arc_into_unique_or_drop C (w_heap w) a = Inr (r, h)"
  shows "arc_inv (w\<lparr>w_heap := h, w_arcs := w_arcs w - {#a#},
           w_uniq := (case r of None \<Rightarrow> w_uniq w | Some u \<Rightarrow> add_mset u (w_uniq w))\<rparr>)"
proof -
  obtain i x z k where d: "w_heap w a = Some i" "ai_data i = Some x"
    "arc_into_unique_or_drop C (w_heap w) a =
       Inr (if z then Some a else None,
         (w_heap w)(a := Some (i\<lparr>ai_refcount := if z then rc_init C 1 else k\<rparr>)))"
    "z \<Longrightarrow> count (w_arcs w) a = 1 \<and> count (w_uniq w) a = 0 \<and> count (w_uninit w) a = 0"
    "\<not> z \<Longrightarrow> arc_cell_ok (count (w_arcs w) a - 1) (count (w_uniq w) a) (count (w_uninit w) a)
        (Some (i\<lparr>ai_refcount := k\<rparr>))"
    by (rule arc_into_unique_ok [OF C inv a]) blast
  have one: "arc_cell_ok 0 1 0 (Some (i\<lparr>ai_refcount := rc_init C 1\<rparr>))"
    using rc_one_unsaturated [OF C] d(2) by simp
  show ?thesis
  proof (cases z)
    case True
    show ?thesis
      by (rule arc_inv_upd [OF inv, of _ a "Some (i\<lparr>ai_refcount := rc_init C 1\<rparr>)"])
        (use True d(1-4) h one in \<open>auto simp del: arc_cell_ok.simps\<close>)
  next
    case False
    show ?thesis
      by (rule arc_inv_upd [OF inv, of _ a "Some (i\<lparr>ai_refcount := k\<rparr>)"])
        (use False d(1-3,5) h in \<open>auto simp del: arc_cell_ok.simps\<close>)
  qed
qed

lemma arc_new_inv:
  assumes C: "c_refcount_ok C" and al: "arc_alloc_ok alloc" and inv: "arc_inv w" and a: "alloc (w_heap w) = Some a"
    and w': "w_heap w' = (w_heap w)(a := Some \<lparr>ai_refcount = rc_init C 1, ai_data = d\<rparr>)"
    and handles: "w_arcs w' + w_uniq w' = add_mset a (w_arcs w + w_uniq w) \<and> w_uninit w' = w_uninit w \<and> d \<noteq> None \<or>
      w_arcs w' + w_uniq w' = w_arcs w + w_uniq w \<and> w_uninit w' = add_mset a (w_uninit w) \<and> d = None"
    and sub: "w_arcs w \<subseteq># w_arcs w'" "w_uniq w \<subseteq># w_uniq w'"
    and flow: "w_stored w' = w_stored w + (case d of None \<Rightarrow> {#} | Some x \<Rightarrow> {#x#})" "w_dropped w' = w_dropped w"
  shows "arc_inv w'"
proof -
  have "w_heap w a = None" using al a by (auto simp: arc_alloc_ok_def)
  with arc_inv_cell [OF inv, of a] have z: "count (w_arcs w) a = 0" "count (w_uniq w) a = 0"
    "count (w_uninit w) a = 0" by simp_all
  have le: "count (w_arcs w) b \<le> count (w_arcs w') b" "count (w_uniq w) b \<le> count (w_uniq w') b" for b
    using sub by (simp_all add: mset_subset_eq_count)
  have tot: "count (w_arcs w') b + count (w_uniq w') b = count (w_arcs w) b + count (w_uniq w) b +
      (if b = a \<and> d \<noteq> None then 1 else 0)" for b
    using handles by (auto simp flip: count_union)
  have other: "count (w_arcs w') b = count (w_arcs w) b \<and> count (w_uniq w') b = count (w_uniq w) b \<and>
      count (w_uninit w') b = count (w_uninit w) b" if "b \<noteq> a" for b
    using tot [of b] le [of b] handles that by auto
  have cell: "arc_cell_ok (count (w_arcs w') a) (count (w_uniq w') a) (count (w_uninit w') a)
      (Some \<lparr>ai_refcount = rc_init C 1, ai_data = d\<rparr>)"
    using tot [of a] z handles rc_one_unsaturated [OF C] by auto
  show ?thesis
    by (rule arc_inv_upd [OF inv w' other cell]) (use \<open>w_heap w a = None\<close> flow in \<open>auto split: option.splits\<close>)
qed

text \<open>An uninitialised object becomes a unique one, or is freed without a drop.\<close>

lemma arc_initialised_inv:
  assumes inv: "arc_inv w" and u: "u \<in># w_uninit w" and i: "w_heap w u = Some i"
    and h: "h = (w_heap w)(u := Some (i\<lparr>ai_data := Some x\<rparr>))"
  shows "arc_inv (w\<lparr>w_heap := h, w_uninit := w_uninit w - {#u#}, w_uniq := add_mset u (w_uniq w),
           w_stored := add_mset x (w_stored w)\<rparr>)"
proof -
  have c: "ai_data i = None" "unat (ai_refcount i) = 1" "\<not> rc_saturated (ai_refcount i)"
    "count (w_arcs w) u = 0" "count (w_uniq w) u = 0" "count (w_uninit w) u = 1"
    using arc_uninit_cell [OF inv u] i by (metis option.inject)+
  show ?thesis
    by (rule arc_inv_upd [OF inv, of _ u "Some (i\<lparr>ai_data := Some x\<rparr>)"]) (use c i h in auto)
qed

lemma arc_uninit_free_inv:
  assumes inv: "arc_inv w" and u: "u \<in># w_uninit w" and h: "h = (w_heap w)(u := None)"
  shows "arc_inv (w\<lparr>w_heap := h, w_uninit := w_uninit w - {#u#}\<rparr>)"
proof -
  obtain i where c: "w_heap w u = Some i" "ai_data i = None"
    "count (w_arcs w) u = 0" "count (w_uniq w) u = 0" "count (w_uninit w) u = 1"
    using arc_uninit_cell [OF inv u] by metis
  show ?thesis
    by (rule arc_inv_upd [OF inv, of _ u None]) (use c h in auto)
qed

lemma unique_write_ok:
  assumes inv: "arc_inv w" and u: "u \<in># w_uninit w"
  obtains i where "w_heap w u = Some i"
    "unique_arc_write (w_heap w) u x = Inr (u, (w_heap w)(u := Some (i\<lparr>ai_data := Some x\<rparr>)))"
  using arc_uninit_cell [OF inv u] by (auto simp: arc_ops)

lemma uninit_drop_ok:
  assumes C: "c_refcount_ok C" and "h u = Some i" and "unat (ai_refcount i) = 1"
  shows "arc_drop_glue False C h u = Inr ([], h(u := None))"
  using rc_dec_one [OF C assms(3)] assms(2) by (auto simp: arc_ops)

lemma unique_init_ok:
  assumes C: "c_refcount_ok C" and inv: "arc_inv w" and u: "u \<in># w_uninit w" and f: "init_ok f"
  obtains (ok) i x where "w_heap w u = Some i" "unique_arc_init_with C (w_heap w) u f =
      Inr (Ok u, (w_heap w)(u := Some (i\<lparr>ai_data := Some x\<rparr>)))"
    "arc_deref ((w_heap w)(u := Some (i\<lparr>ai_data := Some x\<rparr>))) u = Inr x"
  | (err) e where "unique_arc_init_with C (w_heap w) u f = Inr (Err e, (w_heap w)(u := None))"
proof -
  obtain i where c: "w_heap w u = Some i" "ai_data i = None" "unat (ai_refcount i) = 1"
    using arc_uninit_cell [OF inv u] by metis
  obtain r s where r: "f None = (r, s)" by (cases "f None")
  show ?thesis
  proof (cases r)
    case (Ok v)
    with f r obtain x where s: "s = Some x" by (force simp: init_ok_def dest!: spec [of _ None])
    have "unique_arc_init_with C (w_heap w) u f = Inr (Ok u, (w_heap w)(u := Some (i\<lparr>ai_data := Some x\<rparr>)))"
      using c r s Ok by (simp add: arc_ops)
    with ok c(1) show ?thesis by (simp add: arc_ops)
  next
    case (Err e)
    let ?h = "(w_heap w)(u \<mapsto> i\<lparr>ai_data := s\<rparr>)"
    have "arc_drop_glue False C ?h u = Inr ([], ?h(u := None))"
      by (rule uninit_drop_ok [OF C, of _ _ "i\<lparr>ai_data := s\<rparr>"]) (use c(3) in simp_all)
    then have "unique_arc_init_with C (w_heap w) u f = Inr (Err e, (w_heap w)(u := None))"
      unfolding unique_arc_init_with_def arc_as_ref_def using c(1,2) r Err by simp
    with err show ?thesis by blast
  qed
qed

lemma unique_assign_inv:
  assumes inv: "arc_inv w" and u: "u \<in># w_uniq w"
    and h: "unique_arc_deref_mut (w_heap w) u (\<lambda>_. y) = Inr (x, h)"
  shows "arc_inv (w\<lparr>w_heap := h, w_stored := add_mset y (w_stored w), w_dropped := add_mset x (w_dropped w)\<rparr>)"
proof -
  obtain i z where c: "w_heap w u = Some i" "ai_data i = Some z"
    using arc_handle_cell [OF inv, of u] u by (metis union_iff)
  then have h': "h = (w_heap w)(u := Some (i\<lparr>ai_data := Some y\<rparr>))" "x = z"
    using h by (auto simp: arc_ops)
  show ?thesis
    by (rule arc_inv_upd [OF inv, of _ u "Some (i\<lparr>ai_data := Some y\<rparr>)"])
      (use c h' u arc_inv_cell [OF inv, of u] in auto)
qed

lemma from_unique_inv:
  assumes inv: "arc_inv w" and u: "u \<in># w_uniq w"
  shows "arc_inv (w\<lparr>w_uniq := w_uniq w - {#u#}, w_arcs := add_mset u (w_arcs w)\<rparr>)"
proof -
  note cell = arc_inv_cell [OF inv, of u]
  have one: "count (w_uniq w) u > 0" using u by simp
  have "arc_cell_ok (Suc (count (w_arcs w) u)) (count (w_uniq w) u - 1) (count (w_uninit w) u) (w_heap w u)"
    using cell one by (cases "w_heap w u") (auto simp del: count_greater_zero_iff split: if_splits)
  then show ?thesis
    by (intro arc_inv_upd [OF inv, of _ u "w_heap w u"]) auto
qed

section \<open>Reachable states\<close>

lemmas arc_drop_inv = arc_release_inv [OF _ _ _ _ disjI1, OF _ _ _ _ conjI [OF refl]]
lemmas unique_drop_inv = arc_release_inv [OF _ _ _ _ disjI2, OF _ _ _ _ conjI [OF refl]]

lemma arc_step_inv:
  assumes C: "c_refcount_ok C" and al: "arc_alloc_ok alloc" and inv: "arc_inv w" and s: "arc_step C alloc w w'"
  shows "arc_inv w'"
  using s
proof cases
  case (step_new x a h)
  then show ?thesis
    by (intro arc_new_inv [OF C al inv, of a _ "Some x"]) (auto simp: arc_ops split: option.splits)
next
  case (step_clone a b h)
  with arc_clone_inv [OF C inv] show ?thesis by blast
next
  case (step_from_borrow a b h)
  with arc_clone_inv [OF C inv] show ?thesis by (simp add: arc_from_borrow_def arc_as_arc_borrow_def)
next
  case (step_drop a ds h)
  with arc_drop_inv [OF C inv] show ?thesis by simp
next
  case (step_into_unique a u h)
  with arc_into_unique_inv [OF C inv step_into_unique(2,3)] show ?thesis by simp
next
  case (step_or_drop a h)
  with arc_into_unique_inv [OF C inv step_or_drop(2,3)] show ?thesis by simp
next
  case (step_unique_new x u h)
  then show ?thesis
    by (intro arc_new_inv [OF C al inv, of u _ "Some x"]) (auto simp: arc_ops split: option.splits)
next
  case (step_new_uninit u h)
  then show ?thesis
    by (intro arc_new_inv [OF C al inv, of u _ None]) (auto simp: arc_ops split: option.splits)
next
  case (step_write u x u' h)
  obtain i where "w_heap w u = Some i" "u' = u" "h = (w_heap w)(u := Some (i\<lparr>ai_data := Some x\<rparr>))"
    using unique_write_ok [OF inv step_write(2), of x] step_write(3) by auto
  with arc_initialised_inv [OF inv step_write(2)] step_write(1) show ?thesis by simp
next
  case (step_init u f u' h x)
  obtain i where "w_heap w u = Some i" "u' = u" "h = (w_heap w)(u := Some (i\<lparr>ai_data := Some x\<rparr>))"
    by (rule unique_init_ok [OF C inv step_init(2,3)]) (use step_init(4,5) in auto)
  with arc_initialised_inv [OF inv step_init(2)] step_init(1) show ?thesis by simp
next
  case (step_init_fail u f e h)
  have "h = (w_heap w)(u := None)"
    using unique_init_ok [OF C inv step_init_fail(2,3)] step_init_fail(4) by auto
  with arc_uninit_free_inv [OF inv step_init_fail(2)] step_init_fail(1) show ?thesis by simp
next
  case (step_uninit_drop u ds h)
  obtain i where "w_heap w u = Some i" "unat (ai_refcount i) = 1"
    using arc_uninit_cell [OF inv step_uninit_drop(2)] by metis
  from uninit_drop_ok [of C "w_heap w" u i, OF C this] step_uninit_drop(3) have "ds = []" "h = (w_heap w)(u := None)" by simp_all
  with arc_uninit_free_inv [OF inv step_uninit_drop(2)] step_uninit_drop(1) show ?thesis by simp
next
  case (step_assign u y x h)
  with unique_assign_inv [OF inv] show ?thesis by blast
next
  case (step_from_unique u)
  with from_unique_inv [OF inv] show ?thesis by (simp add: arc_from_unique_def)
next
  case (step_unique_drop u ds h)
  with unique_drop_inv [OF C inv] show ?thesis by simp
qed

lemma arc_init_inv: "arc_inv arc_world_init"
  by (simp add: arc_inv_def arc_world_init_def arc_live_def)

lemma arc_reach_inv:
  assumes "arc_reach C alloc w" and "c_refcount_ok C" and "arc_alloc_ok alloc"
  shows "arc_inv w"
  using assms(1) by induction (simp_all add: arc_init_inv arc_step_inv [OF assms(2,3)])




section \<open>Raw pointers\<close>

lemma data_offset_extend:
  assumes al: "0 < al"
  shows "arc_DATA_OFFSET al = layout_extend_offset al"
proof -
  define q r where "q = 4 div al" and "r = 4 mod al"
  have eq: "4 = al * q + r" and lt: "r < al" using al unfolding q_def r_def by simp_all
  have "layout_extend_offset al = (al * q + r + al - 1) div al * al"
    unfolding layout_extend_offset_def by (subst eq) simp
  also have "(al * q + r + al - 1) div al = (if r = 0 then q else Suc q)"
  proof (rule div_nat_eqI)
    show "al * (if r = 0 then q else Suc q) \<le> al * q + r + al - 1" using al by auto
    show "al * q + r + al - 1 < al * Suc (if r = 0 then q else Suc q)" using al lt by auto
  qed
  finally have "layout_extend_offset al = (if r = 0 then al * q else al * q + al)"
    by (simp add: mult.commute)
  then show ?thesis using eq lt unfolding arc_DATA_OFFSET_def r_def [symmetric] by (simp split: if_splits)
qed

lemma arc_raw_roundtrip: "0 < al \<Longrightarrow> arc_from_raw al (arc_into_raw al a) = Inr a"
  by (simp add: arc_from_raw_def arc_into_raw_def arc_container_of_def data_offset_extend)

section \<open>Instances\<close>

text \<open>A counter with the kernel's saturation value, and an allocator of the first free address.\<close>

definition ref_refcount :: c_refcount where
  "ref_refcount = \<lparr>rc_init = word_of_nat,
     rc_inc = (\<lambda>n. if unat n = 0 \<or> unat n \<ge> 2 ^ 31 - 1 then 0xc0000000 else n + 1),
     rc_dec_and_test = (\<lambda>n. if rc_saturated n \<or> n = 0 then (False, 0xc0000000) else (n = 1, n - 1))\<rparr>"

lemma ref_refcount_ok: "c_refcount_ok ref_refcount"
proof -
  have "unat (n + 1) = unat n + 1" if "unat n < 2 ^ 31 - 1" for n :: u32
    using that by (simp add: unat_word_ariths)
  moreover have "unat (n - 1) = unat n - 1" "n \<noteq> 0" if "0 < unat n" for n :: u32
    using that by (auto simp: unat_sub word_le_nat_alt)
  moreover have "n = 1 \<longleftrightarrow> unat n = 1" for n :: u32
    by (metis unat_1 word_unat_eq_iff)
  ultimately show ?thesis
    by (auto simp: c_refcount_ok_def ref_refcount_def rc_saturated_def)
qed

definition first_free :: "nat \<Rightarrow> 'a arc_alloc" where
  "first_free lim h = List.find (\<lambda>a. h a = None) [1..<lim]"

lemma first_free_ok: "arc_alloc_ok (first_free lim)"
  by (auto simp: arc_alloc_ok_def first_free_def find_Some_iff)

section \<open>Properties\<close>



text \<open>
  C7: no value in an \<open>Arc\<close> is dropped twice or lost: in every reachable state the values that were ever
  stored are exactly the values that were dropped and the values of the live objects. An object is live
  exactly as long as it has a handle, unless its counter has saturated: such an object is never freed.
\<close>

theorem arc_drops_exactly_once:
  assumes "c_refcount_ok C" and "arc_alloc_ok alloc" and "arc_reach C alloc w"
  shows "w_stored w = w_dropped w + arc_live (w_heap w) \<and>
    (\<forall>a. (a \<in># w_arcs w + w_uniq w + w_uninit w \<longrightarrow> w_heap w a \<noteq> None) \<and>
         (\<forall>i. w_heap w a = Some i \<longrightarrow> rc_saturated (ai_refcount i) \<or>
            unat (ai_refcount i) = count (w_arcs w + w_uniq w + w_uninit w) a \<and> 0 < unat (ai_refcount i)))"
proof -
  have inv: "arc_inv w" by (rule arc_reach_inv [OF assms(3,1,2)])
  have cell: "(a \<in># w_arcs w + w_uniq w + w_uninit w \<longrightarrow> w_heap w a \<noteq> None) \<and>
      (\<forall>i. w_heap w a = Some i \<longrightarrow> rc_saturated (ai_refcount i) \<or>
         unat (ai_refcount i) = count (w_arcs w + w_uniq w + w_uninit w) a \<and> 0 < unat (ai_refcount i))" for a
    using arc_inv_cell [OF inv, of a]
    by (cases "w_heap w a") (auto simp del: count_greater_zero_iff simp flip: count_eq_zero_iff split: if_splits)
  with inv show ?thesis unfolding arc_inv_def by blast
qed

theorem arc_drops_exactly_once_witness:
  "\<exists>w :: nat arc_world. arc_reach ref_refcount (first_free 8) w \<and> w_arcs w = {#1, 1#} \<and>
    w_stored w = w_dropped w + arc_live (w_heap w) \<and>
    (\<forall>a. (a \<in># w_arcs w + w_uniq w + w_uninit w \<longrightarrow> w_heap w a \<noteq> None) \<and>
         (\<forall>i. w_heap w a = Some i \<longrightarrow> rc_saturated (ai_refcount i) \<or>
            unat (ai_refcount i) = count (w_arcs w + w_uniq w + w_uninit w) a \<and> 0 < unat (ai_refcount i)))"
proof -
  let ?C = ref_refcount and ?al = "first_free 8 :: nat arc_alloc"
  let ?h = "[1 \<mapsto> \<lparr>ai_refcount = rc_init ?C 1, ai_data = Some (7 :: nat)\<rparr>]"
  let ?h' = "[1 \<mapsto> \<lparr>ai_refcount = rc_inc ?C (rc_init ?C 1), ai_data = Some (7 :: nat)\<rparr>]"
  let ?w = "(arc_world_init\<lparr>w_heap := ?h, w_arcs := {#1#}, w_stored := {#7#}\<rparr> :: nat arc_world)"
  have "arc_new ?C ?al Map.empty 7 = (Ok 1, ?h)"
    by (simp add: arc_new_def first_free_def upt_rec)
  with arc_step.step_new [of ?C ?al arc_world_init 7 1 ?h] arc_reach.intros [of ?C ?al]
  have r: "arc_reach ?C ?al ?w" by (simp add: arc_world_init_def)
  have "arc_clone ?C (w_heap ?w) 1 = Inr (1, ?h')" by (simp add: arc_ops)
  with arc_step.step_clone [of 1 ?w ?C 1 ?h' ?al] arc_reach.reach_step [OF r]
  have r': "arc_reach ?C ?al (?w\<lparr>w_heap := ?h', w_arcs := {#1, 1#}\<rparr>)" by simp
  have a: "w_arcs (?w\<lparr>w_heap := ?h', w_arcs := {#1, 1#}\<rparr>) = {#1, 1#}" by simp
  show ?thesis
    by (rule exI, rule conjI [OF r' conjI [OF a arc_drops_exactly_once [OF ref_refcount_ok first_free_ok r']]])
qed

text \<open>
  \<open>into_unique_or_drop\<close> never drops the value. Called by an owner of an object whose counter has not
  saturated, it returns the unique handle exactly when that owner was the last; the result is then
  the only handle and the data is unchanged.
\<close>

lemma into_unique_or_drop_last:
  assumes "c_refcount_ok C" and "arc_alloc_ok alloc" and "arc_reach C alloc w" and "a \<in># w_arcs w"
  shows "\<exists>r h. arc_into_unique_or_drop C (w_heap w) a = Inr (r, h) \<and>
    map_option ai_data (h a) = map_option ai_data (w_heap w a) \<and>
    (r = None \<or> r = Some a \<and> count (w_arcs w) a = 1) \<and>
    (\<not> rc_saturated (ai_refcount (the (w_heap w a))) \<longrightarrow> (r = Some a \<longleftrightarrow> count (w_arcs w) a = 1))"
proof -
  have inv: "arc_inv w" by (rule arc_reach_inv [OF assms(3,1,2)])
  show ?thesis
    by (rule arc_into_unique_ok [OF assms(1) inv assms(4)]) auto
qed

text \<open>
  \<open>into_raw\<close> followed by \<open>from_raw\<close>, of an \<open>Arc\<close> or as a borrow, gives back the same object, whatever the alignment of
  its data; so does the trip through \<open>ForeignOwnable\<close> for a non-null object.
\<close>

lemma arc_raw_roundtrips:
  assumes "0 < al" and "a \<noteq> 0"
  shows "arc_from_raw al (arc_into_raw al a) = Inr a \<and> arc_borrow_from_raw al (arc_into_raw al a) = Inr a \<and>
    arc_from_foreign (arc_into_foreign a) = Inr a \<and> arc_foreign_borrow (arc_into_foreign a) = Inr a"
  using arc_raw_roundtrip [OF assms(1), of a] assms(2)
  by (simp add: arc_borrow_from_raw_def arc_from_raw_def arc_from_foreign_def arc_into_foreign_def arc_foreign_borrow_def)

end
