(* ===== verification/List_Arc.thy ===== *)
theory List_Arc
  imports Sync_Arc
begin

text \<open>
  \<open>rust/src/list/arc.rs\<close>: \<open>ListArc\<close>, an \<open>Arc\<close> of which at most one exists per object and list \<open>ID\<close>, and the
  trackers that enforce it.

  A \<open>ListArc\<close> is an \<open>Arc\<close> at run time, here its address. The methods of the traits \<open>ListArcSafe\<close> and
  \<open>TryNewListArc\<close> are arguments of the operations; the locale \<open>list_arc_safe\<close> states what their
  implementations promise, \<open>exact_tracker\<close> what an implementation promises that really tracks. The macro
  \<open>impl_list_arc_safe!\<close> generates two implementations: \<open>untracked\<close>, and \<open>tracked_by\<close> a field of type
  \<open>AtomicTracker\<close>. The object tracked by fields is a record of its other contents and one tracker for each ID.
\<close>

section \<open>Trackers\<close>

text \<open>\<open>AtomicTracker\<close>: one atomic boolean; \<open>compare_exchange(false, true)\<close> is one step.\<close>

type_synonym atomic_tracker = bool

definition atomic_tracker_new :: atomic_tracker where
  "atomic_tracker_new = False"

definition atomic_on_create :: "atomic_tracker \<Rightarrow> atomic_tracker" where
  "atomic_on_create t = True"

definition atomic_on_drop :: "atomic_tracker \<Rightarrow> atomic_tracker" where
  "atomic_on_drop t = False"

definition compare_exchange :: "bool \<Rightarrow> bool \<Rightarrow> bool \<Rightarrow> (bool, bool) result \<times> bool" where
  "compare_exchange current new cell = (if cell = current then (Ok cell, new) else (Err cell, cell))"

definition atomic_try_new :: "atomic_tracker \<Rightarrow> bool \<times> atomic_tracker" where
  "atomic_try_new t = (let (r, t') = compare_exchange False True t in (is_ok r, t'))"

record 'a tracked =
  t_rest :: 'a
  t_trackers :: "nat \<Rightarrow> atomic_tracker"

definition tracked_on_create :: "nat \<Rightarrow> 'a tracked \<Rightarrow> 'a tracked" where
  "tracked_on_create n d = d\<lparr>t_trackers := (t_trackers d)(n := atomic_on_create (t_trackers d n))\<rparr>"

definition tracked_on_drop :: "nat \<Rightarrow> 'a tracked \<Rightarrow> 'a tracked" where
  "tracked_on_drop n d = d\<lparr>t_trackers := (t_trackers d)(n := atomic_on_drop (t_trackers d n))\<rparr>"

definition tracked_try_new :: "nat \<Rightarrow> 'a tracked \<Rightarrow> bool \<times> 'a tracked" where
  "tracked_try_new n d =
     (let (r, t) = atomic_try_new (t_trackers d n) in (r, d\<lparr>t_trackers := (t_trackers d)(n := t)\<rparr>))"

definition untracked_on_create :: "nat \<Rightarrow> 'a \<Rightarrow> 'a" where
  "untracked_on_create n d = d"

definition untracked_on_drop :: "nat \<Rightarrow> 'a \<Rightarrow> 'a" where
  "untracked_on_drop n d = d"

section \<open>Operations\<close>

type_synonym list_arc = addr

text \<open>A call of a \<open>&self\<close> method that changes the object through an atomic field.\<close>

definition arc_call :: "'a arc_heap \<Rightarrow> addr \<Rightarrow> ('a \<Rightarrow> 'b \<times> 'a) \<Rightarrow> ('b \<times> 'a arc_heap) exec" where
  "arc_call h a f =
     exec_bind (arc_as_ref h a) (\<lambda>i.
     exec_bind (arc_deref h a) (\<lambda>d.
     let (r, d') = f d in Inr (r, h(a \<mapsto> i\<lparr>ai_data := Some d'\<rparr>))))"

definition list_arc_transmute_from_arc :: "arc \<Rightarrow> list_arc" where
  "list_arc_transmute_from_arc a = a"

definition list_arc_transmute_to_arc :: "list_arc \<Rightarrow> arc" where
  "list_arc_transmute_to_arc l = l"

definition list_arc_from_pin_unique ::
  "(nat \<Rightarrow> 'a \<Rightarrow> 'a) \<Rightarrow> nat \<Rightarrow> 'a arc_heap \<Rightarrow> unique_arc \<Rightarrow> (list_arc \<times> 'a arc_heap) exec" where
  "list_arc_from_pin_unique on_create n h u =
     exec_bind (unique_arc_deref_mut h u (on_create n)) (\<lambda>(_, h).
     Inr (list_arc_transmute_from_arc (arc_from_unique u), h))"

definition list_arc_from_unique ::
  "(nat \<Rightarrow> 'a \<Rightarrow> 'a) \<Rightarrow> nat \<Rightarrow> 'a arc_heap \<Rightarrow> unique_arc \<Rightarrow> (list_arc \<times> 'a arc_heap) exec" where
  "list_arc_from_unique on_create n h u = list_arc_from_pin_unique on_create n h u"

definition list_arc_new ::
  "c_refcount \<Rightarrow> 'a arc_alloc \<Rightarrow> (nat \<Rightarrow> 'a \<Rightarrow> 'a) \<Rightarrow> nat \<Rightarrow> 'a arc_heap \<Rightarrow> 'a \<Rightarrow>
   ((list_arc, error_source) result \<times> 'a arc_heap) exec" where
  "list_arc_new C alloc on_create n h contents =
     (case unique_arc_new C alloc h contents of
        (Err e, h) \<Rightarrow> Inr (Err e, h)
      | (Ok u, h) \<Rightarrow> exec_bind (list_arc_from_unique on_create n h u) (\<lambda>(l, h). Inr (Ok l, h)))"

text \<open>\<open>build_assert!(ID != ID2)\<close> is checked at compile time.\<close>

definition list_arc_pair_from_pin_unique ::
  "c_refcount \<Rightarrow> (nat \<Rightarrow> 'a \<Rightarrow> 'a) \<Rightarrow> nat \<Rightarrow> nat \<Rightarrow> 'a arc_heap \<Rightarrow> unique_arc \<Rightarrow>
   ((list_arc \<times> list_arc) \<times> 'a arc_heap) exec" where
  "list_arc_pair_from_pin_unique C on_create n n2 h u =
     exec_bind (unique_arc_deref_mut h u (on_create n)) (\<lambda>(_, h).
     exec_bind (unique_arc_deref_mut h u (on_create n2)) (\<lambda>(_, h).
     let arc1 = arc_from_unique u in
     exec_bind (arc_clone C h arc1) (\<lambda>(arc2, h).
     Inr ((list_arc_transmute_from_arc arc1, list_arc_transmute_from_arc arc2), h))))"

definition list_arc_pair_from_unique ::
  "c_refcount \<Rightarrow> (nat \<Rightarrow> 'a \<Rightarrow> 'a) \<Rightarrow> nat \<Rightarrow> nat \<Rightarrow> 'a arc_heap \<Rightarrow> unique_arc \<Rightarrow>
   ((list_arc \<times> list_arc) \<times> 'a arc_heap) exec" where
  "list_arc_pair_from_unique C on_create n n2 h u = list_arc_pair_from_pin_unique C on_create n n2 h u"

definition list_arc_try_from_arc ::
  "(nat \<Rightarrow> 'a \<Rightarrow> bool \<times> 'a) \<Rightarrow> nat \<Rightarrow> 'a arc_heap \<Rightarrow> arc \<Rightarrow> ((list_arc, arc) result \<times> 'a arc_heap) exec" where
  "list_arc_try_from_arc try_new n h a =
     exec_bind (arc_call h a (try_new n)) (\<lambda>(r, h).
     Inr (if r then Ok (list_arc_transmute_from_arc a) else Err a, h))"

definition list_arc_try_from_arc_borrow ::
  "c_refcount \<Rightarrow> (nat \<Rightarrow> 'a \<Rightarrow> bool \<times> 'a) \<Rightarrow> nat \<Rightarrow> 'a arc_heap \<Rightarrow> arc_borrow \<Rightarrow>
   (list_arc option \<times> 'a arc_heap) exec" where
  "list_arc_try_from_arc_borrow C try_new n h a =
     exec_bind (arc_call h a (try_new n)) (\<lambda>(r, h).
     if r then exec_bind (arc_from_borrow C h a) (\<lambda>(b, h). Inr (Some (list_arc_transmute_from_arc b), h))
     else Inr (None, h))"

definition list_arc_try_from_arc_or_drop ::
  "c_refcount \<Rightarrow> (nat \<Rightarrow> 'a \<Rightarrow> 'a) \<Rightarrow> (nat \<Rightarrow> 'a \<Rightarrow> bool \<times> 'a) \<Rightarrow> nat \<Rightarrow> 'a arc_heap \<Rightarrow> arc \<Rightarrow>
   (list_arc option \<times> 'a arc_heap) exec" where
  "list_arc_try_from_arc_or_drop C on_create try_new n h a =
     exec_bind (list_arc_try_from_arc try_new n h a) (\<lambda>(r, h).
     case r of
       Ok l \<Rightarrow> Inr (Some l, h)
     | Err a \<Rightarrow>
         exec_bind (arc_into_unique_or_drop C h a) (\<lambda>(r, h).
         case r of
           None \<Rightarrow> Inr (None, h)
         | Some u \<Rightarrow> exec_bind (list_arc_from_pin_unique on_create n h u) (\<lambda>(l, h). Inr (Some l, h))))"

definition list_arc_into_raw :: "nat \<Rightarrow> list_arc \<Rightarrow> addr" where
  "list_arc_into_raw al l = arc_into_raw al (list_arc_transmute_to_arc l)"

definition list_arc_from_raw :: "nat \<Rightarrow> addr \<Rightarrow> list_arc exec" where
  "list_arc_from_raw al p = exec_bind (arc_from_raw al p) (\<lambda>a. Inr (list_arc_transmute_from_arc a))"

definition list_arc_into_arc ::
  "(nat \<Rightarrow> 'a \<Rightarrow> 'a) \<Rightarrow> nat \<Rightarrow> 'a arc_heap \<Rightarrow> list_arc \<Rightarrow> (arc \<times> 'a arc_heap) exec" where
  "list_arc_into_arc on_drop n h l =
     (let a = list_arc_transmute_to_arc l in
      exec_bind (arc_call h a (\<lambda>d. ((), on_drop n d))) (\<lambda>(_, h). Inr (a, h)))"

definition list_arc_clone_arc :: "c_refcount \<Rightarrow> 'a arc_heap \<Rightarrow> list_arc \<Rightarrow> (arc \<times> 'a arc_heap) exec" where
  "list_arc_clone_arc C h l = arc_clone C h l"

definition list_arc_as_arc :: "list_arc \<Rightarrow> arc" where
  "list_arc_as_arc l = l"

definition list_arc_as_arc_borrow :: "list_arc \<Rightarrow> arc_borrow" where
  "list_arc_as_arc_borrow l = arc_as_arc_borrow l"

definition list_arc_ptr_eq :: "list_arc \<Rightarrow> list_arc \<Rightarrow> bool" where
  "list_arc_ptr_eq a b \<longleftrightarrow> arc_ptr_eq a b"

definition list_arc_deref :: "'a arc_heap \<Rightarrow> list_arc \<Rightarrow> 'a exec" where
  "list_arc_deref h l = arc_deref h l"

text \<open>\<open>drop\<close> runs the tracker's hook; dropping the field then drops the \<open>Arc\<close>.\<close>

definition list_arc_drop ::
  "c_refcount \<Rightarrow> (nat \<Rightarrow> 'a \<Rightarrow> 'a) \<Rightarrow> nat \<Rightarrow> 'a arc_heap \<Rightarrow> list_arc \<Rightarrow> ('a list \<times> 'a arc_heap) exec" where
  "list_arc_drop C on_drop n h l =
     exec_bind (arc_call h l (\<lambda>d. ((), on_drop n d))) (\<lambda>(_, h). arc_drop C h l)"

section \<open>Steps\<close>

text \<open>
  The handles in circulation; a \<open>ListArc\<close> is listed with its ID. New objects satisfy \<open>fresh\<close>: their trackers come from
  \<open>AtomicTracker::new\<close>.
\<close>

record 'a la_world =
  l_heap :: "'a arc_heap"
  l_arcs :: "addr multiset"
  l_uniq :: "addr multiset"
  l_list :: "(nat \<times> addr) multiset"

definition la_init :: "'a la_world" where
  "la_init = \<lparr>l_heap = Map.empty, l_arcs = {#}, l_uniq = {#}, l_list = {#}\<rparr>"

inductive la_step ::
  "c_refcount \<Rightarrow> 'a arc_alloc \<Rightarrow> (nat \<Rightarrow> 'a \<Rightarrow> 'a) \<Rightarrow> (nat \<Rightarrow> 'a \<Rightarrow> 'a) \<Rightarrow> (nat \<Rightarrow> 'a \<Rightarrow> bool \<times> 'a) \<Rightarrow>
   ('a \<Rightarrow> bool) \<Rightarrow> 'a la_world \<Rightarrow> 'a la_world \<Rightarrow> bool"
  for C alloc on_create on_drop try_new fresh where
  la_unique_new: "fresh x \<Longrightarrow> unique_arc_new C alloc (l_heap w) x = (Ok u, h) \<Longrightarrow>
    la_step C alloc on_create on_drop try_new fresh w (w\<lparr>l_heap := h, l_uniq := add_mset u (l_uniq w)\<rparr>)"
| la_from_unique: "u \<in># l_uniq w \<Longrightarrow>
    la_step C alloc on_create on_drop try_new fresh w
      (w\<lparr>l_uniq := l_uniq w - {#u#}, l_arcs := add_mset (arc_from_unique u) (l_arcs w)\<rparr>)"
| la_clone: "a \<in># l_arcs w \<Longrightarrow> arc_clone C (l_heap w) a = Inr (b, h) \<Longrightarrow>
    la_step C alloc on_create on_drop try_new fresh w (w\<lparr>l_heap := h, l_arcs := add_mset b (l_arcs w)\<rparr>)"
| la_drop: "a \<in># l_arcs w \<Longrightarrow> arc_drop C (l_heap w) a = Inr (ds, h) \<Longrightarrow>
    la_step C alloc on_create on_drop try_new fresh w (w\<lparr>l_heap := h, l_arcs := l_arcs w - {#a#}\<rparr>)"
| la_list_from_unique: "u \<in># l_uniq w \<Longrightarrow> list_arc_from_unique on_create n (l_heap w) u = Inr (l, h) \<Longrightarrow>
    la_step C alloc on_create on_drop try_new fresh w
      (w\<lparr>l_heap := h, l_uniq := l_uniq w - {#u#}, l_list := add_mset (n, l) (l_list w)\<rparr>)"
| la_pair: "u \<in># l_uniq w \<Longrightarrow> n \<noteq> n2 \<Longrightarrow>
    list_arc_pair_from_unique C on_create n n2 (l_heap w) u = Inr ((l, l2), h) \<Longrightarrow>
    la_step C alloc on_create on_drop try_new fresh w
      (w\<lparr>l_heap := h, l_uniq := l_uniq w - {#u#}, l_list := add_mset (n, l) (add_mset (n2, l2) (l_list w))\<rparr>)"
| la_try: "a \<in># l_arcs w \<Longrightarrow> list_arc_try_from_arc try_new n (l_heap w) a = Inr (Ok l, h) \<Longrightarrow>
    la_step C alloc on_create on_drop try_new fresh w
      (w\<lparr>l_heap := h, l_arcs := l_arcs w - {#a#}, l_list := add_mset (n, l) (l_list w)\<rparr>)"
| la_try_fail: "a \<in># l_arcs w \<Longrightarrow> list_arc_try_from_arc try_new n (l_heap w) a = Inr (Err b, h) \<Longrightarrow>
    la_step C alloc on_create on_drop try_new fresh w
      (w\<lparr>l_heap := h, l_arcs := add_mset b (l_arcs w - {#a#})\<rparr>)"
| la_try_borrow: "a \<in># l_arcs w \<Longrightarrow>
    list_arc_try_from_arc_borrow C try_new n (l_heap w) (arc_as_arc_borrow a) = Inr (r, h) \<Longrightarrow>
    la_step C alloc on_create on_drop try_new fresh w
      (w\<lparr>l_heap := h, l_list := (case r of None \<Rightarrow> l_list w | Some l \<Rightarrow> add_mset (n, l) (l_list w))\<rparr>)"
| la_try_or_drop: "a \<in># l_arcs w \<Longrightarrow>
    list_arc_try_from_arc_or_drop C on_create try_new n (l_heap w) a = Inr (r, h) \<Longrightarrow>
    la_step C alloc on_create on_drop try_new fresh w
      (w\<lparr>l_heap := h, l_arcs := l_arcs w - {#a#},
         l_list := (case r of None \<Rightarrow> l_list w | Some l \<Rightarrow> add_mset (n, l) (l_list w))\<rparr>)"
| la_into_arc: "(n, l) \<in># l_list w \<Longrightarrow> list_arc_into_arc on_drop n (l_heap w) l = Inr (a, h) \<Longrightarrow>
    la_step C alloc on_create on_drop try_new fresh w
      (w\<lparr>l_heap := h, l_list := l_list w - {#(n, l)#}, l_arcs := add_mset a (l_arcs w)\<rparr>)"
| la_clone_arc: "(n, l) \<in># l_list w \<Longrightarrow> list_arc_clone_arc C (l_heap w) l = Inr (a, h) \<Longrightarrow>
    la_step C alloc on_create on_drop try_new fresh w (w\<lparr>l_heap := h, l_arcs := add_mset a (l_arcs w)\<rparr>)"
| la_list_drop: "(n, l) \<in># l_list w \<Longrightarrow> list_arc_drop C on_drop n (l_heap w) l = Inr (ds, h) \<Longrightarrow>
    la_step C alloc on_create on_drop try_new fresh w (w\<lparr>l_heap := h, l_list := l_list w - {#(n, l)#}\<rparr>)"

inductive la_reach ::
  "c_refcount \<Rightarrow> 'a arc_alloc \<Rightarrow> (nat \<Rightarrow> 'a \<Rightarrow> 'a) \<Rightarrow> (nat \<Rightarrow> 'a \<Rightarrow> 'a) \<Rightarrow> (nat \<Rightarrow> 'a \<Rightarrow> bool \<times> 'a) \<Rightarrow>
   ('a \<Rightarrow> bool) \<Rightarrow> 'a la_world \<Rightarrow> bool"
  for C alloc on_create on_drop try_new fresh where
  la_reach_init: "la_reach C alloc on_create on_drop try_new fresh la_init"
| la_reach_step: "la_reach C alloc on_create on_drop try_new fresh w \<Longrightarrow>
    la_step C alloc on_create on_drop try_new fresh w w' \<Longrightarrow> la_reach C alloc on_create on_drop try_new fresh w'"

section \<open>What trackers promise\<close>

text \<open>\<open>has n d\<close>: as far as the object \<open>d\<close> knows, a \<open>ListArc\<close> for \<open>n\<close> may exist.\<close>

locale list_arc_safe =
  fixes on_create on_drop :: "nat \<Rightarrow> 'a \<Rightarrow> 'a" and try_new :: "nat \<Rightarrow> 'a \<Rightarrow> bool \<times> 'a"
    and has :: "nat \<Rightarrow> 'a \<Rightarrow> bool"
  assumes create_has: "has n (on_create n d)"
    and create_keep: "m \<noteq> n \<Longrightarrow> has m (on_create n d) = has m d"
    and drop_keep: "m \<noteq> n \<Longrightarrow> has m (on_drop n d) = has m d"
    and try_keep: "m \<noteq> n \<Longrightarrow> has m (snd (try_new n d)) = has m d"
    and try_true: "fst (try_new n d) \<Longrightarrow> \<not> has n d \<and> has n (snd (try_new n d))"
    and try_false: "\<not> fst (try_new n d) \<Longrightarrow> snd (try_new n d) = d"

locale exact_tracker = list_arc_safe on_create on_drop try_new has
  for on_create on_drop :: "nat \<Rightarrow> 'a \<Rightarrow> 'a" and try_new :: "nat \<Rightarrow> 'a \<Rightarrow> bool \<times> 'a"
    and has :: "nat \<Rightarrow> 'a \<Rightarrow> bool" +
  fixes fresh :: "'a \<Rightarrow> bool"
  assumes fresh_not: "fresh d \<Longrightarrow> \<not> has n d"
    and drop_not: "\<not> has n (on_drop n d)"
    and try_complete: "\<not> fst (try_new n d) \<Longrightarrow> has n d"

lemmas atomic_defs = atomic_on_create_def atomic_on_drop_def atomic_try_new_def compare_exchange_def atomic_tracker_new_def
lemmas tracked_defs = tracked_on_create_def tracked_on_drop_def atomic_defs

lemma tracked_try_new_eq:
  "tracked_try_new n d = (\<not> t_trackers d n, d\<lparr>t_trackers := (t_trackers d)(n := True)\<rparr>)"
  by (simp add: tracked_try_new_def atomic_defs)

definition tracked_has :: "nat \<Rightarrow> 'a tracked \<Rightarrow> bool" where
  "tracked_has n d \<longleftrightarrow> t_trackers d n"

definition tracked_fresh :: "'a tracked \<Rightarrow> bool" where
  "tracked_fresh d \<longleftrightarrow> t_trackers d = (\<lambda>_. atomic_tracker_new)"

interpretation tracked: exact_tracker tracked_on_create tracked_on_drop tracked_try_new tracked_has tracked_fresh
  by unfold_locales (auto simp: tracked_defs tracked_has_def tracked_fresh_def tracked_try_new_eq fun_upd_idem)

text \<open>An untracked object has no \<open>try_new_list_arc\<close>: nothing ever succeeds.\<close>

definition untracked_try_new :: "nat \<Rightarrow> 'a \<Rightarrow> bool \<times> 'a" where
  "untracked_try_new n d = (False, d)"

interpretation untracked: list_arc_safe untracked_on_create untracked_on_drop untracked_try_new "\<lambda>_ _. True"
  by unfold_locales (auto simp: untracked_on_create_def untracked_on_drop_def untracked_try_new_def)

section \<open>The invariant\<close>

definition nlist :: "(nat \<times> addr) multiset \<Rightarrow> addr \<Rightarrow> nat" where
  "nlist L a = size {#p \<in># L. snd p = a#}"

lemma nlist_add [simp]: "nlist (add_mset (n, a) L) b = (if a = b then Suc (nlist L b) else nlist L b)"
  by (simp add: nlist_def)

lemma nlist_remove: "(n, a) \<in># L \<Longrightarrow> nlist L b = (if a = b then Suc (nlist (L - {#(n, a)#}) b) else nlist (L - {#(n, a)#}) b)"
  by (metis insert_DiffM nlist_add)

lemma nlist_cong: "(\<And>n. count L' (n, b) = count L (n, b)) \<Longrightarrow> nlist L' b = nlist L b"
  unfolding nlist_def by (rule arg_cong [where f = size], rule multiset_eqI) auto

lemma count_nlist: "count L (n, a) \<le> nlist L a"
proof -
  have "count {#p \<in># L. snd p = a#} (n, a) \<le> size {#p \<in># L. snd p = a#}" by (rule count_le_size)
  then show ?thesis by (simp add: nlist_def)
qed

text \<open>\<open>T n\<close> counts the \<open>ListArc\<close>s of the object for \<open>n\<close>; \<open>ex\<close> asks the tracker to be exact.\<close>

definition la_track :: "bool \<Rightarrow> (nat \<Rightarrow> 'a \<Rightarrow> bool) \<Rightarrow> (nat \<Rightarrow> nat) \<Rightarrow> 'a \<Rightarrow> bool" where
  "la_track ex has T d \<longleftrightarrow> (\<forall>n. T n \<le> 1 \<and> (T n = 1 \<longrightarrow> has n d) \<and> (ex \<longrightarrow> has n d \<longrightarrow> T n = 1))"

fun la_cell :: "bool \<Rightarrow> (nat \<Rightarrow> 'a \<Rightarrow> bool) \<Rightarrow> nat \<Rightarrow> nat \<Rightarrow> (nat \<Rightarrow> nat) \<Rightarrow> 'a arc_inner option \<Rightarrow> bool" where
  "la_cell ex has k u T None \<longleftrightarrow> k = 0 \<and> u = 0"
| "la_cell ex has k u T (Some i) \<longleftrightarrow> arc_cell_ok k u 0 (Some i) \<and> (\<forall>d. ai_data i = Some d \<longrightarrow> la_track ex has T d)"

definition la_inv :: "bool \<Rightarrow> (nat \<Rightarrow> 'a \<Rightarrow> bool) \<Rightarrow> 'a la_world \<Rightarrow> bool" where
  "la_inv ex has w \<longleftrightarrow>
     (\<forall>a. la_cell ex has (count (l_arcs w) a + nlist (l_list w) a) (count (l_uniq w) a)
            (\<lambda>n. count (l_list w) (n, a)) (l_heap w a))"

lemma la_inv_upd:
  assumes inv: "la_inv ex has w" and cell: "la_cell ex has k u T c"
    and heap: "l_heap w' = (l_heap w)(a := c)"
    and k: "count (l_arcs w') a + nlist (l_list w') a = k" and u: "count (l_uniq w') a = u"
    and T: "(\<lambda>n. count (l_list w') (n, a)) = T"
    and other: "\<And>b. b \<noteq> a \<Longrightarrow> count (l_arcs w') b = count (l_arcs w) b \<and> count (l_uniq w') b = count (l_uniq w) b \<and>
        (\<forall>n. count (l_list w') (n, b) = count (l_list w) (n, b))"
  shows "la_inv ex has w'"
  unfolding la_inv_def
proof
  fix b
  show "la_cell ex has (count (l_arcs w') b + nlist (l_list w') b) (count (l_uniq w') b)
      (\<lambda>n. count (l_list w') (n, b)) (l_heap w' b)"
  proof (cases "b = a")
    case True
    with cell heap k u T show ?thesis by simp
  next
    case False
    with other [OF False] nlist_cong [of "l_list w'" b "l_list w"] inv heap show ?thesis
      by (simp add: la_inv_def)
  qed
qed

lemma arc_cell_data: "arc_cell_ok k u 0 (Some i) \<Longrightarrow> arc_cell_ok k u 0 (Some (i\<lparr>ai_data := Some d\<rparr>))"
  by (auto split: if_splits)

lemma arc_cell_unique:
  "arc_cell_ok k u 0 (Some i) \<Longrightarrow> 0 < u \<Longrightarrow> k = 0 \<and> u = 1 \<and> arc_cell_ok 1 0 0 (Some i)"
  by (auto split: if_splits)

lemma arc_cell_arcs: "arc_cell_ok k u 0 (Some i) \<Longrightarrow> 0 < k \<Longrightarrow> u = 0"
  by (auto split: if_splits)

declare arc_cell_ok.simps(2) [simp del]

text \<open>A live cell as its handles see it.\<close>

lemma la_handle:
  assumes "la_inv ex has w" and "0 < count (l_arcs w) a + nlist (l_list w) a + count (l_uniq w) a"
  obtains i d where "l_heap w a = Some i" "ai_data i = Some d"
    "arc_cell_ok (count (l_arcs w) a + nlist (l_list w) a) (count (l_uniq w) a) 0 (Some i)"
    "la_track ex has (\<lambda>n. count (l_list w) (n, a)) d"
proof -
  let ?k = "count (l_arcs w) a + nlist (l_list w) a" and ?u = "count (l_uniq w) a"
  have cell: "la_cell ex has ?k ?u (\<lambda>n. count (l_list w) (n, a)) (l_heap w a)"
    using assms(1) by (simp add: la_inv_def)
  from assms(2) cell obtain i where i: "l_heap w a = Some i"
    by (cases "l_heap w a") (auto simp del: count_greater_zero_iff)
  with cell have ok: "arc_cell_ok ?k ?u 0 (Some i)" by simp
  obtain d where "ai_data i = Some d"
    using arc_cell_shared [OF ok] assms(2) by (metis option.inject)
  with that i ok cell show ?thesis by simp
qed

lemma la_unique:
  assumes inv: "la_inv ex has w" and u: "u \<in># l_uniq w"
  obtains i d where "l_heap w u = Some i" "ai_data i = Some d" "arc_cell_ok 1 0 0 (Some i)"
    "count (l_arcs w) u = 0" "nlist (l_list w) u = 0" "count (l_uniq w) u = 1"
    "\<forall>n. count (l_list w) (n, u) = 0" "la_track ex has (\<lambda>_. 0) d"
proof -
  have pos: "0 < count (l_uniq w) u" using u by simp
  obtain i d where c: "l_heap w u = Some i" "ai_data i = Some d"
    "arc_cell_ok (count (l_arcs w) u + nlist (l_list w) u) (count (l_uniq w) u) 0 (Some i)"
    "la_track ex has (\<lambda>n. count (l_list w) (n, u)) d"
    by (rule la_handle [OF inv, of u]) (use pos in simp_all)
  from arc_cell_unique [OF c(3) pos] have z: "count (l_arcs w) u = 0" "nlist (l_list w) u = 0"
    "count (l_uniq w) u = 1" "arc_cell_ok 1 0 0 (Some i)" by simp_all
  have "count (l_list w) (m, u) = 0" for m using count_nlist [of "l_list w" m u] z(2) by simp
  with that c z show ?thesis by simp
qed

lemma la_shared:
  assumes inv: "la_inv ex has w" and a: "a \<in># l_arcs w \<or> (n, a) \<in># l_list w"
  obtains i d where "l_heap w a = Some i" "ai_data i = Some d" "count (l_uniq w) a = 0"
    "0 < count (l_arcs w) a + nlist (l_list w) a"
    "arc_cell_ok (count (l_arcs w) a + nlist (l_list w) a) 0 0 (Some i)"
    "la_track ex has (\<lambda>n. count (l_list w) (n, a)) d"
proof -
  have pos: "0 < count (l_arcs w) a + nlist (l_list w) a"
  proof (cases "a \<in># l_arcs w")
    case False
    with a have "0 < count (l_list w) (n, a)" by simp
    with count_nlist [of "l_list w" n a] show ?thesis by linarith
  qed simp
  obtain i d where c: "l_heap w a = Some i" "ai_data i = Some d"
    "arc_cell_ok (count (l_arcs w) a + nlist (l_list w) a) (count (l_uniq w) a) 0 (Some i)"
    "la_track ex has (\<lambda>n. count (l_list w) (n, a)) d"
    by (rule la_handle [OF inv, of a]) (use pos in simp_all)
  from arc_cell_arcs [OF c(3) pos] that c pos show ?thesis by simp
qed

text \<open>The operations at a live cell.\<close>

lemma live_ops:
  assumes "h a = Some i" and "ai_data i = Some d"
  shows "arc_call h a f = Inr (fst (f d), h(a := Some (i\<lparr>ai_data := Some (snd (f d))\<rparr>)))"
    and "unique_arc_deref_mut h a g = Inr (d, h(a := Some (i\<lparr>ai_data := Some (g d)\<rparr>)))"
    and "arc_clone C h a = Inr (a, h(a := Some (i\<lparr>ai_refcount := rc_inc C (ai_refcount i)\<rparr>)))"
  using assms by (simp_all add: arc_ops arc_call_def split: prod.splits)

lemmas list_arc_ops = list_arc_from_unique_def list_arc_from_pin_unique_def list_arc_pair_from_unique_def
  list_arc_pair_from_pin_unique_def list_arc_try_from_arc_def list_arc_try_from_arc_borrow_def
  list_arc_try_from_arc_or_drop_def list_arc_into_arc_def list_arc_clone_arc_def list_arc_drop_def
  list_arc_transmute_from_arc_def list_arc_transmute_to_arc_def arc_from_unique_def arc_from_borrow_def
  arc_as_arc_borrow_def

lemma la_drop_cell:
  assumes C: "c_refcount_ok C" and i: "h a = Some i" "ai_data i = Some d"
    and ok: "arc_cell_ok k 0 0 (Some i)" and k: "0 < k" and tr: "la_track ex has T d"
  shows "\<exists>ds c. arc_drop C h a = Inr (ds, h(a := c)) \<and> la_cell ex has (k - 1) 0 T c"
proof -
  obtain z r where d: "rc_dec_and_test C (ai_refcount i) = (z, r)" by (cases "rc_dec_and_test C (ai_refcount i)")
  have drop: "arc_drop C h a = Inr (if z then [d] else [], h(a := if z then None else Some (i\<lparr>ai_refcount := r\<rparr>)))"
    using i d by (simp add: arc_ops)
  show ?thesis
  proof (cases z)
    case True
    with arc_cell_dec(1) [OF C ok _ d] k drop show ?thesis by auto
  next
    case False
    with arc_cell_dec(2) [OF C ok _ d False] k drop tr i(2) show ?thesis by auto
  qed
qed

text \<open>How the counts of an address change.\<close>

lemma count_pair_add: "(\<lambda>m. count (add_mset (n, a) L) (m, a)) = (\<lambda>m. count L (m, a))(n := Suc (count L (n, a)))"
  by auto

lemma count_pair_remove: "(\<lambda>m. count (L - {#(n, a)#}) (m, a)) = (\<lambda>m. count L (m, a))(n := count L (n, a) - 1)"
  by auto

context list_arc_safe
begin

lemma track_create:
  assumes "la_track ex has T d" and "T n = 0"
  shows "la_track ex has (T(n := 1)) (on_create n d)"
  using assms create_has [of n d] create_keep [of _ n d] by (auto simp: la_track_def)

lemma track_drop:
  assumes "la_track ex has T d" and "ex \<Longrightarrow> \<not> has n (on_drop n d)"
  shows "la_track ex has (T(n := 0)) (on_drop n d)"
  using assms drop_keep [of _ n d] by (auto simp: la_track_def)

lemma track_try:
  assumes "la_track ex has T d"
  shows "fst (try_new n d) \<Longrightarrow> T n = 0 \<and> la_track ex has (T(n := 1)) (snd (try_new n d))"
    and "\<not> fst (try_new n d) \<Longrightarrow> la_track ex has T (snd (try_new n d))"
proof -
  assume "fst (try_new n d)"
  with try_true have h: "\<not> has n d" "has n (snd (try_new n d))" by blast+
  have "T n \<le> 1" "T n \<noteq> 1" using assms h(1) unfolding la_track_def by blast+
  then have "T n = 0" by linarith
  moreover have "la_track ex has (T(n := 1)) (snd (try_new n d))"
    using assms h try_keep [of _ n d] by (auto simp: la_track_def)
  ultimately show "T n = 0 \<and> la_track ex has (T(n := 1)) (snd (try_new n d))" by blast
qed (use assms try_false in simp)

lemma la_step_from_unique:
  assumes inv: "la_inv ex has w" and u: "u \<in># l_uniq w"
    and op: "list_arc_from_unique on_create n (l_heap w) u = Inr (l, h)"
  shows "la_inv ex has (w\<lparr>l_heap := h, l_uniq := l_uniq w - {#u#}, l_list := add_mset (n, l) (l_list w)\<rparr>)"
proof -
  obtain i d where c: "l_heap w u = Some i" "ai_data i = Some d" "arc_cell_ok 1 0 0 (Some i)"
    "count (l_arcs w) u = 0" "nlist (l_list w) u = 0" "count (l_uniq w) u = 1"
    "\<forall>n. count (l_list w) (n, u) = 0" "la_track ex has (\<lambda>_. 0) d"
    by (rule la_unique [OF inv u])
  have eq: "l = u" "h = (l_heap w)(u := Some (i\<lparr>ai_data := Some (on_create n d)\<rparr>))"
    using op c(1,2) by (auto simp: list_arc_ops arc_ops)
  have "la_cell ex has 1 0 ((\<lambda>_. 0)(n := 1)) (Some (i\<lparr>ai_data := Some (on_create n d)\<rparr>))"
    using arc_cell_data [OF c(3)] track_create [OF c(8), of n] by simp
  then show ?thesis
    by (rule la_inv_upd [OF inv, where a = u]) (use eq c(4-7) in auto)
qed

lemma la_step_pair:
  assumes C: "c_refcount_ok C" and inv: "la_inv ex has w" and u: "u \<in># l_uniq w" and ne: "n \<noteq> n2"
    and op: "list_arc_pair_from_unique C on_create n n2 (l_heap w) u = Inr ((l, l2), h)"
  shows "la_inv ex has (w\<lparr>l_heap := h, l_uniq := l_uniq w - {#u#},
           l_list := add_mset (n, l) (add_mset (n2, l2) (l_list w))\<rparr>)"
proof -
  obtain i d where c: "l_heap w u = Some i" "ai_data i = Some d" "arc_cell_ok 1 0 0 (Some i)"
    "count (l_arcs w) u = 0" "nlist (l_list w) u = 0" "count (l_uniq w) u = 1"
    "\<forall>n. count (l_list w) (n, u) = 0" "la_track ex has (\<lambda>_. 0) d"
    by (rule la_unique [OF inv u])
  let ?d = "on_create n2 (on_create n d)"
  let ?i = "i\<lparr>ai_data := Some ?d\<rparr>"
  let ?c = "Some (?i\<lparr>ai_refcount := rc_inc C (ai_refcount i)\<rparr>)"
  have eq: "l = u" "l2 = u" "h = (l_heap w)(u := ?c)"
    using op c(1,2) by (auto simp: list_arc_ops arc_ops)
  have "arc_cell_ok 2 0 0 ?c"
    using arc_cell_inc [OF C arc_cell_data [OF c(3), of ?d]] by (simp add: numeral_2_eq_2)
  moreover have "la_track ex has ((\<lambda>_. 0)(n := 1, n2 := 1)) ?d"
    using track_create [OF track_create [OF c(8)], of n n2] ne by simp
  ultimately have "la_cell ex has 2 0 ((\<lambda>_. 0)(n := 1, n2 := 1)) ?c" by simp
  then show ?thesis
    by (rule la_inv_upd [OF inv, where a = u]) (use eq c(4-7) ne in auto)
qed

lemma la_clone_inv:
  assumes C: "c_refcount_ok C" and inv: "la_inv ex has w" and a: "a \<in># l_arcs w \<or> (n, a) \<in># l_list w"
    and op: "arc_clone C (l_heap w) a = Inr (b, h)"
  shows "la_inv ex has (w\<lparr>l_heap := h, l_arcs := add_mset b (l_arcs w)\<rparr>)"
proof -
  let ?k = "count (l_arcs w) a + nlist (l_list w) a"
  obtain i d where c: "l_heap w a = Some i" "ai_data i = Some d" "count (l_uniq w) a = 0" "0 < ?k"
    "arc_cell_ok ?k 0 0 (Some i)" "la_track ex has (\<lambda>n. count (l_list w) (n, a)) d"
    by (rule la_shared [OF inv a])
  let ?c = "Some (i\<lparr>ai_refcount := rc_inc C (ai_refcount i)\<rparr>)"
  have eq: "b = a" "h = (l_heap w)(a := ?c)" using op c(1,2) by (auto simp: arc_ops)
  have "la_cell ex has (Suc ?k) 0 (\<lambda>n. count (l_list w) (n, a)) ?c"
    using arc_cell_inc [OF C c(5,4)] c(2,6) by simp
  then show ?thesis
    by (rule la_inv_upd [OF inv, where a = a]) (use eq c(3) in auto)
qed

lemma la_arc_drop_inv:
  assumes C: "c_refcount_ok C" and inv: "la_inv ex has w" and a: "a \<in># l_arcs w"
    and op: "arc_drop C (l_heap w) a = Inr (ds, h)"
  shows "la_inv ex has (w\<lparr>l_heap := h, l_arcs := l_arcs w - {#a#}\<rparr>)"
proof -
  let ?k = "count (l_arcs w) a + nlist (l_list w) a"
  have a': "a \<in># l_arcs w \<or> (0, a) \<in># l_list w" using a by simp
  obtain i d where c: "l_heap w a = Some i" "ai_data i = Some d" "count (l_uniq w) a = 0" "0 < ?k"
    "arc_cell_ok ?k 0 0 (Some i)" "la_track ex has (\<lambda>n. count (l_list w) (n, a)) d"
    by (rule la_shared [OF inv a'])
  obtain ds' c' where "arc_drop C (l_heap w) a = Inr (ds', (l_heap w)(a := c'))"
    and cell: "la_cell ex has (?k - 1) 0 (\<lambda>n. count (l_list w) (n, a)) c'"
    using la_drop_cell [of C "l_heap w" a i d, OF C c(1,2,5,4,6)] by blast
  with op have eq: "h = (l_heap w)(a := c')" by simp
  have "0 < count (l_arcs w) a" using a by simp
  then have "count (l_arcs w - {#a#}) a + nlist (l_list w) a = ?k - 1" by simp
  with cell show ?thesis
    by (intro la_inv_upd [OF inv cell, where a = a]) (use eq c(3) in auto)
qed

lemma la_into_arc_inv:
  assumes inv: "la_inv ex has w" and l: "(n, l) \<in># l_list w" and ex: "\<And>d. ex \<Longrightarrow> \<not> has n (on_drop n d)"
    and op: "list_arc_into_arc on_drop n (l_heap w) l = Inr (a, h)"
  shows "la_inv ex has (w\<lparr>l_heap := h, l_list := l_list w - {#(n, l)#}, l_arcs := add_mset a (l_arcs w)\<rparr>)"
proof -
  let ?k = "count (l_arcs w) l + nlist (l_list w) l" and ?T = "\<lambda>n. count (l_list w) (n, l)"
  have l': "l \<in># l_arcs w \<or> (n, l) \<in># l_list w" using l by simp
  obtain i d where c: "l_heap w l = Some i" "ai_data i = Some d" "count (l_uniq w) l = 0" "0 < ?k"
    "arc_cell_ok ?k 0 0 (Some i)" "la_track ex has ?T d"
    by (rule la_shared [OF inv l'])
  let ?c = "Some (i\<lparr>ai_data := Some (on_drop n d)\<rparr>)"
  have eq: "a = l" "h = (l_heap w)(l := ?c)"
    using op c(1,2) by (auto simp: list_arc_ops arc_ops arc_call_def)
  have "?T n \<le> 1" using c(6) unfolding la_track_def by blast
  then have T: "count (l_list w) (n, l) - 1 = 0" by simp
  have "la_cell ex has ?k 0 (?T(n := 0)) ?c"
    using arc_cell_data [OF c(5)] track_drop [OF c(6) ex] by simp
  then show ?thesis
    by (rule la_inv_upd [OF inv, where a = l])
      (use eq c(3) T nlist_remove [OF l, of l] in \<open>auto simp: count_pair_remove\<close>)
qed

lemma la_list_drop_inv:
  assumes C: "c_refcount_ok C" and inv: "la_inv ex has w" and l: "(n, l) \<in># l_list w"
    and ex: "\<And>d. ex \<Longrightarrow> \<not> has n (on_drop n d)"
    and op: "list_arc_drop C on_drop n (l_heap w) l = Inr (ds, h)"
  shows "la_inv ex has (w\<lparr>l_heap := h, l_list := l_list w - {#(n, l)#}\<rparr>)"
proof -
  obtain a h1 where h1: "list_arc_into_arc on_drop n (l_heap w) l = Inr (a, h1)" "a = l" "arc_drop C h1 l = Inr (ds, h)"
    using op by (auto simp: list_arc_ops)
  let ?w = "w\<lparr>l_heap := h1, l_list := l_list w - {#(n, l)#}, l_arcs := add_mset l (l_arcs w)\<rparr>"
  have "la_inv ex has ?w" using la_into_arc_inv [OF inv l ex h1(1)] h1(2) by simp
  from la_arc_drop_inv [OF C this, of l ds h] h1(3) show ?thesis by (cases w) simp
qed

text \<open>\<open>try_new_list_arc\<close> on the object of a live handle.\<close>

lemma la_try_call:
  assumes inv: "la_inv ex has w" and a: "a \<in># l_arcs w"
    and op: "arc_call (l_heap w) a (try_new n) = Inr (r, h)"
  shows "r \<Longrightarrow> la_inv ex has (w\<lparr>l_heap := h, l_arcs := l_arcs w - {#a#}, l_list := add_mset (n, a) (l_list w)\<rparr>)"
    and "\<not> r \<Longrightarrow> la_inv ex has (w\<lparr>l_heap := h\<rparr>)"
proof -
  let ?k = "count (l_arcs w) a + nlist (l_list w) a" and ?T = "\<lambda>n. count (l_list w) (n, a)"
  have a': "a \<in># l_arcs w \<or> (n, a) \<in># l_list w" and pos: "0 < count (l_arcs w) a" using a by simp_all
  obtain i d where c: "l_heap w a = Some i" "ai_data i = Some d" "count (l_uniq w) a = 0" "0 < ?k"
    "arc_cell_ok ?k 0 0 (Some i)" "la_track ex has ?T d"
    by (rule la_shared [OF inv a'])
  let ?c = "Some (i\<lparr>ai_data := Some (snd (try_new n d))\<rparr>)"
  have eq: "r = fst (try_new n d)" "h = (l_heap w)(a := ?c)"
    using op c(1,2) by (auto simp: arc_ops arc_call_def split: prod.splits)
  note ok = arc_cell_data [OF c(5), of "snd (try_new n d)"]
  {
    assume r
    with eq(1) track_try(1) [OF c(6), of n] have t: "?T n = 0" "la_track ex has (?T(n := 1)) (snd (try_new n d))"
      by simp_all
    have "la_cell ex has ?k 0 (?T(n := 1)) ?c" using ok t by simp
    then show "la_inv ex has (w\<lparr>l_heap := h, l_arcs := l_arcs w - {#a#}, l_list := add_mset (n, a) (l_list w)\<rparr>)"
      by (rule la_inv_upd [OF inv, where a = a]) (use eq c(3) pos t in \<open>auto simp del: count_greater_zero_iff\<close>)
  }
  {
    assume "\<not> r"
    with eq(1) track_try(2) [OF c(6), of n] have "la_cell ex has ?k 0 ?T ?c" using ok by simp
    then show "la_inv ex has (w\<lparr>l_heap := h\<rparr>)"
      by (rule la_inv_upd [OF inv, where a = a]) (use eq c(3) in auto)
  }
qed

lemma la_into_unique_inv:
  assumes C: "c_refcount_ok C" and inv: "la_inv ex has w" and a: "a \<in># l_arcs w"
    and op: "arc_into_unique_or_drop C (l_heap w) a = Inr (r, h)"
  shows "la_inv ex has (w\<lparr>l_heap := h, l_arcs := l_arcs w - {#a#},
           l_uniq := (case r of None \<Rightarrow> l_uniq w | Some u \<Rightarrow> add_mset u (l_uniq w))\<rparr>)" (is ?inv)
    and "r = None \<or> r = Some a"
proof -
  let ?k = "count (l_arcs w) a + nlist (l_list w) a" and ?T = "\<lambda>n. count (l_list w) (n, a)"
  have a': "a \<in># l_arcs w \<or> (0, a) \<in># l_list w" and pos: "0 < count (l_arcs w) a" using a by simp_all
  obtain i d where c: "l_heap w a = Some i" "ai_data i = Some d" "count (l_uniq w) a = 0" "0 < ?k"
    "arc_cell_ok ?k 0 0 (Some i)" "la_track ex has ?T d"
    by (rule la_shared [OF inv a'])
  obtain z k where dec: "rc_dec_and_test C (ai_refcount i) = (z, k)" by (cases "rc_dec_and_test C (ai_refcount i)")
  let ?c = "Some (i\<lparr>ai_refcount := if z then rc_init C 1 else k\<rparr>)"
  have eq: "r = (if z then Some a else None)" "h = (l_heap w)(a := ?c)"
    using op c(1) dec by (auto simp: arc_ops split: if_splits)
  then show "r = None \<or> r = Some a" by simp
  have one: "arc_cell_ok 0 1 0 (Some (i\<lparr>ai_refcount := rc_init C 1\<rparr>))"
    using rc_one_unsaturated [OF C] c(2) by (simp add: arc_cell_ok.simps)
  show ?inv
  proof (cases z)
    case True
    with arc_cell_dec(1) [OF C c(5) _ dec] c(4) have z: "?k = 1" by simp
    with pos have z': "count (l_arcs w) a = 1" "nlist (l_list w) a = 0" by linarith+
    have cell: "la_cell ex has 0 1 ?T ?c" using one True c(2,6) by simp
    show ?thesis
      by (rule la_inv_upd [OF inv cell, where a = a]) (use eq c(3) z' True in auto)
  next
    case False
    with arc_cell_dec(2) [OF C c(5) _ dec False] c(2,4,6) have cell: "la_cell ex has (?k - 1) 0 ?T ?c" by simp
    show ?thesis
      by (rule la_inv_upd [OF inv cell, where a = a])
        (use eq c(3) pos False in \<open>auto simp del: count_greater_zero_iff\<close>)
  qed
qed

lemma la_try_borrow_inv:
  assumes C: "c_refcount_ok C" and inv: "la_inv ex has w" and a: "a \<in># l_arcs w"
    and op: "list_arc_try_from_arc_borrow C try_new n (l_heap w) (arc_as_arc_borrow a) = Inr (r, h)"
  shows "la_inv ex has (w\<lparr>l_heap := h, l_list := (case r of None \<Rightarrow> l_list w | Some l \<Rightarrow> add_mset (n, l) (l_list w))\<rparr>)"
proof -
  obtain b h1 where h1: "arc_call (l_heap w) a (try_new n) = Inr (b, h1)"
    using op by (auto simp: list_arc_ops)
  show ?thesis
  proof (cases b)
    case True
    let ?w = "w\<lparr>l_heap := h1, l_arcs := l_arcs w - {#a#}, l_list := add_mset (n, a) (l_list w)\<rparr>"
    have w1: "la_inv ex has ?w" by (rule la_try_call(1) [OF inv a h1 True])
    obtain l where l: "arc_clone C h1 a = Inr (l, h)" "r = Some l"
      using op h1 True by (auto simp: list_arc_ops)
    have "l = a" using l(1) by (auto simp: arc_ops)
    have "la_inv ex has (?w\<lparr>l_heap := h, l_arcs := add_mset l (l_arcs ?w)\<rparr>)"
      by (rule la_clone_inv [OF C w1, of a n]) (use l in simp_all)
    with \<open>l = a\<close> l(2) a show ?thesis by (cases w) simp
  next
    case False
    with la_try_call(2) [OF inv a h1] op h1 show ?thesis by (cases w) (auto simp: list_arc_ops)
  qed
qed

lemma la_try_or_drop_inv:
  assumes C: "c_refcount_ok C" and inv: "la_inv ex has w" and a: "a \<in># l_arcs w"
    and op: "list_arc_try_from_arc_or_drop C on_create try_new n (l_heap w) a = Inr (r, h)"
  shows "la_inv ex has (w\<lparr>l_heap := h, l_arcs := l_arcs w - {#a#},
           l_list := (case r of None \<Rightarrow> l_list w | Some l \<Rightarrow> add_mset (n, l) (l_list w))\<rparr>)"
proof -
  obtain b h1 where h1: "arc_call (l_heap w) a (try_new n) = Inr (b, h1)"
    using op by (auto simp: list_arc_ops)
  show ?thesis
  proof (cases b)
    case True
    with la_try_call(1) [OF inv a h1 True] op h1 show ?thesis by (cases w) (auto simp: list_arc_ops)
  next
    case False
    have w1: "la_inv ex has (w\<lparr>l_heap := h1\<rparr>)" by (rule la_try_call(2) [OF inv a h1 False])
    obtain r1 h2 where h2: "arc_into_unique_or_drop C h1 a = Inr (r1, h2)"
      using op h1 False by (auto simp: list_arc_ops)
    note w2 = la_into_unique_inv [OF C w1, of a r1 h2]
    show ?thesis
    proof (cases r1)
      case None
      with w2(1) a h2 op h1 False show ?thesis by (cases w) (auto simp: list_arc_ops)
    next
      case (Some u)
      let ?w = "w\<lparr>l_heap := h2, l_arcs := l_arcs w - {#a#}, l_uniq := add_mset u (l_uniq w)\<rparr>"
      have w2': "la_inv ex has ?w" using w2(1) Some a h2 by (cases w) simp
      obtain l where l: "list_arc_from_unique on_create n h2 u = Inr (l, h)" "r = Some l"
        using op h1 False h2 Some by (auto simp: list_arc_ops)
      have "la_inv ex has (?w\<lparr>l_heap := h, l_uniq := l_uniq ?w - {#u#}, l_list := add_mset (n, l) (l_list ?w)\<rparr>)"
        by (rule la_step_from_unique [OF w2']) (use l in simp_all)
      with l(2) show ?thesis by (cases w) simp
    qed
  qed
qed

lemma la_unique_new_inv:
  assumes C: "c_refcount_ok C" and al: "arc_alloc_ok alloc" and inv: "la_inv ex has w"
    and op: "unique_arc_new C alloc (l_heap w) x = (Ok u, h)" and ex: "\<And>n. ex \<Longrightarrow> \<not> has n x"
  shows "la_inv ex has (w\<lparr>l_heap := h, l_uniq := add_mset u (l_uniq w)\<rparr>)"
proof -
  have a: "alloc (l_heap w) = Some u" "h = (l_heap w)(u := Some \<lparr>ai_refcount = rc_init C 1, ai_data = Some x\<rparr>)"
    using op by (auto simp: arc_ops split: option.splits)
  have "l_heap w u = None" using al a(1) by (auto simp: arc_alloc_ok_def)
  moreover have "la_cell ex has (count (l_arcs w) u + nlist (l_list w) u) (count (l_uniq w) u)
      (\<lambda>n. count (l_list w) (n, u)) (l_heap w u)" using inv by (simp add: la_inv_def)
  ultimately have z: "count (l_arcs w) u = 0" "nlist (l_list w) u = 0" "count (l_uniq w) u = 0" by simp_all
  have t0: "count (l_list w) (n, u) = 0" for n using count_nlist [of "l_list w" n u] z(2) by simp
  have "la_cell ex has 0 1 (\<lambda>_. 0) (Some \<lparr>ai_refcount = rc_init C 1, ai_data = Some x\<rparr>)"
    using rc_one_unsaturated [OF C] ex by (simp add: arc_cell_ok.simps la_track_def)
  then show ?thesis
    by (rule la_inv_upd [OF inv, where a = u]) (use a(2) z t0 in auto)
qed

lemma la_arc_from_unique_inv:
  assumes inv: "la_inv ex has w" and u: "u \<in># l_uniq w"
  shows "la_inv ex has (w\<lparr>l_uniq := l_uniq w - {#u#}, l_arcs := add_mset u (l_arcs w)\<rparr>)"
proof -
  obtain i d where c: "l_heap w u = Some i" "ai_data i = Some d" "arc_cell_ok 1 0 0 (Some i)"
    "count (l_arcs w) u = 0" "nlist (l_list w) u = 0" "count (l_uniq w) u = 1"
    "\<forall>n. count (l_list w) (n, u) = 0" "la_track ex has (\<lambda>_. 0) d"
    by (rule la_unique [OF inv u])
  have "la_cell ex has 1 0 (\<lambda>_. 0) (Some i)" using c(2,3,8) by simp
  then show ?thesis
    by (rule la_inv_upd [OF inv, where a = u]) (use c in auto)
qed

lemma la_step_inv:
  assumes C: "c_refcount_ok C" and al: "arc_alloc_ok alloc" and inv: "la_inv ex has w"
    and ex: "\<And>n d. ex \<Longrightarrow> \<not> has n (on_drop n d)" "\<And>n d. ex \<Longrightarrow> fresh d \<Longrightarrow> \<not> has n d"
    and st: "la_step C alloc on_create on_drop try_new fresh w w'"
  shows "la_inv ex has w'"
  using st
proof cases
  case (la_unique_new x u h)
  with la_unique_new_inv [OF C al inv] ex(2) show ?thesis by blast
next
  case (la_from_unique u)
  with la_arc_from_unique_inv [OF inv] show ?thesis by (simp add: arc_from_unique_def)
next
  case (la_clone a b h)
  with la_clone_inv [OF C inv] show ?thesis by blast
next
  case (la_drop a ds h)
  with la_arc_drop_inv [OF C inv] show ?thesis by blast
next
  case (la_list_from_unique u n l h)
  with la_step_from_unique [OF inv] show ?thesis by blast
next
  case (la_pair u n n2 l l2 h)
  with la_step_pair [OF C inv] show ?thesis by blast
next
  case (la_try a n l h)
  then have "arc_call (l_heap w) a (try_new n) = Inr (True, h)" "l = a"
    by (auto simp: list_arc_ops split: if_splits)
  with la_try_call(1) [OF inv la_try(2)] la_try(1) show ?thesis by simp
next
  case (la_try_fail a n b h)
  then have "arc_call (l_heap w) a (try_new n) = Inr (False, h)" "b = a"
    by (auto simp: list_arc_ops split: if_splits)
  with la_try_call(2) [OF inv la_try_fail(2), of n False h] la_try_fail(1,2) show ?thesis by simp
next
  case (la_try_borrow a n r h)
  with la_try_borrow_inv [OF C inv] show ?thesis by blast
next
  case (la_try_or_drop a n r h)
  with la_try_or_drop_inv [OF C inv] show ?thesis by blast
next
  case (la_into_arc n l a h)
  with la_into_arc_inv [OF inv _ ex(1)] show ?thesis by blast
next
  case (la_clone_arc n l a h)
  with la_clone_inv [OF C inv, of l n a h] show ?thesis by (simp add: list_arc_clone_arc_def)
next
  case (la_list_drop n l ds h)
  with la_list_drop_inv [OF C inv _ ex(1)] show ?thesis by blast
qed

lemma la_init_inv: "la_inv ex has la_init"
  by (simp add: la_inv_def la_init_def nlist_def)

lemma reach_la_inv:
  assumes "la_reach C alloc on_create on_drop try_new fresh w" and "c_refcount_ok C" and "arc_alloc_ok alloc"
    and "\<And>n d. ex \<Longrightarrow> \<not> has n (on_drop n d)" and "\<And>n d. ex \<Longrightarrow> fresh d \<Longrightarrow> \<not> has n d"
  shows "la_inv ex has w"
  using assms(1)
proof induction
  case la_reach_init
  show ?case by (rule la_init_inv)
next
  case (la_reach_step w w')
  show ?case by (rule la_step_inv [OF assms(2,3) la_reach_step.IH assms(4,5) la_reach_step.hyps(2)])
qed

text \<open>At most one \<open>ListArc\<close> for each ID and object, and every handle can be used.\<close>

lemma list_arc_unique:
  assumes "la_reach C alloc on_create on_drop try_new fresh w" and "c_refcount_ok C" and "arc_alloc_ok alloc"
    and "(n, l) \<in># l_list w"
  shows "count (l_list w) (n, l) = 1 \<and> (\<exists>d. list_arc_deref (l_heap w) l = Inr d) \<and>
    (\<exists>ds h. list_arc_drop C on_drop n (l_heap w) l = Inr (ds, h)) \<and>
    (\<exists>h. list_arc_into_arc on_drop n (l_heap w) l = Inr (l, h))"
proof -
  have inv: "la_inv False has w" by (rule reach_la_inv [OF assms(1-3)]) simp_all
  let ?k = "count (l_arcs w) l + nlist (l_list w) l"
  have l': "l \<in># l_arcs w \<or> (n, l) \<in># l_list w" using assms(4) by simp
  obtain i d where c: "l_heap w l = Some i" "ai_data i = Some d" "count (l_uniq w) l = 0" "0 < ?k"
    "arc_cell_ok ?k 0 0 (Some i)" "la_track False has (\<lambda>n. count (l_list w) (n, l)) d"
    by (rule la_shared [OF inv l'])
  have "count (l_list w) (n, l) \<le> 1" using c(6) unfolding la_track_def by blast
  moreover have "0 < count (l_list w) (n, l)" using assms(4) by simp
  ultimately have one: "count (l_list w) (n, l) = 1" by linarith
  let ?h = "(l_heap w)(l := Some (i\<lparr>ai_data := Some (on_drop n d)\<rparr>))"
  have call: "arc_call (l_heap w) l (\<lambda>d. ((), on_drop n d)) = Inr ((), ?h)"
    using c(1,2) by (simp add: arc_ops arc_call_def)
  have tr: "la_track False has (\<lambda>_. 0) (on_drop n d)" by (simp add: la_track_def)
  have "\<exists>ds h. arc_drop C ?h l = Inr (ds, h)"
    using la_drop_cell [OF assms(2) _ _ arc_cell_data [OF c(5)] c(4) tr, of ?h l] by auto
  with one call c(1,2) show ?thesis
    by (simp add: list_arc_ops list_arc_deref_def arc_ops(1,2))
qed

end

context exact_tracker
begin

lemma try_from_arc_exact:
  assumes "la_reach C alloc on_create on_drop try_new fresh w" and "c_refcount_ok C" and "arc_alloc_ok alloc"
    and "a \<in># l_arcs w"
  shows "\<exists>r h. list_arc_try_from_arc try_new n (l_heap w) a = Inr (r, h) \<and>
    r = (if (n, a) \<in># l_list w then Err a else Ok a)"
proof -
  have inv: "la_inv True has w"
    by (rule reach_la_inv [OF assms(1-3)]) (simp_all add: drop_not fresh_not)
  have a': "a \<in># l_arcs w \<or> (n, a) \<in># l_list w" using assms(4) by simp
  obtain i d where c: "l_heap w a = Some i" "ai_data i = Some d"
    "la_track True has (\<lambda>n. count (l_list w) (n, a)) d"
    by (rule la_shared [OF inv a'])
  have "has n d \<longleftrightarrow> count (l_list w) (n, a) = 1" "count (l_list w) (n, a) \<le> 1"
    using c(3) unfolding la_track_def by blast+
  then have "has n d \<longleftrightarrow> 0 < count (l_list w) (n, a)" by linarith
  then have has: "has n d \<longleftrightarrow> (n, a) \<in># l_list w" by simp
  have "fst (try_new n d) \<longleftrightarrow> \<not> has n d" using try_true try_complete by blast
  with has have fst: "fst (try_new n d) \<longleftrightarrow> (n, a) \<notin># l_list w" by simp
  have "arc_call (l_heap w) a (try_new n) =
      Inr (fst (try_new n d), (l_heap w)(a := Some (i\<lparr>ai_data := Some (snd (try_new n d))\<rparr>)))"
    by (rule live_ops(1)) (fact c(1,2))+
  with fst show ?thesis
    by (simp add: list_arc_try_from_arc_def list_arc_transmute_from_arc_def)
qed

end

lemma list_arc_untracked_unique:
  assumes "la_reach C alloc untracked_on_create untracked_on_drop untracked_try_new fresh w"
    and "c_refcount_ok C" and "arc_alloc_ok alloc" and "(n, l) \<in># l_list w"
  shows "count (l_list w) (n, l) = 1 \<and> (\<exists>d. list_arc_deref (l_heap w) l = Inr d) \<and>
    (\<exists>ds h. list_arc_drop C untracked_on_drop n (l_heap w) l = Inr (ds, h)) \<and>
    (\<exists>h. list_arc_into_arc untracked_on_drop n (l_heap w) l = Inr (l, h))"
  by (rule untracked.list_arc_unique [OF assms])

section \<open>Properties\<close>

text \<open>
  C6: in every state that owners of an object with \<open>AtomicTracker\<close> fields can reach, there is at most one
  \<open>ListArc\<close> per object and ID, and it can be read, dropped and turned into an \<open>Arc\<close> without undefined
  behaviour; and \<open>try_from_arc\<close> on an \<open>Arc\<close> succeeds exactly when no \<open>ListArc\<close> with that ID exists for its object.
\<close>

theorem list_arc_exclusive:
  assumes "c_refcount_ok C" and "arc_alloc_ok alloc"
    and "la_reach C alloc tracked_on_create tracked_on_drop tracked_try_new tracked_fresh w"
  shows "(\<forall>n l. (n, l) \<in># l_list w \<longrightarrow>
      count (l_list w) (n, l) = 1 \<and> (\<exists>d. list_arc_deref (l_heap w) l = Inr d) \<and>
      (\<exists>ds h. list_arc_drop C tracked_on_drop n (l_heap w) l = Inr (ds, h)) \<and>
      (\<exists>h. list_arc_into_arc tracked_on_drop n (l_heap w) l = Inr (l, h))) \<and>
    (\<forall>a \<in># l_arcs w. \<forall>n. \<exists>r h. list_arc_try_from_arc tracked_try_new n (l_heap w) a = Inr (r, h) \<and>
      r = (if (n, a) \<in># l_list w then Err a else Ok a))"
proof (intro conjI allI impI ballI)
  fix a n assume "a \<in># l_arcs w"
  then show "\<exists>r h. list_arc_try_from_arc tracked_try_new n (l_heap w) a = Inr (r, h) \<and>
      r = (if (n, a) \<in># l_list w then Err a else Ok a)"
    by (rule tracked.try_from_arc_exact [OF assms(3,1,2)])
qed (use tracked.list_arc_unique [OF assms(3,1,2)] in blast)+

theorem list_arc_exclusive_witness:
  "\<exists>w :: nat tracked la_world. (0, 1) \<in># l_list w \<and> 1 \<in># l_arcs w \<and>
    (\<forall>n l. (n, l) \<in># l_list w \<longrightarrow>
      count (l_list w) (n, l) = 1 \<and> (\<exists>d. list_arc_deref (l_heap w) l = Inr d) \<and>
      (\<exists>ds h. list_arc_drop ref_refcount tracked_on_drop n (l_heap w) l = Inr (ds, h)) \<and>
      (\<exists>h. list_arc_into_arc tracked_on_drop n (l_heap w) l = Inr (l, h))) \<and>
    (\<forall>a \<in># l_arcs w. \<forall>n. \<exists>r h. list_arc_try_from_arc tracked_try_new n (l_heap w) a = Inr (r, h) \<and>
      r = (if (n, a) \<in># l_list w then Err a else Ok a))"
proof -
  let ?C = ref_refcount and ?al = "first_free 8 :: nat tracked arc_alloc"
  let ?reach = "la_reach ?C ?al tracked_on_create tracked_on_drop tracked_try_new tracked_fresh"
  let ?x = "\<lparr>t_rest = 5, t_trackers = \<lambda>_. False\<rparr> :: nat tracked"
  let ?i = "\<lparr>ai_refcount = rc_init ?C 1, ai_data = Some ?x\<rparr>"
  let ?y = "\<lparr>ai_refcount = rc_init ?C 1, ai_data = Some (tracked_on_create 0 ?x)\<rparr>"
  let ?z = "?y\<lparr>ai_refcount := rc_inc ?C (rc_init ?C 1)\<rparr>"
  have "unique_arc_new ?C ?al Map.empty ?x = (Ok 1, [1 \<mapsto> ?i])"
    by (simp add: arc_ops first_free_def upt_rec)
  with la_step.la_unique_new [of tracked_fresh ?x ?C ?al la_init 1 "[1 \<mapsto> ?i]"]
    la_reach.intros [of ?C ?al tracked_on_create tracked_on_drop tracked_try_new tracked_fresh]
  have r: "?reach \<lparr>l_heap = [1 \<mapsto> ?i], l_arcs = {#}, l_uniq = {#1#}, l_list = {#}\<rparr>"
    by (simp add: la_init_def tracked_fresh_def atomic_tracker_new_def)
  have "list_arc_from_unique tracked_on_create 0 [1 \<mapsto> ?i] 1 = Inr (1, [1 \<mapsto> ?y])"
    by (simp add: list_arc_ops arc_ops)
  with la_reach.la_reach_step [OF r la_step.la_list_from_unique [of 1]]
  have r: "?reach \<lparr>l_heap = [1 \<mapsto> ?y], l_arcs = {#}, l_uniq = {#}, l_list = {#(0, 1)#}\<rparr>" by simp
  have "list_arc_clone_arc ?C [1 \<mapsto> ?y] 1 = Inr (1, [1 \<mapsto> ?z])"
    by (simp add: list_arc_ops arc_ops)
  with la_reach.la_reach_step [OF r la_step.la_clone_arc [of 0 1]]
  have r: "?reach \<lparr>l_heap = [1 \<mapsto> ?z], l_arcs = {#1#}, l_uniq = {#}, l_list = {#(0, 1)#}\<rparr>" by simp
  let ?w = "\<lparr>l_heap = [1 \<mapsto> ?z], l_arcs = {#1#}, l_uniq = {#}, l_list = {#(0, 1)#}\<rparr>"
  have m: "(0, 1) \<in># l_list ?w" "1 \<in># l_arcs ?w" by simp_all
  show ?thesis
    by (rule exI, rule conjI [OF m(1) conjI [OF m(2) list_arc_exclusive [OF ref_refcount_ok first_free_ok r]]])
qed

end
