(* ===== verification/User_Access.thy ===== *)
theory User_Access
  imports KVec
begin

text \<open>
  \<open>rust/src/uaccess.rs\<close>: bounded readers and writers of user memory.

  User memory maps an address to its byte, or to \<open>None\<close> where an access faults; addresses wrap around as
  \<open>wrapping_add\<close> does. Other threads may change it, so every operation takes the memory as it is when the
  operation runs. The kernel's copy functions are the parameter \<open>c_uaccess\<close>: they return the number of
  bytes that could not be copied, and the destination after the copy. A destination that need not be
  initialised is a list of optional bytes.
\<close>

section \<open>User memory\<close>

type_synonym user_mem = "addr \<Rightarrow> u8 option"

definition ubytes :: "user_mem \<Rightarrow> addr \<Rightarrow> nat \<Rightarrow> u8 option list" where
  "ubytes m p n = map (\<lambda>i. m (wrapping_add p i)) [0..<n]"

fun ustore :: "user_mem \<Rightarrow> addr \<Rightarrow> u8 list \<Rightarrow> user_mem" where
  "ustore m p [] = m"
| "ustore m p (b # bs) = (ustore m (wrapping_add p 1) bs)(wrapping_add p 0 := Some b)"

record c_uaccess =
  cu_from :: "user_mem \<Rightarrow> addr \<Rightarrow> u8 option list \<Rightarrow> nat \<times> u8 option list"
  cu_to :: "user_mem \<Rightarrow> addr \<Rightarrow> u8 list \<Rightarrow> nat \<times> user_mem"
  cu_strncpy :: "user_mem \<Rightarrow> addr \<Rightarrow> u8 list \<Rightarrow> int \<Rightarrow> int \<times> u8 list"

text \<open>
  \<open>copy_from_user\<close> succeeds exactly when every byte can be read and then delivers them;
  \<open>copy_to_user\<close> changes no byte outside the range and, when it succeeds, has stored the data.
  \<open>strncpy_from_user\<close> returns the length of the string it copied, at most the limit, or an error code.
\<close>

definition c_uaccess_ok :: "c_uaccess \<Rightarrow> bool" where
  "c_uaccess_ok U \<longleftrightarrow>
     (\<forall>m p out. length (snd (cu_from U m p out)) = length out \<and>
        (fst (cu_from U m p out) = 0 \<longleftrightarrow> None \<notin> set (ubytes m p (length out))) \<and>
        (fst (cu_from U m p out) = 0 \<longrightarrow> snd (cu_from U m p out) = ubytes m p (length out))) \<and>
     (\<forall>m p bs. (fst (cu_to U m p bs) = 0 \<longrightarrow> snd (cu_to U m p bs) = ustore m p bs) \<and>
        (\<forall>a. (\<forall>i < length bs. a \<noteq> wrapping_add p i) \<longrightarrow> snd (cu_to U m p bs) a = m a)) \<and>
     (\<forall>m p buf n. 0 \<le> n \<longrightarrow>
        length (snd (cu_strncpy U m p buf n)) = length buf \<and> fst (cu_strncpy U m p buf n) \<le> n)"

section \<open>Slices\<close>

record user_slice =
  us_ptr :: addr
  us_length :: usize

type_synonym user_slice_reader = user_slice
type_synonym user_slice_writer = user_slice

definition user_slice_new :: "addr \<Rightarrow> usize \<Rightarrow> user_slice" where
  "user_slice_new ptr len = \<lparr>us_ptr = ptr, us_length = len\<rparr>"

definition user_slice_reader_of :: "user_slice \<Rightarrow> user_slice_reader" where
  "user_slice_reader_of s = \<lparr>us_ptr = us_ptr s, us_length = us_length s\<rparr>"

definition user_slice_writer_of :: "user_slice \<Rightarrow> user_slice_writer" where
  "user_slice_writer_of s = \<lparr>us_ptr = us_ptr s, us_length = us_length s\<rparr>"

definition user_slice_reader_writer :: "user_slice \<Rightarrow> user_slice_reader \<times> user_slice_writer" where
  "user_slice_reader_writer s =
     (\<lparr>us_ptr = us_ptr s, us_length = us_length s\<rparr>, \<lparr>us_ptr = us_ptr s, us_length = us_length s\<rparr>)"

section \<open>Reading\<close>

definition reader_skip :: "user_slice_reader \<Rightarrow> usize \<Rightarrow> (unit, error) result \<times> user_slice_reader" where
  "reader_skip r num_skip =
     (case checked_sub (us_length r) num_skip of
        None \<Rightarrow> (Err EFAULT, r)
      | Some len \<Rightarrow> (Ok (), r\<lparr>us_length := len, us_ptr := wrapping_add (us_ptr r) num_skip\<rparr>))"

definition clone_reader :: "user_slice_reader \<Rightarrow> user_slice_reader" where
  "clone_reader r = \<lparr>us_ptr = us_ptr r, us_length = us_length r\<rparr>"

definition reader_len :: "user_slice_reader \<Rightarrow> usize" where
  "reader_len r = us_length r"

definition reader_is_empty :: "user_slice_reader \<Rightarrow> bool" where
  "reader_is_empty r \<longleftrightarrow> us_length r = 0"

definition reader_read_raw ::
  "c_uaccess \<Rightarrow> user_mem \<Rightarrow> user_slice_reader \<Rightarrow> u8 option list \<Rightarrow>
   (unit, error) result \<times> user_slice_reader \<times> u8 option list" where
  "reader_read_raw U m r out =
     (let len = length out in
      if len > us_length r then (Err EFAULT, r, out)
      else let (res, out) = cu_from U m (us_ptr r) out in
        if res \<noteq> 0 then (Err EFAULT, r, out)
        else (Ok (), r\<lparr>us_ptr := wrapping_add (us_ptr r) len, us_length := us_length r - len\<rparr>, out))"

text \<open>\<open>read_slice\<close> reads over initialised bytes.\<close>

definition reader_read_slice ::
  "c_uaccess \<Rightarrow> user_mem \<Rightarrow> user_slice_reader \<Rightarrow> u8 list \<Rightarrow>
   (unit, error) result \<times> user_slice_reader \<times> u8 option list" where
  "reader_read_slice U m r out = reader_read_raw U m r (map Some out)"

text \<open>\<open>read::<T>\<close>: \<open>tsz\<close> is the size of \<open>T\<close>, \<open>from_bytes\<close> its representation; reading uninitialised bytes is \<open>UB\<close>.\<close>

definition slots_assume_init :: "u8 option list \<Rightarrow> u8 list exec" where
  "slots_assume_init out = (if None \<in> set out then Inl UB else Inr (map the out))"

definition reader_read ::
  "c_uaccess \<Rightarrow> nat \<Rightarrow> (u8 list \<Rightarrow> 'a) \<Rightarrow> user_mem \<Rightarrow> user_slice_reader \<Rightarrow>
   (('a, error) result \<times> user_slice_reader) exec" where
  "reader_read U tsz from_bytes m r =
     (let len = tsz in
      if len > us_length r then Inr (Err EFAULT, r)
      else let (res, out) = cu_from U m (us_ptr r) (replicate tsz None) in
        if res \<noteq> 0 then Inr (Err EFAULT, r)
        else exec_bind (slots_assume_init out) (\<lambda>bs.
          Inr (Ok (from_bytes bs), r\<lparr>us_ptr := wrapping_add (us_ptr r) len, us_length := us_length r - len\<rparr>)))"

text \<open>The slots of the spare capacity that a raw read is given, and their contents put back.\<close>

definition block_slots :: "u8 block \<Rightarrow> nat \<Rightarrow> nat \<Rightarrow> u8 option list" where
  "block_slots b start len = map (b_mem b) [start..<start + len]"

definition block_set_slots :: "u8 block \<Rightarrow> nat \<Rightarrow> u8 option list \<Rightarrow> u8 block" where
  "block_set_slots b start out =
     b\<lparr>b_mem := \<lambda>j. if start \<le> j \<and> j < start + length out then out ! (j - start) else b_mem b j\<rparr>"

definition reader_read_all ::
  "c_uaccess \<Rightarrow> u8 realloc_fn \<Rightarrow> user_mem \<Rightarrow> user_slice_reader \<Rightarrow> u8 vec \<Rightarrow> flags \<Rightarrow>
   ((unit, error) result \<times> u8 vec) exec" where
  "reader_read_all U A m r buf fl =
     (let len = us_length r in
      exec_bind (vec_reserve A 1 1 buf len fl) (\<lambda>(res, buf).
      case res of
        Err e \<Rightarrow> Inr (Err (error_from e), buf)
      | Ok _ \<Rightarrow>
          exec_bind (vec_spare_capacity_mut 1 buf) (\<lambda>(start, spare).
          exec_bind (require Panic (len \<le> spare)) (\<lambda>_.
          let (res, _, out) = reader_read_raw U m r (block_slots (v_buf buf) start len);
              buf = buf\<lparr>v_buf := block_set_slots (v_buf buf) start out\<rparr> in
          case res of
            Err e \<Rightarrow> Inr (Err e, buf)
          | Ok _ \<Rightarrow> exec_bind (vec_inc_len 1 buf len) (\<lambda>buf. Inr (Ok (), buf))))))"

definition user_slice_read_all ::
  "c_uaccess \<Rightarrow> u8 realloc_fn \<Rightarrow> user_mem \<Rightarrow> user_slice \<Rightarrow> u8 vec \<Rightarrow> flags \<Rightarrow>
   ((unit, error) result \<times> u8 vec) exec" where
  "user_slice_read_all U A m s buf fl = reader_read_all U A m (user_slice_reader_of s) buf fl"

definition as_isize :: "nat \<Rightarrow> int" where
  "as_isize n = signed_take_bit 63 (int n)"

definition reader_strncpy_from_user ::
  "c_uaccess \<Rightarrow> user_mem \<Rightarrow> user_slice_reader \<Rightarrow> u8 list \<Rightarrow> (usize, error) result \<times> u8 list" where
  "reader_strncpy_from_user U m r buf =
     (let mx = as_isize (min (us_length r) (length buf));
          (res, buf) = cu_strncpy U m (us_ptr r) buf mx
      in if res \<ge> 0 then (Ok (nat res), buf) else (Err (from_errno (as_i32 res)), buf))"

section \<open>Writing\<close>

definition writer_len :: "user_slice_writer \<Rightarrow> usize" where
  "writer_len w = us_length w"

definition writer_is_empty :: "user_slice_writer \<Rightarrow> bool" where
  "writer_is_empty w \<longleftrightarrow> us_length w = 0"

definition writer_write_slice ::
  "c_uaccess \<Rightarrow> user_mem \<Rightarrow> user_slice_writer \<Rightarrow> u8 list \<Rightarrow>
   (unit, error) result \<times> user_slice_writer \<times> user_mem" where
  "writer_write_slice U m w data =
     (let len = length data in
      if len > us_length w then (Err EFAULT, w, m)
      else let (res, m) = cu_to U m (us_ptr w) data in
        if res \<noteq> 0 then (Err EFAULT, w, m)
        else (Ok (), w\<lparr>us_ptr := wrapping_add (us_ptr w) len, us_length := us_length w - len\<rparr>, m))"

text \<open>\<open>write::<T>\<close>: \<open>as_bytes\<close> is the representation of the value, \<open>tsz\<close> bytes.\<close>

definition writer_write ::
  "c_uaccess \<Rightarrow> nat \<Rightarrow> ('a \<Rightarrow> u8 list) \<Rightarrow> user_mem \<Rightarrow> user_slice_writer \<Rightarrow> 'a \<Rightarrow>
   (unit, error) result \<times> user_slice_writer \<times> user_mem" where
  "writer_write U tsz as_bytes m w value =
     (let len = tsz in
      if len > us_length w then (Err EFAULT, w, m)
      else let (res, m) = cu_to U m (us_ptr w) (as_bytes value) in
        if res \<noteq> 0 then (Err EFAULT, w, m)
        else (Ok (), w\<lparr>us_ptr := wrapping_add (us_ptr w) len, us_length := us_length w - len\<rparr>, m))"

section \<open>User memory, continued\<close>

lemma length_ubytes [simp]: "length (ubytes m p n) = n"
  by (simp add: ubytes_def)

lemma ubytes_0 [simp]: "ubytes m p 0 = []"
  by (simp add: ubytes_def)

lemma length_block_slots [simp]: "length (block_slots b start n) = n"
  by (simp add: block_slots_def)

lemma nth_ubytes [simp]: "i < n \<Longrightarrow> ubytes m p n ! i = m (wrapping_add p i)"
  by (simp add: ubytes_def)

lemma wrapping_add_assoc: "wrapping_add (wrapping_add p a) b = wrapping_add p (a + b)"
  by (simp add: wrapping_add_def mod_add_left_eq add.assoc)

lemma wrapping_add_inj:
  assumes "wrapping_add p i = wrapping_add p j" and "i < 2 ^ 64" and "j < 2 ^ 64"
  shows "i = j"
proof -
  have "i = j" if "i \<le> j" "(p + i) mod 2 ^ 64 = (p + j) mod 2 ^ 64" "j < 2 ^ 64" for i j :: nat
  proof -
    have "(2 ^ 64 :: nat) dvd p + j - (p + i)"
      using that mod_eq_dvd_iff_nat [of "p + i" "p + j" "2 ^ 64"] by simp
    then have "(2 ^ 64 :: nat) dvd j - i" by simp
    moreover have "j - i < 2 ^ 64" using that(3) by simp
    ultimately show ?thesis using that(1) by (metis diff_is_0_eq dvd_imp_le le_antisym not_less zero_less_iff_neq_zero)
  qed
  with assms show ?thesis unfolding wrapping_add_def by (metis nle_le)
qed


lemma ustore_nth:
  "i < length bs \<Longrightarrow> length bs \<le> 2 ^ 64 \<Longrightarrow> ustore m p bs (wrapping_add p i) = Some (bs ! i)"
proof (induction bs arbitrary: p i)
  case (Cons b bs)
  show ?case
  proof (cases i)
    case (Suc j)
    have "wrapping_add p (Suc j) \<noteq> wrapping_add p 0"
      using wrapping_add_inj [of p "Suc j" 0] Cons.prems Suc by auto
    moreover have "ustore m (wrapping_add p 1) bs (wrapping_add (wrapping_add p 1) j) = Some (bs ! j)"
      by (rule Cons.IH) (use Cons.prems Suc in auto)
    ultimately show ?thesis using Suc by (simp add: wrapping_add_assoc)
  qed simp
qed simp

lemma ustore_other: "\<forall>i < length bs. a \<noteq> wrapping_add p i \<Longrightarrow> ustore m p bs a = m a"
proof (induction bs arbitrary: p)
  case (Cons b bs)
  have "\<forall>i < length bs. a \<noteq> wrapping_add (wrapping_add p 1) i"
    using Cons.prems by (auto simp: wrapping_add_assoc dest: spec [of _ "Suc _"])
  with Cons.IH Cons.prems show ?case by auto
qed simp

lemma ubytes_ustore: "length bs \<le> 2 ^ 64 \<Longrightarrow> ubytes (ustore m p bs) p (length bs) = map Some bs"
  by (rule nth_equalityI) (simp_all add: ustore_nth)

section \<open>Reads\<close>

lemma read_raw_ok:
  assumes U: "c_uaccess_ok U"
  shows "\<exists>out'. reader_read_raw U m r out =
      (if length out \<le> us_length r \<and> None \<notin> set (ubytes m (us_ptr r) (length out))
       then (Ok (), \<lparr>us_ptr = wrapping_add (us_ptr r) (length out), us_length = us_length r - length out\<rparr>, out')
       else (Err EFAULT, r, out')) \<and> length out' = length out \<and>
    (length out \<le> us_length r \<longrightarrow> None \<notin> set (ubytes m (us_ptr r) (length out)) \<longrightarrow>
      out' = ubytes m (us_ptr r) (length out))"
proof -
  obtain res out' where c: "cu_from U m (us_ptr r) out = (res, out')" by (cases "cu_from U m (us_ptr r) out")
  have "length (snd (cu_from U m (us_ptr r) out)) = length out \<and>
      (fst (cu_from U m (us_ptr r) out) = 0 \<longleftrightarrow> None \<notin> set (ubytes m (us_ptr r) (length out))) \<and>
      (fst (cu_from U m (us_ptr r) out) = 0 \<longrightarrow> snd (cu_from U m (us_ptr r) out) = ubytes m (us_ptr r) (length out))"
    using U unfolding c_uaccess_ok_def by blast
  then have ok: "length out' = length out" "res = 0 \<longleftrightarrow> None \<notin> set (ubytes m (us_ptr r) (length out))"
    "res = 0 \<longrightarrow> out' = ubytes m (us_ptr r) (length out)" using c by simp_all
  show ?thesis
  proof (cases "length out \<le> us_length r")
    case True
    with c ok show ?thesis
      by (intro exI [of _ out']) (cases r, auto simp: reader_read_raw_def Let_def)
  next
    case False
    then show ?thesis by (simp add: reader_read_raw_def)
  qed
qed



text \<open>Slots written behind the initialised part of a vector.\<close>

lemma vec_set_spare:
  assumes v: "vec_inv 1 v" and room: "v_len v + length out \<le> vec_capacity 1 v"
  shows "vec_inv 1 (v\<lparr>v_buf := block_set_slots (v_buf v) (v_len v) out\<rparr>)"
    and "vec_list (v\<lparr>v_buf := block_set_slots (v_buf v) (v_len v) out\<rparr>) = vec_list v"
    and "None \<notin> set out \<Longrightarrow>
      vec_inv 1 (v\<lparr>v_buf := block_set_slots (v_buf v) (v_len v) out, v_len := v_len v + length out\<rparr>)"
    and "None \<notin> set out \<Longrightarrow>
      vec_list (v\<lparr>v_buf := block_set_slots (v_buf v) (v_len v) out, v_len := v_len v + length out\<rparr>) =
      vec_list v @ map the out"
proof -
  let ?b = "block_set_slots (v_buf v) (v_len v) out"
  have init: "b_mem (v_buf v) i \<noteq> None" if "i < v_len v" for i
    using v that by (auto simp: vec_inv_def)
  have "vec_inv 1 (v\<lparr>v_buf := ?b, v_len := v_len v\<rparr>)"
    by (rule vec_inv_buf [OF v]) (use init room in \<open>auto simp: block_set_slots_def\<close>)
  then show "vec_inv 1 (v\<lparr>v_buf := ?b\<rparr>)" by simp
  show "vec_list (v\<lparr>v_buf := ?b\<rparr>) = vec_list v"
    by (rule nth_equalityI) (auto simp: vec_list_nth block_set_slots_def)
  assume out: "None \<notin> set out"
  have slot: "out ! i \<noteq> None" if "i < length out" for i
    using out that by (metis nth_mem)
  show "vec_inv 1 (v\<lparr>v_buf := ?b, v_len := v_len v + length out\<rparr>)"
    by (rule vec_inv_buf [OF v]) (use init room slot in \<open>auto simp: block_set_slots_def\<close>)
  show "vec_list (v\<lparr>v_buf := ?b, v_len := v_len v + length out\<rparr>) = vec_list v @ map the out"
    by (rule nth_equalityI) (auto simp: vec_list_nth block_set_slots_def nth_append not_less)
qed

lemma read_all_ok:
  assumes U: "c_uaccess_ok U" and A: "allocator 1 A" and v: "vec_inv 1 v"
  shows "\<exists>res v'. reader_read_all U A m r v fl = Inr (res, v') \<and> vec_inv 1 v' \<and>
    (case res of
       Ok _ \<Rightarrow> None \<notin> set (ubytes m (us_ptr r) (us_length r)) \<and>
               vec_list v' = vec_list v @ map the (ubytes m (us_ptr r) (us_length r))
     | Err e \<Rightarrow> vec_list v' = vec_list v \<and>
               (e = EFAULT \<and> None \<in> set (ubytes m (us_ptr r) (us_length r)) \<or>
                (\<exists>e'. e = error_from e' \<and> vec_reserve A 1 1 v (us_length r) fl = Inr (Err e', v))))"
proof -
  let ?n = "us_length r"
  have t: "type_ok 1 1" by (simp add: type_ok_def isize_max_def)
  obtain q w where q: "vec_reserve A 1 1 v ?n fl = Inr (q, w)" "reserve_post 1 v ?n q w"
    using allocator.reserve_ok [OF A v t] by blast
  show ?thesis
  proof (cases q)
    case (Err e)
    with q have "w = v" by (simp add: reserve_post_def)
    with q Err v show ?thesis
      unfolding reader_read_all_def Let_def q(1) by auto
  next
    case (Ok u)
    with q(2) have w: "vec_inv 1 w" "vec_list w = vec_list v" "v_len w = v_len v" "v_len v + ?n \<le> vec_capacity 1 w"
      by (simp_all add: reserve_post_def)
    obtain out where rd: "reader_read_raw U m r (block_slots (v_buf w) (v_len w) ?n) =
        (if None \<notin> set (ubytes m (us_ptr r) ?n)
         then (Ok (), \<lparr>us_ptr = wrapping_add (us_ptr r) ?n, us_length = ?n - ?n\<rparr>, out)
         else (Err EFAULT, r, out))" "length out = ?n"
      "None \<notin> set (ubytes m (us_ptr r) ?n) \<Longrightarrow> out = ubytes m (us_ptr r) ?n"
      using read_raw_ok [OF U, of m r "block_slots (v_buf w) (v_len w) ?n"]
      by (simp only: length_block_slots order_refl simp_thms) blast
    note upd = vec_set_spare [OF w(1), of out]
    let ?w = "w\<lparr>v_buf := block_set_slots (v_buf w) (v_len w) out\<rparr>"
    have spare: "vec_spare_capacity_mut 1 w = Inr (v_len w, vec_capacity 1 w - v_len w)"
      using w by (simp add: vec_spare_capacity_mut_def)
    have inc: "vec_inc_len 1 ?w ?n = Inr (?w\<lparr>v_len := v_len w + ?n\<rparr>)"
      using w by simp
    have run: "reader_read_all U A m r v fl = (case fst (reader_read_raw U m r (block_slots (v_buf w) (v_len w) ?n)) of
        Err e \<Rightarrow> Inr (Err e, ?w) | Ok _ \<Rightarrow> Inr (Ok (), ?w\<lparr>v_len := v_len w + ?n\<rparr>))"
      unfolding reader_read_all_def Let_def q(1) Ok using spare inc w rd(1)
      by (auto split: if_splits)
    show ?thesis
    proof (cases "None \<in> set (ubytes m (us_ptr r) ?n)")
      case True
      with run rd(1) have "reader_read_all U A m r v fl = Inr (Err EFAULT, ?w)" by simp
      with True upd(1,2) w rd(2) show ?thesis by auto
    next
      case False
      with run rd(1) have "reader_read_all U A m r v fl = Inr (Ok (), ?w\<lparr>v_len := v_len w + ?n\<rparr>)" by simp
      with False upd(3,4) w rd(2,3) show ?thesis by auto
    qed
  qed
qed

lemma write_slice_ok:
  assumes U: "c_uaccess_ok U" and w: "writer_write_slice U m w bs = (res, w', m')"
  shows "case res of
      Ok _ \<Rightarrow> length bs \<le> us_length w \<and> m' = ustore m (us_ptr w) bs \<and>
        w' = \<lparr>us_ptr = wrapping_add (us_ptr w) (length bs), us_length = us_length w - length bs\<rparr>
    | Err e \<Rightarrow> e = EFAULT \<and> w' = w \<and>
        (\<forall>a. (\<forall>i < min (length bs) (us_length w). a \<noteq> wrapping_add (us_ptr w) i) \<longrightarrow> m' a = m a)"
proof (cases "length bs \<le> us_length w")
  case True
  obtain n m1 where c: "cu_to U m (us_ptr w) bs = (n, m1)" by (cases "cu_to U m (us_ptr w) bs")
  have "fst (cu_to U m (us_ptr w) bs) = 0 \<longrightarrow> snd (cu_to U m (us_ptr w) bs) = ustore m (us_ptr w) bs"
    "\<forall>a. (\<forall>i < length bs. a \<noteq> wrapping_add (us_ptr w) i) \<longrightarrow> snd (cu_to U m (us_ptr w) bs) a = m a"
    using U unfolding c_uaccess_ok_def by blast+
  with c have ok: "n = 0 \<longrightarrow> m1 = ustore m (us_ptr w) bs"
    "\<forall>a. (\<forall>i < length bs. a \<noteq> wrapping_add (us_ptr w) i) \<longrightarrow> m1 a = m a" by simp_all
  from True have "min (length bs) (us_length w) = length bs" by simp
  with w True c ok show ?thesis
    by (cases w) (auto simp: writer_write_slice_def Let_def split: if_splits)
next
  case False
  with w show ?thesis by (auto simp: writer_write_slice_def Let_def)
qed

text \<open>The limit handed to C is the smaller of the two lengths, and so is the result.\<close>

lemma strncpy_ok:
  assumes U: "c_uaccess_ok U" and len: "length buf \<le> isize_max"
    and r: "reader_strncpy_from_user U m r buf = (Ok k, buf')"
  shows "k \<le> us_length r \<and> k \<le> length buf \<and> length buf' = length buf"
proof -
  let ?n = "min (us_length r) (length buf)"
  have "int ?n < 2 ^ 63" using len by (simp add: isize_max_def min_def split: if_splits)
  then have n: "as_isize ?n = int ?n"
    unfolding as_isize_def by (intro signed_take_bit_int_eq_self) simp_all
  have "length (snd (cu_strncpy U m (us_ptr r) buf (int ?n))) = length buf \<and>
      fst (cu_strncpy U m (us_ptr r) buf (int ?n)) \<le> int ?n"
    using U unfolding c_uaccess_ok_def by (meson of_nat_0_le_iff)
  with r n show ?thesis
    by (auto simp: reader_strncpy_from_user_def Let_def split: prod.splits if_splits)
qed

section \<open>Instance\<close>




section \<open>Properties\<close>



text \<open>
  \<open>UserSlice::read_all\<close> appends exactly the bytes of the slice to a well-formed vector when all of them
  can be read; when it fails, with \<open>EFAULT\<close> for a bad address or with the error of the allocation, the
  vector is well formed and has the elements it had.
\<close>

lemma user_slice_read_all_correct:
  assumes "c_uaccess_ok U" and "c_realloc_ok 1 f" and "vec_inv 1 v"
  shows "\<exists>res v'. user_slice_read_all U (kvmalloc_realloc f) m (user_slice_new p n) v fl = Inr (res, v') \<and>
    vec_inv 1 v' \<and>
    (case res of
       Ok _ \<Rightarrow> None \<notin> set (ubytes m p n) \<and> vec_list v' = vec_list v @ map the (ubytes m p n)
     | Err e \<Rightarrow> vec_list v' = vec_list v \<and>
         (e = EFAULT \<and> None \<in> set (ubytes m p n) \<or>
          (\<exists>e'. e = error_from e' \<and> vec_reserve (kvmalloc_realloc f) 1 1 v n fl = Inr (Err e', v))))"
  using read_all_ok [OF assms(1) kvmalloc_allocator [OF assms(2)] assms(3), of m "\<lparr>us_ptr = p, us_length = n\<rparr>" fl]
  unfolding user_slice_read_all_def user_slice_reader_of_def user_slice_new_def user_slice.simps .

text \<open>
  what the writer of a slice's reader-writer pair writes, its reader reads back: after a successful
  \<open>write_slice\<close> within the slice, \<open>read_slice\<close> of as many bytes succeeds and yields exactly the data; and a write
  changes no byte of user memory outside the slice, whether it succeeds or fails.
\<close>

lemma user_write_read_roundtrip:
  assumes "c_uaccess_ok U" and "user_slice_reader_writer (user_slice_new p n) = (r, w)" and "n \<le> usize_max"
    and "writer_write_slice U m w bs = (res, w', m')"
  shows "(\<forall>a. (\<forall>i < n. a \<noteq> wrapping_add p i) \<longrightarrow> m' a = m a) \<and>
    (res = Ok () \<longrightarrow> (\<exists>r'. reader_read_slice U m' r (replicate (length bs) 0) = (Ok (), r', map Some bs)))"
proof -
  have eq: "r = \<lparr>us_ptr = p, us_length = n\<rparr>" "w = \<lparr>us_ptr = p, us_length = n\<rparr>"
    using assms(2) by (auto simp: user_slice_reader_writer_def user_slice_new_def)
  note wr = write_slice_ok [OF assms(1,4), unfolded eq, simplified]
  show ?thesis
  proof (cases res)
    case (Ok u)
    with wr have le: "length bs \<le> n" and m': "m' = ustore m p bs" by simp_all
    then have "length bs \<le> 2 ^ 64" using assms(3) by (simp add: usize_max_def)
    then have ub: "ubytes m' p (length bs) = map Some bs" using m' by (simp add: ubytes_ustore)
    then have "None \<notin> set (ubytes m' p (length bs))" by simp
    with le ub read_raw_ok [OF assms(1), of m' r "replicate (length bs) (Some 0)"] eq(1)
    have "\<exists>r'. reader_read_slice U m' r (replicate (length bs) 0) = (Ok (), r', map Some bs)"
      by (auto simp: reader_read_slice_def)
    with m' le show ?thesis by (auto simp: ustore_other)
  next
    case (Err e)
    with wr show ?thesis by auto
  qed
qed

end
