(* ===== verification/Kernel_Page.thy ===== *)
theory Kernel_Page
  imports User_Access
begin

text \<open>
  \<open>rust/src/page.rs\<close> and \<open>rust/src/page_size_compat.rs\<close>: single pages, accesses to them with a bounds check, and
  the arithmetic of page sizes.

  A page is its bytes, each initialised or not, with the number of local mappings that exist; an access to
  a page that is not mapped, or outside it, is \<open>UB\<close>. \<open>alloc_pages\<close> is a parameter, a function that
  returns the contents of a new page or fails. Page arithmetic is on 64-bit words; an addition or shift
  that overflows panics.
\<close>

unbundle bit_operations_syntax

section \<open>Pages\<close>

record page =
  pg_bytes :: "u8 option list"
  pg_maps :: nat

definition page_inv :: "page \<Rightarrow> bool" where
  "page_inv p \<longleftrightarrow> length (pg_bytes p) = PAGE_SIZE"

definition alloc_page :: "(flags \<Rightarrow> u8 option list option) \<Rightarrow> flags \<Rightarrow> (page, error_source) result" where
  "alloc_page alloc_pages fl =
     (case alloc_pages fl of
        None \<Rightarrow> Err AllocError
      | Some bs \<Rightarrow> Ok \<lparr>pg_bytes = bs, pg_maps = 0\<rparr>)"

text \<open>The closures get the page while it is mapped; raw accesses check that.\<close>

definition with_page_mapped :: "page \<Rightarrow> (page \<Rightarrow> ('a \<times> page) exec) \<Rightarrow> ('a \<times> page) exec" where
  "with_page_mapped p f =
     exec_bind (f (p\<lparr>pg_maps := pg_maps p + 1\<rparr>)) (\<lambda>(res, p).
     exec_bind (require UB (0 < pg_maps p)) (\<lambda>_. Inr (res, p\<lparr>pg_maps := pg_maps p - 1\<rparr>)))"

text \<open>\<open>s\<close> is the state that the closure captures by reference, if any.\<close>

definition with_pointer_into_page ::
  "page \<Rightarrow> 's \<Rightarrow> usize \<Rightarrow> usize \<Rightarrow> (page \<Rightarrow> 's \<Rightarrow> nat \<Rightarrow> ((('a, error) result \<times> 's) \<times> page) exec) \<Rightarrow>
   ((('a, error) result \<times> 's) \<times> page) exec" where
  "with_pointer_into_page p s off len f =
     (if off \<le> PAGE_SIZE \<and> len \<le> PAGE_SIZE \<and> off + len \<le> PAGE_SIZE
      then with_page_mapped p (\<lambda>p. f p s off)
      else Inr ((Err EINVAL, s), p))"

definition page_load :: "page \<Rightarrow> nat \<Rightarrow> nat \<Rightarrow> u8 option list exec" where
  "page_load p off len =
     exec_bind (require UB (0 < pg_maps p \<and> off + len \<le> length (pg_bytes p))) (\<lambda>_.
     Inr (take len (drop off (pg_bytes p))))"

definition page_store :: "page \<Rightarrow> nat \<Rightarrow> u8 option list \<Rightarrow> page exec" where
  "page_store p off bs =
     exec_bind (require UB (0 < pg_maps p \<and> off + length bs \<le> length (pg_bytes p))) (\<lambda>_.
     Inr (p\<lparr>pg_bytes := take off (pg_bytes p) @ bs @ drop (off + length bs) (pg_bytes p)\<rparr>))"

text \<open>\<open>read_raw\<close> copies to \<open>dst\<close>, a buffer of the caller valid for \<open>len\<close> bytes.\<close>

definition page_read_raw ::
  "page \<Rightarrow> u8 option list \<Rightarrow> usize \<Rightarrow> usize \<Rightarrow> (((unit, error) result \<times> u8 option list) \<times> page) exec" where
  "page_read_raw p dst offset len =
     with_pointer_into_page p dst offset len (\<lambda>p dst src.
     exec_bind (require UB (len \<le> length dst)) (\<lambda>_.
     exec_bind (page_load p src len) (\<lambda>bs. Inr ((Ok (), bs @ drop len dst), p))))"

text \<open>\<open>src\<close> is the memory that the caller's pointer points to, valid for \<open>len\<close> bytes.\<close>

definition page_write_raw :: "page \<Rightarrow> u8 list \<Rightarrow> usize \<Rightarrow> usize \<Rightarrow> (((unit, error) result \<times> unit) \<times> page) exec" where
  "page_write_raw p src offset len =
     with_pointer_into_page p () offset len (\<lambda>p _ dst.
     exec_bind (require UB (len \<le> length src)) (\<lambda>_.
     exec_bind (page_store p dst (map Some (take len src))) (\<lambda>p. Inr ((Ok (), ()), p))))"

definition page_fill_zero_raw :: "page \<Rightarrow> usize \<Rightarrow> usize \<Rightarrow> (((unit, error) result \<times> unit) \<times> page) exec" where
  "page_fill_zero_raw p offset len =
     with_pointer_into_page p () offset len (\<lambda>p _ dst.
     exec_bind (page_store p dst (replicate len (Some 0))) (\<lambda>p. Inr ((Ok (), ()), p)))"

definition page_copy_from_user_slice_raw ::
  "c_uaccess \<Rightarrow> user_mem \<Rightarrow> page \<Rightarrow> user_slice_reader \<Rightarrow> usize \<Rightarrow> usize \<Rightarrow>
   (((unit, error) result \<times> user_slice_reader) \<times> page) exec" where
  "page_copy_from_user_slice_raw U m p reader offset len =
     with_pointer_into_page p reader offset len (\<lambda>p reader dst.
     exec_bind (page_load p dst len) (\<lambda>out.
     let (res, reader, out) = reader_read_raw U m reader out in
     exec_bind (page_store p dst out) (\<lambda>p. Inr ((res, reader), p))))"

section \<open>Page sizes\<close>

definition PAGE_SHIFT :: nat where
  "PAGE_SHIFT = 12"

definition checked_word_add :: "u64 \<Rightarrow> u64 \<Rightarrow> u64 exec" where
  "checked_word_add a b = exec_bind (require Panic (unat a + unat b < 2 ^ 64)) (\<lambda>_. Inr (a + b))"

definition PAGE_MASK :: u64 where
  "PAGE_MASK = NOT (word_of_nat PAGE_SIZE - 1)"

definition page_align :: "u64 \<Rightarrow> u64 exec" where
  "page_align addr = exec_bind (checked_word_add addr (word_of_nat PAGE_SIZE - 1)) (\<lambda>s. Inr (s AND PAGE_MASK))"

text \<open>
  The state of the static key and the emulated shift, a C \<open>unsigned int\<close>, are the kernel's; \<open>emu\<close> is the
  shift when emulation is on. Its conversion to \<open>usize\<close> is checked.
\<close>

definition compat_page_shift :: "nat option \<Rightarrow> nat exec" where
  "compat_page_shift emu =
     (case emu of
        Some shift \<Rightarrow> exec_bind (require Panic (shift \<le> usize_max)) (\<lambda>_. Inr shift)
      | None \<Rightarrow> Inr PAGE_SHIFT)"

definition compat_page_size :: "nat option \<Rightarrow> u64 exec" where
  "compat_page_size emu =
     exec_bind (compat_page_shift emu) (\<lambda>shift.
     exec_bind (require Panic (shift < 64)) (\<lambda>_. Inr (push_bit shift 1)))"

definition compat_page_mask :: "nat option \<Rightarrow> u64 exec" where
  "compat_page_mask emu = exec_bind (compat_page_size emu) (\<lambda>sz. Inr (NOT (sz - 1)))"

definition compat_page_align :: "nat option \<Rightarrow> u64 \<Rightarrow> u64 exec" where
  "compat_page_align emu addr =
     exec_bind (compat_page_size emu) (\<lambda>sz.
     exec_bind (checked_word_add addr (sz - 1)) (\<lambda>s. Inr (s AND NOT (sz - 1))))"

definition compat_page_align_down :: "nat option \<Rightarrow> u64 \<Rightarrow> u64 exec" where
  "compat_page_align_down emu addr = exec_bind (compat_page_mask emu) (\<lambda>mask. Inr (addr AND mask))"

section \<open>Accesses to a page\<close>

lemmas page_defs = with_page_mapped_def with_pointer_into_page_def page_load_def page_store_def
  page_read_raw_def page_write_raw_def page_fill_zero_raw_def page_copy_from_user_slice_raw_def page_inv_def

text \<open>The page with \<open>bs\<close> at \<open>off\<close>.\<close>

definition page_patch :: "page \<Rightarrow> nat \<Rightarrow> u8 option list \<Rightarrow> page" where
  "page_patch p off bs = p\<lparr>pg_bytes := take off (pg_bytes p) @ bs @ drop (off + length bs) (pg_bytes p)\<rparr>"

definition page_ok :: "nat \<Rightarrow> nat \<Rightarrow> bool" where
  "page_ok off len \<longleftrightarrow> off + len \<le> PAGE_SIZE"

lemma page_patch_inv: "page_inv p \<Longrightarrow> page_ok off (length bs) \<Longrightarrow> page_inv (page_patch p off bs)"
  by (simp add: page_inv_def page_ok_def page_patch_def)

lemma page_patch_nth:
  assumes "page_inv p" and "page_ok off (length bs)" and "i < PAGE_SIZE"
  shows "pg_bytes (page_patch p off bs) ! i =
    (if off \<le> i \<and> i < off + length bs then bs ! (i - off) else pg_bytes p ! i)"
  using assms by (auto simp: page_inv_def page_ok_def page_patch_def nth_append min_def)




lemma page_copy_user_ok:
  assumes U: "c_uaccess_ok U" and p: "page_inv p" and r: "reader_read_raw U m rd (take len (drop off (pg_bytes p))) = (res, rd', out)"
  shows "page_copy_from_user_slice_raw U m p rd off len =
     Inr (if page_ok off len then ((res, rd'), page_patch p off out) else ((Err EINVAL, rd), p))"
proof (cases "page_ok off len")
  case True
  then have len: "length (take len (drop off (pg_bytes p))) = len" using p by (auto simp: page_inv_def page_ok_def)
  have "length out = len"
    using read_raw_ok [OF U, of m rd "take len (drop off (pg_bytes p))"] r len by (auto split: if_splits)
  with True p r show ?thesis by (auto simp: page_defs page_ok_def page_patch_def)
next
  case False
  then show ?thesis by (auto simp: page_defs page_ok_def)
qed

section \<open>Page arithmetic\<close>

lemma and_not_mask: "w AND NOT (mask k) = w - take_bit k (w :: u64)"
proof -
  have "push_bit k (drop_bit k w) = w AND NOT (mask k)"
    by (rule bit_eqI) (auto simp: bit_simps)
  moreover have "push_bit k (drop_bit k w) + take_bit k w = w" by (rule bits_ident)
  ultimately show ?thesis by (metis add_diff_cancel_right')
qed

lemma unat_and_not_mask: "unat (w AND NOT (mask k)) = unat (w :: u64) div 2 ^ k * 2 ^ k"
proof -
  have t: "unat (take_bit k w) = unat w mod 2 ^ k" 
    by (simp only: unsigned_take_bit_eq) (simp add: take_bit_eq_mod)
  then have "take_bit k w \<le> w" by (simp add: word_le_nat_alt)
  then have "unat (w - take_bit k w) = unat w - unat w mod 2 ^ k" by (simp add: unat_sub t)
  then show ?thesis by (simp add: and_not_mask minus_mod_eq_div_mult)
qed

lemma unat_of_nat64: "n < 2 ^ 64 \<Longrightarrow> unat (word_of_nat n :: u64) = n"
  by (simp add: unsigned_of_nat take_bit_nat_eq_self)

lemma unat_mask: "k < 64 \<Longrightarrow> unat (mask k :: u64) = 2 ^ k - 1"
proof -
  assume k: "k < 64"
  have "(2 :: nat) ^ k < 2 ^ 64" using k by (rule power_strict_increasing) simp
  then have "unat (word_of_nat (2 ^ k - 1) :: u64) = 2 ^ k - 1"
    by (intro unat_of_nat64) simp
  moreover have "(mask k :: u64) = word_of_nat (2 ^ k - 1)" by (simp add: mask_eq_exp_minus_1 of_nat_diff)
  ultimately show ?thesis by simp
qed

text \<open>Rounding up to a multiple of \<open>2 ^ k\<close>.\<close>

lemma round_up_nat:
  fixes a k :: nat
  defines "r \<equiv> (a + (2 ^ k - 1)) div 2 ^ k * 2 ^ k"
  shows "a \<le> r" and "r < a + 2 ^ k" and "2 ^ k dvd r"
proof -
  have pos: "0 < (2 ^ k :: nat)" by simp
  have r: "r = a + (2 ^ k - 1) - (a + (2 ^ k - 1)) mod 2 ^ k" by (simp add: r_def minus_mod_eq_div_mult)
  have "(a + (2 ^ k - 1)) mod 2 ^ k < 2 ^ k" using pos by simp
  with r show "a \<le> r" by linarith
  from r pos show "r < a + 2 ^ k" by linarith
  show "2 ^ k dvd r" by (simp add: r_def)
qed

lemma align_up_ok:
  assumes k: "k < 64" and sz: "sz - 1 = (mask k :: u64)"
  shows "exec_bind (checked_word_add addr (sz - 1)) (\<lambda>s. Inr (s AND NOT (sz - 1))) =
    (if unat addr + (2 ^ k - 1) < 2 ^ 64
     then Inr (word_of_nat ((unat addr + (2 ^ k - 1)) div 2 ^ k * 2 ^ k)) else Inl Panic)"
proof (cases "unat addr + (2 ^ k - 1) < 2 ^ 64")
  case True
  then have s: "unat (addr + mask k) = unat addr + (2 ^ k - 1)"
    using unat_mask [OF k] by (simp add: unat_word_ariths)
  have "(addr + mask k) AND NOT (mask k) = word_of_nat ((unat addr + (2 ^ k - 1)) div 2 ^ k * 2 ^ k)"
    using unat_and_not_mask [of "addr + mask k" k] s by (metis of_nat_unat ucast_id)
  with True show ?thesis using unat_mask [OF k] by (simp add: checked_word_add_def sz)
next
  case False
  with unat_mask [OF k] show ?thesis by (simp add: checked_word_add_def sz)
qed

lemma compat_size_ok:
  assumes "case emu of None \<Rightarrow> True | Some s \<Rightarrow> s < 64"
  shows "\<exists>k < 64. k = (case emu of None \<Rightarrow> PAGE_SHIFT | Some s \<Rightarrow> s) \<and>
    compat_page_size emu = Inr (2 ^ k) \<and> compat_page_mask emu = Inr (NOT (mask k)) \<and> (2 ^ k :: u64) - 1 = mask k"
  using assms
  by (auto simp: compat_page_size_def compat_page_mask_def compat_page_shift_def PAGE_SHIFT_def push_bit_eq_mult
      mask_eq_exp_minus_1 usize_max_def split: option.splits)

section \<open>Properties\<close>

text \<open>The result of an access: refused out of bounds, otherwise the page with \<open>bs\<close> at \<open>off\<close>.\<close>

definition page_access_post :: "page \<Rightarrow> nat \<Rightarrow> nat \<Rightarrow> u8 option list \<Rightarrow> (unit, error) result \<Rightarrow> page \<Rightarrow> bool" where
  "page_access_post p off len bs r p' \<longleftrightarrow>
     page_inv p' \<and> pg_maps p' = pg_maps p \<and>
     (if off + len \<le> PAGE_SIZE
      then r = Ok () \<and> (\<forall>i < PAGE_SIZE. pg_bytes p' ! i =
             (if off \<le> i \<and> i < off + len then bs ! (i - off) else pg_bytes p ! i))
      else r = Err EINVAL \<and> p' = p)"

lemma page_patch_post:
  assumes "page_inv p" and "length bs = len"
  shows "page_ok off len \<Longrightarrow> page_access_post p off len bs (Ok ()) (page_patch p off bs)"
    and "\<not> page_ok off len \<Longrightarrow> page_access_post p off len bs (Err EINVAL) p"
  using assms page_patch_inv [OF assms(1), of off bs] page_patch_nth [OF assms(1), of off bs]
  by (auto simp: page_access_post_def page_ok_def page_patch_def [of p off bs])



text \<open>
  \<open>copy_from_user_slice_raw\<close> refuses a range outside the page with \<open>EINVAL\<close> without touching page or reader; inside
  it, if the reader's bytes can be read, exactly the range is replaced by them and the reader advances by its
  length, and otherwise the reader stays where it is and no byte outside the range changes.
\<close>

lemma page_copy_from_user_correct:
  assumes "c_uaccess_ok U" and "page_inv p"
  shows "\<exists>r rd' p'. page_copy_from_user_slice_raw U m p rd off len = Inr ((r, rd'), p') \<and> page_inv p' \<and>
    (if off + len > PAGE_SIZE then r = Err EINVAL \<and> rd' = rd \<and> p' = p
     else if len \<le> us_length rd \<and> None \<notin> set (ubytes m (us_ptr rd) len)
     then page_access_post p off len (ubytes m (us_ptr rd) len) r p' \<and>
       rd' = \<lparr>us_ptr = wrapping_add (us_ptr rd) len, us_length = us_length rd - len\<rparr>
     else r = Err EFAULT \<and> rd' = rd \<and>
       (\<forall>i < PAGE_SIZE. \<not> (off \<le> i \<and> i < off + len) \<longrightarrow> pg_bytes p' ! i = pg_bytes p ! i))"
proof -
  obtain r rd' out where rd: "reader_read_raw U m rd (take len (drop off (pg_bytes p))) = (r, rd', out)"
    by (cases "reader_read_raw U m rd (take len (drop off (pg_bytes p)))") auto
  note run = page_copy_user_ok [OF assms rd]
  show ?thesis
  proof (cases "page_ok off len")
    case True
    then have len: "length (take len (drop off (pg_bytes p))) = len"
      using assms(2) by (auto simp: page_inv_def page_ok_def)
    let ?good = "len \<le> us_length rd \<and> None \<notin> set (ubytes m (us_ptr rd) len)"
    have res: "if ?good then r = Ok () \<and> out = ubytes m (us_ptr rd) len \<and>
          rd' = \<lparr>us_ptr = wrapping_add (us_ptr rd) len, us_length = us_length rd - len\<rparr>
        else r = Err EFAULT \<and> rd' = rd" and out: "length out = len"
      using read_raw_ok [OF assms(1), of m rd "take len (drop off (pg_bytes p))", unfolded len rd]
      by (auto split: if_splits)
    have inv: "page_inv (page_patch p off out)" by (rule page_patch_inv) (use assms True out in simp_all)
    have fits: "\<not> off + len > PAGE_SIZE" using True by (simp add: page_ok_def)
    show ?thesis
    proof (cases ?good)
      case good: True
      with res have "out = ubytes m (us_ptr rd) len" "r = Ok ()"
        "rd' = \<lparr>us_ptr = wrapping_add (us_ptr rd) len, us_length = us_length rd - len\<rparr>" by simp_all
      with page_patch_post(1) [OF assms(2) out True] run True inv fits good show ?thesis by simp
    next
      case False
      with res have "r = Err EFAULT" "rd' = rd" by simp_all
      with page_patch_nth [OF assms(2), of off out] True out run inv fits False show ?thesis by auto
    qed
  next
    case False
    with run assms(2) show ?thesis by (simp add: page_ok_def)
  qed
qed

text \<open>
  with emulation of any page size, or none, \<open>__page_align\<close> rounds an address up to the least multiple of the
  page size that is not below it, and panics exactly when adding the page size less one to the address overflows;
  \<open>__page_align_down\<close> rounds down; without emulation \<open>__page_align\<close> is \<open>page_align\<close>.
\<close>

lemma page_align_rounds:
  assumes "case emu of None \<Rightarrow> True | Some s \<Rightarrow> s < 64"
  shows "let k = (case emu of None \<Rightarrow> PAGE_SHIFT | Some s \<Rightarrow> s) in
    (if unat addr + (2 ^ k - 1) < 2 ^ 64
     then \<exists>r. compat_page_align emu addr = Inr r \<and> addr \<le> r \<and> unat r < unat addr + 2 ^ k \<and> 2 ^ k dvd unat r
     else compat_page_align emu addr = Inl Panic) \<and>
    (\<exists>r. compat_page_align_down emu addr = Inr r \<and> unat r = unat addr div 2 ^ k * 2 ^ k) \<and>
    page_align addr = compat_page_align None addr"
proof -
  obtain k where k: "k < 64" "k = (case emu of None \<Rightarrow> PAGE_SHIFT | Some s \<Rightarrow> s)"
    "compat_page_size emu = Inr (2 ^ k)" "compat_page_mask emu = Inr (NOT (mask k))" "(2 ^ k :: u64) - 1 = mask k"
    using compat_size_ok [OF assms] by blast
  note up = align_up_ok [OF k(1,5), of addr]
  let ?r = "(unat addr + (2 ^ k - 1)) div 2 ^ k * 2 ^ k"
  have al: "compat_page_align emu addr =
      (if unat addr + (2 ^ k - 1) < 2 ^ 64 then Inr (word_of_nat ?r) else Inl Panic)"
    unfolding compat_page_align_def k(3) using up by simp
  have r: "unat (word_of_nat ?r :: u64) = ?r" if "unat addr + (2 ^ k - 1) < 2 ^ 64"
  proof -
    have "?r \<le> unat addr + (2 ^ k - 1)" by (rule div_times_less_eq_dividend)
    with that have "?r < 2 ^ 64" by linarith
    then show ?thesis by (rule unat_of_nat64)
  qed
  have "page_align addr = compat_page_align None addr"
    by (simp add: page_align_def compat_page_align_def compat_page_size_def compat_page_shift_def PAGE_SHIFT_def
        PAGE_MASK_def PAGE_SIZE_def push_bit_eq_mult)
  moreover have "\<exists>r. compat_page_align_down emu addr = Inr r \<and> unat r = unat addr div 2 ^ k * 2 ^ k"
    using unat_and_not_mask [of addr k] by (simp add: compat_page_align_down_def k(4))
  moreover have "if unat addr + (2 ^ k - 1) < 2 ^ 64
     then \<exists>r. compat_page_align emu addr = Inr r \<and> addr \<le> r \<and> unat r < unat addr + 2 ^ k \<and> 2 ^ k dvd unat r
     else compat_page_align emu addr = Inl Panic"
    using al r round_up_nat [of "unat addr" k] by (auto simp: word_le_nat_alt)
  ultimately show ?thesis unfolding Let_def k(2) [symmetric] by blast
qed

end
