(* ===== verification/Kernel_Types.thy ===== *)
theory Kernel_Types
  imports Sync_Arc
begin

text \<open>
  \<open>rust/src/types.rs\<close>: values owned by foreign code, scope guards and owned references to objects that are always
  reference counted.

  The traits are locales: \<open>foreign_ownable\<close> is what \<open>ForeignOwnable\<close> promises, \<open>always_ref_counted\<close> what
  \<open>AlwaysRefCounted\<close> promises about the state \<open>'s\<close> that holds an object's count. \<open>Opaque\<close> and the marker traits have no
  behaviour of their own.
\<close>

section \<open>Foreign ownership\<close>

definition try_from_foreign :: "(addr \<Rightarrow> 'a exec) \<Rightarrow> addr \<Rightarrow> 'a option exec" where
  "try_from_foreign from_foreign ptr =
     (if ptr = 0 then Inr None else exec_bind (from_foreign ptr) (\<lambda>x. Inr (Some x)))"

text \<open>\<open>ForeignOwnable for ()\<close>: a dangling pointer, which is the alignment of the type.\<close>

definition unit_into_foreign :: "unit \<Rightarrow> addr" where
  "unit_into_foreign u = 1"

definition unit_borrow :: "addr \<Rightarrow> unit exec" where
  "unit_borrow p = Inr ()"

definition unit_from_foreign :: "addr \<Rightarrow> unit exec" where
  "unit_from_foreign p = Inr ()"

section \<open>Scope guards\<close>

text \<open>The guard is its optional data; cleaning up is a call of the closure with the data it returns.\<close>

type_synonym 't scope_guard = "'t option"

definition scope_guard_new_with_data :: "'t \<Rightarrow> 't scope_guard" where
  "scope_guard_new_with_data data = Some data"

definition scope_guard_new :: "unit scope_guard" where
  "scope_guard_new = scope_guard_new_with_data ()"

definition scope_guard_deref :: "'t scope_guard \<Rightarrow> 't exec" where
  "scope_guard_deref g = (case g of None \<Rightarrow> Inl Panic | Some d \<Rightarrow> Inr d)"

definition scope_guard_deref_mut :: "'t scope_guard \<Rightarrow> ('t \<Rightarrow> 't) \<Rightarrow> 't scope_guard exec" where
  "scope_guard_deref_mut g f = (case g of None \<Rightarrow> Inl Panic | Some d \<Rightarrow> Inr (Some (f d)))"

text \<open>\<open>drop\<close>: the arguments the cleanup closure is called with.\<close>

definition scope_guard_drop :: "'t scope_guard \<Rightarrow> 't list" where
  "scope_guard_drop g = (case g of None \<Rightarrow> [] | Some data \<Rightarrow> [data])"

text \<open>\<open>dismiss\<close> takes the data out; the guard is dropped at the end of the call.\<close>

definition scope_guard_dismiss :: "'t scope_guard \<Rightarrow> ('t \<times> 't list) exec" where
  "scope_guard_dismiss g =
     (case g of
        None \<Rightarrow> Inl Panic
      | Some data \<Rightarrow> Inr (data, scope_guard_drop None))"

section \<open>Owned references\<close>

definition aref_clone :: "('s \<Rightarrow> 's exec) \<Rightarrow> 's \<Rightarrow> 's exec" where
  "aref_clone inc_ref s = inc_ref s"

definition aref_from_ref :: "('s \<Rightarrow> 's exec) \<Rightarrow> 's \<Rightarrow> 's exec" where
  "aref_from_ref inc_ref s = inc_ref s"

definition aref_drop :: "('s \<Rightarrow> 's exec) \<Rightarrow> 's \<Rightarrow> 's exec" where
  "aref_drop dec_ref s = dec_ref s"

text \<open>\<open>into_raw\<close> and \<open>from_raw\<close> move the count between the handle and a raw pointer.\<close>

definition aref_into_raw :: "addr \<Rightarrow> addr" where
  "aref_into_raw a = a"

definition aref_from_raw :: "addr \<Rightarrow> addr" where
  "aref_from_raw p = p"

section \<open>Interfaces\<close>

locale foreign_ownable =
  fixes into_foreign :: "'a \<Rightarrow> addr" and from_foreign :: "addr \<Rightarrow> 'a exec" and valid :: "'a \<Rightarrow> bool"
  assumes into_not_null: "valid x \<Longrightarrow> into_foreign x \<noteq> 0"
    and from_into: "valid x \<Longrightarrow> from_foreign (into_foreign x) = Inr x"
begin

lemma try_from_into: "valid x \<Longrightarrow> try_from_foreign from_foreign (into_foreign x) = Inr (Some x)"
  by (simp add: try_from_foreign_def into_not_null from_into)

lemma try_from_null: "try_from_foreign from_foreign 0 = Inr None"
  by (simp add: try_from_foreign_def)

end

interpretation foreign_unit: foreign_ownable unit_into_foreign unit_from_foreign "\<lambda>_. True"
  by unfold_locales (simp_all add: unit_into_foreign_def unit_from_foreign_def)

interpretation foreign_arc: foreign_ownable arc_into_foreign arc_from_foreign "\<lambda>a. a \<noteq> 0"
  by unfold_locales (simp_all add: arc_into_foreign_def arc_from_foreign_def)

text \<open>
  \<open>refs s\<close> is the number of owned references; \<open>ok s\<close> that the object is alive; \<open>room s\<close> that another
  reference can be counted.
\<close>

locale always_ref_counted =
  fixes inc_ref dec_ref :: "'s \<Rightarrow> 's exec" and refs :: "'s \<Rightarrow> nat" and ok room :: "'s \<Rightarrow> bool"
  assumes inc_refs: "ok s \<Longrightarrow> room s \<Longrightarrow> \<exists>s'. inc_ref s = Inr s' \<and> ok s' \<and> refs s' = Suc (refs s)"
    and dec_refs: "ok s \<Longrightarrow> 0 < refs s \<Longrightarrow> \<exists>s'. dec_ref s = Inr s' \<and> refs s' = refs s - 1 \<and> (1 < refs s \<longrightarrow> ok s')"

text \<open>A program that clones and drops references, holding \<open>n\<close> of them.\<close>

datatype aref_op = ARClone | ARDrop

fun aref_run :: "('s \<Rightarrow> 's exec) \<Rightarrow> ('s \<Rightarrow> 's exec) \<Rightarrow> aref_op list \<Rightarrow> 's \<Rightarrow> 's exec" where
  "aref_run inc dec [] s = Inr s"
| "aref_run inc dec (ARClone # xs) s = exec_bind (aref_clone inc s) (aref_run inc dec xs)"
| "aref_run inc dec (ARDrop # xs) s = exec_bind (aref_drop dec s) (aref_run inc dec xs)"

text \<open>A program that never uses a reference it does not have, and the number it ends with.\<close>

fun aref_held :: "aref_op list \<Rightarrow> nat \<Rightarrow> nat option" where
  "aref_held [] n = Some n"
| "aref_held (ARClone # xs) n = (if 0 < n then aref_held xs (Suc n) else None)"
| "aref_held (ARDrop # xs) n = (if 0 < n then aref_held xs (n - 1) else None)"

context always_ref_counted
begin

text \<open>
  As long as there is room to count, a program with \<open>n\<close> of the references neither faults nor drops another's
  reference.
\<close>

lemma aref_run_ok:
  assumes "\<And>s. ok s \<Longrightarrow> refs s \<le> m + length xs \<Longrightarrow> room s" and "ok s" and "0 < n" and "n \<le> refs s" and "refs s \<le> m"
    and "aref_held xs n = Some k"
  shows "\<exists>s'. aref_run inc_ref dec_ref xs s = Inr s' \<and> refs s' + n = refs s + k \<and> (0 < refs s' \<longrightarrow> ok s')"
  using assms
proof (induction xs arbitrary: s n m)
  case Nil
  then show ?case by simp
next
  case (Cons x xs)
  show ?case
  proof (cases x)
    case ARClone
    obtain s1 where s1: "inc_ref s = Inr s1" "ok s1" "refs s1 = Suc (refs s)"
      using inc_refs [OF Cons.prems(2)] Cons.prems(1) [of s] Cons.prems(2,5) by auto
    have "\<exists>s'. aref_run inc_ref dec_ref xs s1 = Inr s' \<and> refs s' + Suc n = refs s1 + k \<and> (0 < refs s' \<longrightarrow> ok s')"
      by (rule Cons.IH [of "Suc m"]) (use Cons.prems s1 ARClone in auto)
    with s1 ARClone show ?thesis by (auto simp: aref_clone_def)
  next
    case ARDrop
    obtain s1 where s1: "dec_ref s = Inr s1" "refs s1 = refs s - 1" "1 < refs s \<longrightarrow> ok s1"
      using dec_refs [OF Cons.prems(2)] Cons.prems(3,4) by fastforce
    show ?thesis
    proof (cases "n = 1")
      case True
      with Cons.prems(6) ARDrop have "aref_held xs 0 = Some k" by simp
      then have "xs = [] \<and> k = 0" by (cases xs) (auto split: if_splits elim: aref_held.elims)
      with s1 ARDrop True Cons.prems(4) show ?thesis by (auto simp: aref_drop_def)
    next
      case False
      have "\<exists>s'. aref_run inc_ref dec_ref xs s1 = Inr s' \<and> refs s' + (n - 1) = refs s1 + k \<and> (0 < refs s' \<longrightarrow> ok s')"
        by (rule Cons.IH [of m]) (use Cons.prems s1 ARDrop False in auto)
      with s1 ARDrop Cons.prems(3,4) show ?thesis by (auto simp: aref_drop_def)
    qed
  qed
qed

end

section \<open>Properties\<close>

text \<open>The changes made through a guard, one after the other.\<close>

fun scope_guard_run :: "'t scope_guard \<Rightarrow> ('t \<Rightarrow> 't) list \<Rightarrow> 't scope_guard exec" where
  "scope_guard_run g [] = Inr g"
| "scope_guard_run g (f # fs) = exec_bind (scope_guard_deref_mut g f) (\<lambda>g. scope_guard_run g fs)"

lemma scope_guard_run_ok: "scope_guard_run (Some d) fs = Inr (Some (fold (\<lambda>f x. f x) fs d))"
  by (induction fs arbitrary: d) (simp_all add: scope_guard_deref_mut_def)

text \<open>
  a scope guard that is dropped runs its cleanup exactly once, with the data as it was last left; a guard that is
  dismissed returns that data and never runs it; and no access through a guard panics.
\<close>

lemma scope_guard_cleans_up_once:
  "\<exists>g. scope_guard_run (scope_guard_new_with_data d) fs = Inr g \<and>
     (let d' = fold (\<lambda>f x. f x) fs d in
      scope_guard_deref g = Inr d' \<and> scope_guard_drop g = [d'] \<and> scope_guard_dismiss g = Inr (d', []))"
  by (simp add: scope_guard_new_with_data_def scope_guard_run_ok scope_guard_deref_def scope_guard_drop_def
      scope_guard_dismiss_def)

end
