(* ===== verification/Block_Request.thy ===== *)
theory Block_Request
  imports Kernel_Types
begin

text \<open>
  \<open>rust/src/block/mq/request.rs\<close> and \<open>rust/src/block/mq/operations.rs\<close>: block requests, their reference count, and
  the callbacks that the block layer calls.

  The private data of a request is its count, a 64-bit word. The count is changed by single atomic operations, so
  each operation of a holder is one step. Which side owns the request and how many \<open>ARef\<close>s exist is the state
  of the step relation \<open>rq_step\<close>. The driver's \<open>queue_rq\<close> is a parameter; the kernel's
  translation of error codes to a block status too. \<open>dbg\<close> is \<open>CONFIG_DEBUG_MISC\<close>. Arithmetic on the count panics on
  overflow.
\<close>

section \<open>Requests\<close>

record request_data_wrapper =
  rdw_refcount :: u64

text \<open>\<open>fetch_update\<close> with a function that always, or not always, has a new value.\<close>

definition atomic_relaxed_op_return :: "u64 \<Rightarrow> (u64 \<Rightarrow> u64 exec) \<Rightarrow> (u64 \<times> u64) exec" where
  "atomic_relaxed_op_return target f =
     exec_bind (f target) (\<lambda>new. exec_bind (f target) (\<lambda>ret. Inr (ret, new)))"

definition atomic_relaxed_op_unless :: "u64 \<Rightarrow> (u64 \<Rightarrow> u64 exec) \<Rightarrow> u64 \<Rightarrow> (bool \<times> u64) exec" where
  "atomic_relaxed_op_unless target f pred =
     (if target = pred then Inr (False, target) else exec_bind (f target) (\<lambda>new. Inr (True, new)))"

definition u64_inc :: "u64 \<Rightarrow> u64 exec" where
  "u64_inc x = exec_bind (require Panic (unat x + 1 < 2 ^ 64)) (\<lambda>_. Inr (x + 1))"

definition u64_dec :: "u64 \<Rightarrow> u64 exec" where
  "u64_dec x = exec_bind (require Panic (0 < unat x)) (\<lambda>_. Inr (x - 1))"

definition request_inc_ref :: "bool \<Rightarrow> request_data_wrapper \<Rightarrow> request_data_wrapper exec" where
  "request_inc_ref dbg r =
     exec_bind (atomic_relaxed_op_unless (rdw_refcount r) u64_inc 0) (\<lambda>(updated, n).
     if dbg \<and> \<not> updated then Inl Panic else Inr (r\<lparr>rdw_refcount := n\<rparr>))"

definition request_dec_ref :: "bool \<Rightarrow> request_data_wrapper \<Rightarrow> request_data_wrapper exec" where
  "request_dec_ref dbg r =
     exec_bind (atomic_relaxed_op_return (rdw_refcount r) u64_dec) (\<lambda>(new_refcount, n).
     if dbg \<and> new_refcount = 0 then Inl Panic else Inr (r\<lparr>rdw_refcount := n\<rparr>))"


text \<open>\<open>end_ok\<close>: also the requests handed back with \<open>blk_mq_end_request\<close>, and their status.\<close>

definition BLK_STS_OK :: u8 where
  "BLK_STS_OK = 0"


section \<open>Callbacks\<close>

text \<open>
  \<open>queue_rq_callback\<close>: the count becomes two, one for the driver and one for the \<open>ARef\<close> that is
  made; the request is started and given to the driver.
\<close>

definition queue_rq_prepare :: "request_data_wrapper \<Rightarrow> request_data_wrapper" where
  "queue_rq_prepare r = r\<lparr>rdw_refcount := 2\<rparr>"

definition queue_rq_callback ::
  "(int \<Rightarrow> u8) \<Rightarrow> (addr \<Rightarrow> bool \<Rightarrow> request_data_wrapper \<Rightarrow> (unit, error) result \<times> request_data_wrapper) \<Rightarrow>
   addr \<Rightarrow> bool \<Rightarrow> request_data_wrapper \<Rightarrow> u8 \<times> request_data_wrapper" where
  "queue_rq_callback errno_to_blk_status queue_rq rq is_last r =
     (let r = queue_rq_prepare r;
          (ret, r) = queue_rq (aref_from_raw rq) is_last r
      in (case ret of Err e \<Rightarrow> to_blk_status errno_to_blk_status e | Ok _ \<Rightarrow> BLK_STS_OK, r))"

definition poll_callback :: "bool \<Rightarrow> int" where
  "poll_callback poll = (if poll then 1 else 0)"

definition init_hctx_callback :: int where
  "init_hctx_callback = from_result id (Ok 0)"


text \<open>The callbacks that \<open>build\<close> installs, by name.\<close>

definition vtable_build :: "bool \<Rightarrow> (string \<times> bool) list" where
  "vtable_build has_poll =
     [(''queue_rq'', True), (''commit_rqs'', True), (''poll'', has_poll), (''complete'', True),
      (''init_hctx'', True), (''exit_hctx'', True), (''init_request'', True), (''exit_request'', True)]"

section \<open>Steps\<close>






section \<open>The count\<close>

text \<open>The count of a request owned by the driver is one more than its references.\<close>

definition rq_refs :: "request_data_wrapper \<Rightarrow> nat" where
  "rq_refs r = unat (rdw_refcount r) - 1"

definition rq_alive :: "request_data_wrapper \<Rightarrow> bool" where
  "rq_alive r \<longleftrightarrow> 0 < unat (rdw_refcount r)"

definition rq_room :: "request_data_wrapper \<Rightarrow> bool" where
  "rq_room r \<longleftrightarrow> unat (rdw_refcount r) + 1 < 2 ^ 64"

lemma u64_inc_ok: "unat x + 1 < 2 ^ 64 \<Longrightarrow> u64_inc x = Inr (x + 1) \<and> unat (x + 1) = unat x + 1"
  by (simp add: u64_inc_def unat_word_ariths)

lemma u64_dec_ok: "0 < unat x \<Longrightarrow> u64_dec x = Inr (x - 1) \<and> unat (x - 1) = unat x - 1"
  by (auto simp: u64_dec_def unat_sub word_le_nat_alt)

lemma inc_ref_ok:
  assumes "rq_alive r" and "rq_room r"
  shows "\<exists>r'. request_inc_ref dbg r = Inr r' \<and> unat (rdw_refcount r') = unat (rdw_refcount r) + 1"
proof -
  have "rdw_refcount r \<noteq> 0" using assms(1) by (auto simp: rq_alive_def)
  with u64_inc_ok [of "rdw_refcount r"] assms(2) show ?thesis
    by (simp add: request_inc_ref_def atomic_relaxed_op_unless_def rq_room_def)
qed

lemma dec_ref_ok:
  assumes "1 < unat (rdw_refcount r)"
  shows "\<exists>r'. request_dec_ref dbg r = Inr r' \<and> unat (rdw_refcount r') = unat (rdw_refcount r) - 1"
proof -
  have d: "u64_dec (rdw_refcount r) = Inr (rdw_refcount r - 1)" "unat (rdw_refcount r - 1) = unat (rdw_refcount r) - 1"
    using u64_dec_ok [of "rdw_refcount r"] assms by simp_all
  have "rdw_refcount r - 1 \<noteq> 0" using d(2) assms by (metis less_numeral_extra(3) unat_0 zero_less_diff)
  with d show ?thesis
    by (simp add: request_dec_ref_def atomic_relaxed_op_return_def)
qed

interpretation request: always_ref_counted "request_inc_ref dbg" "request_dec_ref dbg" rq_refs rq_alive rq_room for dbg
proof
  fix s assume "rq_alive s" "rq_room s"
  with inc_ref_ok [OF this, of dbg] show "\<exists>s'. request_inc_ref dbg s = Inr s' \<and> rq_alive s' \<and> rq_refs s' = Suc (rq_refs s)"
    by (auto simp: rq_alive_def rq_refs_def)
next
  fix s assume "rq_alive s" "0 < rq_refs s"
  then have "1 < unat (rdw_refcount s)" by (simp add: rq_refs_def)
  from dec_ref_ok [OF this, of dbg] this
  show "\<exists>s'. request_dec_ref dbg s = Inr s' \<and> rq_refs s' = rq_refs s - 1 \<and> (1 < rq_refs s \<longrightarrow> rq_alive s')"
    by (auto simp: rq_alive_def rq_refs_def)
qed







section \<open>Properties\<close>



text \<open>
  a driver that holds one \<open>ARef\<close> of a queued request and clones and drops references in any order, never using
  one it does not have, never makes the count wrap or reach zero: the program runs without a panic and the
  count at its end is one more than the references it still holds.
\<close>

lemma request_aref_balanced:
  assumes "aref_held xs 1 = Some k" and "length xs + 3 < 2 ^ 64"
  shows "\<exists>r. aref_run (request_inc_ref dbg) (request_dec_ref dbg) xs (queue_rq_prepare r0) = Inr r \<and>
    rq_refs r = k"
proof -
  let ?r = "queue_rq_prepare r0"
  have r: "rq_refs ?r = 1" "rq_alive ?r" by (simp_all add: rq_refs_def rq_alive_def queue_rq_prepare_def)
  have room: "rq_room s" if "rq_alive s" "rq_refs s \<le> 1 + length xs" for s
    using that assms(2) by (auto simp: rq_room_def rq_refs_def)
  have "\<exists>s'. aref_run (request_inc_ref dbg) (request_dec_ref dbg) xs ?r = Inr s' \<and> rq_refs s' + 1 = rq_refs ?r + k \<and>
      (0 < rq_refs s' \<longrightarrow> rq_alive s')"
    by (rule request.aref_run_ok [of 1 xs]) (use room r assms(1) in auto)
  with r(1) show ?thesis by auto
qed

end
