(* ===== verification/Kernel_Str.thy ===== *)
theory Kernel_Str
  imports KVec
begin

text \<open>
  \<open>rust/src/str.rs\<close>: byte strings, C strings and their escaped output, the bounded formatters, and the
  owned \<open>CString\<close>.

  A string is a list of bytes. The output of \<open>Display\<close> and \<open>Debug\<close> is the bytes written. The formatters
  are the three addresses of the source; the memory they write is a block of bytes that starts at the
  address \<open>base\<close>, so that a write outside it is \<open>UB\<close>. The arguments of a format string are the pieces that
  formatting writes, and whether a nested \<open>Display\<close> fails in the end; as the code formats them twice, the
  two passes need not agree. \<open>strlen\<close> and \<open>memchr\<close> are parameters.
\<close>

section \<open>Byte strings\<close>

type_synonym bytes = "u8 list"

definition bstr_len :: "bytes \<Rightarrow> usize" where
  "bstr_len b = length b"

definition bstr_is_empty :: "bytes \<Rightarrow> bool" where
  "bstr_is_empty b \<longleftrightarrow> bstr_len b = 0"

definition hex_digit :: "u8 \<Rightarrow> u8" where
  "hex_digit d = (if d < 10 then 48 + d else 87 + d)"

text \<open>The format \<open>\x{b:02x}\<close>: a backslash, an \<open>x\<close> and two hexadecimal digits.\<close>

definition hex_escape :: "u8 \<Rightarrow> bytes" where
  "hex_escape b = [92, 120, hex_digit (b div 16), hex_digit (b mod 16)]"

definition bstr_display_byte :: "u8 \<Rightarrow> bytes" where
  "bstr_display_byte b =
     (if b = 9 then [92, 116] else if b = 10 then [92, 110] else if b = 13 then [92, 114]
      else if 0x20 \<le> b \<and> b \<le> 0x7e then [b] else hex_escape b)"

definition bstr_display :: "bytes \<Rightarrow> bytes" where
  "bstr_display bs = concat (map bstr_display_byte bs)"

definition bstr_debug_byte :: "u8 \<Rightarrow> bytes" where
  "bstr_debug_byte b =
     (if b = 9 then [92, 116] else if b = 10 then [92, 110] else if b = 13 then [92, 114]
      else if b = 34 then [92, 34] else if b = 92 then [92, 92]
      else if 0x20 \<le> b \<and> b \<le> 0x7e then [b] else hex_escape b)"

definition bstr_debug :: "bytes \<Rightarrow> bytes" where
  "bstr_debug bs = [34] @ concat (map bstr_debug_byte bs) @ [34]"

section \<open>C strings\<close>

datatype cstr_convert_error = InteriorNul | NotNulTerminated

fun error_from_cstr_convert :: "cstr_convert_error \<Rightarrow> error" where
  "error_from_cstr_convert _ = EINVAL"

text \<open>A \<open>CStr\<close> is its bytes with the terminating NUL.\<close>

type_synonym cstr = bytes

definition cstr_inv :: "cstr \<Rightarrow> bool" where
  "cstr_inv s \<longleftrightarrow> s \<noteq> [] \<and> last s = 0 \<and> 0 \<notin> set (butlast s)"

definition cstr_len_with_nul :: "cstr \<Rightarrow> usize exec" where
  "cstr_len_with_nul s = (if s = [] then Inl UB else Inr (length s))"

definition cstr_len :: "cstr \<Rightarrow> usize exec" where
  "cstr_len s = exec_bind (cstr_len_with_nul s) (\<lambda>n. Inr (n - 1))"

definition cstr_is_empty :: "cstr \<Rightarrow> bool exec" where
  "cstr_is_empty s = exec_bind (cstr_len s) (\<lambda>n. Inr (n = 0))"

text \<open>The loop over the bytes before the last one, and the checked constructor.\<close>

function interior_nul_loop :: "bytes \<Rightarrow> nat \<Rightarrow> bool" where
  "interior_nul_loop bs i =
     (if i + 1 < length bs then if bs ! i = 0 then True else interior_nul_loop bs (i + 1) else False)"
  by pat_completeness auto
termination
  by (relation "measure (\<lambda>(bs, i). length bs - i)") auto

declare interior_nul_loop.simps [simp del]

definition cstr_from_bytes_with_nul :: "bytes \<Rightarrow> (cstr, cstr_convert_error) result" where
  "cstr_from_bytes_with_nul bs =
     (if bs = [] then Err NotNulTerminated
      else if bs ! (length bs - 1) \<noteq> 0 then Err NotNulTerminated
      else if interior_nul_loop bs 0 then Err InteriorNul
      else Ok bs)"

text \<open>\<open>from_char_ptr\<close>: memory is read byte by byte; \<open>strlen\<close> is the C function.\<close>

definition strlen_ok :: "((nat \<Rightarrow> u8) \<Rightarrow> addr \<Rightarrow> nat) \<Rightarrow> (nat \<Rightarrow> u8) \<Rightarrow> addr \<Rightarrow> bool" where
  "strlen_ok strlen m p \<longleftrightarrow> m (p + strlen m p) = 0 \<and> (\<forall>i < strlen m p. m (p + i) \<noteq> 0)"

definition cstr_from_char_ptr :: "((nat \<Rightarrow> u8) \<Rightarrow> addr \<Rightarrow> nat) \<Rightarrow> (nat \<Rightarrow> u8) \<Rightarrow> addr \<Rightarrow> cstr" where
  "cstr_from_char_ptr strlen m p = map (\<lambda>i. m (p + i)) [0..<strlen m p + 1]"

definition cstr_as_bytes :: "cstr \<Rightarrow> bytes exec" where
  "cstr_as_bytes s = exec_bind (cstr_len s) (\<lambda>n. Inr (take n s))"

definition cstr_as_bytes_with_nul :: "cstr \<Rightarrow> bytes" where
  "cstr_as_bytes_with_nul s = s"

text \<open>\<open>&s[start..]\<close>: panics past the end of the bytes without the NUL.\<close>

definition cstr_index_from :: "cstr \<Rightarrow> nat \<Rightarrow> cstr exec" where
  "cstr_index_from s start =
     exec_bind (cstr_as_bytes s) (\<lambda>b.
     exec_bind (require Panic (start \<le> length b)) (\<lambda>_.
     exec_bind (require Panic (start \<le> length s)) (\<lambda>_.
     Inr (drop start s))))"

definition to_lower :: "u8 \<Rightarrow> u8" where
  "to_lower b = (if 65 \<le> b \<and> b \<le> 90 then b + 32 else b)"

definition to_upper :: "u8 \<Rightarrow> u8" where
  "to_upper b = (if 97 \<le> b \<and> b \<le> 122 then b - 32 else b)"

definition cstr_make_ascii_lowercase :: "cstr \<Rightarrow> cstr" where
  "cstr_make_ascii_lowercase s = map to_lower s"

definition cstr_make_ascii_uppercase :: "cstr \<Rightarrow> cstr" where
  "cstr_make_ascii_uppercase s = map to_upper s"

definition cstr_display_byte :: "u8 \<Rightarrow> bytes" where
  "cstr_display_byte c = (if 0x20 \<le> c \<and> c < 0x7f then [c] else hex_escape c)"

definition cstr_display :: "cstr \<Rightarrow> bytes exec" where
  "cstr_display s = exec_bind (cstr_as_bytes s) (\<lambda>b. Inr (concat (map cstr_display_byte b)))"

definition cstr_debug_byte :: "u8 \<Rightarrow> bytes" where
  "cstr_debug_byte c =
     (if c = 34 then [92, 34] else if 0x20 \<le> c \<and> c \<le> 0x7e then [c] else hex_escape c)"

definition cstr_debug :: "cstr \<Rightarrow> bytes exec" where
  "cstr_debug s =
     exec_bind (cstr_as_bytes s) (\<lambda>b. Inr ([34] @ concat (map cstr_debug_byte b) @ [34]))"

section \<open>Formatters\<close>

record raw_formatter =
  rf_beg :: usize
  rf_pos :: usize
  rf_end :: usize

definition raw_formatter_new :: raw_formatter where
  "raw_formatter_new = \<lparr>rf_beg = 0, rf_pos = 0, rf_end = 0\<rparr>"

definition raw_formatter_from_ptrs :: "addr \<Rightarrow> addr \<Rightarrow> raw_formatter" where
  "raw_formatter_from_ptrs pos ed = \<lparr>rf_beg = pos, rf_pos = pos, rf_end = ed\<rparr>"

definition raw_formatter_from_buffer :: "addr \<Rightarrow> usize \<Rightarrow> raw_formatter" where
  "raw_formatter_from_buffer buf len = \<lparr>rf_beg = buf, rf_pos = buf, rf_end = saturating_add buf len\<rparr>"

definition bytes_written :: "raw_formatter \<Rightarrow> usize" where
  "bytes_written f = rf_pos f - rf_beg f"

text \<open>The formatter and the memory it writes, a block at address \<open>base\<close>.\<close>

type_synonym fmt_state = "raw_formatter \<times> u8 block"

definition raw_write_str ::
  "addr \<Rightarrow> fmt_state \<Rightarrow> bytes \<Rightarrow> ((unit, error_source) result \<times> fmt_state) exec" where
  "raw_write_str base st s =
     (case st of (f, m) \<Rightarrow>
      let pos_new = saturating_add (rf_pos f) (length s);
          len_to_copy = saturating_sub (min pos_new (rf_end f)) (rf_pos f)
      in exec_bind (if len_to_copy > 0
                    then exec_bind (require UB (base \<le> rf_pos f)) (\<lambda>_.
                         slots_write 1 m (rf_pos f - base) (take len_to_copy s))
                    else Inr m)
           (\<lambda>m. Inr (Ok (), f\<lparr>rf_pos := pos_new\<rparr>, m)))"

definition formatter_write_str ::
  "addr \<Rightarrow> fmt_state \<Rightarrow> bytes \<Rightarrow> ((unit, error_source) result \<times> fmt_state) exec" where
  "formatter_write_str base st s =
     exec_bind (raw_write_str base st s) (\<lambda>(r, st).
     case r of
       Err e \<Rightarrow> Inr (Err e, st)
     | Ok _ \<Rightarrow> Inr (if rf_pos (fst st) > rf_end (fst st) then Err FmtError else Ok (), st))"

record fmt_args =
  fa_pieces :: "bytes list"
  fa_fails :: bool

text \<open>\<open>write_fmt\<close>: the pieces in order, up to the first error.\<close>

fun write_pieces ::
  "('s \<Rightarrow> bytes \<Rightarrow> ((unit, error_source) result \<times> 's) exec) \<Rightarrow> bool \<Rightarrow> 's \<Rightarrow> bytes list \<Rightarrow>
   ((unit, error_source) result \<times> 's) exec" where
  "write_pieces w fails st [] = Inr (if fails then Err FmtError else Ok (), st)"
| "write_pieces w fails st (p # ps) =
     exec_bind (w st p) (\<lambda>(r, st).
     case r of Err e \<Rightarrow> Inr (Err e, st) | Ok _ \<Rightarrow> write_pieces w fails st ps)"

definition write_fmt ::
  "('s \<Rightarrow> bytes \<Rightarrow> ((unit, error_source) result \<times> 's) exec) \<Rightarrow> 's \<Rightarrow> fmt_args \<Rightarrow>
   ((unit, error_source) result \<times> 's) exec" where
  "write_fmt w st args = write_pieces w (fa_fails args) st (fa_pieces args)"

text \<open>\<open>f.write_fmt(args)?\<close> followed by \<open>f.write_str("\0")?\<close>.\<close>

definition write_fmt_nul ::
  "('s \<Rightarrow> bytes \<Rightarrow> ((unit, error_source) result \<times> 's) exec) \<Rightarrow> 's \<Rightarrow> fmt_args \<Rightarrow>
   ((unit, error_source) result \<times> 's) exec" where
  "write_fmt_nul w st args =
     exec_bind (write_fmt w st args) (\<lambda>(r, st).
     case r of Err e \<Rightarrow> Inr (Err e, st) | Ok _ \<Rightarrow> w st [0])"

section \<open>CString\<close>

type_synonym cstring = "u8 vec"

definition cstring_deref :: "cstring \<Rightarrow> cstr exec" where
  "cstring_deref s = vec_deref 1 s"

definition memchr_ok :: "(bytes \<Rightarrow> u8 \<Rightarrow> nat option) \<Rightarrow> bool" where
  "memchr_ok memchr \<longleftrightarrow> (\<forall>bs c. memchr bs c = None \<longleftrightarrow> c \<notin> set bs)"

text \<open>
  \<open>args1\<close> and \<open>args2\<close> are what the two passes over the arguments write, \<open>base\<close> the address of the buffer.
\<close>

definition cstring_try_from_fmt ::
  "u8 realloc_fn \<Rightarrow> (bytes \<Rightarrow> u8 \<Rightarrow> nat option) \<Rightarrow> addr \<Rightarrow> flags \<Rightarrow> fmt_args \<Rightarrow> fmt_args \<Rightarrow>
   (cstring, error) result exec" where
  "cstring_try_from_fmt A memchr base fl args1 args2 =
     exec_bind (write_fmt_nul (raw_write_str 0) (raw_formatter_new, dangling_from_layout unit_layout) args1)
       (\<lambda>(r, f, _). case r of Err e \<Rightarrow> Inr (Err (error_from e)) | Ok _ \<Rightarrow>
     (let sz = bytes_written f in
      exec_bind (vec_with_capacity A 1 1 sz fl) (\<lambda>r.
      case r of Err e \<Rightarrow> Inr (Err (error_from e)) | Ok buf \<Rightarrow>
      exec_bind (write_fmt_nul (formatter_write_str base)
                   (raw_formatter_from_buffer base sz, v_buf buf) args2) (\<lambda>(r, f, m).
      case r of Err e \<Rightarrow> Inr (Err (error_from e)) | Ok _ \<Rightarrow>
      exec_bind (vec_inc_len 1 (buf\<lparr>v_buf := m\<rparr>) (bytes_written f)) (\<lambda>buf.
      exec_bind (slots_read 1 (v_buf buf) 0 (bytes_written f - 1)) (\<lambda>bs.
      if memchr bs 0 \<noteq> None then Inr (Err EINVAL) else Inr (Ok buf)))))))"

definition cstring_try_from_cstr ::
  "u8 realloc_fn \<Rightarrow> flags \<Rightarrow> cstr \<Rightarrow> (cstring, error_source) result exec" where
  "cstring_try_from_cstr A fl s =
     exec_bind (vec_extend_from_slice A 1 1 id vec_new (cstr_as_bytes_with_nul s) fl) (\<lambda>(r, buf).
     case r of Err e \<Rightarrow> Inr (Err e) | Ok _ \<Rightarrow> Inr (Ok buf))"

definition cstr_to_cstring :: "u8 realloc_fn \<Rightarrow> flags \<Rightarrow> cstr \<Rightarrow> (cstring, error_source) result exec" where
  "cstr_to_cstring A fl s = cstring_try_from_cstr A fl s"

text \<open>\<open>deref_mut\<close>: \<open>f\<close> is what the borrower does to the bytes in place.\<close>

definition cstring_deref_mut :: "cstring \<Rightarrow> (cstr \<Rightarrow> cstr) \<Rightarrow> cstring exec" where
  "cstring_deref_mut s f =
     exec_bind (vec_deref 1 s) (\<lambda>bs.
     exec_bind (slots_write 1 (v_buf s) 0 (f bs)) (\<lambda>b. Inr (s\<lparr>v_buf := b\<rparr>)))"

definition cstr_to_ascii_lowercase ::
  "u8 realloc_fn \<Rightarrow> flags \<Rightarrow> cstr \<Rightarrow> (cstring, error_source) result exec" where
  "cstr_to_ascii_lowercase A fl s =
     exec_bind (cstr_to_cstring A fl s) (\<lambda>r. exec_try r (\<lambda>c.
     exec_bind (cstring_deref_mut c cstr_make_ascii_lowercase) (\<lambda>c. Inr (Ok c))))"

definition cstr_to_ascii_uppercase ::
  "u8 realloc_fn \<Rightarrow> flags \<Rightarrow> cstr \<Rightarrow> (cstring, error_source) result exec" where
  "cstr_to_ascii_uppercase A fl s =
     exec_bind (cstr_to_cstring A fl s) (\<lambda>r. exec_try r (\<lambda>c.
     exec_bind (cstring_deref_mut c cstr_make_ascii_uppercase) (\<lambda>c. Inr (Ok c))))"

section \<open>Checked construction\<close>

lemma interior_nul_loop_iff:
  "interior_nul_loop bs i \<longleftrightarrow> (\<exists>j. i \<le> j \<and> j + 1 < length bs \<and> bs ! j = 0)"
proof (induction bs i rule: interior_nul_loop.induct)
  case (1 bs i)
  show ?case
  proof (cases "i + 1 < length bs \<and> bs ! i \<noteq> 0")
    case True
    then have "interior_nul_loop bs i \<longleftrightarrow> (\<exists>j. i + 1 \<le> j \<and> j + 1 < length bs \<and> bs ! j = 0)"
      using 1 by (subst interior_nul_loop.simps) simp
    also have "\<dots> \<longleftrightarrow> (\<exists>j. i \<le> j \<and> j + 1 < length bs \<and> bs ! j = 0)"
      using True by (metis Suc_eq_plus1 Suc_leI le_neq_implies_less Suc_leD)
    finally show ?thesis .
  next
    case False
    then show ?thesis by (subst interior_nul_loop.simps) auto
  qed
qed

lemma butlast_zero_iff: "0 \<in> set (butlast bs) \<longleftrightarrow> (\<exists>j. j + 1 < length bs \<and> bs ! j = (0 :: u8))"
proof
  assume "\<exists>j. j + 1 < length bs \<and> bs ! j = 0"
  then obtain j where j: "j + 1 < length bs" "bs ! j = 0" by blast
  then have "j < length (butlast bs)" "butlast bs ! j = 0" by (simp_all add: nth_butlast)
  then show "0 \<in> set (butlast bs)" by (metis nth_mem)
next
  assume "0 \<in> set (butlast bs)"
  then obtain j where "j < length (butlast bs)" "butlast bs ! j = 0" by (metis in_set_conv_nth)
  then show "\<exists>j. j + 1 < length bs \<and> bs ! j = 0"
    by (intro exI [of _ j]) (simp add: nth_butlast)
qed

lemma cstr_as_bytes_ok: "cstr_inv s \<Longrightarrow> cstr_as_bytes s = Inr (butlast s)"
  by (simp add: cstr_as_bytes_def cstr_len_def cstr_len_with_nul_def cstr_inv_def butlast_conv_take)

section \<open>Escapes\<close>

definition printable :: "u8 \<Rightarrow> bool" where
  "printable b \<longleftrightarrow> 0x20 \<le> b \<and> b \<le> 0x7e"

definition unhex :: "u8 \<Rightarrow> u8" where
  "unhex c = (if c < 58 then c - 48 else c - 87)"

text \<open>A reader for the escapes that \<open>Debug\<close> writes.\<close>

fun unescape :: "bytes \<Rightarrow> bytes option" where
  "unescape [] = Some []"
| "unescape (c # cs) =
     (if c \<noteq> 92 then map_option ((#) c) (unescape cs)
      else case cs of
             [] \<Rightarrow> None
           | e # r \<Rightarrow>
               if e = 116 then map_option ((#) 9) (unescape r)
               else if e = 110 then map_option ((#) 10) (unescape r)
               else if e = 114 then map_option ((#) 13) (unescape r)
               else if e = 34 then map_option ((#) 34) (unescape r)
               else if e = 92 then map_option ((#) 92) (unescape r)
               else if e = 120 then
                 (case r of
                    h # l # r' \<Rightarrow> map_option ((#) (unhex h * 16 + unhex l)) (unescape r')
                  | _ \<Rightarrow> None)
               else None)"

lemma nibble_cases:
  assumes "d < (16 :: u8)"
  shows "d \<in> {0, 1, 2, 3, 4, 5, 6, 7, 8, 9, 10, 11, 12, 13, 14, 15}"
proof -
  have "unat d < 16" using assms by (simp add: word_less_nat_alt)
  then have "unat d \<in> {0, 1, 2, 3, 4, 5, 6, 7, 8, 9, 10, 11, 12, 13, 14, 15}"
    unfolding insert_iff empty_iff by presburger
  then have "word_of_nat (unat d) \<in> (word_of_nat ` {0, 1, 2, 3, 4, 5, 6, 7, 8, 9, 10, 11, 12, 13, 14, 15} :: u8 set)"
    by (rule imageI)
  then show ?thesis by simp
qed

lemma unhex_digit: "d < 16 \<Longrightarrow> unhex (hex_digit d) = d"
  by (drule nibble_cases) (auto simp: hex_digit_def unhex_def)

lemma printable_digit: "d < 16 \<Longrightarrow> printable (hex_digit d)"
  by (drule nibble_cases) (auto simp: hex_digit_def printable_def)

lemma nibbles: "b div 16 < (16 :: u8)" "b mod 16 < (16 :: u8)" "b div 16 * 16 + b mod 16 = (b :: u8)"
proof -
  have "unat b < 256" using unsigned_less [of b, where ?'a = nat] by simp
  then show "b div 16 < 16" by (simp add: word_less_nat_alt unat_div less_mult_imp_div_less)
  show "b mod 16 < 16" by (simp add: word_less_nat_alt unat_mod)
  show "b div 16 * 16 + b mod 16 = b" by (rule div_mult_mod_eq)
qed

lemma unescape_byte: "unescape (bstr_debug_byte b @ cs) = map_option ((#) b) (unescape cs)"
  using nibbles [of b] by (simp add: bstr_debug_byte_def hex_escape_def unhex_digit)

lemma unescape_debug: "unescape (concat (map bstr_debug_byte bs)) = Some bs"
  by (induction bs) (simp_all add: unescape_byte del: unescape.simps(2))

lemma printable_escape:
  "list_all printable (hex_escape b)" "list_all printable (bstr_display_byte b)"
  "list_all printable (bstr_debug_byte b)" "list_all printable (cstr_display_byte b)"
  "list_all printable (cstr_debug_byte b)"
proof -
  show hex: "list_all printable (hex_escape b)"
    using nibbles [of b] by (simp add: hex_escape_def printable_digit) (simp add: printable_def)
  have lt: "c \<le> 0x7e" if "c < 0x7f" for c :: u8
    using that by (simp add: word_less_nat_alt word_le_nat_alt)
  show "list_all printable (bstr_display_byte b)" "list_all printable (bstr_debug_byte b)"
    "list_all printable (cstr_display_byte b)" "list_all printable (cstr_debug_byte b)"
    using hex lt by (simp_all add: bstr_display_byte_def bstr_debug_byte_def cstr_display_byte_def
        cstr_debug_byte_def) (auto simp: printable_def)
qed

lemma printable_concat: "(\<And>b. list_all printable (f b)) \<Longrightarrow> list_all printable (concat (map f bs))"
  by (induction bs) simp_all

section \<open>Formatters\<close>

text \<open>A formatter over a buffer of \<open>sz\<close> bytes that has written \<open>ws\<close>.\<close>

definition fmt_rep :: "addr \<Rightarrow> nat \<Rightarrow> nat \<Rightarrow> fmt_state \<Rightarrow> bytes \<Rightarrow> bool" where
  "fmt_rep base sz bsz st ws \<longleftrightarrow>
     fst st = \<lparr>rf_beg = base, rf_pos = base + length ws, rf_end = base + sz\<rparr> \<and>
     length ws \<le> sz \<and> sz \<le> bsz \<and> b_size (snd st) = bsz \<and>
     (\<forall>i < length ws. b_mem (snd st) i = Some (ws ! i))"

lemma formatter_write_ok:
  assumes rep: "fmt_rep base sz bsz st ws" and room: "base + sz < usize_max"
  shows "\<exists>st'. formatter_write_str base st s =
             Inr (if length ws + length s \<le> sz then Ok () else Err FmtError, st') \<and>
           (length ws + length s \<le> sz \<longrightarrow> fmt_rep base sz bsz st' (ws @ s))"
proof -
  obtain m where st: "st = (\<lparr>rf_beg = base, rf_pos = base + length ws, rf_end = base + sz\<rparr>, m)"
    and len: "length ws \<le> sz" and sz: "sz \<le> bsz" "b_size m = bsz"
    and mem: "\<And>i. i < length ws \<Longrightarrow> b_mem m i = Some (ws ! i)"
    using rep by (cases st) (auto simp: fmt_rep_def)
  define n where "n = min (length s) (sz - length ws)"
  have copy: "saturating_sub (min (saturating_add (base + length ws) (length s)) (base + sz)) (base + length ws) = n"
    using room len by (auto simp: saturating_sub_def saturating_add_def n_def min_def)
  have le: "n \<le> length s" "length ws + n \<le> bsz" using len sz by (auto simp: n_def)
  let ?m = "m\<lparr>b_mem := mem_upd (b_mem m) (length ws) (take n s)\<rparr>"
  have wr: "slots_write 1 m (length ws) (take n s) = Inr ?m"
    by (rule slots_write_ok) (use le sz in \<open>simp add: slot_ok_def\<close>)
  let ?p = "saturating_add (base + length ws) (length s)"
  let ?f = "\<lparr>rf_beg = base, rf_pos = ?p, rf_end = base + sz\<rparr>"
  have raw: "raw_write_str base st s = Inr (Ok (), ?f, if n > 0 then ?m else m)"
    unfolding st raw_write_str_def prod.case Let_def raw_formatter.simps copy using wr by simp
  have ovf: "?p > base + sz \<longleftrightarrow> \<not> length ws + length s \<le> sz"
    using room by (auto simp: saturating_add_def)
  have "formatter_write_str base st s =
      Inr (if length ws + length s \<le> sz then Ok () else Err FmtError, ?f, if n > 0 then ?m else m)"
    unfolding formatter_write_str_def raw using ovf by simp
  moreover have "fmt_rep base sz bsz (?f, if n > 0 then ?m else m) (ws @ s)" if fit: "length ws + length s \<le> sz"
  proof -
    have "n = length s" using fit by (simp add: n_def)
    moreover have "?p = base + length (ws @ s)" using fit room by (simp add: saturating_add_def)
    ultimately show ?thesis
      using fit sz mem by (auto simp: fmt_rep_def mem_upd_def nth_append)
  qed
  ultimately show ?thesis by blast
qed

text \<open>
  A writer with room for \<open>cap\<close> bytes: a write that fits appends, one that does not fails. \<open>rep st ws\<close> says that \<open>ws\<close>
  has been written, \<open>ok\<close> which strings the writer takes, and \<open>safe\<close> what holds after a failed write too.
\<close>

definition fmt_post ::
  "('s \<Rightarrow> bytes \<Rightarrow> bool) \<Rightarrow> ('s \<Rightarrow> bool) \<Rightarrow> nat \<Rightarrow> bool \<Rightarrow> bytes \<Rightarrow> (unit, error_source) result \<Rightarrow> 's \<Rightarrow> bool" where
  "fmt_post rep safe cap fails ws r st \<longleftrightarrow> safe st \<and>
     (case r of
        Ok _ \<Rightarrow> \<not> fails \<and> rep st ws
      | Err e \<Rightarrow> e = FmtError \<and> (fails \<or> cap < length ws))"

locale bounded_writer =
  fixes w :: "'s \<Rightarrow> bytes \<Rightarrow> ((unit, error_source) result \<times> 's) exec" and rep :: "'s \<Rightarrow> bytes \<Rightarrow> bool"
    and safe :: "'s \<Rightarrow> bool" and cap :: nat and ok :: "bytes \<Rightarrow> bool"
  assumes rep_inv: "rep st ws \<Longrightarrow> safe st"
    and write_law: "rep st ws \<Longrightarrow> ok s \<Longrightarrow>
      \<exists>st'. w st s = Inr (if length ws + length s \<le> cap then Ok () else Err FmtError, st') \<and> safe st' \<and>
        (length ws + length s \<le> cap \<longrightarrow> rep st' (ws @ s))"
begin

lemma pieces_ok:
  assumes "rep st ws" and "\<forall>p \<in> set ps. ok p"
  shows "\<exists>r st'. write_pieces w fails st ps = Inr (r, st') \<and> fmt_post rep safe cap fails (ws @ concat ps) r st'"
  using assms
proof (induction ps arbitrary: st ws)
  case Nil
  then show ?case by (simp add: fmt_post_def rep_inv)
next
  case (Cons p ps)
  obtain st1 where st1: "w st p = Inr (if length ws + length p \<le> cap then Ok () else Err FmtError, st1)"
    "safe st1" "length ws + length p \<le> cap \<Longrightarrow> rep st1 (ws @ p)"
    using write_law [OF Cons.prems(1), of p] Cons.prems(2) by auto
  show ?case
  proof (cases "length ws + length p \<le> cap")
    case True
    from Cons.IH [OF st1(3) [OF True]] st1(1) True Cons.prems(2) show ?thesis by simp
  next
    case False
    with st1(1,2) show ?thesis by (simp add: fmt_post_def)
  qed
qed

lemma fmt_nul_ok:
  assumes rep: "rep st []" and pieces: "\<forall>p \<in> set (fa_pieces args). ok p" and nul: "ok [0]"
  shows "\<exists>r st'. write_fmt_nul w st args = Inr (r, st') \<and>
           fmt_post rep safe cap (fa_fails args) (concat (fa_pieces args) @ [0]) r st'"
proof -
  obtain r st1 where st1: "write_pieces w (fa_fails args) st (fa_pieces args) = Inr (r, st1)"
    "fmt_post rep safe cap (fa_fails args) (concat (fa_pieces args)) r st1"
    using pieces_ok [OF rep pieces, of "fa_fails args"] by auto
  show ?thesis
  proof (cases r)
    case (Ok u)
    with st1(2) have r1: "rep st1 (concat (fa_pieces args))" "\<not> fa_fails args"
      by (simp_all add: fmt_post_def)
    obtain st2 where "w st1 [0] = Inr (if length (concat (fa_pieces args)) + 1 \<le> cap then Ok () else Err FmtError, st2)"
      "safe st2" "length (concat (fa_pieces args)) + 1 \<le> cap \<longrightarrow> rep st2 (concat (fa_pieces args) @ [0])"
      using write_law [OF r1(1) nul] by auto
    with st1(1) Ok r1(2) show ?thesis
      by (simp add: write_fmt_nul_def write_fmt_def fmt_post_def not_le)
  next
    case (Err e)
    with st1 show ?thesis by (auto simp: write_fmt_nul_def write_fmt_def fmt_post_def)
  qed
qed

end

interpretation formatter: bounded_writer "formatter_write_str base"
  "\<lambda>st ws. base + sz < usize_max \<and> fmt_rep base sz bsz st ws" "\<lambda>_. True" sz "\<lambda>_. True" for base sz bsz
  by unfold_locales (simp, use formatter_write_ok in blast)

text \<open>Without a buffer, only the length is counted.\<close>

lemma raw_count_ok:
  "raw_write_str 0 (\<lparr>rf_beg = 0, rf_pos = p, rf_end = 0\<rparr>, m) s =
   Inr (Ok (), \<lparr>rf_beg = 0, rf_pos = saturating_add p (length s), rf_end = 0\<rparr>, m)"
  by (simp add: raw_write_str_def saturating_sub_def)

lemma raw_count_pieces:
  "p \<le> usize_max \<Longrightarrow>
   write_pieces (raw_write_str 0) fails (\<lparr>rf_beg = 0, rf_pos = p, rf_end = 0\<rparr>, m) ps =
   Inr (if fails then Err FmtError else Ok (),
     \<lparr>rf_beg = 0, rf_pos = saturating_add p (length (concat ps)), rf_end = 0\<rparr>, m)"
proof (induction ps arbitrary: p)
  case Nil
  then show ?case by (simp add: saturating_add_def)
next
  case (Cons q ps)
  have "saturating_add (saturating_add p (length q)) (length (concat ps)) =
      saturating_add p (length (concat (q # ps)))"
    by (simp add: saturating_add_def min_def)
  with Cons.IH [OF saturating_add_bound, of p "length q"] show ?case by (simp add: raw_count_ok)
qed

lemma raw_count_fmt_nul:
  "write_fmt_nul (raw_write_str 0) (raw_formatter_new, m) args =
   Inr (if fa_fails args then Err FmtError else Ok (),
     \<lparr>rf_beg = 0, rf_pos = min (length (concat (fa_pieces args)) + (if fa_fails args then 0 else 1)) usize_max,
      rf_end = 0\<rparr>, m)"
  using raw_count_pieces [of 0 "fa_fails args" m "fa_pieces args"]
  by (auto simp: write_fmt_nul_def write_fmt_def raw_formatter_new_def raw_count_ok saturating_add_def min_def)

section \<open>CString\<close>

lemma type_ok_byte [simp]: "type_ok 1 1"
  by (simp add: type_ok_def isize_max_def)

text \<open>The bytes of a formatter become the contents of the vector whose spare capacity it wrote.\<close>

lemma fmt_rep_vec:
  assumes v: "vec_inv 1 v" "sz \<le> vec_capacity 1 v" and rep: "fmt_rep base sz (b_size (v_buf v)) (f, m) ws"
    and v0: "v_len v = 0"
  shows "vec_inc_len 1 (v\<lparr>v_buf := m\<rparr>) (bytes_written f) = Inr (v\<lparr>v_buf := m, v_len := length ws\<rparr>)"
    and "vec_inv 1 (v\<lparr>v_buf := m, v_len := length ws\<rparr>)"
    and "vec_list (v\<lparr>v_buf := m, v_len := length ws\<rparr>) = ws"
    and "bytes_written f = length ws"
proof -
  have f: "bytes_written f = length ws" "length ws \<le> sz"
    using rep by (auto simp: fmt_rep_def bytes_written_def)
  then show "bytes_written f = length ws" by simp
  show "vec_inc_len 1 (v\<lparr>v_buf := m\<rparr>) (bytes_written f) = Inr (v\<lparr>v_buf := m, v_len := length ws\<rparr>)"
    using f v v0 by simp
  show "vec_inv 1 (v\<lparr>v_buf := m, v_len := length ws\<rparr>)"
    by (rule vec_inv_buf [OF v(1)]) (use rep f v in \<open>auto simp: fmt_rep_def\<close>)
  show "vec_list (v\<lparr>v_buf := m, v_len := length ws\<rparr>) = ws"
    by (rule nth_equalityI) (use rep in \<open>auto simp: fmt_rep_def vec_list_nth\<close>)
qed

lemma capacity_le_block: "vec_inv 1 v \<Longrightarrow> vec_capacity 1 v \<le> b_size (v_buf v)"
  by (simp add: vec_inv_def vec_capacity_def vec_is_zst_def array_layout_len_def)

lemma cstring_from_fmt_ok:
  assumes A: "allocator 1 A" and mc: "memchr_ok memchr"
    and room: "base + length (concat (fa_pieces args1)) + 1 < usize_max"
  shows "\<exists>r. cstring_try_from_fmt A memchr base fl args1 args2 = Inr r \<and>
    (case r of
       Ok s \<Rightarrow> vec_inv 1 s \<and> vec_list s = concat (fa_pieces args2) @ [0] \<and> cstr_inv (vec_list s)
     | Err e \<Rightarrow> e = EINVAL \<and> (fa_fails args1 \<or> fa_fails args2 \<or> 0 \<in> set (concat (fa_pieces args2)) \<or>
                  length (concat (fa_pieces args1)) < length (concat (fa_pieces args2)))
               \<or> (\<exists>e'. e = error_from e' \<and>
                    vec_with_capacity A 1 1 (length (concat (fa_pieces args1)) + 1) fl = Inr (Err e')))"
proof (cases "fa_fails args1")
  case True
  then show ?thesis by (simp add: cstring_try_from_fmt_def raw_count_fmt_nul)
next
  case ok1: False
  let ?bs = "concat (fa_pieces args2)" and ?sz = "length (concat (fa_pieces args1)) + 1"
  have sz: "min ?sz usize_max = ?sz" using room by simp
  note start = raw_count_fmt_nul [of _ args1, unfolded if_not_P [OF ok1] sz]
  consider (fail) e where "vec_with_capacity A 1 1 ?sz fl = Inr (Err e)"
    | (alloc) v where "vec_with_capacity A 1 1 ?sz fl = Inr (Ok v)" "vec_inv 1 v" "vec_list v = []"
        "?sz \<le> vec_capacity 1 v"
    using allocator.with_capacity_ok [OF A type_ok_byte] by blast
  then show ?thesis
  proof cases
    case fail
    then show ?thesis by (auto simp: cstring_try_from_fmt_def start bytes_written_def)
  next
    case alloc
    have v0: "v_len v = 0" using alloc(3) by (simp flip: length_vec_list)
    have rep: "fmt_rep base ?sz (b_size (v_buf v)) (raw_formatter_from_buffer base ?sz, v_buf v) []"
      using alloc(4) capacity_le_block [OF alloc(2)] room
      by (simp add: fmt_rep_def raw_formatter_from_buffer_def saturating_add_def)
    obtain r f m where w: "write_fmt_nul (formatter_write_str base)
        (raw_formatter_from_buffer base ?sz, v_buf v) args2 = Inr (r, f, m)"
      "fmt_post (\<lambda>st ws. base + ?sz < usize_max \<and> fmt_rep base ?sz (b_size (v_buf v)) st ws) (\<lambda>_. True) ?sz
        (fa_fails args2) (?bs @ [0]) r (f, m)"
      using formatter.fmt_nul_ok [of base ?sz "b_size (v_buf v)" "(raw_formatter_from_buffer base ?sz, v_buf v)" args2]
        rep room by auto
    show ?thesis
    proof (cases r)
      case (Err e)
      with w alloc(1) ok1 show ?thesis
        by (auto simp: cstring_try_from_fmt_def start bytes_written_def fmt_post_def)
    next
      case (Ok u)
      then have rep': "fmt_rep base ?sz (b_size (v_buf v)) (f, m) (?bs @ [0])"
        using w(2) by (simp add: fmt_post_def)
      note vec = fmt_rep_vec [OF alloc(2,4) rep' v0]
      let ?v = "v\<lparr>v_buf := m, v_len := length (?bs @ [0])\<rparr>"
      have read: "slots_read 1 m 0 (length ?bs) = Inr ?bs"
        using slots_read_vec [OF vec(2), of 0 "length ?bs"] vec(3) by simp
      have "cstring_try_from_fmt A memchr base fl args1 args2 =
          Inr (if memchr ?bs 0 \<noteq> None then Err EINVAL else Ok ?v)"
        using alloc(1) w(1) Ok vec(1,4) read
        by (simp add: cstring_try_from_fmt_def start bytes_written_def [of "_\<lparr>rf_beg := 0\<rparr>"]
            bytes_written_def [of "\<lparr>rf_beg = 0, rf_pos = _, rf_end = 0\<rparr>"])
      with mc vec(2,3) show ?thesis
        by (auto simp: memchr_ok_def cstr_inv_def butlast_append)
    qed
  qed
qed

text \<open>Case folding in place neither introduces nor removes a NUL byte.\<close>

lemma fold_case_zero [simp]: "to_lower b = 0 \<longleftrightarrow> b = 0" "to_upper b = 0 \<longleftrightarrow> b = 0"
proof -
  have lt: "unat b < 256" using unsigned_less [of b, where ?'a = nat] by simp
  show "to_lower b = 0 \<longleftrightarrow> b = 0"
  proof (cases "65 \<le> b \<and> b \<le> 90")
    case True
    then have "unat (b + 32) = unat b + 32" by (simp add: unat_word_ariths word_le_nat_alt)
    then have "b + 32 \<noteq> 0" by (metis add_is_0 unat_0 zero_neq_numeral)
    with True show ?thesis by (auto simp: to_lower_def)
  qed (auto simp: to_lower_def)
  show "to_upper b = 0 \<longleftrightarrow> b = 0"
  proof (cases "97 \<le> b \<and> b \<le> 122")
    case True
    then have "b \<noteq> 32" by (auto simp: word_le_nat_alt)
    with True show ?thesis by (auto simp: to_upper_def)
  qed (auto simp: to_upper_def)
qed

lemma cstr_inv_map:
  assumes "cstr_inv s" and "\<And>b. f b = 0 \<longleftrightarrow> b = 0"
  shows "cstr_inv (map f s)"
  using assms by (auto simp: cstr_inv_def last_map map_butlast [symmetric] image_iff)

lemma reserve_err:
  assumes "vec_reserve (kmalloc_realloc f) tsz tal v n fl = Inr (Err e, v')"
  shows "e = AllocError"
  using assms
  by (auto simp: vec_reserve_def Let_def split: if_splits option.splits result.splits dest: kmalloc_err)
    (metis kmalloc_err result.exhaust)

lemma extend_from_slice_err:
  assumes "vec_extend_from_slice (kmalloc_realloc f) tsz tal clone v xs fl = Inr (Err e, v')"
  shows "e = AllocError"
proof -
  obtain r w where r: "vec_reserve (kmalloc_realloc f) tsz tal v (length xs) fl = Inr (r, w)"
    using assms by (auto simp: vec_extend_from_slice_def)
  show ?thesis
    using assms r reserve_err [of f tsz tal v "length xs" fl]
    by (cases r) (auto simp: vec_extend_from_slice_def split: prod.splits)
qed

lemma cstring_from_cstr_ok:
  assumes f: "c_realloc_ok 1 f"
  shows "\<exists>r. cstring_try_from_cstr (kmalloc_realloc f) fl s = Inr r \<and>
           (case r of Ok c \<Rightarrow> vec_inv 1 c \<and> vec_list c = s | Err e \<Rightarrow> e = AllocError)"
proof -
  obtain r v where r: "vec_extend_from_slice (kmalloc_realloc f) 1 1 id vec_new s fl = Inr (r, v)"
    and post: "append_post 1 vec_new (map id s) r v"
    using allocator.extend_from_slice_ok [OF kmalloc_allocator [OF f] vec_new_inv type_ok_byte] by blast
  show ?thesis
  proof (cases r)
    case (Ok u)
    with post have "vec_inv 1 v" "vec_list v = s" by (simp_all add: append_post_def vec_new_list)
    with r Ok show ?thesis
      unfolding cstring_try_from_cstr_def cstr_as_bytes_with_nul_def r by simp
  next
    case (Err e)
    with extend_from_slice_err [of f 1 1 id vec_new s fl e v] r show ?thesis
      unfolding cstring_try_from_cstr_def cstr_as_bytes_with_nul_def r by simp
  qed
qed

lemma cstring_deref_mut_ok:
  assumes v: "vec_inv 1 c" and len: "length (f (vec_list c)) = v_len c"
  shows "\<exists>c'. cstring_deref_mut c f = Inr c' \<and> vec_inv 1 c' \<and> vec_list c' = f (vec_list c)"
proof -
  let ?xs = "f (vec_list c)"
  let ?b = "(v_buf c)\<lparr>b_mem := mem_upd (b_mem (v_buf c)) 0 ?xs\<rparr>"
  have cap: "v_len c \<le> vec_capacity 1 c" using v by (simp add: vec_inv_def)
  have "slots_write 1 (v_buf c) 0 ?xs = Inr ?b"
    by (rule slots_write_ok) (use cap capacity_le_block [OF v] len in \<open>simp add: slot_ok_def\<close>)
  then have "cstring_deref_mut c f = Inr (c\<lparr>v_buf := ?b\<rparr>)"
    unfolding cstring_deref_mut_def vec_deref_ok [OF v] by simp
  moreover have "vec_inv 1 (c\<lparr>v_buf := ?b, v_len := v_len c\<rparr>)"
    by (rule vec_inv_buf [OF v]) (use cap len in \<open>auto simp: mem_upd_def\<close>)
  moreover have "vec_list (c\<lparr>v_buf := ?b\<rparr>) = ?xs"
    by (rule nth_equalityI) (use len in \<open>auto simp: vec_list_nth mem_upd_def\<close>)
  ultimately show ?thesis by simp
qed

lemma cstring_fold_ok:
  assumes f: "c_realloc_ok 1 f" and s: "cstr_inv s" and g: "\<And>b. g b = 0 \<longleftrightarrow> b = 0"
  shows "\<exists>r. exec_bind (cstr_to_cstring (kmalloc_realloc f) fl s) (\<lambda>r. exec_try r (\<lambda>c.
             exec_bind (cstring_deref_mut c (map g)) (\<lambda>c. Inr (Ok c)))) = Inr r \<and>
           (case r of
              Ok c \<Rightarrow> vec_inv 1 c \<and> cstring_deref c = Inr (map g s) \<and> cstr_inv (map g s)
            | Err e \<Rightarrow> e = AllocError)"
proof -
  obtain r where r: "cstring_try_from_cstr (kmalloc_realloc f) fl s = Inr r"
    "case r of Ok c \<Rightarrow> vec_inv 1 c \<and> vec_list c = s | Err e \<Rightarrow> e = AllocError"
    using cstring_from_cstr_ok [OF f] by blast
  show ?thesis
  proof (cases r)
    case (Ok c)
    with r(2) have c: "vec_inv 1 c" "vec_list c = s" by simp_all
    have "length (map g (vec_list c)) = v_len c" by simp
    from cstring_deref_mut_ok [OF c(1), of "map g", OF this] c(2) obtain c' where
      "cstring_deref_mut c (map g) = Inr c'" "vec_inv 1 c'" "vec_list c' = map g s" by auto
    with r(1) Ok cstr_inv_map [OF s g] show ?thesis
      by (simp add: cstr_to_cstring_def cstring_deref_def vec_deref_ok)
  next
    case (Err e)
    with r show ?thesis by (simp add: cstr_to_cstring_def)
  qed
qed

text \<open>
  \<open>Debug\<close> of a \<open>CStr\<close>, unlike that of a \<open>BStr\<close>, leaves a backslash alone: the byte \<open>0xf0\<close> and the four
  characters that spell its escape are printed alike.
\<close>

lemma cstr_debug_ambiguous:
  "cstr_debug [0xf0, 0] = cstr_debug [92, 120, 102, 48, 0]"
  by (simp add: cstr_debug_def cstr_as_bytes_def cstr_len_def cstr_len_with_nul_def cstr_debug_byte_def
      hex_escape_def hex_digit_def)

section \<open>Properties\<close>

text \<open>
  \<open>CStr::from_bytes_with_nul\<close> accepts exactly the byte strings with one NUL byte, their last, and
  returns them unchanged; \<open>NotNulTerminated\<close> is reported for an empty slice or one that does not end in
  NUL, and \<open>InteriorNul\<close> for one that ends in NUL and has another NUL before it.
\<close>

lemma cstr_from_bytes_with_nul_correct:
  "case cstr_from_bytes_with_nul bs of
     Ok s \<Rightarrow> s = bs \<and> cstr_inv s \<and> cstr_as_bytes s = Inr (butlast bs)
   | Err NotNulTerminated \<Rightarrow> \<not> (bs \<noteq> [] \<and> last bs = 0)
   | Err InteriorNul \<Rightarrow> bs \<noteq> [] \<and> last bs = 0 \<and> 0 \<in> set (butlast bs)"
proof (cases "bs \<noteq> [] \<and> last bs = 0 \<and> 0 \<notin> set (butlast bs)")
  case True
  then have inv: "cstr_inv bs" by (simp add: cstr_inv_def)
  have "\<not> interior_nul_loop bs 0" using True by (simp add: interior_nul_loop_iff butlast_zero_iff)
  moreover have "bs ! (length bs - 1) = 0" using True last_conv_nth [of bs] by simp
  ultimately show ?thesis
    using True inv cstr_as_bytes_ok [OF inv] by (simp add: cstr_from_bytes_with_nul_def)
next
  case False
  then show ?thesis
    by (auto simp: cstr_from_bytes_with_nul_def last_conv_nth interior_nul_loop_iff butlast_zero_iff)
qed

text \<open>
  C13: the \<open>Debug\<close> output of a byte string is printable ASCII between two quotes, and its escapes can be
  read back: undoing them yields exactly the bytes that were printed, whatever they are.
\<close>

theorem bstr_debug_roundtrip:
  "\<exists>out. bstr_debug bs = [34] @ out @ [34] \<and> list_all printable out \<and> unescape out = Some bs"
  by (intro exI [of _ "concat (map bstr_debug_byte bs)"] conjI)
    (simp_all add: bstr_debug_def unescape_debug printable_concat printable_escape)

text \<open>
  \<open>CString::try_from_fmt\<close> writes inside its allocation only, whatever the arguments write in the two
  passes over them. When it succeeds the string is well formed and holds what the second pass wrote and
  a NUL; it fails with \<open>EINVAL\<close> only if formatting fails, writes a NUL byte or writes more in the second pass than
  in the first, and otherwise only with the error of the allocation.
\<close>

lemma cstring_try_from_fmt_correct:
  assumes "c_realloc_ok 1 f" and "memchr_ok memchr"
    and "base + length (concat (fa_pieces args1)) + 1 < usize_max"
  shows "\<exists>r. cstring_try_from_fmt (kmalloc_realloc f) memchr base fl args1 args2 = Inr r \<and>
    (case r of
       Ok s \<Rightarrow> vec_inv 1 s \<and> vec_list s = concat (fa_pieces args2) @ [0] \<and> cstr_inv (vec_list s)
     | Err e \<Rightarrow> e = EINVAL \<and> (fa_fails args1 \<or> fa_fails args2 \<or> 0 \<in> set (concat (fa_pieces args2)) \<or>
                  length (concat (fa_pieces args1)) < length (concat (fa_pieces args2)))
               \<or> (\<exists>e'. e = error_from e' \<and>
                    vec_with_capacity (kmalloc_realloc f) 1 1 (length (concat (fa_pieces args1)) + 1) fl =
                    Inr (Err e')))"
  by (rule cstring_from_fmt_ok [OF kmalloc_allocator]) (fact assms)+

text \<open>
  \<open>to_ascii_lowercase\<close> and \<open>to_ascii_uppercase\<close> of a \<open>CStr\<close> fail only for lack of memory; otherwise the
  new \<open>CString\<close> is well formed, has exactly the bytes of the original with their case folded, and is
  again NUL-terminated without an interior NUL.
\<close>

lemma cstr_fold_case_correct:
  assumes "c_realloc_ok 1 f" and "cstr_inv s"
  shows "(\<exists>r. cstr_to_ascii_lowercase (kmalloc_realloc f) fl s = Inr r \<and>
      (case r of
         Ok c \<Rightarrow> vec_inv 1 c \<and> cstring_deref c = Inr (map to_lower s) \<and> cstr_inv (map to_lower s)
       | Err e \<Rightarrow> e = AllocError)) \<and>
    (\<exists>r. cstr_to_ascii_uppercase (kmalloc_realloc f) fl s = Inr r \<and>
      (case r of
         Ok c \<Rightarrow> vec_inv 1 c \<and> cstring_deref c = Inr (map to_upper s) \<and> cstr_inv (map to_upper s)
       | Err e \<Rightarrow> e = AllocError))"
  using cstring_fold_ok [OF assms, of to_lower fl]
    cstring_fold_ok [OF assms, of to_upper fl]
  by (simp add: cstr_to_ascii_lowercase_def cstr_to_ascii_uppercase_def
      cstr_make_ascii_lowercase_def [abs_def] cstr_make_ascii_uppercase_def [abs_def])

end
