(* ===== verification/Block_Disk.thy ===== *)
theory Block_Disk
  imports Block_Request Kernel_Str
begin

text \<open>
  \<open>rust/src/block/mq/raw_writer.rs\<close>, \<open>rust/src/block/mq/tag_set.rs\<close> and \<open>rust/src/block/mq/gen_disk.rs\<close>, with the functions of
  \<open>src/shim_block.c\<close> they call: writing a disk name into a fixed buffer, tag sets, and the construction of disks.

  The block layer's objects are those of a \<open>blk_kernel\<close>: the allocated tables of callbacks, tag sets and disks.
  What the kernel itself decides is the parameter \<open>c_blk\<close>: the addresses of new objects and the results of
  \<open>blk_mq_alloc_tag_set\<close>, \<open>__blk_mq_alloc_disk\<close> and \<open>device_add_disk\<close>. The \<open>Arc<TagSet>\<close> that a disk holds is an
  \<open>Arc\<close> of the heap of \<open>Sync_Arc\<close>.
\<close>

section \<open>RawWriter\<close>

record raw_writer =
  rw_buffer :: bytes
  rw_pos :: usize

definition raw_writer_new :: "bytes \<Rightarrow> (raw_writer, error) result" where
  "raw_writer_new buffer =
     (if buffer = [] then Err EINVAL
      else Ok \<lparr>rw_buffer = buffer[length buffer - 1 := 0], rw_pos = 0\<rparr>)"

definition raw_writer_from_array :: "bytes \<Rightarrow> (raw_writer, error) result" where
  "raw_writer_from_array a = raw_writer_new a"

definition raw_writer_from_raw_parts :: "bytes \<Rightarrow> (raw_writer, error) result" where
  "raw_writer_from_raw_parts buffer =
     (if buffer = [] then Err EINVAL
      else Ok \<lparr>rw_buffer = buffer[length buffer - 1 := 0], rw_pos = 0\<rparr>)"

definition raw_writer_write_str ::
  "raw_writer \<Rightarrow> bytes \<Rightarrow> ((unit, error_source) result \<times> raw_writer) exec" where
  "raw_writer_write_str w s =
     (let len = length s in
      exec_bind (require Panic (rw_pos w + len \<le> usize_max \<and> 0 < length (rw_buffer w))) (\<lambda>_.
      if rw_pos w + len > length (rw_buffer w) - 1 then Inr (Err FmtError, w)
      else exec_bind (require Panic (rw_pos w + len \<le> length (rw_buffer w))) (\<lambda>_.
        Inr (Ok (), \<lparr>rw_buffer = take (rw_pos w) (rw_buffer w) @ s @ drop (rw_pos w + len) (rw_buffer w),
                     rw_pos = rw_pos w + len\<rparr>))))"

section \<open>The block layer\<close>

type_synonym ptr = u64

record tag_set =
  ts_ops :: ptr
  ts_nr_hw_queues :: u32
  ts_nr_maps :: u32
  ts_queue_depth :: u32
  ts_cmd_size :: u32
  ts_flags :: u32
  ts_numa_node :: int

record gendisk =
  gk_tag_set :: ptr
  gk_rotational :: bool
  gk_logical :: u32
  gk_physical :: u32
  gk_fops :: bool
  gk_name :: bytes
  gk_capacity :: u64
  gk_added :: bool

record blk_kernel =
  bk_ops :: "ptr \<rightharpoonup> (string \<times> bool) list"
  bk_sets :: "ptr \<rightharpoonup> tag_set"
  bk_disks :: "ptr \<rightharpoonup> gendisk"

record c_blk =
  cb_is_err :: "ptr \<Rightarrow> bool"
  cb_ptr_err :: "ptr \<Rightarrow> int"
  cb_kzalloc :: "blk_kernel \<Rightarrow> ptr option"
  cb_alloc_tag_set :: "tag_set \<Rightarrow> int"
  cb_alloc_disk :: "blk_kernel \<Rightarrow> ptr \<Rightarrow> ptr"
  cb_add_disk :: "gendisk \<Rightarrow> int"

definition blk_free :: "blk_kernel \<Rightarrow> ptr \<Rightarrow> bool" where
  "blk_free k p \<longleftrightarrow> p \<noteq> 0 \<and> bk_ops k p = None \<and> bk_sets k p = None \<and> bk_disks k p = None"

text \<open>An allocation returns memory that is not in use; a disk may also be refused with an error pointer or null.\<close>

definition c_blk_ok :: "c_blk \<Rightarrow> bool" where
  "c_blk_ok c \<longleftrightarrow> (\<exists>err_ptr. err_ptr_api (cb_is_err c) (cb_ptr_err c) err_ptr) \<and>
     (\<forall>k p. cb_kzalloc c k = Some p \<longrightarrow> blk_free k p \<and> \<not> cb_is_err c p) \<and>
     (\<forall>k s. cb_alloc_disk c k s = 0 \<or> cb_is_err c (cb_alloc_disk c k s) \<or> blk_free k (cb_alloc_disk c k s))"

section \<open>Tag sets\<close>

definition rs_blk_mq_ops_alloc :: "c_blk \<Rightarrow> blk_kernel \<Rightarrow> (string \<times> bool) list \<Rightarrow> ptr \<times> blk_kernel" where
  "rs_blk_mq_ops_alloc c k tbl =
     (case cb_kzalloc c k of
        None \<Rightarrow> (0, k)
      | Some ops \<Rightarrow> (ops, k\<lparr>bk_ops := (bk_ops k)(ops \<mapsto> tbl)\<rparr>))"

definition rs_blk_mq_tag_set_alloc :: "c_blk \<Rightarrow> blk_kernel \<Rightarrow> tag_set \<Rightarrow> ptr \<times> blk_kernel" where
  "rs_blk_mq_tag_set_alloc c k cfg =
     (let ops = ts_ops cfg in
      if ops = 0 then (0, k)
      else case cb_kzalloc c k of
        None \<Rightarrow> (0, k\<lparr>bk_ops := (bk_ops k)(ops := None)\<rparr>)
      | Some tset \<Rightarrow>
          (let k' = k\<lparr>bk_sets := (bk_sets k)(tset \<mapsto> cfg)\<rparr> in
           if cb_alloc_tag_set c cfg \<noteq> 0
           then (0, k'\<lparr>bk_sets := (bk_sets k')(tset := None), bk_ops := (bk_ops k')(ops := None)\<rparr>)
           else (tset, k')))"

definition rs_blk_mq_tag_set_free :: "blk_kernel \<Rightarrow> ptr \<Rightarrow> blk_kernel exec" where
  "rs_blk_mq_tag_set_free k tset =
     (if tset = 0 then Inr k
      else case bk_sets k tset of
        None \<Rightarrow> Inl UB
      | Some t \<Rightarrow> Inr (k\<lparr>bk_sets := (bk_sets k)(tset := None), bk_ops := (bk_ops k)(ts_ops t := None)\<rparr>))"

text \<open>The private data of a request is one 64-bit counter: eight bytes.\<close>

definition alloc_tag_set ::
  "c_blk \<Rightarrow> bool \<Rightarrow> blk_kernel \<Rightarrow> u32 \<Rightarrow> u32 \<Rightarrow> u32 \<Rightarrow> (ptr, error) result \<times> blk_kernel" where
  "alloc_tag_set c has_poll k nr_hw_queues num_tags num_maps =
     (let cmd_size = 8; (ops, k) = rs_blk_mq_ops_alloc c k (vtable_build has_poll) in
      if ops = 0 then (Err ENOMEM, k)
      else let (p, k) = rs_blk_mq_tag_set_alloc c k
                 \<lparr>ts_ops = ops, ts_nr_hw_queues = nr_hw_queues, ts_nr_maps = num_maps, ts_queue_depth = num_tags,
                  ts_cmd_size = cmd_size, ts_flags = 1, ts_numa_node = - 1\<rparr> in
        case from_err_ptr (cb_is_err c) (cb_ptr_err c) p of
          Err e \<Rightarrow> (Err e, k)
        | Ok tset \<Rightarrow> if tset = 0 then (Err ENOMEM, k) else (Ok tset, k))"

text \<open>\<open>TagSet::new\<close> writes the pointer into the slot that it initialises.\<close>

definition tag_set_new ::
  "c_blk \<Rightarrow> bool \<Rightarrow> blk_kernel \<Rightarrow> u32 \<Rightarrow> u32 \<Rightarrow> u32 \<Rightarrow> ((unit, error) result \<times> ptr option) \<times> blk_kernel" where
  "tag_set_new c has_poll k nr_hw_queues num_tags num_maps =
     (case alloc_tag_set c has_poll k nr_hw_queues num_tags num_maps of
        (Err e, k) \<Rightarrow> ((Err e, None), k)
      | (Ok inner, k) \<Rightarrow> ((Ok (), Some inner), k))"

definition raw_tag_set :: "ptr \<Rightarrow> ptr" where
  "raw_tag_set inner = inner"

definition tag_set_drop :: "blk_kernel \<Rightarrow> ptr \<Rightarrow> blk_kernel exec" where
  "tag_set_drop k inner = rs_blk_mq_tag_set_free k inner"

section \<open>Disks\<close>

definition DISK_NAME_LEN :: usize where
  "DISK_NAME_LEN = 32"

record gen_disk_builder =
  gb_rotational :: bool
  gb_logical :: u32
  gb_physical :: u32
  gb_capacity :: u64



definition builder_rotational :: "gen_disk_builder \<Rightarrow> bool \<Rightarrow> gen_disk_builder" where
  "builder_rotational b r = b\<lparr>gb_rotational := r\<rparr>"

definition is_power_of_two :: "u32 \<Rightarrow> bool" where
  "is_power_of_two x \<longleftrightarrow> (\<exists>n \<in> {0..<32}. x = push_bit n 1)"

definition validate_block_size :: "u32 \<Rightarrow> (unit, error) result" where
  "validate_block_size sz =
     (if \<not> (512 \<le> sz \<and> sz \<le> word_of_nat PAGE_SIZE) \<or> \<not> is_power_of_two sz then Err EINVAL else Ok ())"

definition builder_logical_block_size :: "gen_disk_builder \<Rightarrow> u32 \<Rightarrow> (gen_disk_builder, error) result" where
  "builder_logical_block_size b sz =
     result_bind (validate_block_size sz) (\<lambda>_. Ok (b\<lparr>gb_logical := sz\<rparr>))"

definition builder_physical_block_size :: "gen_disk_builder \<Rightarrow> u32 \<Rightarrow> (gen_disk_builder, error) result" where
  "builder_physical_block_size b sz =
     result_bind (validate_block_size sz) (\<lambda>_. Ok (b\<lparr>gb_physical := sz\<rparr>))"

definition builder_capacity_sectors :: "gen_disk_builder \<Rightarrow> u64 \<Rightarrow> gen_disk_builder" where
  "builder_capacity_sectors b c = b\<lparr>gb_capacity := c\<rparr>"

record gen_disk =
  gd_tagset :: arc
  gd_disk :: ptr

text \<open>The kernel's part of the allocation: a new disk with a zeroed name, or the pointer that says why not.\<close>

definition rs_blk_mq_alloc_disk_with_limits ::
  "c_blk \<Rightarrow> blk_kernel \<Rightarrow> ptr \<Rightarrow> bool \<Rightarrow> u32 \<Rightarrow> u32 \<Rightarrow> ptr \<times> blk_kernel" where
  "rs_blk_mq_alloc_disk_with_limits c k tset rot lbs pbs =
     (let p = cb_alloc_disk c k tset in
      if p = 0 \<or> cb_is_err c p then (p, k)
      else (p, k\<lparr>bk_disks := (bk_disks k)(p \<mapsto> \<lparr>gk_tag_set = tset, gk_rotational = rot, gk_logical = lbs,
             gk_physical = pbs, gk_fops = False, gk_name = replicate DISK_NAME_LEN 0, gk_capacity = 0, gk_added = False\<rparr>)\<rparr>))"

definition disk_update :: "blk_kernel \<Rightarrow> ptr \<Rightarrow> (gendisk \<Rightarrow> gendisk) \<Rightarrow> blk_kernel exec" where
  "disk_update k p f =
     (case bk_disks k p of None \<Rightarrow> Inl UB | Some d \<Rightarrow> Inr (k\<lparr>bk_disks := (bk_disks k)(p \<mapsto> f d)\<rparr>))"

text \<open>Dropping the \<open>Arc<TagSet>\<close>: the last one frees the tag set.\<close>

fun tag_sets_drop :: "blk_kernel \<Rightarrow> ptr list \<Rightarrow> blk_kernel exec" where
  "tag_sets_drop k [] = Inr k"
| "tag_sets_drop k (t # ts) = exec_bind (tag_set_drop k t) (\<lambda>k. tag_sets_drop k ts)"

definition tagset_arc_drop :: "c_refcount \<Rightarrow> ptr arc_heap \<Rightarrow> blk_kernel \<Rightarrow> arc \<Rightarrow> (ptr arc_heap \<times> blk_kernel) exec" where
  "tagset_arc_drop C h k a =
     exec_bind (arc_drop C h a) (\<lambda>(ds, h). exec_bind (tag_sets_drop k ds) (\<lambda>k. Inr (h, k)))"

text \<open>The name: what \<open>write_fmt\<close> and \<open>write_char\<close> do to the buffer of the disk, before either fails.\<close>

definition write_disk_name :: "bytes \<Rightarrow> fmt_args \<Rightarrow> ((unit, error) result \<times> bytes) exec" where
  "write_disk_name buf name =
     (case raw_writer_from_raw_parts buf of
        Err e \<Rightarrow> Inr (Err e, buf)
      | Ok w \<Rightarrow>
          exec_bind (write_fmt_nul raw_writer_write_str w name) (\<lambda>(r, w).
          Inr (map_err error_from r, rw_buffer w)))"

text \<open>A \<open>?\<close> that returns drops the \<open>tagset\<close> that the function owns.\<close>

definition build_error ::
  "c_refcount \<Rightarrow> ptr arc_heap \<Rightarrow> blk_kernel \<Rightarrow> arc \<Rightarrow> error \<Rightarrow> ((gen_disk, error) result \<times> ptr arc_heap \<times> blk_kernel) exec" where
  "build_error C h k tagset e = exec_bind (tagset_arc_drop C h k tagset) (\<lambda>(h, k). Inr (Err e, h, k))"

definition gen_disk_build ::
  "c_blk \<Rightarrow> c_refcount \<Rightarrow> ptr arc_heap \<Rightarrow> blk_kernel \<Rightarrow> gen_disk_builder \<Rightarrow> fmt_args \<Rightarrow> arc \<Rightarrow>
   ((gen_disk, error) result \<times> ptr arc_heap \<times> blk_kernel) exec" where
  "gen_disk_build c C h k b name tagset =
     exec_bind (arc_deref h tagset) (\<lambda>inner.
     let (p, k) = rs_blk_mq_alloc_disk_with_limits c k (raw_tag_set inner) (gb_rotational b) (gb_logical b) (gb_physical b) in
     case from_err_ptr (cb_is_err c) (cb_ptr_err c) p of
       Err e \<Rightarrow> build_error C h k tagset e
     | Ok gendisk \<Rightarrow>
         if gendisk = 0 then build_error C h k tagset ENOMEM
         else
         exec_bind (disk_update k gendisk (\<lambda>d. d\<lparr>gk_fops := True\<rparr>)) (\<lambda>k.
         exec_bind (case bk_disks k gendisk of None \<Rightarrow> Inl UB | Some d \<Rightarrow> write_disk_name (gk_name d) name) (\<lambda>(r, buf).
         exec_bind (disk_update k gendisk (\<lambda>d. d\<lparr>gk_name := buf\<rparr>)) (\<lambda>k.
         case r of
           Err e \<Rightarrow> build_error C h k tagset e
         | Ok _ \<Rightarrow>
             exec_bind (disk_update k gendisk (\<lambda>d. d\<lparr>gk_capacity := gb_capacity b\<rparr>)) (\<lambda>k.
             case bk_disks k gendisk of
               None \<Rightarrow> Inl UB
             | Some d \<Rightarrow>
                 let ret = cb_add_disk c d in
                 case to_result ret of
                   Err e \<Rightarrow> build_error C h k tagset e
                 | Ok _ \<Rightarrow>
                     exec_bind (disk_update k gendisk (\<lambda>d. d\<lparr>gk_added := True\<rparr>)) (\<lambda>k.
                     Inr (Ok \<lparr>gd_tagset = tagset, gd_disk = gendisk\<rparr>, h, k)))))))"

text \<open>\<open>del_gendisk\<close>, then the fields are dropped.\<close>

definition gen_disk_drop ::
  "c_refcount \<Rightarrow> ptr arc_heap \<Rightarrow> blk_kernel \<Rightarrow> gen_disk \<Rightarrow> (ptr arc_heap \<times> blk_kernel) exec" where
  "gen_disk_drop C h k g =
     exec_bind (disk_update k (gd_disk g) (\<lambda>d. d\<lparr>gk_added := False\<rparr>)) (\<lambda>k.
     tagset_arc_drop C h k (gd_tagset g))"

section \<open>Names\<close>

text \<open>A writer over a buffer of \<open>n\<close> bytes that has written \<open>ws\<close>; its last byte stays NUL.\<close>

definition rw_safe :: "nat \<Rightarrow> raw_writer \<Rightarrow> bool" where
  "rw_safe n w \<longleftrightarrow> length (rw_buffer w) = n \<and> 0 < n \<and> n \<le> isize_max \<and> rw_pos w < n \<and> last (rw_buffer w) = 0"

definition rw_rep :: "nat \<Rightarrow> raw_writer \<Rightarrow> bytes \<Rightarrow> bool" where
  "rw_rep n w ws \<longleftrightarrow> rw_safe n w \<and> rw_pos w = length ws \<and> take (length ws) (rw_buffer w) = ws"

lemma rw_write_ok:
  assumes rep: "rw_rep n w ws" and len: "length s \<le> isize_max"
  shows "\<exists>w'. raw_writer_write_str w s =
      Inr (if length ws + length s \<le> n - 1 then Ok () else Err FmtError, w') \<and> rw_safe n w' \<and>
    (length ws + length s \<le> n - 1 \<longrightarrow> rw_rep n w' (ws @ s))"
proof -
  have w: "length (rw_buffer w) = n" "0 < n" "n \<le> isize_max" "rw_pos w = length ws" "length ws < n"
    "last (rw_buffer w) = 0" "take (length ws) (rw_buffer w) = ws"
    using rep by (auto simp: rw_rep_def rw_safe_def)
  have nov: "length ws + length s \<le> usize_max" using w(3,5) len twice_isize_le_usize by linarith
  show ?thesis
  proof (cases "length ws + length s \<le> n - 1")
    case True
    let ?b = "ws @ s @ drop (length ws + length s) (rw_buffer w)"
    have lt: "length ws + length s < n" using True w(2) by linarith
    then have l: "length ?b = n" using w(1) by simp
    have "drop (length ws + length s) (rw_buffer w) \<noteq> []" using lt w(1) by simp
    then have "last ?b = last (drop (length ws + length s) (rw_buffer w))" by simp
    also have "\<dots> = 0" using lt w(1,6) by (simp add: last_drop)
    finally have "rw_rep n \<lparr>rw_buffer = ?b, rw_pos = length ws + length s\<rparr> (ws @ s)"
      using l lt w(2,3) by (simp add: rw_rep_def rw_safe_def)
    moreover have "raw_writer_write_str w s = Inr (Ok (), \<lparr>rw_buffer = ?b, rw_pos = length ws + length s\<rparr>)"
      using True lt nov w by (simp add: raw_writer_write_str_def Let_def)
    ultimately show ?thesis using True by (auto simp: rw_rep_def)
  next
    case False
    with nov w rep show ?thesis by (simp add: raw_writer_write_str_def rw_rep_def Let_def)
  qed
qed

interpretation raw_writer: bounded_writer raw_writer_write_str "rw_rep n" "rw_safe n" "n - 1" "\<lambda>s. length s \<le> isize_max" for n
proof
  show "rw_safe n st" if "rw_rep n st ws" for st ws using that by (simp add: rw_rep_def)
qed (rule rw_write_ok)

lemma rw_new_ok:
  assumes "buf \<noteq> []" and "length buf \<le> isize_max"
  shows "\<exists>w. raw_writer_from_raw_parts buf = Ok w \<and> rw_rep (length buf) w []"
proof -
  have "last (buf[length buf - 1 := 0]) = 0"
    using assms(1) by (simp add: last_conv_nth)
  with assms show ?thesis by (simp add: raw_writer_from_raw_parts_def rw_rep_def rw_safe_def)
qed

text \<open>The name of a disk: at most 30 bytes and two NULs, the one written and the one the buffer ends with.\<close>

definition name_fits :: "fmt_args \<Rightarrow> bool" where
  "name_fits name \<longleftrightarrow> \<not> fa_fails name \<and> length (concat (fa_pieces name)) + 1 < DISK_NAME_LEN"

lemma write_disk_name_ok:
  assumes "length buf = DISK_NAME_LEN" and "\<forall>p \<in> set (fa_pieces name). length p \<le> isize_max"
  shows "\<exists>buf'. write_disk_name buf name = Inr (if name_fits name then Ok () else Err EINVAL, buf') \<and>
    length buf' = DISK_NAME_LEN \<and> last buf' = 0 \<and>
    (name_fits name \<longrightarrow> take (length (concat (fa_pieces name)) + 1) buf' = concat (fa_pieces name) @ [0])"
proof -
  have buf: "buf \<noteq> []" "length buf \<le> isize_max" using assms(1) by (auto simp: DISK_NAME_LEN_def isize_max_def)
  obtain w where w: "raw_writer_from_raw_parts buf = Ok w" "rw_rep DISK_NAME_LEN w []"
    using rw_new_ok [OF buf] assms(1) by auto
  have "length [0 :: u8] \<le> isize_max" by (simp add: isize_max_def)
  from raw_writer.fmt_nul_ok [OF w(2) assms(2) this] obtain r w' where
    r: "write_fmt_nul raw_writer_write_str w name = Inr (r, w')" and
    post: "fmt_post (rw_rep DISK_NAME_LEN) (rw_safe DISK_NAME_LEN) (DISK_NAME_LEN - 1) (fa_fails name)
      (concat (fa_pieces name) @ [0]) r w'" by blast
  have run: "write_disk_name buf name = Inr (map_err error_from r, rw_buffer w')"
    by (simp add: write_disk_name_def w(1) r)
  have safe: "length (rw_buffer w') = DISK_NAME_LEN" "last (rw_buffer w') = 0"
    using post by (auto simp: fmt_post_def rw_safe_def)
  show ?thesis
  proof (cases r)
    case (Ok u)
    with post have rep: "rw_rep DISK_NAME_LEN w' (concat (fa_pieces name) @ [0])" "\<not> fa_fails name"
      by (simp_all add: fmt_post_def)
    then have "name_fits name" by (simp add: name_fits_def rw_rep_def rw_safe_def)
    with rep run safe Ok show ?thesis by (simp add: rw_rep_def)
  next
    case (Err e)
    with post have "e = FmtError" "\<not> name_fits name"
      by (auto simp: fmt_post_def name_fits_def DISK_NAME_LEN_def)
    with run safe Err show ?thesis by simp
  qed
qed

section \<open>Tag sets\<close>

lemma blk_kernel_restore:
  assumes "blk_free k p" and "blk_free k q"
  shows "k\<lparr>bk_ops := (bk_ops k)(p := None)\<rparr> = k" and "k\<lparr>bk_sets := (bk_sets k)(q := None), bk_ops := (bk_ops k)(p := None)\<rparr> = k"
  using assms by (simp_all add: blk_free_def fun_upd_idem)

lemma alloc_tag_set_ok:
  assumes c: "c_blk_ok c"
  shows "case alloc_tag_set c has_poll k nq nt nm of
      (Err e, k') \<Rightarrow> e = ENOMEM \<and> k' = k
    | (Ok p, k') \<Rightarrow> p \<noteq> 0 \<and> bk_sets k p = None \<and> (\<exists>t. bk_sets k' = (bk_sets k)(p \<mapsto> t) \<and>
        ts_queue_depth t = nt \<and> ts_nr_hw_queues t = nq \<and> ts_nr_maps t = nm \<and> ts_ops t \<noteq> 0 \<and>
        bk_ops k (ts_ops t) = None \<and> bk_ops k' = (bk_ops k)(ts_ops t \<mapsto> vtable_build has_poll)) \<and> bk_disks k' = bk_disks k"
proof (cases "cb_kzalloc c k")
  case None
  then show ?thesis by (simp add: alloc_tag_set_def rs_blk_mq_ops_alloc_def)
next
  case (Some ops)
  let ?k = "k\<lparr>bk_ops := (bk_ops k)(ops \<mapsto> vtable_build has_poll)\<rparr>"
  let ?t = "\<lparr>ts_ops = ops, ts_nr_hw_queues = nq, ts_nr_maps = nm, ts_queue_depth = nt, ts_cmd_size = 8, ts_flags = 1, ts_numa_node = - 1\<rparr>"
  have ops: "blk_free k ops" using c Some by (auto simp: c_blk_ok_def)
  then have ne: "ops \<noteq> 0" by (simp add: blk_free_def)
  obtain err_ptr where "err_ptr_api (cb_is_err c) (cb_ptr_err c) err_ptr" using c by (auto simp: c_blk_ok_def)
  then have zero: "\<not> cb_is_err c 0" by (simp add: err_ptr_api_is_err MAX_ERRNO_def)
  note defs = alloc_tag_set_def rs_blk_mq_ops_alloc_def rs_blk_mq_tag_set_alloc_def from_err_ptr_def
  show ?thesis
  proof (cases "cb_kzalloc c ?k")
    case no: None
    show ?thesis using Some no ne zero ops by (simp add: defs blk_free_def fun_upd_idem)
  next
    case p: (Some p)
    have fr: "blk_free ?k p" "\<not> cb_is_err c p" using c p by (auto simp: c_blk_ok_def)
    then have set0: "p \<noteq> 0" "bk_sets k p = None" by (simp_all add: blk_free_def)
    show ?thesis
    proof (cases "cb_alloc_tag_set c ?t = 0")
      case True
      then have "alloc_tag_set c has_poll k nq nt nm = (Ok p, ?k\<lparr>bk_sets := (bk_sets k)(p \<mapsto> ?t)\<rparr>)"
        using Some p ne fr(2) set0 by (simp add: defs)
      with ne ops set0 show ?thesis by (auto simp: blk_free_def intro!: exI [of _ ?t])
    next
      case False
      with Some p ne zero ops set0 show ?thesis by (simp add: defs blk_free_def fun_upd_idem)
    qed
  qed
qed

section \<open>Disks\<close>

lemma is_power_of_two_iff: "is_power_of_two x \<longleftrightarrow> (\<exists>n < 32. unat x = 2 ^ n)"
proof -
  have "unat (push_bit n 1 :: u32) = 2 ^ n" if "n < 32" for n
  proof -
    have "(2 :: nat) ^ n < 2 ^ 32" using that by (rule power_strict_increasing) simp
    then have "unat (word_of_nat (2 ^ n) :: u32) = 2 ^ n"
      unfolding unsigned_of_nat using that by (simp add: take_bit_nat_eq_self)
    then show ?thesis by (simp add: push_bit_eq_mult)
  qed
  then show ?thesis
    unfolding is_power_of_two_def by (auto simp: word_unat_eq_iff)
qed

lemma validate_block_size_iff: "validate_block_size sz = Ok () \<longleftrightarrow> unat sz \<in> {512, 1024, 2048, 4096}"
proof -
  have le: "512 \<le> sz \<and> sz \<le> word_of_nat PAGE_SIZE \<longleftrightarrow> 512 \<le> unat sz \<and> unat sz \<le> 4096"
    by (simp add: word_le_nat_alt PAGE_SIZE_def)
  have pow: "n \<in> {9, 10, 11, 12}" if "512 \<le> (2 :: nat) ^ n" "(2 :: nat) ^ n \<le> 4096" for n
  proof -
    have "(2 :: nat) ^ 9 \<le> 2 ^ n" "(2 :: nat) ^ n \<le> 2 ^ 12" using that by simp_all
    then have "9 \<le> n" "n \<le> 12" by (simp_all only: power_increasing_iff one_less_numeral_iff semiring_norm)
    then show ?thesis by auto
  qed
  show ?thesis
  proof
    assume "validate_block_size sz = Ok ()"
    then have r: "512 \<le> unat sz" "unat sz \<le> 4096" "\<exists>n < 32. unat sz = 2 ^ n"
      unfolding validate_block_size_def is_power_of_two_iff by (auto simp: le split: if_splits)
    then obtain n where "unat sz = 2 ^ n" by blast
    with pow [of n] r show "unat sz \<in> {512, 1024, 2048, 4096}" by auto
  next
    assume "unat sz \<in> {512, 1024, 2048, 4096}"
    then have "\<exists>n \<in> {9, 10, 11, 12}. unat sz = 2 ^ n" by simp
    then obtain n where "n \<in> {9, 10, 11, 12}" "unat sz = 2 ^ n" by blast
    then have "n < 32" "unat sz = 2 ^ n" by auto
    then have "\<exists>n < 32. unat sz = 2 ^ n" by blast
    moreover have "512 \<le> unat sz \<and> unat sz \<le> 4096" using \<open>unat sz \<in> {512, 1024, 2048, 4096}\<close> by auto
    ultimately show "validate_block_size sz = Ok ()"
      unfolding validate_block_size_def is_power_of_two_iff le by simp
  qed
qed

text \<open>An \<open>Arc<TagSet>\<close> that its owner can use and drop.\<close>

definition tagset_owned :: "ptr arc_heap \<Rightarrow> blk_kernel \<Rightarrow> arc \<Rightarrow> bool" where
  "tagset_owned h k a \<longleftrightarrow>
     (\<exists>i inner. h a = Some i \<and> ai_data i = Some inner \<and> 0 < unat (ai_refcount i) \<and> inner \<noteq> 0 \<and> bk_sets k inner \<noteq> None)"

lemma tagset_drop_ok:
  assumes "tagset_owned h k a"
  shows "\<exists>h' k'. tagset_arc_drop C h k a = Inr (h', k') \<and> bk_disks k' = bk_disks k"
proof -
  obtain i inner where i: "h a = Some i" "ai_data i = Some inner" "inner \<noteq> 0" "bk_sets k inner \<noteq> None"
    using assms by (auto simp: tagset_owned_def)
  obtain z n where "rc_dec_and_test C (ai_refcount i) = (z, n)" by (cases "rc_dec_and_test C (ai_refcount i)")
  with i show ?thesis
    by (cases z) (auto simp: tagset_arc_drop_def arc_ops tag_set_drop_def rs_blk_mq_tag_set_free_def split: option.splits)
qed

lemma build_error_ok:
  assumes "tagset_owned h k a" and "bk_sets k' = bk_sets k"
  shows "\<exists>h1 k1. build_error C h k' a e = Inr (Err e, h1, k1) \<and> tagset_arc_drop C h k' a = Inr (h1, k1) \<and>
    bk_disks k1 = bk_disks k'"
proof -
  have "tagset_owned h k' a" using assms by (simp add: tagset_owned_def)
  from tagset_drop_ok [OF this, of C] show ?thesis by (auto simp: build_error_def)
qed

text \<open>The disk as it is when it is handed to \<open>device_add_disk\<close>.\<close>

definition disk_ready :: "gen_disk_builder \<Rightarrow> ptr \<Rightarrow> bytes \<Rightarrow> gendisk" where
  "disk_ready b tset buf = \<lparr>gk_tag_set = tset, gk_rotational = gb_rotational b, gk_logical = gb_logical b,
     gk_physical = gb_physical b, gk_fops = True, gk_name = buf, gk_capacity = gb_capacity b, gk_added = False\<rparr>"

lemma gen_disk_build_run:
  assumes t: "h tagset = Some i" "ai_data i = Some inner" and p: "p = cb_alloc_disk c k inner" "p \<noteq> 0" "\<not> cb_is_err c p"
    and buf: "write_disk_name (replicate DISK_NAME_LEN 0) name = Inr (r, buf)"
  shows "gen_disk_build c C h k b name tagset =
    (case r of
       Err e \<Rightarrow> build_error C h (k\<lparr>bk_disks := (bk_disks k)(p \<mapsto> (disk_ready b inner buf)\<lparr>gk_capacity := 0\<rparr>)\<rparr>) tagset e
     | Ok _ \<Rightarrow>
         (case to_result (cb_add_disk c (disk_ready b inner buf)) of
            Err e \<Rightarrow> build_error C h (k\<lparr>bk_disks := (bk_disks k)(p \<mapsto> disk_ready b inner buf)\<rparr>) tagset e
          | Ok _ \<Rightarrow> Inr (Ok \<lparr>gd_tagset = tagset, gd_disk = p\<rparr>, h,
              k\<lparr>bk_disks := (bk_disks k)(p \<mapsto> (disk_ready b inner buf)\<lparr>gk_added := True\<rparr>)\<rparr>)))"
proof -
  have deref: "arc_deref h tagset = Inr inner" using t by (simp add: arc_ops)
  have ptr: "from_err_ptr (cb_is_err c) (cb_ptr_err c) p = Ok p" using p(3) by (simp add: from_err_ptr_def)
  have al: "rs_blk_mq_alloc_disk_with_limits c k inner (gb_rotational b) (gb_logical b) (gb_physical b) =
      (p, k\<lparr>bk_disks := (bk_disks k)(p \<mapsto> \<lparr>gk_tag_set = inner, gk_rotational = gb_rotational b, gk_logical = gb_logical b,
        gk_physical = gb_physical b, gk_fops = False, gk_name = replicate DISK_NAME_LEN 0, gk_capacity = 0, gk_added = False\<rparr>)\<rparr>)"
    using p by (simp add: rs_blk_mq_alloc_disk_with_limits_def Let_def)
  show ?thesis
    using p(2) ptr buf
    by (cases r) (simp_all add: gen_disk_build_def deref raw_tag_set_def al disk_update_def disk_ready_def Let_def
        split: result.splits)
qed


section \<open>Instance\<close>








section \<open>Properties\<close>

text \<open>
  creating a tag set either fails with \<open>ENOMEM\<close> and leaves nothing allocated, or yields one new tag set with the
  requested configuration and a table of callbacks of its own; dropping that tag set gives back exactly what was
  allocated, so that the block layer is as it was before.
\<close>

lemma tag_set_new_drop:
  assumes "c_blk_ok c"
  shows "case tag_set_new c has_poll k nq nt nm of
      ((Err e, slot), k') \<Rightarrow> e = ENOMEM \<and> slot = None \<and> k' = k
    | ((Ok _, slot), k') \<Rightarrow> \<exists>p t. slot = Some p \<and> bk_sets k' p = Some t \<and> ts_nr_hw_queues t = nq \<and>
        ts_queue_depth t = nt \<and> ts_nr_maps t = nm \<and> bk_ops k' (ts_ops t) = Some (vtable_build has_poll) \<and>
        tag_set_drop k' p = Inr k"
proof (cases "alloc_tag_set c has_poll k nq nt nm")
  case (Pair r k')
  note ok = alloc_tag_set_ok [OF assms, where has_poll = has_poll and k = k and nq = nq and nt = nt and nm = nm, unfolded Pair]
  show ?thesis
  proof (cases r)
    case (Err e)
    with ok Pair show ?thesis by (simp add: tag_set_new_def)
  next
    case (Ok p)
    with ok obtain t where t: "p \<noteq> 0" "bk_sets k p = None" "bk_sets k' = (bk_sets k)(p \<mapsto> t)" "ts_queue_depth t = nt"
      "ts_nr_hw_queues t = nq" "ts_nr_maps t = nm" "bk_ops k (ts_ops t) = None"
      "bk_ops k' = (bk_ops k)(ts_ops t \<mapsto> vtable_build has_poll)" "bk_disks k' = bk_disks k" by auto
    have "tag_set_drop k' p = Inr k"
      using t(1-3,7-9) by (simp add: tag_set_drop_def rs_blk_mq_tag_set_free_def fun_upd_idem)
    with t Pair Ok show ?thesis by (auto simp: tag_set_new_def)
  qed
qed

text \<open>
  Nothing gives the disk back when \<open>build\<close> fails after the allocation: it stays allocated, without an owner.
\<close>

lemma gen_disk_build_leaks:
  assumes "tagset_owned h k tagset" and "h tagset = Some i" and "ai_data i = Some inner"
    and "p = cb_alloc_disk c k inner" and "p \<noteq> 0" and "\<not> cb_is_err c p"
    and "\<forall>s \<in> set (fa_pieces name). length s \<le> isize_max" and "\<not> name_fits name"
  shows "\<exists>h' k' d. gen_disk_build c C h k b name tagset = Inr (Err EINVAL, h', k') \<and> bk_disks k' p = Some d \<and> \<not> gk_added d"
proof -
  obtain buf where "write_disk_name (replicate DISK_NAME_LEN 0) name = Inr (Err EINVAL, buf)"
    using write_disk_name_ok [of "replicate DISK_NAME_LEN 0" name] assms(7,8) by auto
  then have run: "gen_disk_build c C h k b name tagset =
      build_error C h (k\<lparr>bk_disks := (bk_disks k)(p \<mapsto> (disk_ready b inner buf)\<lparr>gk_capacity := 0\<rparr>)\<rparr>) tagset EINVAL"
    using gen_disk_build_run [of h tagset i inner p c k name "Err EINVAL" buf C b] assms(2-6) by simp
  show ?thesis
    unfolding run using build_error_ok [OF assms(1), of "k\<lparr>bk_disks := (bk_disks k)(p \<mapsto> (disk_ready b inner buf)\<lparr>gk_capacity := 0\<rparr>)\<rparr>" C EINVAL]
    by (auto simp: disk_ready_def)
qed



end
