(* ===== verification/Sync_Lock.thy ===== *)
theory Sync_Lock
  imports Kernel_Types
begin

text \<open>
  \<open>rust/src/sync/lock.rs\<close>, \<open>sync/lock/mutex.rs\<close>, \<open>sync/lock/spinlock.rs\<close>, \<open>sync/lock/global.rs\<close>, \<open>sync/locked_by.rs\<close> and
  \<open>sync/condvar.rs\<close>: locks that own their data, their guards, and condition variables.

  Threads are numbers. Each call of a C function is one step of a thread; a call that blocks is a step that is not
  enabled. The C locks are the parameter \<open>c_lock\<close> with the contract \<open>c_lock_ok\<close>, which speaks of the thread that
  owns a lock; the C wait queue is the parameter \<open>c_waitq\<close>, whose contract speaks of its entries in order. \<open>trait Backend\<close>
  is the record \<open>backend\<close> and its safety requirements are the locale \<open>lock_backend\<close>.
\<close>

unbundle bit_operations_syntax

section \<open>Backends\<close>

type_synonym tid = nat

text \<open>\<open>None\<close> is a call that blocks; \<open>relock\<close> takes the guard's old state.\<close>

record ('st, 'gs) backend =
  be_init :: 'st
  be_lock :: "tid \<Rightarrow> 'st \<Rightarrow> ('gs \<times> 'st) option"
  be_try_lock :: "tid \<Rightarrow> 'st \<Rightarrow> 'gs option \<times> 'st"
  be_unlock :: "tid \<Rightarrow> 'st \<Rightarrow> 'gs \<Rightarrow> 'st exec"
  be_relock :: "tid \<Rightarrow> 'st \<Rightarrow> 'gs \<Rightarrow> ('gs \<times> 'st) option"

definition backend_relock :: "(tid \<Rightarrow> 'st \<Rightarrow> ('gs \<times> 'st) option) \<Rightarrow> tid \<Rightarrow> 'st \<Rightarrow> 'gs \<Rightarrow> ('gs \<times> 'st) option" where
  "backend_relock lock t st guard_state = lock t st"

record 'st c_lock =
  cl_init :: 'st
  cl_lock :: "tid \<Rightarrow> 'st \<Rightarrow> 'st option"
  cl_trylock :: "tid \<Rightarrow> 'st \<Rightarrow> int \<times> 'st"
  cl_unlock :: "tid \<Rightarrow> 'st \<Rightarrow> 'st exec"

definition mutex_lock :: "'st c_lock \<Rightarrow> tid \<Rightarrow> 'st \<Rightarrow> (unit \<times> 'st) option" where
  "mutex_lock c t st = map_option (\<lambda>st. ((), st)) (cl_lock c t st)"

definition mutex_unlock :: "'st c_lock \<Rightarrow> tid \<Rightarrow> 'st \<Rightarrow> unit \<Rightarrow> 'st exec" where
  "mutex_unlock c t st guard_state = cl_unlock c t st"

definition mutex_try_lock :: "'st c_lock \<Rightarrow> tid \<Rightarrow> 'st \<Rightarrow> unit option \<times> 'st" where
  "mutex_try_lock c t st =
     (let (result, st) = cl_trylock c t st in (if result \<noteq> 0 then Some () else None, st))"

definition mutex_backend :: "'st c_lock \<Rightarrow> ('st, unit) backend" where
  "mutex_backend c = \<lparr>be_init = cl_init c, be_lock = mutex_lock c, be_try_lock = mutex_try_lock c,
     be_unlock = mutex_unlock c, be_relock = backend_relock (mutex_lock c)\<rparr>"

definition spin_lock :: "'st c_lock \<Rightarrow> tid \<Rightarrow> 'st \<Rightarrow> (unit \<times> 'st) option" where
  "spin_lock c t st = map_option (\<lambda>st. ((), st)) (cl_lock c t st)"

definition spin_unlock :: "'st c_lock \<Rightarrow> tid \<Rightarrow> 'st \<Rightarrow> unit \<Rightarrow> 'st exec" where
  "spin_unlock c t st guard_state = cl_unlock c t st"

definition spin_try_lock :: "'st c_lock \<Rightarrow> tid \<Rightarrow> 'st \<Rightarrow> unit option \<times> 'st" where
  "spin_try_lock c t st =
     (let (result, st) = cl_trylock c t st in (if result \<noteq> 0 then Some () else None, st))"

definition spinlock_backend :: "'st c_lock \<Rightarrow> ('st, unit) backend" where
  "spinlock_backend c = \<lparr>be_init = cl_init c, be_lock = spin_lock c, be_try_lock = spin_try_lock c,
     be_unlock = spin_unlock c, be_relock = backend_relock (spin_lock c)\<rparr>"

section \<open>Locks and guards\<close>

text \<open>The state of a \<open>GlobalLock\<close> is uninitialised, \<open>None\<close>, until \<open>init\<close> is called.\<close>

record ('st, 'a) lock =
  lk_state :: "'st option"
  lk_data :: 'a

record 'gs guard =
  gu_state :: 'gs

definition lock_new :: "('st, 'gs) backend \<Rightarrow> 'a \<Rightarrow> ('st, 'a) lock" where
  "lock_new b t = \<lparr>lk_state = Some (be_init b), lk_data = t\<rparr>"

definition with_state :: "('st, 'a) lock \<Rightarrow> ('st \<Rightarrow> 'b exec) \<Rightarrow> 'b exec" where
  "with_state l f = (case lk_state l of None \<Rightarrow> Inl UB | Some st \<Rightarrow> f st)"

definition guard_new :: "'gs \<Rightarrow> 'gs guard" where
  "guard_new state = \<lparr>gu_state = state\<rparr>"

definition lock_lock ::
  "('st, 'gs) backend \<Rightarrow> tid \<Rightarrow> ('st, 'a) lock \<Rightarrow> ('gs guard \<times> ('st, 'a) lock) option exec" where
  "lock_lock b t l = with_state l (\<lambda>st.
     Inr (map_option (\<lambda>(gs, st). (guard_new gs, l\<lparr>lk_state := Some st\<rparr>)) (be_lock b t st)))"

definition lock_try_lock ::
  "('st, 'gs) backend \<Rightarrow> tid \<Rightarrow> ('st, 'a) lock \<Rightarrow> ('gs guard option \<times> ('st, 'a) lock) exec" where
  "lock_try_lock b t l = with_state l (\<lambda>st.
     let (r, st) = be_try_lock b t st in Inr (map_option guard_new r, l\<lparr>lk_state := Some st\<rparr>))"

definition guard_deref :: "('st, 'a) lock \<Rightarrow> 'a" where
  "guard_deref l = lk_data l"

definition guard_deref_mut :: "('st, 'a) lock \<Rightarrow> ('a \<Rightarrow> 'a) \<Rightarrow> ('st, 'a) lock" where
  "guard_deref_mut l f = l\<lparr>lk_data := f (lk_data l)\<rparr>"

definition guard_drop :: "('st, 'gs) backend \<Rightarrow> tid \<Rightarrow> ('st, 'a) lock \<Rightarrow> 'gs guard \<Rightarrow> ('st, 'a) lock exec" where
  "guard_drop b t l g = with_state l (\<lambda>st.
     exec_bind (be_unlock b t st (gu_state g)) (\<lambda>st. Inr (l\<lparr>lk_state := Some st\<rparr>)))"

text \<open>
  \<open>do_unlocked\<close> in its two halves, between which the callback runs and other threads can take the lock: it
  unlocks, and the scope guard locks again.
\<close>

definition do_unlocked_enter :: "('st, 'gs) backend \<Rightarrow> tid \<Rightarrow> ('st, 'a) lock \<Rightarrow> 'gs guard \<Rightarrow> ('st, 'a) lock exec" where
  "do_unlocked_enter b t l g = with_state l (\<lambda>st.
     exec_bind (be_unlock b t st (gu_state g)) (\<lambda>st. Inr (l\<lparr>lk_state := Some st\<rparr>)))"

definition do_unlocked_exit ::
  "('st, 'gs) backend \<Rightarrow> tid \<Rightarrow> ('st, 'a) lock \<Rightarrow> 'gs guard \<Rightarrow> ('gs guard \<times> ('st, 'a) lock) option exec" where
  "do_unlocked_exit b t l g = with_state l (\<lambda>st.
     Inr (map_option (\<lambda>(gs, st). (g\<lparr>gu_state := gs\<rparr>, l\<lparr>lk_state := Some st\<rparr>)) (be_relock b t st (gu_state g))))"

definition global_lock_new :: "'a \<Rightarrow> ('st, 'a) lock" where
  "global_lock_new data = \<lparr>lk_state = None, lk_data = data\<rparr>"

definition global_lock_init :: "('st, 'gs) backend \<Rightarrow> ('st, 'a) lock \<Rightarrow> ('st, 'a) lock" where
  "global_lock_init b l = l\<lparr>lk_state := Some (be_init b)\<rparr>"

definition global_lock_lock ::
  "('st, 'gs) backend \<Rightarrow> tid \<Rightarrow> ('st, 'a) lock \<Rightarrow> ('gs guard \<times> ('st, 'a) lock) option exec" where
  "global_lock_lock b t l = lock_lock b t l"

definition global_lock_try_lock ::
  "('st, 'gs) backend \<Rightarrow> tid \<Rightarrow> ('st, 'a) lock \<Rightarrow> ('gs guard option \<times> ('st, 'a) lock) exec" where
  "global_lock_try_lock b t l =
     exec_bind (lock_try_lock b t l) (\<lambda>(r, l). Inr (case r of None \<Rightarrow> None | Some inner \<Rightarrow> Some inner, l))"

section \<open>Data protected by another lock\<close>

text \<open>The owner of a \<open>LockedBy\<close> is the address of the data of the lock it was created with.\<close>

record 'a locked_by =
  lb_owner :: addr
  lb_data :: 'a

definition locked_by_new :: "addr \<Rightarrow> 'a \<Rightarrow> 'a locked_by" where
  "locked_by_new owner data = \<lparr>lb_owner = owner, lb_data = data\<rparr>"

definition locked_by_access :: "'a locked_by \<Rightarrow> addr \<Rightarrow> 'a exec" where
  "locked_by_access l owner = (if owner \<noteq> lb_owner l then Inl Panic else Inr (lb_data l))"

definition locked_by_access_mut :: "'a locked_by \<Rightarrow> addr \<Rightarrow> ('a \<Rightarrow> 'a) \<Rightarrow> 'a locked_by exec" where
  "locked_by_access_mut l owner f =
     (if owner \<noteq> lb_owner l then Inl Panic else Inr (l\<lparr>lb_data := f (lb_data l)\<rparr>))"

section \<open>Condition variables\<close>

definition TASK_INTERRUPTIBLE :: u32 where "TASK_INTERRUPTIBLE = 1"
definition TASK_UNINTERRUPTIBLE :: u32 where "TASK_UNINTERRUPTIBLE = 2"
definition TASK_FREEZABLE :: u32 where "TASK_FREEZABLE = 0x2000"
definition TASK_NORMAL :: u32 where "TASK_NORMAL = 3"

definition MAX_SCHEDULE_TIMEOUT :: int where
  "MAX_SCHEDULE_TIMEOUT = 2 ^ 63 - 1"

text \<open>
  \<open>__wake_up\<close> takes a mode and a number of waiters and returns, in the model, the threads whose \<open>schedule_timeout\<close> it
  ends.
\<close>

record 'q c_waitq =
  wq_init :: 'q
  wq_prepare :: "'q \<Rightarrow> tid \<Rightarrow> u32 \<Rightarrow> 'q"
  wq_finish :: "'q \<Rightarrow> tid \<Rightarrow> 'q"
  wq_wake_up :: "'q \<Rightarrow> u32 \<Rightarrow> nat \<Rightarrow> tid list \<times> 'q"
  wq_wake_up_sync :: "'q \<Rightarrow> u32 \<Rightarrow> tid list \<times> 'q"

definition condvar_new :: "'q c_waitq \<Rightarrow> 'q" where
  "condvar_new C = wq_init C"

text \<open>
  \<open>wait_internal\<close> in the steps between which other threads run: the entry is queued, the lock is given up and the
  thread sleeps; when it runs again it takes the lock and leaves the queue.
\<close>

definition wait_prepare :: "'q c_waitq \<Rightarrow> 'q \<Rightarrow> tid \<Rightarrow> u32 \<Rightarrow> 'q" where
  "wait_prepare C q t wait_state = wq_prepare C q t wait_state"

definition wait_finish :: "'q c_waitq \<Rightarrow> 'q \<Rightarrow> tid \<Rightarrow> 'q" where
  "wait_finish C q t = wq_finish C q t"

text \<open>The state and the timeout that each way of waiting passes to \<open>wait_internal\<close>.\<close>

definition condvar_wait :: "u32 \<times> int" where
  "condvar_wait = (TASK_UNINTERRUPTIBLE, MAX_SCHEDULE_TIMEOUT)"

definition wait_interruptible :: "u32 \<times> int" where
  "wait_interruptible = (TASK_INTERRUPTIBLE, MAX_SCHEDULE_TIMEOUT)"

definition wait_interruptible_freezable :: "u32 \<times> int" where
  "wait_interruptible_freezable = (TASK_INTERRUPTIBLE OR TASK_FREEZABLE, MAX_SCHEDULE_TIMEOUT)"

definition wait_interruptible_timeout :: "u64 \<Rightarrow> u32 \<times> int" where
  "wait_interruptible_timeout jiffies =
     (TASK_INTERRUPTIBLE, if uint jiffies \<le> 2 ^ 63 - 1 then uint jiffies else MAX_SCHEDULE_TIMEOUT)"

datatype condvar_timeout_result = Timeout | Woken u64 | Signal u64

definition timeout_result :: "int \<Rightarrow> bool \<Rightarrow> condvar_timeout_result" where
  "timeout_result res signal_pending =
     (let jiffies = word_of_int res in
      if signal_pending then Signal jiffies else if jiffies = 0 then Timeout else Woken jiffies)"

definition notify :: "'q c_waitq \<Rightarrow> 'q \<Rightarrow> nat \<Rightarrow> tid list \<times> 'q" where
  "notify C q n = wq_wake_up C q TASK_NORMAL n"

definition notify_sync :: "'q c_waitq \<Rightarrow> 'q \<Rightarrow> tid list \<times> 'q" where
  "notify_sync C q = wq_wake_up_sync C q TASK_NORMAL"

definition notify_one :: "'q c_waitq \<Rightarrow> 'q \<Rightarrow> tid list \<times> 'q" where
  "notify_one C q = notify C q 1"

definition notify_all :: "'q c_waitq \<Rightarrow> 'q \<Rightarrow> tid list \<times> 'q" where
  "notify_all C q = notify C q 0"

section \<open>Contracts\<close>

text \<open>What the documentation of the C locks promises, over the thread that owns the lock.\<close>

definition c_lock_ok :: "'st c_lock \<Rightarrow> ('st \<Rightarrow> tid option) \<Rightarrow> bool" where
  "c_lock_ok c owner \<longleftrightarrow> owner (cl_init c) = None \<and>
     (\<forall>t st. (cl_lock c t st = None \<longleftrightarrow> owner st \<noteq> None) \<and> (\<forall>st'. cl_lock c t st = Some st' \<longrightarrow> owner st' = Some t)) \<and>
     (\<forall>t st. if fst (cl_trylock c t st) \<noteq> 0 then owner st = None \<and> owner (snd (cl_trylock c t st)) = Some t
             else owner (snd (cl_trylock c t st)) = owner st) \<and>
     (\<forall>t st. owner st = Some t \<longrightarrow> (\<exists>st'. cl_unlock c t st = Inr st' \<and> owner st' = None))"

text \<open>
  The wait queue: \<open>prepare_to_wait_exclusive\<close> adds at the end, a wake-up takes the first \<open>n\<close> entries whose state is in
  the mode off the queue (all of them for \<open>n = 0\<close>).
\<close>

definition wakeable :: "u32 \<Rightarrow> (tid \<times> u32) list \<Rightarrow> tid list" where
  "wakeable mode es = map fst (filter (\<lambda>(t, s). s AND mode \<noteq> 0) es)"

definition to_wake :: "u32 \<Rightarrow> nat \<Rightarrow> (tid \<times> u32) list \<Rightarrow> tid list" where
  "to_wake mode n es = (if n = 0 then wakeable mode es else take n (wakeable mode es))"

definition c_waitq_ok :: "'q c_waitq \<Rightarrow> ('q \<Rightarrow> (tid \<times> u32) list) \<Rightarrow> bool" where
  "c_waitq_ok C entries \<longleftrightarrow> entries (wq_init C) = [] \<and>
     (\<forall>q t s. t \<notin> fst ` set (entries q) \<longrightarrow> entries (wq_prepare C q t s) = entries q @ [(t, s)]) \<and>
     (\<forall>q t. entries (wq_finish C q t) = filter (\<lambda>e. fst e \<noteq> t) (entries q)) \<and>
     (\<forall>q mode n ts q'. wq_wake_up C q mode n = (ts, q') \<longrightarrow>
        ts = to_wake mode n (entries q) \<and> entries q' = filter (\<lambda>e. fst e \<notin> set ts) (entries q)) \<and>
     (\<forall>q mode ts q'. wq_wake_up_sync C q mode = (ts, q') \<longrightarrow>
        ts = to_wake mode 1 (entries q) \<and> entries q' = filter (\<lambda>e. fst e \<notin> set ts) (entries q))"

text \<open>The safety requirements of \<open>trait Backend\<close>.\<close>

locale lock_backend =
  fixes b :: "('st, 'gs) backend" and owner :: "'st \<Rightarrow> tid option"
  assumes init_free: "owner (be_init b) = None"
    and lock_blocks: "be_lock b t st = None \<longleftrightarrow> owner st \<noteq> None"
    and lock_takes: "be_lock b t st = Some (gs, st') \<Longrightarrow> owner st' = Some t"
    and try_lock_takes: "be_try_lock b t st = (Some gs, st') \<Longrightarrow> owner st = None \<and> owner st' = Some t"
    and try_lock_fails: "be_try_lock b t st = (None, st') \<Longrightarrow> owner st' = owner st"
    and unlock_frees: "owner st = Some t \<Longrightarrow> \<exists>st'. be_unlock b t st gs = Inr st' \<and> owner st' = None"
    and relock_blocks: "be_relock b t st gs = None \<longleftrightarrow> owner st \<noteq> None"
    and relock_takes: "be_relock b t st gs = Some (gs', st') \<Longrightarrow> owner st' = Some t"

text \<open>The two backends of the crate meet them, for any C lock that does what it promises.\<close>

locale c_lock_api =
  fixes c :: "'st c_lock" and owner :: "'st \<Rightarrow> tid option"
  assumes ok: "c_lock_ok c owner"

sublocale c_lock_api \<subseteq> mutex: lock_backend "mutex_backend c" owner
  using ok unfolding c_lock_ok_def
  by unfold_locales (fastforce simp: mutex_backend_def mutex_lock_def mutex_try_lock_def mutex_unlock_def backend_relock_def
      Let_def case_prod_beta split: if_splits)+

sublocale c_lock_api \<subseteq> spinlock: lock_backend "spinlock_backend c" owner
  using ok unfolding c_lock_ok_def
  by unfold_locales (fastforce simp: spinlock_backend_def spin_lock_def spin_try_lock_def spin_unlock_def backend_relock_def
      Let_def case_prod_beta split: if_splits)+

section \<open>Threads\<close>

text \<open>
  Where a thread is: outside, holding a guard, in \<open>wait_internal\<close> with its entry queued, asleep without the lock, or
  holding the lock again.
\<close>

datatype 'gs thr =
    Outside
  | Held "'gs guard"
  | Prepared "'gs guard"
  | Asleep "'gs guard"
  | Relocked "'gs guard"

fun owns :: "'gs thr \<Rightarrow> bool" where
  "owns (Held _) = True"
| "owns (Prepared _) = True"
| "owns (Relocked _) = True"
| "owns _ = False"

fun waits :: "'gs thr \<Rightarrow> bool" where
  "waits (Prepared _) = True"
| "waits (Asleep _) = True"
| "waits (Relocked _) = True"
| "waits _ = False"

record ('st, 'gs, 'a, 'q) sync_sys =
  sy_lock :: "('st, 'a) lock"
  sy_queue :: 'q
  sy_thr :: "tid \<Rightarrow> 'gs thr"
  sy_woken :: "tid set"

definition sync_init :: "('st, 'gs) backend \<Rightarrow> 'q c_waitq \<Rightarrow> 'a \<Rightarrow> ('st, 'gs, 'a, 'q) sync_sys" where
  "sync_init b C x = \<lparr>sy_lock = lock_new b x, sy_queue = condvar_new C, sy_thr = (\<lambda>_. Outside), sy_woken = {}\<rparr>"

definition wait_states :: "u32 set" where
  "wait_states = {fst condvar_wait, fst wait_interruptible, fst wait_interruptible_freezable} \<union>
     range (fst \<circ> wait_interruptible_timeout)"

definition wake :: "('st, 'gs, 'a, 'q) sync_sys \<Rightarrow> tid list \<times> 'q \<Rightarrow> ('st, 'gs, 'a, 'q) sync_sys" where
  "wake w r = w\<lparr>sy_queue := snd r, sy_woken := sy_woken w \<union> set (fst r)\<rparr>"

text \<open>A thread can be notified at any time, also by a thread that does not hold the lock.\<close>

inductive sync_step ::
  "('st, 'gs) backend \<Rightarrow> 'q c_waitq \<Rightarrow> ('st, 'gs, 'a, 'q) sync_sys \<Rightarrow> ('st, 'gs, 'a, 'q) sync_sys \<Rightarrow> bool" for b C where
  step_lock: "sy_thr w t = Outside \<Longrightarrow> lock_lock b t (sy_lock w) = Inr (Some (g, l)) \<Longrightarrow>
    sync_step b C w (w\<lparr>sy_lock := l, sy_thr := (sy_thr w)(t := Held g)\<rparr>)"
| step_try_lock: "sy_thr w t = Outside \<Longrightarrow> lock_try_lock b t (sy_lock w) = Inr (r, l) \<Longrightarrow>
    sync_step b C w (w\<lparr>sy_lock := l, sy_thr := (sy_thr w)(t := case r of None \<Rightarrow> Outside | Some g \<Rightarrow> Held g)\<rparr>)"
| step_access: "sy_thr w t = Held g \<Longrightarrow> sync_step b C w (w\<lparr>sy_lock := guard_deref_mut (sy_lock w) f\<rparr>)"
| step_drop: "sy_thr w t = Held g \<Longrightarrow> guard_drop b t (sy_lock w) g = Inr l \<Longrightarrow>
    sync_step b C w (w\<lparr>sy_lock := l, sy_thr := (sy_thr w)(t := Outside)\<rparr>)"
| step_prepare: "sy_thr w t = Held g \<Longrightarrow> s \<in> wait_states \<Longrightarrow>
    sync_step b C w (w\<lparr>sy_queue := wait_prepare C (sy_queue w) t s, sy_thr := (sy_thr w)(t := Prepared g),
      sy_woken := sy_woken w - {t}\<rparr>)"
| step_sleep: "sy_thr w t = Prepared g \<Longrightarrow> do_unlocked_enter b t (sy_lock w) g = Inr l \<Longrightarrow>
    sync_step b C w (w\<lparr>sy_lock := l, sy_thr := (sy_thr w)(t := Asleep g)\<rparr>)"
| step_relock: "sy_thr w t = Asleep g \<Longrightarrow> do_unlocked_exit b t (sy_lock w) g = Inr (Some (g', l)) \<Longrightarrow>
    sync_step b C w (w\<lparr>sy_lock := l, sy_thr := (sy_thr w)(t := Relocked g')\<rparr>)"
| step_finish: "sy_thr w t = Relocked g \<Longrightarrow>
    sync_step b C w (w\<lparr>sy_queue := wait_finish C (sy_queue w) t, sy_thr := (sy_thr w)(t := Held g)\<rparr>)"
| step_notify_one: "sync_step b C w (wake w (notify_one C (sy_queue w)))"
| step_notify_all: "sync_step b C w (wake w (notify_all C (sy_queue w)))"
| step_notify_sync: "sync_step b C w (wake w (notify_sync C (sy_queue w)))"

inductive sync_reach ::
  "('st, 'gs) backend \<Rightarrow> 'q c_waitq \<Rightarrow> ('st, 'gs, 'a, 'q) sync_sys \<Rightarrow> bool" for b C where
  sync_reach_init: "sync_reach b C (sync_init b C x)"
| sync_reach_step: "sync_reach b C w \<Longrightarrow> sync_step b C w w' \<Longrightarrow> sync_reach b C w'"

section \<open>Invariants\<close>

definition lock_inv :: "('st \<Rightarrow> tid option) \<Rightarrow> ('st, 'gs, 'a, 'q) sync_sys \<Rightarrow> bool" where
  "lock_inv owner w \<longleftrightarrow>
     (\<exists>st. lk_state (sy_lock w) = Some st \<and> (\<forall>t. owns (sy_thr w t) \<longleftrightarrow> owner st = Some t))"

definition queued :: "('q \<Rightarrow> (tid \<times> u32) list) \<Rightarrow> ('st, 'gs, 'a, 'q) sync_sys \<Rightarrow> tid set" where
  "queued entries w = fst ` set (entries (sy_queue w))"

text \<open>A waiting thread is in the queue until it is woken; nobody else is in it.\<close>

definition queue_inv :: "('q \<Rightarrow> (tid \<times> u32) list) \<Rightarrow> ('st, 'gs, 'a, 'q) sync_sys \<Rightarrow> bool" where
  "queue_inv entries w \<longleftrightarrow> distinct (map fst (entries (sy_queue w))) \<and>
     (\<forall>(t, s) \<in> set (entries (sy_queue w)). s AND TASK_NORMAL \<noteq> 0) \<and>
     (\<forall>t. (t \<in> queued entries w \<longrightarrow> waits (sy_thr w t)) \<and>
          (waits (sy_thr w t) \<longrightarrow> (t \<in> queued entries w \<longleftrightarrow> t \<notin> sy_woken w)))"

context lock_backend
begin

lemma lock_inv_init: "lock_inv owner (sync_init b C x)"
  by (simp add: lock_inv_def sync_init_def lock_new_def init_free)

lemma lock_inv_step:
  assumes "sync_step b C w w'" and "lock_inv owner w"
  shows "lock_inv owner w'"
proof -
  obtain st where st: "lk_state (sy_lock w) = Some st" "\<And>t. owns (sy_thr w t) \<longleftrightarrow> owner st = Some t"
    using assms(2) by (auto simp: lock_inv_def)
  have keep: "lock_inv owner w2" if "sy_lock w2 = sy_lock w" "\<And>u. owns (sy_thr w2 u) = owns (sy_thr w u)" for w2
    using assms(2) that by (simp add: lock_inv_def)
  from assms(1) show ?thesis
  proof cases
    case (step_lock t g l)
    then obtain gs st' where l: "be_lock b t st = Some (gs, st')" "l = (sy_lock w)\<lparr>lk_state := Some st'\<rparr>" "g = guard_new gs"
      using st(1) by (auto simp: lock_lock_def with_state_def)
    have "owner st = None" using lock_blocks [of t st] l(1) by simp
    with step_lock(1) l st(2) lock_takes [OF l(1)] show ?thesis by (auto simp: lock_inv_def)
  next
    case (step_try_lock t r l)
    then obtain gr st' where l: "be_try_lock b t st = (gr, st')" "l = (sy_lock w)\<lparr>lk_state := Some st'\<rparr>" "r = map_option guard_new gr"
      using st(1) by (auto simp: lock_try_lock_def with_state_def Let_def split: prod.splits)
    show ?thesis
    proof (cases gr)
      case None
      with step_try_lock(1,2) l st(2) [of t] st(2) try_lock_fails [of t st st'] show ?thesis by (auto simp: lock_inv_def)
    next
      case (Some gs)
      with step_try_lock(1) l st(2) try_lock_takes [of t st gs st'] show ?thesis by (auto simp: lock_inv_def)
    qed
  next
    case (step_access t g f)
    with st show ?thesis by (simp add: lock_inv_def guard_deref_mut_def)
  next
    case (step_drop t g l)
    then have "owner st = Some t" using st(2) [of t] by simp
    with unlock_frees [of st t "gu_state g"] step_drop st show ?thesis
      by (auto simp: lock_inv_def guard_drop_def with_state_def)
  next
    case (step_sleep t g l)
    then have "owner st = Some t" using st(2) [of t] by simp
    with unlock_frees [of st t "gu_state g"] step_sleep st show ?thesis
      by (auto simp: lock_inv_def do_unlocked_enter_def with_state_def)
  next
    case (step_relock t g g' l)
    then obtain gs st' where l: "be_relock b t st (gu_state g) = Some (gs, st')" "l = (sy_lock w)\<lparr>lk_state := Some st'\<rparr>"
      using st(1) by (auto simp: do_unlocked_exit_def with_state_def)
    have "owner st = None" using relock_blocks [of t st "gu_state g"] l(1) by simp
    with step_relock(1) l st(2) relock_takes [OF l(1)] show ?thesis by (auto simp: lock_inv_def)
  next
    case (step_prepare t g s)
    then show ?thesis by (intro keep) simp_all
  next
    case (step_finish t g)
    then show ?thesis by (intro keep) simp_all
  qed (simp_all add: keep wake_def)
qed

lemma lock_inv_reach: "sync_reach b C w \<Longrightarrow> lock_inv owner w"
  by (induction rule: sync_reach.induct) (auto intro: lock_inv_init lock_inv_step)

lemma lock_exclusive:
  assumes "sync_reach b C w" and "owns (sy_thr w t)" and "owns (sy_thr w u)"
  shows "t = u"
  using lock_inv_reach [OF assms(1)] assms(2,3) by (auto simp: lock_inv_def)

lemma guard_can_drop:
  assumes "sync_reach b C w" and "sy_thr w t = Held g"
  shows "\<exists>l. guard_drop b t (sy_lock w) g = Inr l"
proof -
  obtain st where st: "lk_state (sy_lock w) = Some st" "owner st = Some t"
    using lock_inv_reach [OF assms(1)] assms(2) by (fastforce simp: lock_inv_def)
  with unlock_frees [OF st(2), of "gu_state g"] show ?thesis by (auto simp: guard_drop_def with_state_def)
qed

lemma free_lock_taken:
  assumes "sync_reach b C w" and "\<And>u. \<not> owns (sy_thr w u)"
  shows "\<exists>g l. lock_lock b t (sy_lock w) = Inr (Some (g, l))"
    and "\<exists>g' l. do_unlocked_exit b t (sy_lock w) g = Inr (Some (g', l))"
proof -
  obtain st where st: "lk_state (sy_lock w) = Some st" "\<And>t. owner st \<noteq> Some t"
    using lock_inv_reach [OF assms(1)] assms(2) by (auto simp: lock_inv_def)
  then have "owner st = None" by (cases "owner st") auto
  then have "be_lock b t st \<noteq> None" "be_relock b t st (gu_state g) \<noteq> None"
    using lock_blocks [of t st] relock_blocks [of t st "gu_state g"] by simp_all
  with st(1) show "\<exists>g l. lock_lock b t (sy_lock w) = Inr (Some (g, l))"
    and "\<exists>g' l. do_unlocked_exit b t (sy_lock w) g = Inr (Some (g', l))"
    by (auto simp: lock_lock_def do_unlocked_exit_def with_state_def)
qed

end

text \<open>Waking: the entries that a wake-up takes off the queue.\<close>

lemma wait_states_normal: "s \<in> wait_states \<Longrightarrow> s AND TASK_NORMAL \<noteq> 0"
  by (auto simp: wait_states_def condvar_wait_def wait_interruptible_def wait_interruptible_freezable_def
      wait_interruptible_timeout_def TASK_INTERRUPTIBLE_def TASK_UNINTERRUPTIBLE_def TASK_FREEZABLE_def TASK_NORMAL_def)

lemma wakeable_normal: "\<forall>(t, s) \<in> set es. s AND mode \<noteq> 0 \<Longrightarrow> wakeable mode es = map fst es"
  by (simp add: wakeable_def split_beta filter_id_conv)

lemma to_wake_subset: "set (to_wake mode n es) \<subseteq> fst ` set es"
proof -
  have "set (wakeable mode es) \<subseteq> fst ` set es" by (auto simp: wakeable_def)
  with set_take_subset [of n "wakeable mode es"] show ?thesis by (auto simp: to_wake_def)
qed

lemma queue_inv_wake:
  assumes inv: "queue_inv entries w" and ts: "set ts \<subseteq> queued entries w"
    and q: "entries q = filter (\<lambda>e. fst e \<notin> set ts) (entries (sy_queue w))"
  shows "queue_inv entries (wake w (ts, q))"
proof -
  have set: "fst ` set (entries q) = queued entries w - set ts" using q by (auto simp: queued_def)
  have "distinct (map fst (entries q))" using inv q by (simp add: queue_inv_def distinct_map_filter)
  moreover have "\<forall>(t, s) \<in> set (entries q). s AND TASK_NORMAL \<noteq> 0" using inv q by (auto simp: queue_inv_def)
  ultimately show ?thesis
    using inv ts set unfolding queue_inv_def by (auto simp: wake_def queued_def)
qed

locale condvar_system = lock_backend b owner
  for b :: "('st, 'gs) backend" and owner :: "'st \<Rightarrow> tid option" +
  fixes C :: "'q c_waitq" and entries :: "'q \<Rightarrow> (tid \<times> u32) list"
  assumes waitq: "c_waitq_ok C entries"
begin

lemma notify_woken:
  "notify C q n = (ts, q') \<Longrightarrow> ts = to_wake TASK_NORMAL n (entries q) \<and> entries q' = filter (\<lambda>e. fst e \<notin> set ts) (entries q)"
  "notify_sync C q = (ts, q') \<Longrightarrow> ts = to_wake TASK_NORMAL 1 (entries q) \<and> entries q' = filter (\<lambda>e. fst e \<notin> set ts) (entries q)"
  using waitq unfolding c_waitq_ok_def notify_def notify_sync_def by blast+

lemma queue_inv_notify:
  assumes "queue_inv entries w"
  shows "queue_inv entries (wake w (notify C (sy_queue w) n))" "queue_inv entries (wake w (notify_sync C (sy_queue w)))"
proof -
  show "queue_inv entries (wake w (notify C (sy_queue w) n))"
  proof (cases "notify C (sy_queue w) n")
    case (Pair ts q)
    with notify_woken(1) [OF Pair] to_wake_subset [of TASK_NORMAL n] queue_inv_wake [OF assms, of ts q] show ?thesis
      by (simp add: queued_def)
  qed
  show "queue_inv entries (wake w (notify_sync C (sy_queue w)))"
  proof (cases "notify_sync C (sy_queue w)")
    case (Pair ts q)
    with notify_woken(2) [OF Pair] to_wake_subset [of TASK_NORMAL 1] queue_inv_wake [OF assms, of ts q] show ?thesis
      by (simp add: queued_def)
  qed
qed

lemma queue_inv_step:
  assumes "sync_step b C w w'" and inv: "queue_inv entries w"
  shows "queue_inv entries w'"
  using assms(1)
proof cases
  case (step_prepare t g s)
  have new: "t \<notin> fst ` set (entries (sy_queue w))" using inv step_prepare(2) by (auto simp: queue_inv_def queued_def)
  have e: "entries (wait_prepare C (sy_queue w) t s) = entries (sy_queue w) @ [(t, s)]"
    using waitq new by (simp add: c_waitq_ok_def wait_prepare_def)
  show ?thesis
    using inv new wait_states_normal [OF step_prepare(3)] unfolding step_prepare(1) queue_inv_def queued_def
    by (auto simp: e)
next
  case (step_finish t g)
  have e: "entries (wait_finish C (sy_queue w) t) = filter (\<lambda>e. fst e \<noteq> t) (entries (sy_queue w))"
    using waitq by (simp add: c_waitq_ok_def wait_finish_def)
  have "distinct (map fst (filter (\<lambda>e. fst e \<noteq> t) (entries (sy_queue w))))"
    using inv by (simp add: queue_inv_def distinct_map_filter)
  moreover have "fst ` set (filter (\<lambda>e. fst e \<noteq> t) (entries (sy_queue w))) = queued entries w - {t}"
    by (auto simp: queued_def)
  ultimately show ?thesis
    using inv unfolding step_finish(1) queue_inv_def by (auto simp: e queued_def)
next
  case step_notify_one
  then show ?thesis using queue_inv_notify [OF inv] by (simp add: notify_one_def)
next
  case step_notify_all
  then show ?thesis using queue_inv_notify [OF inv] by (simp add: notify_all_def)
next
  case step_notify_sync
  then show ?thesis using queue_inv_notify [OF inv] by simp
qed (use inv in \<open>auto simp: queue_inv_def queued_def split: option.splits\<close>)

lemma queue_inv_reach: "sync_reach b C w \<Longrightarrow> queue_inv entries w"
proof (induction rule: sync_reach.induct)
  case (sync_reach_init x)
  then show ?case using waitq by (simp add: queue_inv_def queued_def sync_init_def condvar_new_def c_waitq_ok_def)
qed (rule queue_inv_step)

text \<open>What a notification does to the waiting threads.\<close>

lemma notify_all_wakes:
  assumes "sync_reach b C w" and "waits (sy_thr w t)"
  shows "t \<in> sy_woken (wake w (notify_all C (sy_queue w)))"
proof -
  have inv: "queue_inv entries w" by (rule queue_inv_reach [OF assms(1)])
  obtain ts q where n: "notify C (sy_queue w) 0 = (ts, q)" by (cases "notify C (sy_queue w) 0")
  have "ts = map fst (entries (sy_queue w))"
    using notify_woken(1) [OF n] inv wakeable_normal [of "entries (sy_queue w)" TASK_NORMAL]
    by (simp add: to_wake_def queue_inv_def)
  with n inv assms(2) show ?thesis by (auto simp: wake_def notify_all_def queue_inv_def queued_def)
qed

lemma notify_one_wakes:
  assumes "sync_reach b C w" and "waits (sy_thr w t)" and "t \<notin> sy_woken w"
  shows "\<exists>u. waits (sy_thr w u) \<and> u \<notin> sy_woken w \<and> sy_woken (wake w (notify_one C (sy_queue w))) = insert u (sy_woken w)"
proof -
  have inv: "queue_inv entries w" by (rule queue_inv_reach [OF assms(1)])
  obtain ts q where n: "notify C (sy_queue w) 1 = (ts, q)" by (cases "notify C (sy_queue w) 1")
  have "t \<in> queued entries w" using inv assms(2,3) by (auto simp: queue_inv_def)
  then obtain e es where e: "entries (sy_queue w) = e # es" by (cases "entries (sy_queue w)") (auto simp: queued_def)
  have "ts = [fst e]"
    using notify_woken(1) [OF n] inv e wakeable_normal [of "entries (sy_queue w)" TASK_NORMAL]
    by (simp add: to_wake_def queue_inv_def)
  moreover have "fst e \<in> queued entries w" using e by (simp add: queued_def)
  then have "waits (sy_thr w (fst e))" "fst e \<notin> sy_woken w" using inv by (auto simp: queue_inv_def)
  ultimately show ?thesis using n by (auto simp: wake_def notify_one_def)
qed

end

text \<open>The data changes only in a critical section.\<close>

inductive_cases sync_stepE: "sync_step b C w w'"

lemma data_changes_held:
  assumes "sync_step b C w w'" and "lk_data (sy_lock w') \<noteq> lk_data (sy_lock w)"
  shows "\<exists>t g. sy_thr w t = Held g \<and> sy_thr w' = sy_thr w"
  using assms(1)
  by (rule sync_stepE)
    (use assms(2) in \<open>auto simp: lock_lock_def lock_try_lock_def guard_drop_def do_unlocked_enter_def do_unlocked_exit_def
       with_state_def wake_def Let_def split: option.splits prod.splits\<close>)

locale c_sync_api = c_lock_api c owner
  for c :: "'st c_lock" and owner :: "'st \<Rightarrow> tid option" +
  fixes C :: "'q c_waitq" and entries :: "'q \<Rightarrow> (tid \<times> u32) list"
  assumes waitq_ok: "c_waitq_ok C entries"

sublocale c_sync_api \<subseteq> mutex_system: condvar_system "mutex_backend c" owner C entries
  by unfold_locales (rule waitq_ok)

sublocale c_sync_api \<subseteq> spinlock_system: condvar_system "spinlock_backend c" owner C entries
  by unfold_locales (rule waitq_ok)

context c_lock_api
begin

lemma mutex_meets: "lock_backend (mutex_backend c) owner" and spinlock_meets: "lock_backend (spinlock_backend c) owner"
  by (rule mutex.lock_backend_axioms, rule spinlock.lock_backend_axioms)

end

lemma backends_meet_contract:
  "c_lock_ok c owner \<Longrightarrow> lock_backend (mutex_backend c) owner"
  "c_lock_ok c owner \<Longrightarrow> lock_backend (spinlock_backend c) owner"
  by (auto intro: c_lock_api.mutex_meets c_lock_api.spinlock_meets c_lock_api.intro)

lemma systems_meet_contract:
  assumes "c_lock_ok c owner" and "c_waitq_ok C entries" and "b = mutex_backend c \<or> b = spinlock_backend c"
  shows "condvar_system b owner C entries"
  using assms backends_meet_contract [OF assms(1)] by (auto simp: condvar_system_def condvar_system_axioms_def)

section \<open>Instance\<close>

definition ref_lock :: "tid option c_lock" where
  "ref_lock = \<lparr>cl_init = None, cl_lock = (\<lambda>t st. if st = None then Some (Some t) else None),
     cl_trylock = (\<lambda>t st. if st = None then (1, Some t) else (0, st)),
     cl_unlock = (\<lambda>t st. if st = Some t then Inr None else Inl UB)\<rparr>"

definition ref_waitq :: "(tid \<times> u32) list c_waitq" where
  "ref_waitq = \<lparr>wq_init = [], wq_prepare = (\<lambda>q t s. q @ [(t, s)]), wq_finish = (\<lambda>q t. filter (\<lambda>e. fst e \<noteq> t) q),
     wq_wake_up = (\<lambda>q mode n. let ts = to_wake mode n q in (ts, filter (\<lambda>e. fst e \<notin> set ts) q)),
     wq_wake_up_sync = (\<lambda>q mode. let ts = to_wake mode 1 q in (ts, filter (\<lambda>e. fst e \<notin> set ts) q))\<rparr>"

interpretation ref_sync: c_sync_api ref_lock id ref_waitq id
  by unfold_locales (auto simp: c_lock_ok_def ref_lock_def c_waitq_ok_def ref_waitq_def Let_def)

text \<open>Thread 1 sleeps, thread 2 holds the lock.\<close>

definition demo_sys :: "(tid option, unit, nat, (tid \<times> u32) list) sync_sys" where
  "demo_sys = \<lparr>sy_lock = \<lparr>lk_state = Some (Some 2), lk_data = 7\<rparr>, sy_queue = [(1, TASK_UNINTERRUPTIBLE)],
     sy_thr = (\<lambda>_. Outside)(1 := Asleep (guard_new ()), 2 := Held (guard_new ())), sy_woken = {}\<rparr>"

lemma demo_sys_reach: "sync_reach (mutex_backend ref_lock) ref_waitq demo_sys"
proof -
  note defs = sync_init_def lock_new_def condvar_new_def lock_lock_def with_state_def mutex_backend_def mutex_lock_def
    mutex_unlock_def do_unlocked_enter_def ref_lock_def wait_prepare_def ref_waitq_def demo_sys_def guard_new_def
  let ?b = "mutex_backend ref_lock" and ?g = "guard_new ()"
  let ?w0 = "sync_init ?b ref_waitq (7 :: nat)"
  let ?w1 = "?w0\<lparr>sy_lock := \<lparr>lk_state = Some (Some 1), lk_data = 7\<rparr>, sy_thr := (sy_thr ?w0)(1 := Held ?g)\<rparr>"
  let ?w2 = "?w1\<lparr>sy_queue := wait_prepare ref_waitq (sy_queue ?w1) 1 TASK_UNINTERRUPTIBLE,
      sy_thr := (sy_thr ?w1)(1 := Prepared ?g), sy_woken := sy_woken ?w1 - {1}\<rparr>"
  let ?w3 = "?w2\<lparr>sy_lock := \<lparr>lk_state = Some None, lk_data = 7\<rparr>, sy_thr := (sy_thr ?w2)(1 := Asleep ?g)\<rparr>"
  let ?w4 = "?w3\<lparr>sy_lock := \<lparr>lk_state = Some (Some 2), lk_data = 7\<rparr>, sy_thr := (sy_thr ?w3)(2 := Held ?g)\<rparr>"
  have "sync_step ?b ref_waitq ?w0 ?w1" by (rule step_lock) (simp_all add: defs)
  with sync_reach_init have r1: "sync_reach ?b ref_waitq ?w1" by (rule sync_reach_step)
  have "sync_step ?b ref_waitq ?w1 ?w2"
    by (rule step_prepare) (simp_all add: wait_states_def condvar_wait_def)
  with r1 have r2: "sync_reach ?b ref_waitq ?w2" by (rule sync_reach_step)
  have "sync_step ?b ref_waitq ?w2 ?w3" by (rule step_sleep [where g = ?g]) (simp_all add: defs)
  with r2 have r3: "sync_reach ?b ref_waitq ?w3" by (rule sync_reach_step)
  have "sync_step ?b ref_waitq ?w3 ?w4" by (rule step_lock) (simp_all add: defs)
  with r3 have "sync_reach ?b ref_waitq ?w4" by (rule sync_reach_step)
  moreover have "?w4 = demo_sys" by (simp add: defs)
  ultimately show ?thesis by (rule subst [rotated])
qed

section \<open>Properties\<close>

text \<open>
  C17: with a mutex or a spinlock whose C functions do what they promise, at most one thread at a time holds a guard,
  also while threads wait on a condition variable with theirs. The data changes only by an access of the thread
  that holds the lock; a guard can always be dropped, and while nobody holds the lock, locking it does not
  block.
\<close>

theorem lock_mutual_exclusion:
  assumes "c_lock_ok c owner" and "b = mutex_backend c \<or> b = spinlock_backend c" and "sync_reach b C w"
  shows "(owns (sy_thr w t) \<and> owns (sy_thr w u) \<longrightarrow> t = u) \<and>
    (\<forall>w'. sync_step b C w w' \<longrightarrow> lk_data (sy_lock w') \<noteq> lk_data (sy_lock w) \<longrightarrow>
       (\<exists>t g. sy_thr w t = Held g \<and> sy_thr w' = sy_thr w)) \<and>
    (\<forall>g. sy_thr w t = Held g \<longrightarrow> (\<exists>l. guard_drop b t (sy_lock w) g = Inr l)) \<and>
    ((\<forall>u. \<not> owns (sy_thr w u)) \<longrightarrow> (\<exists>g l. lock_lock b t (sy_lock w) = Inr (Some (g, l))))"
proof -
  have b: "lock_backend b owner" using backends_meet_contract [OF assms(1)] assms(2) by auto
  show ?thesis
    using lock_backend.lock_exclusive [OF b assms(3), of t u] data_changes_held [of b C w]
      lock_backend.guard_can_drop [OF b assms(3), of t] lock_backend.free_lock_taken(1) [OF b assms(3), of t]
    by blast
qed

theorem lock_mutual_exclusion_witness:
  "let b = mutex_backend ref_lock; w = demo_sys in
    (owns (sy_thr w 2) \<and> owns (sy_thr w 1) \<longrightarrow> 2 = (1 :: tid)) \<and>
    (\<forall>w'. sync_step b ref_waitq w w' \<longrightarrow> lk_data (sy_lock w') \<noteq> lk_data (sy_lock w) \<longrightarrow>
       (\<exists>t g. sy_thr w t = Held g \<and> sy_thr w' = sy_thr w)) \<and>
    (\<forall>g. sy_thr w 2 = Held g \<longrightarrow> (\<exists>l. guard_drop b 2 (sy_lock w) g = Inr l)) \<and>
    ((\<forall>u. \<not> owns (sy_thr w u)) \<longrightarrow> (\<exists>g l. lock_lock b 2 (sy_lock w) = Inr (Some (g, l))))"
  unfolding Let_def
  by (rule lock_mutual_exclusion [OF ref_sync.ok _ demo_sys_reach]) simp

text \<open>
  C18: no wake-up is lost. A thread that has begun to wait and has not been woken is in the queue, from before it gives up
  the lock: \<open>notify_all\<close> wakes it, whenever it comes, and \<open>notify_one\<close> wakes one such thread if there is one. A
  woken thread can take the lock again as soon as nobody holds it.
\<close>

theorem condvar_no_lost_wakeup:
  assumes "c_lock_ok c owner" and "c_waitq_ok C entries" and "b = mutex_backend c \<or> b = spinlock_backend c"
    and "sync_reach b C w" and "waits (sy_thr w t)"
  shows "(t \<in> sy_woken w \<longleftrightarrow> t \<notin> queued entries w) \<and> t \<in> sy_woken (wake w (notify_all C (sy_queue w))) \<and>
    (t \<notin> sy_woken w \<longrightarrow> (\<exists>u. waits (sy_thr w u) \<and> u \<notin> sy_woken w \<and>
       sy_woken (wake w (notify_one C (sy_queue w))) = insert u (sy_woken w))) \<and>
    (\<forall>g. sy_thr w t = Asleep g \<longrightarrow> (\<forall>u. \<not> owns (sy_thr w u)) \<longrightarrow>
       (\<exists>g' l. do_unlocked_exit b t (sy_lock w) g = Inr (Some (g', l))))"
proof -
  note sys = systems_meet_contract [OF assms(1-3)]
  have "lock_backend b owner" using backends_meet_contract [OF assms(1)] assms(3) by auto
  note exit = lock_backend.free_lock_taken(2) [OF this assms(4)]
  show ?thesis
    using condvar_system.queue_inv_reach [OF sys assms(4)] condvar_system.notify_all_wakes [OF sys assms(4,5)]
      condvar_system.notify_one_wakes [OF sys assms(4,5)] exit assms(5)
    unfolding queue_inv_def by blast
qed

theorem condvar_no_lost_wakeup_witness:
  "let b = mutex_backend ref_lock; w = demo_sys in
    (1 \<in> sy_woken w \<longleftrightarrow> 1 \<notin> queued id w) \<and> 1 \<in> sy_woken (wake w (notify_all ref_waitq (sy_queue w))) \<and>
    (1 \<notin> sy_woken w \<longrightarrow> (\<exists>u. waits (sy_thr w u) \<and> u \<notin> sy_woken w \<and>
       sy_woken (wake w (notify_one ref_waitq (sy_queue w))) = insert u (sy_woken w))) \<and>
    (\<forall>g. sy_thr w 1 = Asleep g \<longrightarrow> (\<forall>u. \<not> owns (sy_thr w u)) \<longrightarrow>
       (\<exists>g' l. do_unlocked_exit b 1 (sy_lock w) g = Inr (Some (g', l))))"
  unfolding Let_def
  by (rule condvar_no_lost_wakeup [OF ref_sync.ok ref_sync.waitq_ok _ demo_sys_reach]) (simp_all add: demo_sys_def)

end
