(* ===== verification/Pin_Init.thy ===== *)
theory Pin_Init
  imports Kernel_Types Allocators
begin

text \<open>
  \<open>rust/src/init.rs\<close>, \<open>rust/src/init/__internal.rs\<close>, the code that \<open>__init_internal!\<close> of \<open>rust/src/init/macros.rs\<close> generates for
  \<open>pin_init!\<close> and \<open>init!\<close>, and the initialising constructors of \<open>alloc/kbox.rs\<close>: initialisation in place.

  An initialiser acts on one slot, which holds a value or is uninitialised (\<open>None\<close>), and returns the values that it
  dropped on the way. The safety contract of \<open>PinInit\<close> and \<open>Init\<close> is the locale \<open>initializer\<close>. A struct is its
  fields by name. Values that expressions in the macro compute are given as results, because they may return early with \<open>?\<close>.
\<close>

type_synonym ('a, 'e) slot_init = "'a option \<Rightarrow> ((unit, 'e) result \<times> 'a option \<times> 'a list) exec"

definition drop_in_place :: "'a option \<Rightarrow> ('a \<times> 'a option) exec" where
  "drop_in_place slot = (case slot of None \<Rightarrow> Inl UB | Some x \<Rightarrow> Inr (x, None))"

section \<open>Initialisers\<close>

definition init_closure :: "('a, 'e) slot_init \<Rightarrow> ('a, 'e) slot_init" where
  "init_closure f slot = f slot"

definition pin_init_from_closure :: "('a, 'e) slot_init \<Rightarrow> ('a, 'e) slot_init" where
  "pin_init_from_closure f = init_closure f"

definition init_from_closure :: "('a, 'e) slot_init \<Rightarrow> ('a, 'e) slot_init" where
  "init_from_closure f = init_closure f"

definition value_init :: "'a \<Rightarrow> ('a, 'e) slot_init" where
  "value_init x slot = Inr (Ok (), Some x, [])"

text \<open>\<open>zeroed\<close>: \<open>z\<close> is the value whose bytes are all zero.\<close>

definition zeroed :: "'a \<Rightarrow> ('a, 'e) slot_init" where
  "zeroed z = init_from_closure (\<lambda>slot. Inr (Ok (), Some z, []))"

definition always_fail :: "('a, unit) slot_init" where
  "always_fail slot = Inr (Err (), slot, [])"

definition chain_init :: "('a, 'e) slot_init \<Rightarrow> ('a \<Rightarrow> (unit, 'e) result \<times> 'a) \<Rightarrow> ('a, 'e) slot_init" where
  "chain_init self f slot =
     exec_bind (self slot) (\<lambda>(r, slot, ds).
     case r of
       Err e \<Rightarrow> Inr (Err e, slot, ds)
     | Ok _ \<Rightarrow>
         (case slot of
            None \<Rightarrow> Inl UB
          | Some v \<Rightarrow>
              (let (r, v) = f v in
               case r of
                 Ok _ \<Rightarrow> Inr (Ok (), Some v, ds)
               | Err e \<Rightarrow> exec_bind (drop_in_place (Some v)) (\<lambda>(x, slot). Inr (Err e, slot, ds @ [x])))))"

definition chain_pin_init :: "('a, 'e) slot_init \<Rightarrow> ('a \<Rightarrow> (unit, 'e) result \<times> 'a) \<Rightarrow> ('a, 'e) slot_init" where
  "chain_pin_init self f slot =
     exec_bind (self slot) (\<lambda>(r, slot, ds).
     case r of
       Err e \<Rightarrow> Inr (Err e, slot, ds)
     | Ok _ \<Rightarrow>
         (case slot of
            None \<Rightarrow> Inl UB
          | Some val \<Rightarrow>
              (let (r, val) = f val in
               case r of
                 Ok _ \<Rightarrow> Inr (Ok (), Some val, ds)
               | Err e \<Rightarrow> exec_bind (drop_in_place (Some val)) (\<lambda>(x, slot). Inr (Err e, slot, ds @ [x])))))"

text \<open>\<open>InPlaceInit::init\<close> and \<open>pin_init\<close> convert the error of the initialiser.\<close>

definition init_map_err :: "('e \<Rightarrow> 'f) \<Rightarrow> ('a, 'e) slot_init \<Rightarrow> ('a, 'f) slot_init" where
  "init_map_err conv init =
     init_from_closure (\<lambda>slot. exec_bind (init slot) (\<lambda>(r, slot, ds). Inr (map_err conv r, slot, ds)))"

section \<open>Arrays\<close>

text \<open>The cleanup closure of the scope guard: the first \<open>n\<close> elements are dropped in order.\<close>

fun drop_elements :: "'a option list \<Rightarrow> nat \<Rightarrow> ('a list \<times> 'a option list) exec" where
  "drop_elements slots 0 = Inr ([], slots)"
| "drop_elements [] (Suc n) = Inl UB"
| "drop_elements (s # slots) (Suc n) =
     exec_bind (drop_in_place s) (\<lambda>(x, s).
     exec_bind (drop_elements slots n) (\<lambda>(xs, slots). Inr (x # xs, s # slots)))"

fun drop_all_counts :: "'a option list \<Rightarrow> nat list \<Rightarrow> ('a list \<times> 'a option list) exec" where
  "drop_all_counts slots [] = Inr ([], slots)"
| "drop_all_counts slots (n # ns) =
     exec_bind (drop_elements slots n) (\<lambda>(xs, slots).
     exec_bind (drop_all_counts slots ns) (\<lambda>(ys, slots). Inr (xs @ ys, slots)))"

text \<open>The loop from index \<open>i\<close> with \<open>n\<close> iterations left; \<open>make_init\<close> can have a state.\<close>

fun array_loop ::
  "('s \<Rightarrow> nat \<Rightarrow> ('a, 'e) slot_init \<times> 's) \<Rightarrow> 's \<Rightarrow> nat \<Rightarrow> nat \<Rightarrow> nat scope_guard \<Rightarrow> 'a option list \<Rightarrow>
   ((unit, 'e) result \<times> 'a option list \<times> 'a list) exec" where
  "array_loop make_init st i 0 init_count slots =
     exec_bind (scope_guard_dismiss init_count) (\<lambda>(_, cleanups).
     exec_bind (drop_all_counts slots cleanups) (\<lambda>(ds, slots). Inr (Ok (), slots, ds)))"
| "array_loop make_init st i (Suc n) init_count slots =
     (let (init, st) = make_init st i in
      exec_bind (require UB (i < length slots)) (\<lambda>_.
      exec_bind (init (slots ! i)) (\<lambda>(r, s, ds).
      let slots = slots[i := s] in
      case r of
        Err e \<Rightarrow> exec_bind (drop_all_counts slots (scope_guard_drop init_count)) (\<lambda>(xs, slots). Inr (Err e, slots, ds @ xs))
      | Ok _ \<Rightarrow>
          exec_bind (scope_guard_deref_mut init_count Suc) (\<lambda>init_count.
          exec_bind (array_loop make_init st (Suc i) n init_count slots) (\<lambda>(r, slots, xs). Inr (r, slots, ds @ xs))))))"

definition init_array_from_fn ::
  "('s \<Rightarrow> nat \<Rightarrow> ('a, 'e) slot_init \<times> 's) \<Rightarrow> 's \<Rightarrow> 'a option list \<Rightarrow> ((unit, 'e) result \<times> 'a option list \<times> 'a list) exec" where
  "init_array_from_fn make_init st slots =
     array_loop make_init st 0 (length slots) (scope_guard_new_with_data 0) slots"

definition pin_init_array_from_fn ::
  "('s \<Rightarrow> nat \<Rightarrow> ('a, 'e) slot_init \<times> 's) \<Rightarrow> 's \<Rightarrow> 'a option list \<Rightarrow> ((unit, 'e) result \<times> 'a option list \<times> 'a list) exec" where
  "pin_init_array_from_fn make_init st slots =
     array_loop make_init st 0 (length slots) (scope_guard_new_with_data 0) slots"

section \<open>Structs\<close>

type_synonym 'v struct_slot = "string \<rightharpoonup> 'v"

text \<open>\<open>field <- init\<close> and \<open>field: value\<close>.\<close>

datatype ('v, 'e) field_init =
    InPlace string "('v, 'e) slot_init"
  | ByValue string "('v, 'e) result"

fun field_name :: "('v, 'e) field_init \<Rightarrow> string" where
  "field_name (InPlace f _) = f"
| "field_name (ByValue f _) = f"

text \<open>A \<open>DropGuard\<close> is the field it points to.\<close>

definition drop_guard_new :: "string \<Rightarrow> string" where
  "drop_guard_new ptr = ptr"

definition drop_guard_drop :: "'v struct_slot \<Rightarrow> string \<Rightarrow> ('v \<times> 'v struct_slot) exec" where
  "drop_guard_drop slot g = exec_bind (drop_in_place (slot g)) (\<lambda>(x, s). Inr (x, slot(g := s)))"

text \<open>When the closure returns early, the guards are dropped, the last one first.\<close>

fun guards_drop :: "'v struct_slot \<Rightarrow> string list \<Rightarrow> ('v list \<times> 'v struct_slot) exec" where
  "guards_drop slot [] = Inr ([], slot)"
| "guards_drop slot (g # gs) =
     exec_bind (drop_guard_drop slot g) (\<lambda>(x, slot).
     exec_bind (guards_drop slot gs) (\<lambda>(xs, slot). Inr (x # xs, slot)))"

fun init_slot ::
  "string list \<Rightarrow> 'v struct_slot \<Rightarrow> ('v, 'e) field_init list \<Rightarrow> ((unit, 'e) result \<times> 'v struct_slot \<times> 'v list) exec" where
  "init_slot guards slot [] = Inr (Ok (), slot, [])"
| "init_slot guards slot (InPlace field init # rest) =
     exec_bind (init (slot field)) (\<lambda>(r, s, ds).
     let slot = slot(field := s) in
     case r of
       Err e \<Rightarrow> exec_bind (guards_drop slot guards) (\<lambda>(xs, slot). Inr (Err e, slot, ds @ xs))
     | Ok _ \<Rightarrow>
         exec_bind (init_slot (drop_guard_new field # guards) slot rest) (\<lambda>(r, slot, xs). Inr (r, slot, ds @ xs)))"
| "init_slot guards slot (ByValue field val # rest) =
     (case val of
        Err e \<Rightarrow> exec_bind (guards_drop slot guards) (\<lambda>(xs, slot). Inr (Err e, slot, xs))
      | Ok v \<Rightarrow> init_slot (drop_guard_new field # guards) (slot(field \<mapsto> v)) rest)"

text \<open>With \<open>..Zeroable::zeroed()\<close> the slot is zeroed first; \<open>zs\<close> has the zero of every field of the struct.\<close>

definition init_internal ::
  "'v struct_slot option \<Rightarrow> ('v, 'e) field_init list \<Rightarrow> 'v struct_slot \<Rightarrow> ((unit, 'e) result \<times> 'v struct_slot \<times> 'v list) exec" where
  "init_internal zs fs slot = init_slot [] (case zs of None \<Rightarrow> slot | Some z \<Rightarrow> z) fs"

section \<open>Values on the stack\<close>

record 'a stack_init =
  si_value :: "'a option"
  si_is_init :: bool

definition stack_init_uninit :: "'a stack_init" where
  "stack_init_uninit = \<lparr>si_value = None, si_is_init = False\<rparr>"

definition stack_init_drop :: "'a stack_init \<Rightarrow> 'a list exec" where
  "stack_init_drop this =
     (if si_is_init this then exec_bind (drop_in_place (si_value this)) (\<lambda>(x, _). Inr [x]) else Inr [])"

definition stack_init_init ::
  "'a stack_init \<Rightarrow> ('a, 'e) slot_init \<Rightarrow> ((unit, 'e) result \<times> 'a stack_init \<times> 'a list) exec" where
  "stack_init_init this init =
     exec_bind (if si_is_init this
                then exec_bind (drop_in_place (si_value this)) (\<lambda>(x, s). Inr (\<lparr>si_value = s, si_is_init = False\<rparr>, [x]))
                else Inr (this, [])) (\<lambda>(this, xs).
     exec_bind (init (si_value this)) (\<lambda>(r, s, ds).
     let this = this\<lparr>si_value := s\<rparr> in
     case r of
       Err e \<Rightarrow> Inr (Err e, this, xs @ ds)
     | Ok _ \<Rightarrow>
         exec_bind (require UB (s \<noteq> None)) (\<lambda>_. Inr (Ok (), this\<lparr>si_is_init := True\<rparr>, xs @ ds))))"

section \<open>Boxes and Arcs\<close>

text \<open>A box that could not be initialised is freed without dropping contents.\<close>

definition box_write_init ::
  "usize \<Rightarrow> 'a block \<Rightarrow> ('a, 'e) slot_init \<Rightarrow> (('a block, 'e) result \<times> 'a list) exec" where
  "box_write_init tsz self init =
     exec_bind (require UB (slot_ok tsz self 0)) (\<lambda>_.
     exec_bind (init (b_mem self 0)) (\<lambda>(r, s, ds).
     case r of
       Err e \<Rightarrow> Inr (Err e, ds)
     | Ok _ \<Rightarrow> exec_bind (box_assume_init tsz (self\<lparr>b_mem := (b_mem self)(0 := s)\<rparr>)) (\<lambda>b. Inr (Ok b, ds))))"

definition box_write_pin_init ::
  "usize \<Rightarrow> 'a block \<Rightarrow> ('a, 'e) slot_init \<Rightarrow> (('a block, 'e) result \<times> 'a list) exec" where
  "box_write_pin_init tsz self init =
     exec_bind (require UB (slot_ok tsz self 0)) (\<lambda>_.
     exec_bind (init (b_mem self 0)) (\<lambda>(r, s, ds).
     case r of
       Err e \<Rightarrow> Inr (Err e, ds)
     | Ok _ \<Rightarrow> exec_bind (box_assume_init tsz (self\<lparr>b_mem := (b_mem self)(0 := s)\<rparr>)) (\<lambda>b. Inr (Ok b, ds))))"

definition box_try_init ::
  "(error_source \<Rightarrow> 'e) \<Rightarrow> 'a realloc_fn \<Rightarrow> usize \<Rightarrow> usize \<Rightarrow> ('a, 'e) slot_init \<Rightarrow> flags \<Rightarrow>
   (('a block, 'e) result \<times> 'a list) exec" where
  "box_try_init from_alloc A tsz tal init fl =
     (case box_new_uninit A tsz tal fl of
        Err e \<Rightarrow> Inr (Err (from_alloc e), [])
      | Ok b \<Rightarrow> box_write_init tsz b init)"

definition box_try_pin_init ::
  "(error_source \<Rightarrow> 'e) \<Rightarrow> 'a realloc_fn \<Rightarrow> usize \<Rightarrow> usize \<Rightarrow> ('a, 'e) slot_init \<Rightarrow> flags \<Rightarrow>
   (('a block, 'e) result \<times> 'a list) exec" where
  "box_try_pin_init from_alloc A tsz tal init fl =
     (case box_new_uninit A tsz tal fl of
        Err e \<Rightarrow> Inr (Err (from_alloc e), [])
      | Ok b \<Rightarrow> box_write_pin_init tsz b init)"

definition unique_arc_write_init ::
  "c_refcount \<Rightarrow> 'a arc_heap \<Rightarrow> unique_arc \<Rightarrow> ('a, 'e) slot_init \<Rightarrow> ((unique_arc, 'e) result \<times> 'a arc_heap \<times> 'a list) exec" where
  "unique_arc_write_init C h u init =
     exec_bind (arc_as_ref h u) (\<lambda>i.
     exec_bind (init (ai_data i)) (\<lambda>(r, s, ds).
     let h = h(u \<mapsto> i\<lparr>ai_data := s\<rparr>) in
     case r of
       Err e \<Rightarrow> exec_bind (arc_drop_glue False C h u) (\<lambda>(_, h). Inr (Err e, h, ds))
     | Ok _ \<Rightarrow> exec_bind (unique_arc_assume_init h u) (\<lambda>(u, h). Inr (Ok u, h, ds))))"

definition unique_arc_try_init ::
  "(error_source \<Rightarrow> 'e) \<Rightarrow> c_refcount \<Rightarrow> 'a arc_alloc \<Rightarrow> 'a arc_heap \<Rightarrow> ('a, 'e) slot_init \<Rightarrow>
   ((unique_arc, 'e) result \<times> 'a arc_heap \<times> 'a list) exec" where
  "unique_arc_try_init from_alloc C alloc h init =
     (case unique_arc_new_uninit C alloc h of
        (Err e, h) \<Rightarrow> Inr (Err (from_alloc e), h, [])
      | (Ok u, h) \<Rightarrow> unique_arc_write_init C h u init)"

definition arc_try_init ::
  "(error_source \<Rightarrow> 'e) \<Rightarrow> c_refcount \<Rightarrow> 'a arc_alloc \<Rightarrow> 'a arc_heap \<Rightarrow> ('a, 'e) slot_init \<Rightarrow>
   ((arc, 'e) result \<times> 'a arc_heap \<times> 'a list) exec" where
  "arc_try_init from_alloc C alloc h init =
     exec_bind (unique_arc_try_init from_alloc C alloc h init) (\<lambda>(r, h, ds).
     Inr (case r of Ok u \<Rightarrow> Ok (arc_from_unique u) | Err e \<Rightarrow> Err e, h, ds))"

section \<open>The contract\<close>

text \<open>
  The safety contract of \<open>PinInit\<close>: an initialiser that succeeds leaves a value in the slot; one that fails
  leaves nothing in it that was not there before. It never looks at what the slot holds.
\<close>

locale initializer =
  fixes init :: "('a, 'e) slot_init" and outcome :: "('a, 'e) result"
  assumes succeeds: "outcome = Ok v \<Longrightarrow> init s = Inr (Ok (), Some v, [])"
    and fails: "outcome = Err e \<Longrightarrow> \<exists>s' ds. init s = Inr (Err e, s', ds) \<and> (s' = None \<or> s' = s)"
begin

lemma chain_ok:
  "initializer (chain_init init f)
     (case outcome of Err e \<Rightarrow> Err e | Ok v \<Rightarrow> (case f v of (Ok _, v') \<Rightarrow> Ok v' | (Err e, _) \<Rightarrow> Err e))"
proof (cases outcome)
  case (Ok v)
  show ?thesis
    using succeeds [OF Ok] Ok
    by unfold_locales (auto simp: chain_init_def drop_in_place_def Let_def split: prod.splits result.splits)
next
  case (Err e)
  show ?thesis
  proof
    fix s e'
    assume "(case outcome of Err e \<Rightarrow> Err e | Ok v \<Rightarrow> (case f v of (Ok _, v') \<Rightarrow> Ok v' | (Err e, _) \<Rightarrow> Err e)) = Err e'"
    with fails [OF Err, of s] Err show "\<exists>s' ds. chain_init init f s = Inr (Err e', s', ds) \<and> (s' = None \<or> s' = s)"
      by (auto simp: chain_init_def)
  qed (use Err in simp)
qed

lemma chain_pin_init_eq: "chain_pin_init I f = chain_init I f"
  by (rule ext) (simp add: chain_pin_init_def chain_init_def)

lemma map_err_ok: "initializer (init_map_err conv init) (map_err conv outcome)"
proof (cases outcome)
  case (Ok v)
  show ?thesis
    using succeeds [OF Ok] Ok by unfold_locales (auto simp: init_map_err_def init_from_closure_def init_closure_def)
next
  case (Err e)
  show ?thesis
  proof
    fix s e'
    assume "map_err conv outcome = Err e'"
    with fails [OF Err, of s] Err show "\<exists>s' ds. init_map_err conv init s = Inr (Err e', s', ds) \<and> (s' = None \<or> s' = s)"
      by (auto simp: init_map_err_def init_from_closure_def init_closure_def)
  qed (use Err in simp)
qed

end

interpretation plain_value: initializer "value_init x" "Ok x" for x
  by unfold_locales (simp_all add: value_init_def)

interpretation zeroed: initializer "zeroed z" "Ok z" for z
  by unfold_locales (simp_all add: zeroed_def init_from_closure_def init_closure_def)

interpretation always_fail: initializer always_fail "Err ()"
  by unfold_locales (simp_all add: always_fail_def)

section \<open>Structs\<close>

fun field_yields :: "('v, 'e) field_init \<Rightarrow> ('v, 'e) result \<Rightarrow> bool" where
  "field_yields (InPlace _ init) r = initializer init r"
| "field_yields (ByValue _ v) r = (r = v)"

text \<open>The fields that have guards hold the values \<open>xs\<close>.\<close>

definition guarded :: "'v struct_slot \<Rightarrow> string list \<Rightarrow> 'v list \<Rightarrow> bool" where
  "guarded slot gs xs \<longleftrightarrow> list_all2 (\<lambda>g x. slot g = Some x) gs xs"

lemma guarded_Nil [simp]: "guarded slot [] xs \<longleftrightarrow> xs = []"
  by (simp add: guarded_def)

lemma guarded_Cons: "guarded slot (g # gs) xs \<longleftrightarrow> (\<exists>x xs'. xs = x # xs' \<and> slot g = Some x \<and> guarded slot gs xs')"
  by (cases xs) (auto simp: guarded_def)

lemma guarded_upd: "n \<notin> set gs \<Longrightarrow> guarded slot gs xs \<Longrightarrow> guarded (slot(n := s)) gs xs"
  unfolding guarded_def by (rule list_all2_mono [of "\<lambda>g x. g \<in> set gs \<and> slot g = Some x"]) (auto simp: list_all2_conv_all_nth)

lemma guards_drop_ok:
  assumes "distinct gs" and "guarded slot gs xs"
  shows "guards_drop slot gs = Inr (xs, \<lambda>f. if f \<in> set gs then None else slot f)"
  using assms
proof (induction gs arbitrary: slot xs)
  case (Cons g gs)
  then obtain x xs' where x: "xs = x # xs'" "slot g = Some x" "guarded slot gs xs'" by (auto simp: guarded_Cons)
  have "guards_drop (slot(g := None)) gs = Inr (xs', \<lambda>f. if f \<in> set gs then None else (slot(g := None)) f)"
    using Cons.prems(1) by (intro Cons.IH guarded_upd [OF _ x(3)]) simp_all
  with x show ?case by (simp add: drop_guard_drop_def drop_in_place_def fun_eq_iff)
qed simp

text \<open>The values that an initialiser drops itself when it fails.\<close>

definition own_drops :: "('a, 'e) slot_init \<Rightarrow> 'a option \<Rightarrow> 'a list" where
  "own_drops init s = (case init s of Inr (_, _, ds) \<Rightarrow> ds | Inl _ \<Rightarrow> [])"

fun field_own :: "('v, 'e) field_init \<Rightarrow> 'v struct_slot \<Rightarrow> 'v list" where
  "field_own (InPlace f init) slot = own_drops init (slot f)"
| "field_own (ByValue _ _) slot = []"

lemma field_own_upd: "n \<noteq> field_name g \<Longrightarrow> field_own g (slot(n := s)) = field_own g slot"
  by (cases g) simp_all

text \<open>One field: it either fails and drops the guarded fields, or its value is in the slot and guarded too.\<close>

lemma init_slot_step:
  assumes "field_yields f r" and "field_name f \<notin> set gs" and "distinct gs" and "guarded slot gs xs"
  shows "case r of
      Ok v \<Rightarrow> init_slot gs slot (f # fs) = init_slot (field_name f # gs) (slot(field_name f \<mapsto> v)) fs
    | Err e \<Rightarrow> \<exists>slot'. init_slot gs slot (f # fs) = Inr (Err e, slot', field_own f slot @ xs) \<and> (\<forall>g \<in> set gs. slot' g = None)"
proof (cases f)
  case (InPlace n I)
  with assms(1) have I: "initializer I r" by simp
  have upd: "guarded (slot(n := s)) gs xs" for s
    using assms(2,4) InPlace by (simp add: guarded_upd)
  show ?thesis
  proof (cases r)
    case (Ok v)
    have "exec_bind m (\<lambda>(r, slot, xs). Inr (r, slot, xs)) = m" for m :: "('x \<times> 'y \<times> 'z) exec"
      by (cases m) auto
    with InPlace Ok initializer.succeeds [OF I Ok] show ?thesis by (simp add: drop_guard_new_def)
  next
    case (Err e)
    obtain s' ds where "I (slot n) = Inr (Err e, s', ds)" using initializer.fails [OF I Err, of "slot n"] by auto
    with InPlace Err show ?thesis by (auto simp: guards_drop_ok [OF assms(3) upd] own_drops_def)
  qed
next
  case (ByValue n v)
  with assms guards_drop_ok [OF assms(3,4)] show ?thesis by (auto simp: drop_guard_new_def split: result.splits)
qed

text \<open>
  What an initialisation of the fields \<open>fs\<close> with the outcomes \<open>rs\<close> leaves, when \<open>gs\<close> are guarded with the values \<open>xs\<close>: all
  values, or the first error after everything before it was dropped, the last field first.
\<close>

definition struct_post ::
  "('v, 'e) field_init list \<Rightarrow> ('v, 'e) result list \<Rightarrow> 'v struct_slot \<Rightarrow> string list \<Rightarrow> 'v list \<Rightarrow>
   (unit, 'e) result \<Rightarrow> 'v struct_slot \<Rightarrow> 'v list \<Rightarrow> bool" where
  "struct_post fs rs slot gs xs r slot' ds \<longleftrightarrow>
     (case r of
        Ok _ \<Rightarrow> ds = [] \<and> (\<exists>vs. rs = map Ok vs \<and> slot' = slot(map field_name fs [\<mapsto>] vs))
      | Err e \<Rightarrow> (\<exists>vs rest. rs = map Ok vs @ Err e # rest \<and> ds = field_own (fs ! length vs) slot @ rev vs @ xs \<and>
          (\<forall>f \<in> set gs \<union> set (take (length vs) (map field_name fs)). slot' f = None)))"

lemma struct_post_Cons:
  assumes post: "struct_post fs rs (slot(field_name f \<mapsto> v)) (field_name f # gs) (v # xs) r slot' ds"
    and new: "field_name f \<notin> field_name ` set fs" and len: "length fs = length rs"
  shows "struct_post (f # fs) (Ok v # rs) slot gs xs r slot' ds"
proof (cases r)
  case (Ok u)
  with post obtain vs where "ds = []" "rs = map Ok vs" "slot' = slot(field_name f \<mapsto> v, map field_name fs [\<mapsto>] vs)"
    by (auto simp: struct_post_def)
  then show ?thesis
    using Ok by (auto simp: struct_post_def intro!: exI [of _ "v # vs"])
next
  case (Err e)
  with post obtain vs rest where vs: "rs = map Ok vs @ Err e # rest"
    "ds = field_own (fs ! length vs) (slot(field_name f \<mapsto> v)) @ rev vs @ v # xs"
    "\<forall>g \<in> set (field_name f # gs) \<union> set (take (length vs) (map field_name fs)). slot' g = None"
    by (auto simp: struct_post_def)
  have "fs ! length vs \<in> set fs" using vs(1) len by simp
  then have "field_name f \<noteq> field_name (fs ! length vs)" using new by blast
  then have "field_own (fs ! length vs) (slot(field_name f \<mapsto> v)) = field_own (fs ! length vs) slot"
    by (rule field_own_upd)
  with vs show ?thesis
    using Err unfolding struct_post_def by (auto intro!: exI [of _ "v # vs"])
qed

lemma init_slot_ok:
  assumes "list_all2 field_yields fs rs" and "distinct (map field_name fs @ gs)" and "guarded slot gs xs"
  shows "\<exists>r slot' ds. init_slot gs slot fs = Inr (r, slot', ds) \<and> struct_post fs rs slot gs xs r slot' ds"
  using assms
proof (induction fs rs arbitrary: gs slot xs rule: list_all2_induct)
  case Nil
  then show ?case by (simp add: struct_post_def)
next
  case (Cons f fs r rs)
  have new: "field_name f \<notin> set gs" "distinct gs" "field_name f \<notin> field_name ` set fs" using Cons.prems(1) by auto
  note step = init_slot_step [OF Cons.hyps(1) new(1,2) Cons.prems(2), of fs]
  show ?case
  proof (cases r)
    case (Ok v)
    let ?slot = "slot(field_name f \<mapsto> v)"
    have "guarded ?slot (field_name f # gs) (v # xs)"
      using Cons.prems(2) new by (simp add: guarded_Cons guarded_upd)
    moreover have "distinct (map field_name fs @ field_name f # gs)" using Cons.prems(1) by simp
    ultimately obtain r' slot' ds where run: "init_slot (field_name f # gs) ?slot fs = Inr (r', slot', ds)"
      and post: "struct_post fs rs ?slot (field_name f # gs) (v # xs) r' slot' ds"
      using Cons.IH by blast
    from struct_post_Cons [OF post new(3) list_all2_lengthD [OF Cons.hyps(2)]] step Ok run show ?thesis by auto
  next
    case (Err e)
    with step show ?thesis by (fastforce simp: struct_post_def intro: exI [of _ "[]"])
  qed
qed

section \<open>Arrays\<close>

lemma drop_elements_ok: "drop_elements (map Some xs @ rest) (length xs) = Inr (xs, replicate (length xs) None @ rest)"
  by (induction xs) (simp_all add: drop_in_place_def)

text \<open>The initialisers that \<open>make_init\<close> makes for the indices from \<open>i\<close> on.\<close>

fun makes :: "('s \<Rightarrow> nat \<Rightarrow> 'i \<times> 's) \<Rightarrow> 's \<Rightarrow> nat \<Rightarrow> nat \<Rightarrow> 'i list" where
  "makes make_init st i 0 = []"
| "makes make_init st i (Suc n) = (let (init, st) = make_init st i in init # makes make_init st (Suc i) n)"

definition array_post ::
  "('a, 'e) slot_init list \<Rightarrow> ('a, 'e) result list \<Rightarrow> 'a list \<Rightarrow> 'a option list \<Rightarrow> (unit, 'e) result \<Rightarrow> 'a option list \<Rightarrow> 'a list \<Rightarrow> bool" where
  "array_post inits rs xs rest r slots' ds \<longleftrightarrow>
     (case r of
        Ok _ \<Rightarrow> ds = [] \<and> (\<exists>vs. rs = map Ok vs \<and> slots' = map Some (xs @ vs))
      | Err e \<Rightarrow> (\<exists>vs rest'. rs = map Ok vs @ Err e # rest' \<and>
          ds = own_drops (inits ! length vs) (rest ! length vs) @ xs @ vs \<and> length slots' = length xs + length rest \<and>
          (\<forall>j < length xs + length vs. slots' ! j = None)))"

lemma array_post_Cons:
  assumes post: "array_post inits rs (xs @ [v]) rest r slots' ds"
  shows "array_post (I # inits) (Ok v # rs) xs (s # rest) r slots' ds"
proof (cases r)
  case (Ok u)
  with post obtain vs where "ds = []" "rs = map Ok vs" "slots' = map Some (xs @ v # vs)" by (auto simp: array_post_def)
  with Ok show ?thesis by (auto simp: array_post_def intro!: exI [of _ "v # vs"])
next
  case (Err e)
  with post obtain vs rest' where "rs = map Ok vs @ Err e # rest'"
    "ds = own_drops (inits ! length vs) (rest ! length vs) @ xs @ v # vs" "length slots' = length xs + 1 + length rest"
    "\<forall>j < length xs + 1 + length vs. slots' ! j = None" by (auto simp: array_post_def)
  with Err show ?thesis by (auto simp: array_post_def intro!: exI [of _ "v # vs"])
qed

lemma array_loop_ok:
  assumes "list_all2 initializer (makes make_init st (length xs) (length rest)) rs"
  shows "\<exists>r slots' ds. array_loop make_init st (length xs) (length rest) (Some (length xs)) (map Some xs @ rest) = Inr (r, slots', ds) \<and>
    array_post (makes make_init st (length xs) (length rest)) rs xs rest r slots' ds"
  using assms
proof (induction rest arbitrary: st xs rs)
  case Nil
  then show ?case by (simp add: scope_guard_dismiss_def scope_guard_drop_def array_post_def)
next
  case (Cons s rest)
  obtain I st' where mk: "make_init st (length xs) = (I, st')" by (cases "make_init st (length xs)")
  with Cons.prems obtain r rs' where rs: "rs = r # rs'" "initializer I r"
    "list_all2 initializer (makes make_init st' (Suc (length xs)) (length rest)) rs'"
    by (auto simp: list_all2_Cons1)
  show ?case
  proof (cases r)
    case (Ok v)
    have "\<exists>r slots' ds. array_loop make_init st' (length (xs @ [v])) (length rest) (Some (length (xs @ [v]))) (map Some (xs @ [v]) @ rest)
        = Inr (r, slots', ds) \<and>
      array_post (makes make_init st' (length (xs @ [v])) (length rest)) rs' (xs @ [v]) rest r slots' ds"
      using rs(3) by (intro Cons.IH) simp
    then obtain r' slots' ds where run: "array_loop make_init st' (Suc (length xs)) (length rest) (Some (Suc (length xs))) (map Some xs @ Some v # rest)
        = Inr (r', slots', ds)"
      and post: "array_post (makes make_init st' (Suc (length xs)) (length rest)) rs' (xs @ [v]) rest r' slots' ds" by auto
    have "array_post (I # makes make_init st' (Suc (length xs)) (length rest)) (r # rs') xs (s # rest) r' slots' ds"
      unfolding Ok by (rule array_post_Cons [OF post])
    with run mk rs initializer.succeeds [OF rs(2) Ok] show ?thesis
      by (simp add: list_update_append scope_guard_deref_mut_def)
  next
    case (Err e)
    obtain s' ds where I: "I s = Inr (Err e, s', ds)" using initializer.fails [OF rs(2) Err, of s] by auto
    have "array_post (I # makes make_init st' (Suc (length xs)) (length rest)) (r # rs') xs (s # rest) (Err e)
        (replicate (length xs) None @ s' # rest) (ds @ xs)"
      using Err I unfolding array_post_def
      by (simp, intro exI [where x = "[]"], simp add: nth_append own_drops_def)
    moreover have "array_loop make_init st (length xs) (length (s # rest)) (Some (length xs)) (map Some xs @ s # rest) =
        Inr (Err e, replicate (length xs) None @ s' # rest, ds @ xs)"
      using I mk drop_elements_ok [of xs "s' # rest"]
      by (simp add: nth_append list_update_append scope_guard_drop_def Let_def)
    ultimately show ?thesis using mk rs(1) by (auto simp: Let_def)
  qed
qed

section \<open>The stack\<close>

text \<open>A variable that is initialised with each of \<open>inits\<close> in turn and then goes out of scope: all drops in order.\<close>

fun stack_run :: "('a, 'e) slot_init list \<Rightarrow> 'a stack_init \<Rightarrow> 'a list exec" where
  "stack_run [] this = stack_init_drop this"
| "stack_run (init # inits) this =
     exec_bind (stack_init_init this init) (\<lambda>(r, this, ds).
     exec_bind (stack_run inits this) (\<lambda>ds'. Inr (ds @ ds')))"

definition made_by :: "('a, 'e) slot_init \<Rightarrow> ('a, 'e) result \<Rightarrow> 'a list" where
  "made_by init r = (case r of Ok v \<Rightarrow> [v] | Err _ \<Rightarrow> own_drops init None)"

definition stack_ok :: "'a stack_init \<Rightarrow> 'a list \<Rightarrow> bool" where
  "stack_ok this xs \<longleftrightarrow> (if si_is_init this then \<exists>v. si_value this = Some v \<and> xs = [v] else si_value this = None \<and> xs = [])"

lemma stack_init_step:
  assumes "stack_ok this xs" and I: "initializer init r"
  shows "\<exists>r' this' ys. stack_init_init this init = Inr (r', this', xs @ ys) \<and>
    (case r of Ok v \<Rightarrow> ys = [] \<and> stack_ok this' [v] | Err _ \<Rightarrow> ys = own_drops init None \<and> stack_ok this' [])"
proof -
  have start: "(if si_is_init this
      then exec_bind (drop_in_place (si_value this)) (\<lambda>(x, s). Inr (\<lparr>si_value = s, si_is_init = False\<rparr>, [x]))
      else Inr (this, [])) = Inr (\<lparr>si_value = None, si_is_init = False\<rparr>, xs)"
    using assms(1) by (cases this) (auto simp: stack_ok_def drop_in_place_def split: if_splits)
  show ?thesis
  proof (cases r)
    case (Ok v)
    then show ?thesis
      unfolding stack_init_init_def start using initializer.succeeds [OF I Ok, of None] by (simp add: stack_ok_def)
  next
    case (Err e)
    obtain ds where "init None = Inr (Err e, None, ds)" using initializer.fails [OF I Err, of None] by auto
    with Err show ?thesis
      unfolding stack_init_init_def start by (simp add: stack_ok_def own_drops_def)
  qed
qed

lemma stack_run_ok:
  assumes "list_all2 initializer inits rs" and "stack_ok this xs"
  shows "stack_run inits this = Inr (xs @ concat (map2 made_by inits rs))"
  using assms
proof (induction inits rs arbitrary: this xs rule: list_all2_induct)
  case Nil
  then show ?case by (auto simp: stack_ok_def stack_init_drop_def drop_in_place_def split: if_splits)
next
  case (Cons init inits r rs)
  from stack_init_step [OF Cons.prems Cons.hyps(1)] obtain r' this' ys where
    step: "stack_init_init this init = Inr (r', this', xs @ ys)"
      "case r of Ok v \<Rightarrow> ys = [] \<and> stack_ok this' [v] | Err _ \<Rightarrow> ys = own_drops init None \<and> stack_ok this' []" by blast
  then show ?case
    using Cons.IH [of this'] by (cases r) (auto simp: made_by_def)
qed

section \<open>Boxes and Arcs\<close>

lemma box_write_init_ok:
  assumes "initializer init r" and "slot_ok tsz b 0"
  shows "case r of
      Ok v \<Rightarrow> box_write_init tsz b init = Inr (Ok (b\<lparr>b_mem := (b_mem b)(0 \<mapsto> v)\<rparr>), [])
    | Err e \<Rightarrow> box_write_init tsz b init = Inr (Err e, own_drops init (b_mem b 0))"
proof (cases r)
  case (Ok v)
  with initializer.succeeds [OF assms(1) Ok, of "b_mem b 0"] assms(2) show ?thesis
    by (simp add: box_write_init_def box_assume_init_def slot_read_def slot_ok_def)
next
  case (Err e)
  with initializer.fails [OF assms(1) Err, of "b_mem b 0"] assms(2) show ?thesis
    by (auto simp: box_write_init_def own_drops_def)
qed

lemma box_write_pin_init_eq: "box_write_pin_init tsz b init = box_write_init tsz b init"
  by (simp add: box_write_pin_init_def box_write_init_def)

section \<open>Properties\<close>

text \<open>An initialiser that writes 2 and then refuses it.\<close>

definition refuse_two :: "(nat, error) slot_init" where
  "refuse_two = chain_init (value_init 2) (\<lambda>v. (Err EINVAL, v))"

lemma refuse_two_fails: "initializer refuse_two (Err EINVAL)"
  using plain_value.chain_ok [of 2 "\<lambda>v. (Err EINVAL, v)"] by (simp add: refuse_two_def)

text \<open>
  C19: the code that \<open>pin_init!\<close> and \<open>init!\<close> generate meets the contract of an initialiser. With distinct fields whose
  initialisers meet theirs, it either initialises every field with its value and drops nothing, or returns the
  first error; then exactly the fields before it were dropped, each once and the last one first, after what the
  failing initialiser dropped itself, and none of them is left in the slot.
\<close>

theorem struct_init_correct:
  assumes "list_all2 field_yields fs rs" and "distinct (map field_name fs)"
  shows "\<exists>r slot' ds. init_internal None fs slot = Inr (r, slot', ds) \<and>
    (case r of
       Ok _ \<Rightarrow> ds = [] \<and> (\<exists>vs. rs = map Ok vs \<and> slot' = slot(map field_name fs [\<mapsto>] vs))
     | Err e \<Rightarrow> (\<exists>vs rest. rs = map Ok vs @ Err e # rest \<and> ds = field_own (fs ! length vs) slot @ rev vs \<and>
         (\<forall>f \<in> set (take (length vs) (map field_name fs)). slot' f = None)))"
proof -
  obtain r slot' ds where "init_slot [] slot fs = Inr (r, slot', ds)" "struct_post fs rs slot [] [] r slot' ds"
    using init_slot_ok [OF assms(1), of "[]" slot "[]"] assms(2) by auto
  then show ?thesis by (cases r) (auto simp: init_internal_def struct_post_def)
qed

theorem struct_init_correct_witness:
  "let fs = [ByValue ''a'' (Ok 1), InPlace ''b'' (value_init 5), InPlace ''c'' refuse_two, ByValue ''d'' (Ok 7)];
       rs = [Ok 1, Ok 5, Err EINVAL, Ok 7] in
   \<exists>r slot' ds. init_internal None fs Map.empty = Inr (r, slot', ds) \<and>
    (case r of
       Ok _ \<Rightarrow> ds = [] \<and> (\<exists>vs. rs = map Ok vs \<and> slot' = Map.empty(map field_name fs [\<mapsto>] vs))
     | Err e \<Rightarrow> (\<exists>vs rest. rs = map Ok vs @ Err e # rest \<and> ds = field_own (fs ! length vs) Map.empty @ rev vs \<and>
         (\<forall>f \<in> set (take (length vs) (map field_name fs)). slot' f = None)))"
  unfolding Let_def
  by (rule struct_init_correct) (simp_all add: refuse_two_fails plain_value.initializer_axioms)

text \<open>
  C20: initialising an array element by element either fills it with the values in order, or stops at the first element
  that fails; then the elements before it, and no others, have been dropped once, in order, and are uninitialised
  again.
\<close>

theorem array_init_correct:
  assumes "list_all2 initializer (makes make_init st 0 (length slots)) rs"
  shows "\<exists>r slots' ds. init_array_from_fn make_init st slots = Inr (r, slots', ds) \<and>
    (case r of
       Ok _ \<Rightarrow> ds = [] \<and> (\<exists>vs. rs = map Ok vs \<and> slots' = map Some vs)
     | Err e \<Rightarrow> (\<exists>vs rest. rs = map Ok vs @ Err e # rest \<and>
         ds = own_drops (makes make_init st 0 (length slots) ! length vs) (slots ! length vs) @ vs \<and>
         length slots' = length slots \<and> (\<forall>j < length vs. slots' ! j = None)))"
proof -
  obtain r slots' ds where "init_array_from_fn make_init st slots = Inr (r, slots', ds)"
    "array_post (makes make_init st 0 (length slots)) rs [] slots r slots' ds"
    using array_loop_ok [of make_init st "[]" slots rs] assms
    by (auto simp: init_array_from_fn_def scope_guard_new_with_data_def)
  then show ?thesis by (cases r) (auto simp: array_post_def)
qed

theorem array_init_correct_witness:
  "let mk = (\<lambda>st i. (if i = 2 then refuse_two else value_init (10 + i), st :: unit));
       rs = [Ok 10, Ok 11, Err EINVAL, Ok 13]; slots = [None, None, None, None] in
   \<exists>r slots' ds. init_array_from_fn mk () slots = Inr (r, slots', ds) \<and>
    (case r of
       Ok _ \<Rightarrow> ds = [] \<and> (\<exists>vs. rs = map Ok vs \<and> slots' = map Some vs)
     | Err e \<Rightarrow> (\<exists>vs rest. rs = map Ok vs @ Err e # rest \<and>
         ds = own_drops (makes mk () 0 (length slots) ! length vs) (slots ! length vs) @ vs \<and>
         length slots' = length slots \<and> (\<forall>j < length vs. slots' ! j = None)))"
  unfolding Let_def
  by (rule array_init_correct)
    (simp add: refuse_two_fails, metis plain_value.initializer_axioms)

text \<open>
  A variable on the stack that is initialised again and again drops every value once: each success at the next
  initialisation or at the end of its scope.
\<close>

lemma stack_init_drops_once:
  assumes "list_all2 initializer inits rs"
  shows "stack_run inits stack_init_uninit = Inr (concat (map2 made_by inits rs))"
  using stack_run_ok [OF assms, of stack_init_uninit "[]"] by (simp add: stack_ok_def stack_init_uninit_def)

text \<open>Creating a box in place yields the initialiser's value or its error, and never leaves a value behind.\<close>

lemma box_try_init_correct:
  assumes "c_realloc_ok tsz f" and "type_ok tsz tal" and "0 < tsz" and "initializer init r"
  shows "\<exists>res ds. box_try_init conv (kmalloc_realloc f) tsz tal init fl = Inr (res, ds) \<and>
    (res = Err (conv AllocError) \<and> ds = [] \<or>
     (case r of
        Ok v \<Rightarrow> \<exists>b. res = Ok b \<and> box_deref tsz b = Inr v \<and> ds = []
      | Err e \<Rightarrow> \<exists>s. res = Err e \<and> ds = own_drops init s))"
proof (cases "box_new_uninit (kmalloc_realloc f) tsz tal fl")
  case (Err e)
  then have "e = AllocError" by (auto simp: box_new_uninit_def allocator_alloc_def dest: kmalloc_err)
  with Err show ?thesis by (simp add: box_try_init_def)
next
  case (Ok b)
  have "0 < tal" using assms(2) by (auto simp: type_ok_def intro!: Nat.gr0I)
  with Ok allocator.alloc_size [OF kmalloc_allocator [OF assms(1)], of "\<lparr>l_size = tsz, l_align = tal\<rparr>" fl b]
  have "slot_ok tsz b 0" by (simp add: box_new_uninit_def slot_ok_def)
  with box_write_init_ok [OF assms(4) this] Ok show ?thesis
    by (cases r) (auto simp: box_try_init_def box_deref_def slot_read_def slot_ok_def)
qed

text \<open>An \<open>Arc\<close> created in place: it holds the initialiser's value, or the memory is free again.\<close>

lemma arc_try_init_correct:
  assumes C: "c_refcount_ok C" and al: "arc_alloc_ok alloc" and I: "initializer init r"
  shows "\<exists>res h' ds. arc_try_init conv C alloc h init = Inr (res, h', ds) \<and>
    (res = Err (conv AllocError) \<and> h' = h \<and> ds = [] \<or>
     (case r of
        Ok v \<Rightarrow> \<exists>a. res = Ok a \<and> h a = None \<and> arc_deref h' a = Inr v \<and> ds = []
      | Err e \<Rightarrow> res = Err e \<and> h' = h \<and> ds = own_drops init None))"
proof (cases "alloc h")
  case None
  then show ?thesis by (simp add: arc_try_init_def unique_arc_try_init_def unique_arc_new_uninit_def)
next
  case (Some a)
  then have free: "h a = None" using al by (auto simp: arc_alloc_ok_def)
  have dec: "fst (rc_dec_and_test C (rc_init C 1))"
    using C unfolding c_refcount_ok_def by (auto simp: rc_saturated_def)
  note defs = arc_try_init_def unique_arc_try_init_def unique_arc_new_uninit_def unique_arc_write_init_def arc_as_ref_def
    arc_drop_glue_def unique_arc_assume_init_def arc_deref_def arc_from_unique_def
  show ?thesis
  proof (cases r)
    case (Ok v)
    with Some free initializer.succeeds [OF I Ok, of None] show ?thesis by (simp add: defs)
  next
    case (Err e)
    obtain ds where "init None = Inr (Err e, None, ds)" using initializer.fails [OF I Err, of None] by auto
    with Err Some free dec show ?thesis
      by (cases "rc_dec_and_test C (rc_init C 1)") (simp add: defs own_drops_def fun_upd_idem)
  qed
qed

end
