(* ===== verification/Kernel_File.thy ===== *)
theory Kernel_File
  imports Kernel_Types "HOL-Library.Multiset"
begin

text \<open>
  \<open>rust/src/fs/file.rs\<close>: open flags, reference-counted files and reserved file descriptors.

  The file table and the counts of the files are the kernel's. Its functions are the parameter \<open>c_file\<close> on a state \<open>'s\<close>;
  what they promise is stated over a view of that state: what each descriptor is, and how many references each file has.
  The steps of a program that holds reservations and \<open>ARef<File>\<close>s, with other processes closing descriptors, are the
  relation \<open>fd_step\<close>.
\<close>

unbundle bit_operations_syntax

section \<open>Flags\<close>

definition O_APPEND :: u32 where "O_APPEND = 0x2000"
definition O_ASYNC :: u32 where "O_ASYNC = 0x2000"
definition O_CLOEXEC :: u32 where "O_CLOEXEC = 0x80000"
definition O_CREAT :: u32 where "O_CREAT = 0x40"
definition O_DIRECT :: u32 where "O_DIRECT = 0x10000"
definition O_DIRECTORY :: u32 where "O_DIRECTORY = 0x4000"
definition O_DSYNC :: u32 where "O_DSYNC = 0x1000"
definition O_EXCL :: u32 where "O_EXCL = 0x80"
definition O_LARGEFILE :: u32 where "O_LARGEFILE = 0x20000"
definition O_NOATIME :: u32 where "O_NOATIME = 0x40000"
definition O_NOCTTY :: u32 where "O_NOCTTY = 0x100"
definition O_NOFOLLOW :: u32 where "O_NOFOLLOW = 0x8000"
definition O_NONBLOCK :: u32 where "O_NONBLOCK = 0x800"
definition O_NDELAY :: u32 where "O_NDELAY = 0x800"
definition O_PATH :: u32 where "O_PATH = 0x200000"
definition O_SYNC :: u32 where "O_SYNC = 0x101000"
definition O_TMPFILE :: u32 where "O_TMPFILE = 0x404000"
definition O_TRUNC :: u32 where "O_TRUNC = 0x200"
definition O_ACCMODE :: u32 where "O_ACCMODE = 3"
definition O_RDONLY :: u32 where "O_RDONLY = 0"
definition O_WRONLY :: u32 where "O_WRONLY = 1"
definition O_RDWR :: u32 where "O_RDWR = 2"

section \<open>Files and descriptors\<close>

record 's c_file =
  cf_get_file :: "'s \<Rightarrow> addr \<Rightarrow> 's exec"
  cf_fput :: "'s \<Rightarrow> addr \<Rightarrow> 's exec"
  cf_fget :: "'s \<Rightarrow> u32 \<Rightarrow> addr \<times> 's"
  cf_get_unused_fd_flags :: "'s \<Rightarrow> u32 \<Rightarrow> int \<times> 's"
  cf_put_unused_fd :: "'s \<Rightarrow> u32 \<Rightarrow> 's exec"
  cf_fd_install :: "'s \<Rightarrow> u32 \<Rightarrow> addr \<Rightarrow> 's exec"

datatype bad_fd_error = BadFdError

fun error_from_bad_fd :: "bad_fd_error \<Rightarrow> error" where
  "error_from_bad_fd BadFdError = Error (- 9)"

definition file_inc_ref :: "'s c_file \<Rightarrow> addr \<Rightarrow> 's \<Rightarrow> 's exec" where
  "file_inc_ref K this s = cf_get_file K s this"

definition file_dec_ref :: "'s c_file \<Rightarrow> addr \<Rightarrow> 's \<Rightarrow> 's exec" where
  "file_dec_ref K obj s = cf_fput K s obj"

definition local_file_inc_ref :: "'s c_file \<Rightarrow> addr \<Rightarrow> 's \<Rightarrow> 's exec" where
  "local_file_inc_ref K this s = cf_get_file K s this"

definition local_file_dec_ref :: "'s c_file \<Rightarrow> addr \<Rightarrow> 's \<Rightarrow> 's exec" where
  "local_file_dec_ref K obj s = cf_fput K s obj"

definition local_file_fget :: "'s c_file \<Rightarrow> 's \<Rightarrow> u32 \<Rightarrow> (addr, bad_fd_error) result \<times> 's" where
  "local_file_fget K s fd =
     (let (ptr, s) = cf_fget K s fd in
      (if ptr = 0 then Err BadFdError else Ok (aref_from_raw ptr), s))"

definition assume_no_fdget_pos :: "addr \<Rightarrow> addr" where
  "assume_no_fdget_pos me = aref_from_raw (aref_into_raw me)"

record fd_reservation =
  fr_fd :: u32

definition get_unused_fd_flags :: "'s c_file \<Rightarrow> 's \<Rightarrow> u32 \<Rightarrow> (fd_reservation, error) result \<times> 's" where
  "get_unused_fd_flags K s flags =
     (let (fd, s) = cf_get_unused_fd_flags K s flags in
      if fd < 0 then (Err (from_errno fd), s) else (Ok \<lparr>fr_fd = word_of_int fd\<rparr>, s))"

definition reserved_fd :: "fd_reservation \<Rightarrow> u32" where
  "reserved_fd r = fr_fd r"

text \<open>\<open>fd_install\<close> forgets the reservation and the file: neither destructor runs.\<close>

definition fd_install :: "'s c_file \<Rightarrow> 's \<Rightarrow> fd_reservation \<Rightarrow> addr \<Rightarrow> 's exec" where
  "fd_install K s self file = cf_fd_install K s (fr_fd self) file"

definition fd_reservation_drop :: "'s c_file \<Rightarrow> 's \<Rightarrow> fd_reservation \<Rightarrow> 's exec" where
  "fd_reservation_drop K s self = cf_put_unused_fd K s (fr_fd self)"

section \<open>Contract\<close>

datatype fd_slot = Reserved | Open addr

record fd_view =
  fv_slot :: "u32 \<rightharpoonup> fd_slot"
  fv_refs :: "addr \<Rightarrow> nat"

definition c_file_ok :: "'s c_file \<Rightarrow> ('s \<Rightarrow> fd_view) \<Rightarrow> bool" where
  "c_file_ok K view \<longleftrightarrow>
     (\<forall>s f. 0 < fv_refs (view s) f \<longrightarrow>
        (\<exists>s'. cf_get_file K s f = Inr s' \<and> view s' = (view s)\<lparr>fv_refs := (fv_refs (view s))(f := fv_refs (view s) f + 1)\<rparr>) \<and>
        (\<exists>s'. cf_fput K s f = Inr s' \<and> view s' = (view s)\<lparr>fv_refs := (fv_refs (view s))(f := fv_refs (view s) f - 1)\<rparr>)) \<and>
     (\<forall>s fd. case cf_fget K s fd of (p, s') \<Rightarrow>
        (case fv_slot (view s) fd of
           Some (Open f) \<Rightarrow> p = f \<and> p \<noteq> 0 \<and> view s' = (view s)\<lparr>fv_refs := (fv_refs (view s))(f := fv_refs (view s) f + 1)\<rparr>
         | _ \<Rightarrow> p = 0 \<and> view s' = view s)) \<and>
     (\<forall>s fl. case cf_get_unused_fd_flags K s fl of (fd, s') \<Rightarrow>
        (if fd < 0 then view s' = view s
         else fd < 2 ^ 31 \<and> fv_slot (view s) (word_of_int fd) = None \<and>
           view s' = (view s)\<lparr>fv_slot := (fv_slot (view s))(word_of_int fd \<mapsto> Reserved)\<rparr>)) \<and>
     (\<forall>s fd. fv_slot (view s) fd = Some Reserved \<longrightarrow>
        (\<exists>s'. cf_put_unused_fd K s fd = Inr s' \<and> view s' = (view s)\<lparr>fv_slot := (fv_slot (view s))(fd := None)\<rparr>) \<and>
        (\<forall>f. 0 < fv_refs (view s) f \<longrightarrow>
           (\<exists>s'. cf_fd_install K s fd f = Inr s' \<and> view s' = (view s)\<lparr>fv_slot := (fv_slot (view s))(fd \<mapsto> Open f)\<rparr>)))"

section \<open>Programs\<close>

text \<open>The reservations and the files that the program holds.\<close>

record 's fd_world =
  fw_kernel :: 's
  fw_resv :: "u32 multiset"
  fw_files :: "addr multiset"

inductive fd_step :: "'s c_file \<Rightarrow> ('s \<Rightarrow> fd_view) \<Rightarrow> 's fd_world \<Rightarrow> 's fd_world \<Rightarrow> bool" for K view where
  fd_reserve: "get_unused_fd_flags K (fw_kernel w) fl = (Ok r, s) \<Longrightarrow>
    fd_step K view w (w\<lparr>fw_kernel := s, fw_resv := add_mset (reserved_fd r) (fw_resv w)\<rparr>)"
| fd_reserve_fail: "get_unused_fd_flags K (fw_kernel w) fl = (Err e, s) \<Longrightarrow> fd_step K view w (w\<lparr>fw_kernel := s\<rparr>)"
| fd_drop: "reserved_fd r \<in># fw_resv w \<Longrightarrow> fd_reservation_drop K (fw_kernel w) r = Inr s \<Longrightarrow>
    fd_step K view w (w\<lparr>fw_kernel := s, fw_resv := fw_resv w - {#reserved_fd r#}\<rparr>)"
| fd_inst: "reserved_fd r \<in># fw_resv w \<Longrightarrow> f \<in># fw_files w \<Longrightarrow> fd_install K (fw_kernel w) r f = Inr s \<Longrightarrow>
    fd_step K view w (w\<lparr>fw_kernel := s, fw_resv := fw_resv w - {#reserved_fd r#}, fw_files := fw_files w - {#f#}\<rparr>)"
| fd_fget: "local_file_fget K (fw_kernel w) fd = (Ok f, s) \<Longrightarrow>
    fd_step K view w (w\<lparr>fw_kernel := s, fw_files := add_mset (assume_no_fdget_pos f) (fw_files w)\<rparr>)"
| fd_fget_fail: "local_file_fget K (fw_kernel w) fd = (Err e, s) \<Longrightarrow> fd_step K view w (w\<lparr>fw_kernel := s\<rparr>)"
| fd_clone: "f \<in># fw_files w \<Longrightarrow> aref_clone (file_inc_ref K f) (fw_kernel w) = Inr s \<Longrightarrow>
    fd_step K view w (w\<lparr>fw_kernel := s, fw_files := add_mset f (fw_files w)\<rparr>)"
| fd_put: "f \<in># fw_files w \<Longrightarrow> aref_drop (file_dec_ref K f) (fw_kernel w) = Inr s \<Longrightarrow>
    fd_step K view w (w\<lparr>fw_kernel := s, fw_files := fw_files w - {#f#}\<rparr>)"
| fd_close: "fv_slot (view (fw_kernel w)) fd = Some (Open f) \<Longrightarrow>
    view s = \<lparr>fv_slot = (fv_slot (view (fw_kernel w)))(fd := None),
              fv_refs = (fv_refs (view (fw_kernel w)))(f := fv_refs (view (fw_kernel w)) f - 1)\<rparr> \<Longrightarrow>
    fd_step K view w (w\<lparr>fw_kernel := s\<rparr>)"

text \<open>At the start the program holds nothing and no descriptor is reserved.\<close>

inductive fd_reach :: "'s c_file \<Rightarrow> ('s \<Rightarrow> fd_view) \<Rightarrow> ('s \<Rightarrow> bool) \<Rightarrow> 's fd_world \<Rightarrow> bool" for K view start where
  fd_reach_init: "start s \<Longrightarrow> fd_reach K view start \<lparr>fw_kernel = s, fw_resv = {#}, fw_files = {#}\<rparr>"
| fd_reach_step: "fd_reach K view start w \<Longrightarrow> fd_step K view w w' \<Longrightarrow> fd_reach K view start w'"

text \<open>
  The books: the reserved descriptors are the program's reservations, each once; a file has a reference for
  every \<open>ARef\<close>, for every descriptor that is open on it, and the \<open>ext f\<close> that others hold.
\<close>

definition open_on :: "fd_view \<Rightarrow> addr \<Rightarrow> u32 set" where
  "open_on v f = {fd. fv_slot v fd = Some (Open f)}"

definition fd_books :: "('s \<Rightarrow> fd_view) \<Rightarrow> (addr \<Rightarrow> nat) \<Rightarrow> 's fd_world \<Rightarrow> bool" where
  "fd_books view ext w \<longleftrightarrow> (let v = view (fw_kernel w) in
     (\<forall>fd. count (fw_resv w) fd = (if fv_slot v fd = Some Reserved then 1 else 0)) \<and>
     (\<forall>f. fv_refs v f = ext f + count (fw_files w) f + card (open_on v f)))"

definition fd_start :: "('s \<Rightarrow> fd_view) \<Rightarrow> (addr \<Rightarrow> nat) \<Rightarrow> 's \<Rightarrow> bool" where
  "fd_start view ext s \<longleftrightarrow> (\<forall>fd. fv_slot (view s) fd \<noteq> Some Reserved) \<and>
     (\<forall>f. fv_refs (view s) f = ext f + card (open_on (view s) f))"

lemma open_on_upd:
  "open_on (v\<lparr>fv_slot := (fv_slot v)(fd := x)\<rparr>) f =
     (if x = Some (Open f) then insert fd (open_on v f) else open_on v f - {fd})"
  by (auto simp: open_on_def)

lemma open_on_refs [simp]: "open_on (v\<lparr>fv_refs := r\<rparr>) f = open_on v f"
  by (simp add: open_on_def)

lemma card_open_insert: "fd \<notin> open_on v f \<Longrightarrow> card (insert fd (open_on v f)) = Suc (card (open_on v f))"
  by simp

text \<open>The kernel's promises, one by one.\<close>

definition add_ref :: "addr \<Rightarrow> fd_view \<Rightarrow> fd_view" where
  "add_ref f v = v\<lparr>fv_refs := (fv_refs v)(f := fv_refs v f + 1)\<rparr>"

definition sub_ref :: "addr \<Rightarrow> fd_view \<Rightarrow> fd_view" where
  "sub_ref f v = v\<lparr>fv_refs := (fv_refs v)(f := fv_refs v f - 1)\<rparr>"

definition set_slot :: "u32 \<Rightarrow> fd_slot option \<Rightarrow> fd_view \<Rightarrow> fd_view" where
  "set_slot fd x v = v\<lparr>fv_slot := (fv_slot v)(fd := x)\<rparr>"

lemma c_file_laws:
  assumes "c_file_ok K view"
  shows "0 < fv_refs (view s) f \<Longrightarrow> \<exists>s'. cf_get_file K s f = Inr s' \<and> view s' = add_ref f (view s)"
    and "0 < fv_refs (view s) f \<Longrightarrow> \<exists>s'. cf_fput K s f = Inr s' \<and> view s' = sub_ref f (view s)"
    and "fv_slot (view s) fd = Some Reserved \<Longrightarrow> \<exists>s'. cf_put_unused_fd K s fd = Inr s' \<and> view s' = set_slot fd None (view s)"
    and "fv_slot (view s) fd = Some Reserved \<Longrightarrow> 0 < fv_refs (view s) f \<Longrightarrow>
      \<exists>s'. cf_fd_install K s fd f = Inr s' \<and> view s' = set_slot fd (Some (Open f)) (view s)"
  using assms unfolding c_file_ok_def add_ref_def sub_ref_def set_slot_def by blast+

lemma get_unused_fd_view:
  assumes "c_file_ok K view" and "get_unused_fd_flags K s fl = (r, s')"
  shows "case r of
      Err e \<Rightarrow> view s' = view s
    | Ok x \<Rightarrow> fv_slot (view s) (reserved_fd x) = None \<and> view s' = set_slot (reserved_fd x) (Some Reserved) (view s)"
proof -
  obtain fd s1 where fd: "cf_get_unused_fd_flags K s fl = (fd, s1)" by (cases "cf_get_unused_fd_flags K s fl")
  have "case cf_get_unused_fd_flags K s fl of (fd, s') \<Rightarrow>
      (if fd < 0 then view s' = view s
       else fd < 2 ^ 31 \<and> fv_slot (view s) (word_of_int fd) = None \<and>
         view s' = (view s)\<lparr>fv_slot := (fv_slot (view s))(word_of_int fd \<mapsto> Reserved)\<rparr>)"
    by (rule assms(1) [unfolded c_file_ok_def, THEN conjunct2, THEN conjunct2, THEN conjunct1, THEN spec, THEN spec])
  with assms(2) fd show ?thesis
    by (auto simp: get_unused_fd_flags_def reserved_fd_def set_slot_def split: if_splits)
qed

lemma fget_view:
  assumes "c_file_ok K view" and "local_file_fget K s fd = (r, s')"
  shows "case r of
      Err e \<Rightarrow> view s' = view s \<and> (\<forall>f. fv_slot (view s) fd \<noteq> Some (Open f))
    | Ok f \<Rightarrow> fv_slot (view s) fd = Some (Open f) \<and> f \<noteq> 0 \<and> view s' = add_ref f (view s)"
proof -
  obtain p s1 where p: "cf_fget K s fd = (p, s1)" by (cases "cf_fget K s fd")
  have "case cf_fget K s fd of (p, s') \<Rightarrow>
      (case fv_slot (view s) fd of
         Some (Open f) \<Rightarrow> p = f \<and> p \<noteq> 0 \<and> view s' = (view s)\<lparr>fv_refs := (fv_refs (view s))(f := fv_refs (view s) f + 1)\<rparr>
       | _ \<Rightarrow> p = 0 \<and> view s' = view s)"
    by (rule assms(1) [unfolded c_file_ok_def, THEN conjunct2, THEN conjunct1, THEN spec, THEN spec])
  with assms(2) p show ?thesis
    by (auto simp: local_file_fget_def aref_from_raw_def add_ref_def split: if_splits option.splits fd_slot.splits)
qed

section \<open>The books are kept\<close>

lemma view_simps [simp]:
  "fv_slot (add_ref f v) = fv_slot v" "fv_slot (sub_ref f v) = fv_slot v" "fv_slot (set_slot fd x v) = (fv_slot v)(fd := x)"
  "fv_refs (set_slot fd x v) = fv_refs v" "open_on (add_ref f v) g = open_on v g" "open_on (sub_ref f v) g = open_on v g"
  "fv_refs (add_ref f v) g = (if g = f then fv_refs v f + 1 else fv_refs v g)"
  "fv_refs (sub_ref f v) g = (if g = f then fv_refs v f - 1 else fv_refs v g)"
  by (simp_all add: add_ref_def sub_ref_def set_slot_def)

lemma card_open_on_set_slot:
  assumes "\<And>g. x = Some (Open g) \<Longrightarrow> fd \<notin> open_on v g"
  shows "card (open_on (set_slot fd x v) f) =
    (if x = Some (Open f) then card (open_on v f) + 1 else if fd \<in> open_on v f then card (open_on v f) - 1 else card (open_on v f))"
  using assms by (auto simp: set_slot_def open_on_upd)

definition books :: "(addr \<Rightarrow> nat) \<Rightarrow> u32 multiset \<Rightarrow> addr multiset \<Rightarrow> fd_view \<Rightarrow> bool" where
  "books ext resv files v \<longleftrightarrow>
     (\<forall>fd. count resv fd = (if fv_slot v fd = Some Reserved then 1 else 0)) \<and>
     (\<forall>f. fv_refs v f = ext f + count files f + card (open_on v f))"

lemma fd_books_iff: "fd_books view ext w \<longleftrightarrow> books ext (fw_resv w) (fw_files w) (view (fw_kernel w))"
  by (simp add: fd_books_def books_def Let_def)

lemma books_reserved: "books ext resv files v \<Longrightarrow> fd \<in># resv \<Longrightarrow> fv_slot v fd = Some Reserved"
  unfolding books_def by (metis count_eq_zero_iff)

lemma books_held: "books ext resv files v \<Longrightarrow> f \<in># files \<Longrightarrow> 0 < fv_refs v f"
  unfolding books_def by (simp flip: count_greater_zero_iff)

lemma books_reserve:
  assumes "books ext resv files v" and "fv_slot v fd = None"
  shows "books ext (add_mset fd resv) files (set_slot fd (Some Reserved) v)"
proof -
  have "fd \<notin> open_on v f" for f using assms(2) by (simp add: open_on_def)
  with assms show ?thesis unfolding books_def by (auto simp: card_open_on_set_slot)
qed

lemma books_unreserve:
  assumes "books ext resv files v" and "fd \<in># resv"
  shows "books ext (resv - {#fd#}) files (set_slot fd None v)"
proof -
  have "fd \<notin> open_on v f" for f using books_reserved [OF assms] by (simp add: open_on_def)
  moreover have "fv_slot v fd = Some Reserved" by (rule books_reserved [OF assms])
  ultimately show ?thesis using assms(1) unfolding books_def by (auto simp: card_open_on_set_slot)
qed

lemma books_install:
  assumes "books ext resv files v" and "fd \<in># resv" and "f \<in># files"
  shows "books ext (resv - {#fd#}) (files - {#f#}) (set_slot fd (Some (Open f)) v)"
proof -
  have r: "fv_slot v fd = Some Reserved" by (rule books_reserved [OF assms(1,2)])
  then have "fd \<notin> open_on v g" for g by (simp add: open_on_def)
  moreover have "0 < count files f" using assms(3) by simp
  ultimately show ?thesis using assms(1) r unfolding books_def by (auto simp: card_open_on_set_slot)
qed

lemma books_add: "books ext resv files v \<Longrightarrow> books ext resv (add_mset f files) (add_ref f v)"
  unfolding books_def by simp

lemma books_sub: "books ext resv files v \<Longrightarrow> f \<in># files \<Longrightarrow> books ext resv (files - {#f#}) (sub_ref f v)"
  unfolding books_def by (auto simp flip: count_greater_zero_iff)

lemma books_close:
  assumes "books ext resv files v" and "fv_slot v fd = Some (Open f)"
  shows "books ext resv files (sub_ref f (set_slot fd None v))"
proof -
  have "fd \<in> open_on v f" "\<And>g. g \<noteq> f \<Longrightarrow> fd \<notin> open_on v g" using assms(2) by (auto simp: open_on_def)
  moreover from this have "0 < card (open_on v f)" by (auto simp: card_gt_0_iff)
  ultimately have "card (open_on (set_slot fd None v) g) = card (open_on v g) - (if g = f then 1 else 0)" for g
    using card_open_on_set_slot [of None fd v g] by auto
  with \<open>0 < card (open_on v f)\<close> show ?thesis using assms unfolding books_def by auto
qed

lemma fd_books_step:
  assumes K: "c_file_ok K view" and step: "fd_step K view w w'" and inv: "fd_books view ext w"
  shows "fd_books view ext w'"
proof -
  note b = inv [unfolded fd_books_iff]
  from step show ?thesis
  proof cases
    case (fd_reserve fl r s)
    with get_unused_fd_view [OF K, of "fw_kernel w" fl "Ok r" s] books_reserve [OF b] show ?thesis
      by (simp add: fd_books_iff)
  next
    case (fd_reserve_fail fl e s)
    with get_unused_fd_view [OF K, of "fw_kernel w" fl "Err e" s] b show ?thesis by (simp add: fd_books_iff)
  next
    case (fd_drop r s)
    with c_file_laws(3) [OF K, of "fw_kernel w" "reserved_fd r"] books_reserved [OF b] books_unreserve [OF b] show ?thesis
      by (fastforce simp: fd_books_iff fd_reservation_drop_def reserved_fd_def)
  next
    case (fd_inst r f s)
    with c_file_laws(4) [OF K, of "fw_kernel w" "reserved_fd r" f] books_reserved [OF b] books_held [OF b]
      books_install [OF b] show ?thesis
      by (fastforce simp: fd_books_iff fd_install_def reserved_fd_def)
  next
    case (fd_fget fd f s)
    with fget_view [OF K, of "fw_kernel w" fd "Ok f" s] books_add [OF b, of f] show ?thesis
      by (simp add: fd_books_iff assume_no_fdget_pos_def aref_from_raw_def aref_into_raw_def)
  next
    case (fd_fget_fail fd e s)
    with fget_view [OF K, of "fw_kernel w" fd "Err e" s] b show ?thesis by (simp add: fd_books_iff)
  next
    case (fd_clone f s)
    with c_file_laws(1) [OF K, of "fw_kernel w" f] books_held [OF b] books_add [OF b, of f] show ?thesis
      by (fastforce simp: fd_books_iff aref_clone_def file_inc_ref_def)
  next
    case (fd_put f s)
    with c_file_laws(2) [OF K, of "fw_kernel w" f] books_held [OF b] books_sub [OF b, of f] show ?thesis
      by (fastforce simp: fd_books_iff aref_drop_def file_dec_ref_def)
  next
    case (fd_close fd f s)
    then have "view s = sub_ref f (set_slot fd None (view (fw_kernel w)))"
      by (simp add: sub_ref_def set_slot_def)
    with fd_close books_close [OF b, of fd f] show ?thesis by (simp add: fd_books_iff)
  qed
qed

lemma fd_books_reach:
  assumes "c_file_ok K view" and "fd_reach K view (fd_start view ext) w"
  shows "fd_books view ext w"
  using assms(2)
proof (induction rule: fd_reach.induct)
  case (fd_reach_init s)
  then show ?case by (simp add: fd_books_def fd_start_def Let_def)
qed (rule fd_books_step [OF assms(1)])

text \<open>A file is reference counted, for any kernel that keeps its promises.\<close>

locale c_file_api =
  fixes K :: "'s c_file" and view :: "'s \<Rightarrow> fd_view"
  assumes ok: "c_file_ok K view"

sublocale c_file_api \<subseteq> counted_file: always_ref_counted "file_inc_ref K f" "file_dec_ref K f" "\<lambda>s. fv_refs (view s) f"
  "\<lambda>s. 0 < fv_refs (view s) f" "\<lambda>_. True" for f
proof
  show "\<exists>s'. file_inc_ref K f s = Inr s' \<and> 0 < fv_refs (view s') f \<and> fv_refs (view s') f = Suc (fv_refs (view s) f)"
    if "0 < fv_refs (view s) f" for s
    using c_file_laws(1) [OF ok that] by (auto simp: file_inc_ref_def)
  show "\<exists>s'. file_dec_ref K f s = Inr s' \<and> fv_refs (view s') f = fv_refs (view s) f - 1 \<and>
      (1 < fv_refs (view s) f \<longrightarrow> 0 < fv_refs (view s') f)"
    if "0 < fv_refs (view s) f" for s
    using c_file_laws(2) [OF ok that] by (auto simp: file_dec_ref_def)
qed

section \<open>Instance\<close>

text \<open>A state is its own view, but a null pointer is no file. New descriptors are the first unused ones below 8.\<close>

definition ref_view :: "fd_view \<Rightarrow> fd_view" where
  "ref_view v = \<lparr>fv_slot = (\<lambda>fd. if fv_slot v fd = Some (Open 0) then None else fv_slot v fd),
                 fv_refs = (fv_refs v)(0 := 0)\<rparr>"

definition ref_file :: "fd_view c_file" where
  "ref_file = \<lparr>cf_get_file = (\<lambda>v f. Inr (add_ref f (ref_view v))), cf_fput = (\<lambda>v f. Inr (sub_ref f (ref_view v))),
     cf_fget = (\<lambda>v fd. case fv_slot (ref_view v) fd of Some (Open f) \<Rightarrow> (f, add_ref f (ref_view v)) | _ \<Rightarrow> (0, ref_view v)),
     cf_get_unused_fd_flags = (\<lambda>v _. case List.find (\<lambda>i. fv_slot (ref_view v) (word_of_int i) = None) [0..7] of
        None \<Rightarrow> (- 24, ref_view v) | Some i \<Rightarrow> (i, set_slot (word_of_int i) (Some Reserved) (ref_view v))),
     cf_put_unused_fd = (\<lambda>v fd. Inr (set_slot fd None (ref_view v))),
     cf_fd_install = (\<lambda>v fd f. Inr (set_slot fd (Some (Open f)) (ref_view v)))\<rparr>"

lemma ref_view_updates:
  "ref_view (ref_view v) = ref_view v"
  "f \<noteq> 0 \<Longrightarrow> ref_view (add_ref f (ref_view v)) = add_ref f (ref_view v)"
  "f \<noteq> 0 \<Longrightarrow> ref_view (sub_ref f (ref_view v)) = sub_ref f (ref_view v)"
  "x \<noteq> Some (Open 0) \<Longrightarrow> ref_view (set_slot fd x (ref_view v)) = set_slot fd x (ref_view v)"
  by (auto simp: ref_view_def add_ref_def sub_ref_def set_slot_def fun_eq_iff)

lemma ref_view_nonzero: "0 < fv_refs (ref_view v) f \<Longrightarrow> f \<noteq> 0" "fv_slot (ref_view v) fd = Some (Open f) \<Longrightarrow> f \<noteq> 0"
  by (auto simp: ref_view_def split: if_splits)

interpretation ref_file: c_file_api ref_file ref_view
proof
  have "0 < fv_refs (ref_view v) f \<Longrightarrow>
      (\<exists>s'. cf_get_file ref_file v f = Inr s' \<and> ref_view s' = add_ref f (ref_view v)) \<and>
      (\<exists>s'. cf_fput ref_file v f = Inr s' \<and> ref_view s' = sub_ref f (ref_view v))" for v f
    by (auto simp: ref_file_def ref_view_updates dest: ref_view_nonzero)
  moreover have "case cf_fget ref_file v fd of (p, s') \<Rightarrow>
      (case fv_slot (ref_view v) fd of Some (Open f) \<Rightarrow> p = f \<and> p \<noteq> 0 \<and> ref_view s' = add_ref f (ref_view v)
       | _ \<Rightarrow> p = 0 \<and> ref_view s' = ref_view v)" for v fd
    by (auto simp: ref_file_def ref_view_updates dest: ref_view_nonzero split: option.splits fd_slot.splits)
  moreover have "case cf_get_unused_fd_flags ref_file v fl of (fd, s') \<Rightarrow>
      (if fd < 0 then ref_view s' = ref_view v
       else fd < 2 ^ 31 \<and> fv_slot (ref_view v) (word_of_int fd) = None \<and>
         ref_view s' = set_slot (word_of_int fd) (Some Reserved) (ref_view v))" for v fl
    by (auto simp: ref_file_def ref_view_updates dest!: find_SomeD split: option.splits)
  moreover have "(\<exists>s'. cf_put_unused_fd ref_file v fd = Inr s' \<and> ref_view s' = set_slot fd None (ref_view v)) \<and>
      (\<forall>f. 0 < fv_refs (ref_view v) f \<longrightarrow>
        (\<exists>s'. cf_fd_install ref_file v fd f = Inr s' \<and> ref_view s' = set_slot fd (Some (Open f)) (ref_view v)))" for v fd
    by (auto simp: ref_file_def ref_view_updates dest: ref_view_nonzero)
  ultimately show "c_file_ok ref_file ref_view"
    unfolding c_file_ok_def add_ref_def sub_ref_def set_slot_def by blast
qed

text \<open>File 5 is open as descriptor 1; the program has taken a reference to it and reserved descriptor 0.\<close>

definition demo_view :: fd_view where
  "demo_view = \<lparr>fv_slot = [1 \<mapsto> Open 5], fv_refs = (\<lambda>_. 0)(5 := 1)\<rparr>"

definition demo_fds :: "fd_view fd_world" where
  "demo_fds = \<lparr>fw_kernel = set_slot 0 (Some Reserved) (add_ref 5 demo_view), fw_resv = {#0#}, fw_files = {#5#}\<rparr>"

lemma demo_view_stable: "ref_view demo_view = demo_view" "ref_view (add_ref 5 demo_view) = add_ref 5 demo_view"
  by (auto simp: ref_view_def demo_view_def add_ref_def fun_eq_iff)

lemma demo_fds_reach: "fd_reach ref_file ref_view (fd_start ref_view (\<lambda>_. 0)) demo_fds"
proof -
  let ?R = "fd_reach ref_file ref_view (fd_start ref_view (\<lambda>_. 0))"
  let ?w0 = "\<lparr>fw_kernel = demo_view, fw_resv = {#}, fw_files = {#}\<rparr>"
  let ?w1 = "?w0\<lparr>fw_kernel := add_ref 5 demo_view, fw_files := add_mset (assume_no_fdget_pos 5) (fw_files ?w0)\<rparr>"
  let ?w2 = "?w1\<lparr>fw_kernel := set_slot 0 (Some Reserved) (add_ref 5 demo_view),
      fw_resv := add_mset (reserved_fd \<lparr>fr_fd = 0\<rparr>) (fw_resv ?w1)\<rparr>"
  have "open_on demo_view f = (if f = 5 then {1} else {})" for f by (auto simp: open_on_def demo_view_def)
  then have "fd_start ref_view (\<lambda>_. 0) demo_view"
    by (simp add: fd_start_def demo_view_stable) (simp add: demo_view_def)
  then have r0: "?R ?w0" by (rule fd_reach_init)
  have demo_slot: "fv_slot demo_view 1 = Some (Open 5)" "fv_slot demo_view 0 = None" by (simp_all add: demo_view_def)
  have "fd_step ref_file ref_view ?w0 ?w1"
    using demo_slot by (intro fd_fget [where fd = 1]) (simp add: local_file_fget_def ref_file_def demo_view_stable aref_from_raw_def)
  with r0 have r1: "?R ?w1" by (rule fd_reach_step)
  have "fd_step ref_file ref_view ?w1 ?w2"
    using demo_slot by (intro fd_reserve [where fl = 0]) (simp add: get_unused_fd_flags_def ref_file_def demo_view_stable upto.simps)
  with r1 have "?R ?w2" by (rule fd_reach_step)
  moreover have "?w2 = demo_fds"
    by (simp add: demo_fds_def assume_no_fdget_pos_def aref_from_raw_def aref_into_raw_def reserved_fd_def)
  ultimately show ?thesis by (rule subst [rotated])
qed

section \<open>Properties\<close>

text \<open>
  C21: file descriptors and files are accounted for. Whatever a program does with its reservations and files, while others close
  descriptors: a descriptor is reserved in the table exactly if the program holds its reservation, once; a file has one reference for
  each \<open>ARef\<close>, each open descriptor and each foreign owner. So \<open>fd_install\<close> and the destructors never act on a
  descriptor or file that is gone, and nothing stays reserved once the reservations are gone.
\<close>

theorem fd_reservations_sound:
  assumes "c_file_ok K view" and "fd_reach K view (fd_start view ext) w"
  shows "(\<forall>fd. count (fw_resv w) fd = (if fv_slot (view (fw_kernel w)) fd = Some Reserved then 1 else 0)) \<and>
    (\<forall>f. fv_refs (view (fw_kernel w)) f = ext f + count (fw_files w) f + card (open_on (view (fw_kernel w)) f)) \<and>
    (reserved_fd r \<in># fw_resv w \<longrightarrow> (\<exists>s. fd_reservation_drop K (fw_kernel w) r = Inr s)) \<and>
    (reserved_fd r \<in># fw_resv w \<and> f \<in># fw_files w \<longrightarrow> (\<exists>s. fd_install K (fw_kernel w) r f = Inr s)) \<and>
    (f \<in># fw_files w \<longrightarrow> (\<exists>s. aref_drop (file_dec_ref K f) (fw_kernel w) = Inr s))"
proof -
  have "fd_books view ext w" by (rule fd_books_reach [OF assms])
  then have b: "books ext (fw_resv w) (fw_files w) (view (fw_kernel w))" by (simp add: fd_books_iff)
  note laws = c_file_laws [OF assms(1), of "fw_kernel w"]
  have "\<exists>s. fd_reservation_drop K (fw_kernel w) r = Inr s" if "reserved_fd r \<in># fw_resv w"
    using laws(3) [OF books_reserved [OF b that]] by (auto simp: fd_reservation_drop_def reserved_fd_def)
  moreover have "\<exists>s. fd_install K (fw_kernel w) r f = Inr s" if "reserved_fd r \<in># fw_resv w" "f \<in># fw_files w"
    using laws(4) [OF books_reserved [OF b that(1)] books_held [OF b that(2)]] by (auto simp: fd_install_def reserved_fd_def)
  moreover have "\<exists>s. aref_drop (file_dec_ref K f) (fw_kernel w) = Inr s" if "f \<in># fw_files w"
    using laws(2) [OF books_held [OF b that]] by (auto simp: aref_drop_def file_dec_ref_def)
  ultimately show ?thesis using b unfolding books_def by blast
qed

theorem fd_reservations_sound_witness:
  "let w = demo_fds; v = ref_view (fw_kernel w); r = \<lparr>fr_fd = 0\<rparr> in
    (\<forall>fd. count (fw_resv w) fd = (if fv_slot v fd = Some Reserved then 1 else 0)) \<and>
    (\<forall>f. fv_refs v f = 0 + count (fw_files w) f + card (open_on v f)) \<and>
    (reserved_fd r \<in># fw_resv w \<longrightarrow> (\<exists>s. fd_reservation_drop ref_file (fw_kernel w) r = Inr s)) \<and>
    (reserved_fd r \<in># fw_resv w \<and> 5 \<in># fw_files w \<longrightarrow> (\<exists>s. fd_install ref_file (fw_kernel w) r 5 = Inr s)) \<and>
    (5 \<in># fw_files w \<longrightarrow> (\<exists>s. aref_drop (file_dec_ref ref_file 5) (fw_kernel w) = Inr s))"
  unfolding Let_def by (rule fd_reservations_sound [OF ref_file.ok demo_fds_reach])

text \<open>Two flags that the code documents as different are the same bit.\<close>

lemma append_is_async: "O_APPEND = O_ASYNC"
  by (simp add: O_APPEND_def O_ASYNC_def)

end
