(* ===== verification/Ioctl_Time.thy ===== *)
theory Ioctl_Time
  imports Kernel_Error "HOL-Library.Signed_Division"
begin

text \<open>
  \<open>rust/src/ioctl.rs\<close> with the layout constants of \<open>rust/src/uapi.rs\<close>, and \<open>rust/src/time.rs\<close>: ioctl command numbers, and
  kernel time.

  A \<open>build_assert!\<close> that fails is a program that does not compile, \<open>None\<close>. A \<open>Ktime\<close> is a number of nanoseconds
  in an \<open>i64\<close>; subtraction panics on overflow and division truncates.
\<close>

unbundle bit_operations_syntax

section \<open>Ioctl numbers\<close>

definition IOC_NRBITS :: nat where "IOC_NRBITS = 8"
definition IOC_TYPEBITS :: nat where "IOC_TYPEBITS = 8"
definition IOC_SIZEBITS :: nat where "IOC_SIZEBITS = 14"
definition IOC_DIRBITS :: nat where "IOC_DIRBITS = 2"

definition IOC_NRMASK :: u32 where "IOC_NRMASK = push_bit IOC_NRBITS 1 - 1"
definition IOC_TYPEMASK :: u32 where "IOC_TYPEMASK = push_bit IOC_TYPEBITS 1 - 1"
definition IOC_SIZEMASK :: u32 where "IOC_SIZEMASK = push_bit IOC_SIZEBITS 1 - 1"
definition IOC_DIRMASK :: u32 where "IOC_DIRMASK = push_bit IOC_DIRBITS 1 - 1"

definition IOC_NRSHIFT :: nat where "IOC_NRSHIFT = 0"
definition IOC_TYPESHIFT :: nat where "IOC_TYPESHIFT = IOC_NRSHIFT + IOC_NRBITS"
definition IOC_SIZESHIFT :: nat where "IOC_SIZESHIFT = IOC_TYPESHIFT + IOC_TYPEBITS"
definition IOC_DIRSHIFT :: nat where "IOC_DIRSHIFT = IOC_SIZESHIFT + IOC_SIZEBITS"

definition IOC_NONE :: u32 where "IOC_NONE = 0"
definition IOC_WRITE :: u32 where "IOC_WRITE = 1"
definition IOC_READ :: u32 where "IOC_READ = 2"

definition ioc :: "u32 \<Rightarrow> u32 \<Rightarrow> u32 \<Rightarrow> usize \<Rightarrow> u32 option" where
  "ioc dir ty nr sz =
     (if dir \<le> IOC_DIRMASK \<and> ty \<le> IOC_TYPEMASK \<and> nr \<le> IOC_NRMASK \<and> sz \<le> unat IOC_SIZEMASK
      then Some (push_bit IOC_DIRSHIFT dir OR push_bit IOC_TYPESHIFT ty OR push_bit IOC_NRSHIFT nr OR
                 push_bit IOC_SIZESHIFT (word_of_nat sz))
      else None)"

definition ioc_io :: "u32 \<Rightarrow> u32 \<Rightarrow> u32 option" where
  "ioc_io ty nr = ioc IOC_NONE ty nr 0"

definition ioc_ior :: "usize \<Rightarrow> u32 \<Rightarrow> u32 \<Rightarrow> u32 option" where
  "ioc_ior tsz ty nr = ioc IOC_READ ty nr tsz"

definition ioc_iow :: "usize \<Rightarrow> u32 \<Rightarrow> u32 \<Rightarrow> u32 option" where
  "ioc_iow tsz ty nr = ioc IOC_WRITE ty nr tsz"

definition ioc_iowr :: "usize \<Rightarrow> u32 \<Rightarrow> u32 \<Rightarrow> u32 option" where
  "ioc_iowr tsz ty nr = ioc (IOC_READ OR IOC_WRITE) ty nr tsz"

definition ioc_dir :: "u32 \<Rightarrow> u32" where
  "ioc_dir nr = drop_bit IOC_DIRSHIFT nr AND IOC_DIRMASK"

definition ioc_type :: "u32 \<Rightarrow> u32" where
  "ioc_type nr = drop_bit IOC_TYPESHIFT nr AND IOC_TYPEMASK"

definition ioc_nr :: "u32 \<Rightarrow> u32" where
  "ioc_nr nr = drop_bit IOC_NRSHIFT nr AND IOC_NRMASK"

definition ioc_size :: "u32 \<Rightarrow> usize" where
  "ioc_size nr = unat (drop_bit IOC_SIZESHIFT nr AND IOC_SIZEMASK)"

section \<open>Time\<close>

definition NSEC_PER_MSEC :: int where
  "NSEC_PER_MSEC = 1000000"

record ktime =
  kt_inner :: int

definition i64_range :: "int \<Rightarrow> bool" where
  "i64_range x \<longleftrightarrow> - (2 ^ 63) \<le> x \<and> x < 2 ^ 63"

definition ktime_from_raw :: "int \<Rightarrow> ktime" where
  "ktime_from_raw inner = \<lparr>kt_inner = inner\<rparr>"

definition ktime_to_ns :: "ktime \<Rightarrow> int" where
  "ktime_to_ns self = kt_inner self"

definition divns_constant :: "int \<Rightarrow> ktime \<Rightarrow> int exec" where
  "divns_constant d self =
     exec_bind (require Panic (d \<noteq> 0 \<and> i64_range (ktime_to_ns self sdiv d))) (\<lambda>_. Inr (ktime_to_ns self sdiv d))"

definition ktime_to_ms :: "ktime \<Rightarrow> int exec" where
  "ktime_to_ms self = divns_constant NSEC_PER_MSEC self"

definition ktime_sub :: "ktime \<Rightarrow> ktime \<Rightarrow> ktime exec" where
  "ktime_sub self other =
     exec_bind (require Panic (i64_range (kt_inner self - kt_inner other))) (\<lambda>_.
     Inr \<lparr>kt_inner = kt_inner self - kt_inner other\<rparr>)"

definition ktime_ms_delta :: "ktime \<Rightarrow> ktime \<Rightarrow> int exec" where
  "ktime_ms_delta later earlier = exec_bind (ktime_sub later earlier) ktime_to_ms"

section \<open>Fields of an ioctl number\<close>

lemmas ioc_consts = IOC_NRBITS_def IOC_TYPEBITS_def IOC_SIZEBITS_def IOC_DIRBITS_def IOC_NRMASK_def IOC_TYPEMASK_def
  IOC_SIZEMASK_def IOC_DIRMASK_def IOC_NRSHIFT_def IOC_TYPESHIFT_def IOC_SIZESHIFT_def IOC_DIRSHIFT_def

lemma ioc_masks: "IOC_NRMASK = mask 8" "IOC_TYPEMASK = mask 8" "IOC_SIZEMASK = mask 14" "IOC_DIRMASK = mask 2"
  by (simp_all add: ioc_consts mask_eq_exp_minus_1)

lemma ioc_bounds: "x \<le> IOC_NRMASK \<longleftrightarrow> unat x < 2 ^ 8" "x \<le> IOC_TYPEMASK \<longleftrightarrow> unat x < 2 ^ 8" "x \<le> IOC_DIRMASK \<longleftrightarrow> unat x < 2 ^ 2"
  "n \<le> unat IOC_SIZEMASK \<longleftrightarrow> n < 2 ^ 14"
  by (auto simp: ioc_consts word_le_nat_alt)

lemma small_bit:
  fixes x :: u32
  assumes "unat x < 2 ^ n" and "n \<le> i"
  shows "\<not> bit x i"
proof -
  have "bit (unat x) i = bit (take_bit n (unat x)) i" using assms(1) by (simp add: take_bit_nat_eq_self)
  then have "\<not> bit (unat x) i" using assms(2) by (simp add: bit_take_bit_iff)
  then show ?thesis by (simp add: bit_unsigned_iff)
qed

lemma field_bound: "unat ((x :: u32) AND mask n) < 2 ^ n"
  by (simp add: take_bit_eq_mask [symmetric] unsigned_take_bit_eq)

text \<open>An ioctl number bit by bit.\<close>

lemma ioc_bit:
  assumes "ioc dir ty nr sz = Some c"
  shows "bit c i \<longleftrightarrow> (if i < 8 then bit nr i else if i < 16 then bit ty (i - 8)
    else if i < 30 then bit (word_of_nat sz :: u32) (i - 16) else i < 32 \<and> bit dir (i - 30))"
proof -
  have b: "unat dir < 2 ^ 2" "unat ty < 2 ^ 8" "unat nr < 2 ^ 8" "sz < 2 ^ 14"
    using assms unfolding ioc_def ioc_bounds by (simp_all split: if_splits)
  have c: "c = push_bit 30 dir OR push_bit 8 ty OR nr OR push_bit 16 (word_of_nat sz)"
    using assms by (simp add: ioc_def ioc_consts split: if_splits)
  have sz: "unat (word_of_nat sz :: u32) < 2 ^ 14"
    using b(4) by (simp add: unsigned_of_nat take_bit_nat_eq_self)
  show ?thesis
    using small_bit [OF b(1), of "i - 30"] small_bit [OF b(2), of "i - 8"] small_bit [OF b(3), of i] small_bit [OF sz, of "i - 16"]
    unfolding c by (auto simp: bit_or_iff bit_push_bit_iff dest: bit_imp_le_length)
qed

lemma ioc_fields_bit:
  "bit (ioc_nr c) i \<longleftrightarrow> i < 8 \<and> bit c i" "bit (ioc_type c) i \<longleftrightarrow> i < 8 \<and> bit c (i + 8)"
  "bit (ioc_dir c) i \<longleftrightarrow> i < 2 \<and> bit c (i + 30)"
  "bit (drop_bit IOC_SIZESHIFT c AND IOC_SIZEMASK) i \<longleftrightarrow> i < 14 \<and> bit c (i + 16)"
  unfolding ioc_nr_def ioc_type_def ioc_dir_def ioc_masks
  by (auto simp: ioc_consts bit_and_iff bit_drop_bit_eq bit_mask_iff add.commute dest: bit_imp_le_length)

section \<open>Properties\<close>

text \<open>
  ioctl numbers are encoded without loss and without waste: the accessors recover the direction, type, number and size of
  every number that \<open>_IOC\<close> makes, and every 32-bit number is the encoding of its four fields.
\<close>

lemma ioctl_roundtrip:
  "(\<forall>dir ty nr sz. case ioc dir ty nr sz of
      None \<Rightarrow> True
    | Some c \<Rightarrow> ioc_dir c = dir \<and> ioc_type c = ty \<and> ioc_nr c = nr \<and> ioc_size c = sz) \<and>
   (\<forall>c. ioc (ioc_dir c) (ioc_type c) (ioc_nr c) (ioc_size c) = Some c)"
proof (intro conjI allI)
  fix dir ty nr :: u32 and sz
  show "case ioc dir ty nr sz of None \<Rightarrow> True
    | Some c \<Rightarrow> ioc_dir c = dir \<and> ioc_type c = ty \<and> ioc_nr c = nr \<and> ioc_size c = sz"
  proof (cases "ioc dir ty nr sz")
    case (Some c)
    then have b: "unat dir < 2 ^ 2" "unat ty < 2 ^ 8" "unat nr < 2 ^ 8" "sz < 2 ^ 14"
      unfolding ioc_def ioc_bounds by (simp_all split: if_splits)
    have sz: "unat (word_of_nat sz :: u32) = sz" "unat (word_of_nat sz :: u32) < 2 ^ 14"
      using b(4) by (simp_all add: unsigned_of_nat take_bit_nat_eq_self)
    note bits = ioc_fields_bit ioc_bit [OF Some]
    have "ioc_dir c = dir"
      by (rule bit_word_eqI) (use small_bit [OF b(1)] not_less in \<open>auto simp: bits\<close>)
    moreover have "ioc_type c = ty"
      by (rule bit_word_eqI) (use small_bit [OF b(2)] in \<open>auto simp: bits not_less\<close>)
    moreover have "ioc_nr c = nr"
      by (rule bit_word_eqI) (use small_bit [OF b(3)] in \<open>auto simp: bits not_less\<close>)
    moreover have "drop_bit IOC_SIZESHIFT c AND IOC_SIZEMASK = word_of_nat sz"
      by (rule bit_word_eqI) (use small_bit [OF sz(2)] in \<open>auto simp: bits not_less\<close>)
    ultimately show ?thesis using Some sz(1) by (simp add: ioc_size_def)
  qed simp
next
  fix c :: u32
  have "unat (ioc_dir c) < 2 ^ 2" "unat (ioc_type c) < 2 ^ 8" "unat (ioc_nr c) < 2 ^ 8" "ioc_size c < 2 ^ 14"
    unfolding ioc_dir_def ioc_type_def ioc_nr_def ioc_size_def ioc_masks by (rule field_bound)+
  then obtain d where d: "ioc (ioc_dir c) (ioc_type c) (ioc_nr c) (ioc_size c) = Some d"
    unfolding ioc_def ioc_bounds by simp
  have "word_of_nat (ioc_size c) = drop_bit IOC_SIZESHIFT c AND IOC_SIZEMASK" by (simp add: ioc_size_def)
  then have "d = c"
    by (intro bit_word_eqI) (auto simp: ioc_bit [OF d] ioc_fields_bit)
  with d show "ioc (ioc_dir c) (ioc_type c) (ioc_nr c) (ioc_size c) = Some c" by simp
qed

text \<open>The difference of two times in milliseconds: exact up to truncation, and without panic if the difference is an \<open>i64\<close>.\<close>

lemma ktime_ms_delta_ok:
  assumes "i64_range (kt_inner a - kt_inner b)"
  shows "\<exists>d. ktime_ms_delta a b = Inr d \<and> \<bar>d\<bar> * NSEC_PER_MSEC \<le> \<bar>kt_inner a - kt_inner b\<bar> \<and>
    \<bar>kt_inner a - kt_inner b\<bar> < (\<bar>d\<bar> + 1) * NSEC_PER_MSEC \<and> (d \<noteq> 0 \<longrightarrow> sgn d = sgn (kt_inner a - kt_inner b))"
proof -
  define x where "x = kt_inner a - kt_inner b"
  have q: "x sdiv NSEC_PER_MSEC = sgn x * (\<bar>x\<bar> div 1000000)"
    by (simp add: signed_divide_int_def NSEC_PER_MSEC_def sgn_if)
  have a: "\<bar>x sdiv NSEC_PER_MSEC\<bar> = \<bar>x\<bar> div 1000000"
    unfolding q by (simp add: abs_mult sgn_if)
  have "i64_range (x sdiv NSEC_PER_MSEC)" using assms a unfolding i64_range_def x_def by linarith
  then have "ktime_ms_delta a b = Inr (x sdiv NSEC_PER_MSEC)"
    using assms by (simp add: ktime_ms_delta_def ktime_sub_def ktime_to_ms_def divns_constant_def ktime_to_ns_def x_def NSEC_PER_MSEC_def)
  moreover have "\<bar>x\<bar> div 1000000 * NSEC_PER_MSEC \<le> \<bar>x\<bar>" "\<bar>x\<bar> < (\<bar>x\<bar> div 1000000 + 1) * NSEC_PER_MSEC"
    using pos_mod_bound [of 1000000 "\<bar>x\<bar>"] div_mult_mod_eq [of "\<bar>x\<bar>" 1000000]
    unfolding NSEC_PER_MSEC_def by (simp_all add: algebra_simps)
  moreover have "x sdiv NSEC_PER_MSEC \<noteq> 0 \<longrightarrow> sgn (x sdiv NSEC_PER_MSEC) = sgn x"
    unfolding q by (auto simp: sgn_if)
  ultimately show ?thesis unfolding x_def [symmetric] by (intro exI [of _ "x sdiv NSEC_PER_MSEC"]) (simp only: a simp_thms)
qed

end
