(* ===== verification/Work_Queue.thy ===== *)
theory Work_Queue
  imports Kernel_Types "HOL-Library.Multiset"
begin

text \<open>
  \<open>rust/src/workqueue.rs\<close>: work items that own the object they are embedded in.

  A work item is the address of its \<open>work_struct\<close>, at a fixed offset in the object. The kernel's queue is the parameter
  \<open>queue_work_on\<close> on a state \<open>'s\<close>, with the set of pending items as the view in which its contract is stated: it
  refuses an item that is pending. A worker takes an item off the queue before it calls \<open>run\<close>. \<open>Arc\<close>s are
  those of \<open>Sync_Arc\<close>, boxes are addresses.
\<close>

section \<open>Pointers\<close>

definition raw_get_work :: "nat \<Rightarrow> addr \<Rightarrow> addr" where
  "raw_get_work off ptr = ptr + off"

definition work_container_of :: "nat \<Rightarrow> addr \<Rightarrow> addr exec" where
  "work_container_of off ptr = exec_bind (require UB (off \<le> ptr)) (\<lambda>_. Inr (ptr - off))"

type_synonym 's queue_work_on = "'s \<Rightarrow> addr \<Rightarrow> bool \<times> 's"

section \<open>Arcs\<close>



text \<open>\<open>Queue::enqueue\<close> hands the item's own \<open>__enqueue\<close> the call of \<open>queue_work_on\<close>.\<close>

definition queue_enqueue :: "('s queue_work_on \<Rightarrow> 's \<Rightarrow> 'w \<Rightarrow> 'r) \<Rightarrow> 's queue_work_on \<Rightarrow> 's \<Rightarrow> 'w \<Rightarrow> 'r" where
  "queue_enqueue raw_enqueue queue_work_on s w = raw_enqueue queue_work_on s w"

section \<open>Boxes\<close>

text \<open>A box is unique, so its item cannot be pending: the code declares that case unreachable.\<close>

definition box_enqueue :: "'s queue_work_on \<Rightarrow> nat \<Rightarrow> 's \<Rightarrow> addr \<Rightarrow> 's exec" where
  "box_enqueue queue_work_on off s self =
     (let work_ptr = raw_get_work off self;
          (queued, s) = queue_work_on s work_ptr in
      if \<not> queued then Inl UB else Inr s)"

definition box_work_run :: "nat \<Rightarrow> addr \<Rightarrow> addr exec" where
  "box_work_run off ptr = work_container_of off ptr"

record 'f closure_work =
  cw_func :: "'f option"

type_synonym 'f boxes = "addr \<rightharpoonup> 'f closure_work"

text \<open>\<open>run\<close> takes the closure out of the box and calls it; the box is dropped. The closures that are called:\<close>

definition closure_work_run :: "'f boxes \<Rightarrow> addr \<Rightarrow> ('f list \<times> 'f boxes) exec" where
  "closure_work_run h this =
     (case h this of
        None \<Rightarrow> Inl UB
      | Some w \<Rightarrow> Inr (case cw_func w of Some func \<Rightarrow> [func] | None \<Rightarrow> [], h(this := None)))"

definition try_spawn ::
  "'s queue_work_on \<Rightarrow> ('f boxes \<Rightarrow> addr option) \<Rightarrow> nat \<Rightarrow> 'f boxes \<Rightarrow> 's \<Rightarrow> 'f \<Rightarrow>
   ((unit, error_source) result \<times> 'f boxes \<times> 's) exec" where
  "try_spawn queue_work_on alloc off h s func =
     (case alloc h of
        None \<Rightarrow> Inr (Err AllocError, h, s)
      | Some b \<Rightarrow>
          exec_bind (queue_enqueue (\<lambda>q. box_enqueue q off) queue_work_on s b) (\<lambda>s.
          Inr (Ok (), h(b \<mapsto> \<lparr>cw_func = Some func\<rparr>), s)))"

section \<open>Interfaces\<close>

definition c_workq_ok :: "'s queue_work_on \<Rightarrow> ('s \<Rightarrow> addr set) \<Rightarrow> bool" where
  "c_workq_ok q pending \<longleftrightarrow>
     (\<forall>s w. fst (q s w) = (w \<notin> pending s) \<and> pending (snd (q s w)) = insert w (pending s))"

text \<open>
  The contract of \<open>WorkItemPointer\<close>: \<open>run\<close> recovers the pointer that was enqueued, and different pointers have
  different work items.
\<close>

locale work_item_pointer =
  fixes work_ptr :: "'p \<Rightarrow> addr" and run :: "addr \<Rightarrow> 'p exec"
  assumes run_enqueued: "run (work_ptr p) = Inr p"
begin

lemma work_ptr_inj: "work_ptr p = work_ptr q \<longleftrightarrow> p = q"
  using run_enqueued by (metis Inr_inject)

end



interpretation box_item: work_item_pointer "raw_get_work off" "box_work_run off" for off
  by unfold_locales (simp add: raw_get_work_def box_work_run_def work_container_of_def)


section \<open>Shared objects on a queue\<close>







section \<open>Closures on a queue\<close>

text \<open>Closure \<open>i\<close> is the one that is spawned as number \<open>i\<close>; \<open>sw_ran\<close> has the closures that were called.\<close>

record 's spawn_world =
  sw_boxes :: "nat boxes"
  sw_kernel :: 's
  sw_next :: nat
  sw_ran :: "nat multiset"

inductive spawn_step ::
  "'s queue_work_on \<Rightarrow> ('s \<Rightarrow> addr set) \<Rightarrow> (nat boxes \<Rightarrow> addr option) \<Rightarrow> nat \<Rightarrow> 's spawn_world \<Rightarrow> 's spawn_world \<Rightarrow> bool"
  for q pending alloc off where
  spawn: "try_spawn q alloc off (sw_boxes w) (sw_kernel w) (sw_next w) = Inr (Ok (), h, s) \<Longrightarrow>
    spawn_step q pending alloc off w (w\<lparr>sw_boxes := h, sw_kernel := s, sw_next := sw_next w + 1\<rparr>)"
| spawn_fail: "try_spawn q alloc off (sw_boxes w) (sw_kernel w) (sw_next w) = Inr (Err e, h, s) \<Longrightarrow>
    spawn_step q pending alloc off w (w\<lparr>sw_boxes := h, sw_kernel := s\<rparr>)"
| spawn_work: "p \<in> pending (sw_kernel w) \<Longrightarrow> pending s = pending (sw_kernel w) - {p} \<Longrightarrow> box_work_run off p = Inr b \<Longrightarrow>
    closure_work_run (sw_boxes w) b = Inr (fs, h) \<Longrightarrow>
    spawn_step q pending alloc off w (w\<lparr>sw_boxes := h, sw_kernel := s, sw_ran := sw_ran w + mset fs\<rparr>)"

inductive spawn_reach ::
  "'s queue_work_on \<Rightarrow> ('s \<Rightarrow> addr set) \<Rightarrow> (nat boxes \<Rightarrow> addr option) \<Rightarrow> nat \<Rightarrow> 's spawn_world \<Rightarrow> bool"
  for q pending alloc off where
  spawn_reach_init: "pending s = {} \<Longrightarrow>
    spawn_reach q pending alloc off \<lparr>sw_boxes = Map.empty, sw_kernel = s, sw_next = 0, sw_ran = {#}\<rparr>"
| spawn_reach_step: "spawn_reach q pending alloc off w \<Longrightarrow> spawn_step q pending alloc off w w' \<Longrightarrow> spawn_reach q pending alloc off w'"

definition holds :: "nat boxes \<Rightarrow> addr \<Rightarrow> nat \<Rightarrow> bool" where
  "holds h b i \<longleftrightarrow> h b = Some \<lparr>cw_func = Some i\<rparr>"

text \<open>A closure that was spawned is in one box, whose item is pending, or it was called once.\<close>

definition spawn_inv :: "('s \<Rightarrow> addr set) \<Rightarrow> nat \<Rightarrow> 's spawn_world \<Rightarrow> bool" where
  "spawn_inv pending off w \<longleftrightarrow>
     pending (sw_kernel w) = raw_get_work off ` dom (sw_boxes w) \<and>
     (\<forall>b \<in> dom (sw_boxes w). \<exists>i < sw_next w. holds (sw_boxes w) b i) \<and>
     (\<forall>i. count (sw_ran w) i = (if i < sw_next w \<and> (\<forall>b. \<not> holds (sw_boxes w) b i) then 1 else 0)) \<and>
     (\<forall>b c i. holds (sw_boxes w) b i \<longrightarrow> holds (sw_boxes w) c i \<longrightarrow> b = c)"

definition box_alloc_ok :: "(nat boxes \<Rightarrow> addr option) \<Rightarrow> bool" where
  "box_alloc_ok alloc \<longleftrightarrow> (\<forall>h b. alloc h = Some b \<longrightarrow> h b = None)"

lemma try_spawn_ok:
  assumes q: "c_workq_ok q pending" and al: "box_alloc_ok alloc" and inv: "spawn_inv pending off w"
  shows "\<exists>r h s. try_spawn q alloc off (sw_boxes w) (sw_kernel w) func = Inr (r, h, s) \<and>
    (case r of
       Err e \<Rightarrow> e = AllocError \<and> h = sw_boxes w \<and> s = sw_kernel w
     | Ok _ \<Rightarrow> \<exists>b. sw_boxes w b = None \<and> h = (sw_boxes w)(b \<mapsto> \<lparr>cw_func = Some func\<rparr>) \<and>
         pending s = insert (raw_get_work off b) (pending (sw_kernel w)))"
proof (cases "alloc (sw_boxes w)")
  case None
  then show ?thesis by (simp add: try_spawn_def)
next
  case (Some b)
  then have free: "sw_boxes w b = None" using al by (simp add: box_alloc_ok_def)
  then have "raw_get_work off b \<notin> pending (sw_kernel w)"
    using inv by (auto simp: spawn_inv_def box_item.work_ptr_inj)
  moreover have "fst (q (sw_kernel w) (raw_get_work off b)) = (raw_get_work off b \<notin> pending (sw_kernel w))"
    "pending (snd (q (sw_kernel w) (raw_get_work off b))) = insert (raw_get_work off b) (pending (sw_kernel w))"
    using q by (auto simp: c_workq_ok_def)
  ultimately show ?thesis
    using Some free by (cases "q (sw_kernel w) (raw_get_work off b)") (auto simp: try_spawn_def queue_enqueue_def box_enqueue_def)
qed

lemma holds_upd: "holds (h(b := x)) c i \<longleftrightarrow> (if c = b then x = Some \<lparr>cw_func = Some i\<rparr> else holds h c i)"
  by (simp add: holds_def)

lemma closure_run_ok:
  assumes inv: "spawn_inv pending off w" and p: "p \<in> pending (sw_kernel w)"
  shows "\<exists>b i. box_work_run off p = Inr b \<and> holds (sw_boxes w) b i \<and> i < sw_next w \<and> p = raw_get_work off b \<and>
    closure_work_run (sw_boxes w) b = Inr ([i], (sw_boxes w)(b := None))"
proof -
  obtain b where b: "p = raw_get_work off b" "b \<in> dom (sw_boxes w)" using inv p by (auto simp: spawn_inv_def)
  obtain i where "holds (sw_boxes w) b i" "i < sw_next w" using inv b(2) unfolding spawn_inv_def by blast
  with b(1) show ?thesis by (auto simp: box_item.run_enqueued closure_work_run_def holds_def)
qed

lemma spawn_inv_spawn:
  assumes inv: "spawn_inv pending off w" and b: "sw_boxes w b = None"
    and s: "pending s = insert (raw_get_work off b) (pending (sw_kernel w))"
  shows "spawn_inv pending off (w\<lparr>sw_boxes := (sw_boxes w)(b \<mapsto> \<lparr>cw_func = Some (sw_next w)\<rparr>), sw_kernel := s, sw_next := sw_next w + 1\<rparr>)"
proof -
  have new: "\<not> holds (sw_boxes w) c (sw_next w)" for c
  proof
    assume h: "holds (sw_boxes w) c (sw_next w)"
    then have "c \<in> dom (sw_boxes w)" by (auto simp: holds_def)
    then obtain i where "i < sw_next w" "holds (sw_boxes w) c i" using inv unfolding spawn_inv_def by blast
    with h show False by (simp add: holds_def)
  qed
  have old: "\<not> holds (sw_boxes w) b i" for i using b by (simp add: holds_def)
  have ran: "count (sw_ran w) i = (if i < sw_next w \<and> (\<forall>b. \<not> holds (sw_boxes w) b i) then 1 else 0)" for i
    using inv by (simp add: spawn_inv_def)
  have "(\<forall>c. \<not> holds ((sw_boxes w)(b \<mapsto> \<lparr>cw_func = Some (sw_next w)\<rparr>)) c i) \<longleftrightarrow>
      i \<noteq> sw_next w \<and> (\<forall>c. \<not> holds (sw_boxes w) c i)" for i
    using old by (auto simp: holds_upd)
  then have "count (sw_ran w) i = (if i < sw_next w + 1 \<and> (\<forall>c. \<not> holds ((sw_boxes w)(b \<mapsto> \<lparr>cw_func = Some (sw_next w)\<rparr>)) c i) then 1 else 0)" for i
    using ran [of i] by (auto simp: less_Suc_eq)
  moreover have "\<exists>i < sw_next w + 1. holds ((sw_boxes w)(b \<mapsto> \<lparr>cw_func = Some (sw_next w)\<rparr>)) c i"
    if "c \<in> dom ((sw_boxes w)(b \<mapsto> \<lparr>cw_func = Some (sw_next w)\<rparr>))" for c
  proof (cases "c = b")
    case False
    with that have "c \<in> dom (sw_boxes w)" by auto
    then obtain i where "i < sw_next w" "holds (sw_boxes w) c i" using inv unfolding spawn_inv_def by blast
    with False show ?thesis by (intro exI [of _ i]) (simp add: holds_upd)
  qed (simp add: holds_upd)
  moreover have "holds ((sw_boxes w)(b \<mapsto> \<lparr>cw_func = Some (sw_next w)\<rparr>)) c i \<longrightarrow>
      holds ((sw_boxes w)(b \<mapsto> \<lparr>cw_func = Some (sw_next w)\<rparr>)) d i \<longrightarrow> c = d" for c d i
    using inv new by (auto simp: spawn_inv_def holds_upd)
  moreover have "pending s = raw_get_work off ` dom ((sw_boxes w)(b \<mapsto> \<lparr>cw_func = Some (sw_next w)\<rparr>))"
    using inv s by (auto simp: spawn_inv_def)
  ultimately show ?thesis unfolding spawn_inv_def by simp
qed

lemma spawn_inv_work:
  assumes inv: "spawn_inv pending off w" and b: "holds (sw_boxes w) b i" "i < sw_next w"
    and s: "pending s = pending (sw_kernel w) - {raw_get_work off b}"
  shows "spawn_inv pending off (w\<lparr>sw_boxes := (sw_boxes w)(b := None), sw_kernel := s, sw_ran := sw_ran w + mset [i]\<rparr>)"
proof -
  have ran: "count (sw_ran w) j = (if j < sw_next w \<and> (\<forall>b. \<not> holds (sw_boxes w) b j) then 1 else 0)" for j
    using inv by (simp add: spawn_inv_def)
  have one: "holds (sw_boxes w) c i \<longleftrightarrow> c = b" for c using inv b(1) by (auto simp: spawn_inv_def)
  have other: "\<not> holds (sw_boxes w) b j" if "j \<noteq> i" for j using b(1) that by (simp add: holds_def)
  have "(\<forall>c. \<not> holds ((sw_boxes w)(b := None)) c j) \<longleftrightarrow> j = i \<or> (\<forall>c. \<not> holds (sw_boxes w) c j)" for j
    using one other [of j] by (metis holds_upd option.distinct(1))
  moreover have "raw_get_work off ` dom ((sw_boxes w)(b := None)) = pending s"
    using inv s by (auto simp: spawn_inv_def box_item.work_ptr_inj)
  ultimately show ?thesis
    using inv b ran one unfolding spawn_inv_def by (auto simp: holds_upd)
qed

lemma spawn_inv_reach:
  assumes q: "c_workq_ok q pending" and al: "box_alloc_ok alloc" and "spawn_reach q pending alloc off w"
  shows "spawn_inv pending off w"
  using assms(3)
proof (induction rule: spawn_reach.induct)
  case (spawn_reach_init s)
  then show ?case by (simp add: spawn_inv_def holds_def)
next
  case (spawn_reach_step w w')
  note inv = spawn_reach_step.IH
  from spawn_reach_step.hyps(2) show ?case
  proof cases
    case (spawn h s)
    with try_spawn_ok [OF q al inv, of "sw_next w"] spawn_inv_spawn [OF inv] show ?thesis by auto
  next
    case (spawn_fail e h s)
    with try_spawn_ok [OF q al inv, of "sw_next w"] inv show ?thesis by (auto simp: spawn_inv_def)
  next
    case (spawn_work p s b fs h)
    obtain b' i where r: "box_work_run off p = Inr b'" "holds (sw_boxes w) b' i" "i < sw_next w" "p = raw_get_work off b'"
      "closure_work_run (sw_boxes w) b' = Inr ([i], (sw_boxes w)(b' := None))"
      using closure_run_ok [OF inv spawn_work(2)] by blast
    with spawn_work have "b = b'" "fs = [i]" "h = (sw_boxes w)(b := None)" by auto
    with spawn_work r spawn_inv_work [OF inv r(2,3), of s] show ?thesis by simp
  qed
qed

section \<open>Instance\<close>

definition ref_workq :: "addr set queue_work_on" where
  "ref_workq s w = (w \<notin> s, insert w s)"

lemma ref_workq_ok: "c_workq_ok ref_workq id"
  by (simp add: c_workq_ok_def ref_workq_def)




lemma box_first_free_ok: "box_alloc_ok (\<lambda>h. List.find (\<lambda>a. h a = None) [1..<n])"
  by (auto simp: box_alloc_ok_def dest: find_SomeD)

section \<open>Properties\<close>



text \<open>
  C23: a spawned closure is called at most once and is not lost. In every reachable state, each closure that \<open>try_spawn\<close>
  accepted has either been called exactly once, or is in exactly one box, whose item is pending. Spawning never
  reaches the case that the code declares unreachable, and a worker can always run a pending item.
\<close>

theorem spawned_closures_run_once:
  assumes "c_workq_ok q pending" and "box_alloc_ok alloc" and "spawn_reach q pending alloc off w"
  shows "(i < sw_next w \<longrightarrow>
      (if \<exists>b. holds (sw_boxes w) b i
       then count (sw_ran w) i = 0 \<and> (\<exists>!b. holds (sw_boxes w) b i) \<and> (\<forall>b. holds (sw_boxes w) b i \<longrightarrow> raw_get_work off b \<in> pending (sw_kernel w))
       else count (sw_ran w) i = 1)) \<and>
    (\<exists>r. try_spawn q alloc off (sw_boxes w) (sw_kernel w) func = Inr r) \<and>
    (p \<in> pending (sw_kernel w) \<longrightarrow>
      (\<exists>b i h. box_work_run off p = Inr b \<and> closure_work_run (sw_boxes w) b = Inr ([i], h)))"
proof -
  have inv: "spawn_inv pending off w" by (rule spawn_inv_reach [OF assms])
  have "raw_get_work off b \<in> pending (sw_kernel w)" if "holds (sw_boxes w) b i" for b
    using inv that by (auto simp: spawn_inv_def holds_def)
  then have "i < sw_next w \<longrightarrow>
      (if \<exists>b. holds (sw_boxes w) b i
       then count (sw_ran w) i = 0 \<and> (\<exists>!b. holds (sw_boxes w) b i) \<and> (\<forall>b. holds (sw_boxes w) b i \<longrightarrow> raw_get_work off b \<in> pending (sw_kernel w))
       else count (sw_ran w) i = 1)"
    using inv unfolding spawn_inv_def by auto
  moreover have "\<exists>r. try_spawn q alloc off (sw_boxes w) (sw_kernel w) func = Inr r"
    using try_spawn_ok [OF assms(1,2) inv, of func] by blast
  ultimately show ?thesis using closure_run_ok [OF inv, of p] by blast
qed

theorem spawned_closures_run_once_witness:
  "let al = (\<lambda>h. List.find (\<lambda>a. h a = None) [1..<8]);
       w = \<lparr>sw_boxes = [1 \<mapsto> \<lparr>cw_func = Some 0\<rparr>], sw_kernel = {17 :: addr}, sw_next = 1, sw_ran = {#}\<rparr> in
    (0 < sw_next w \<longrightarrow>
      (if \<exists>b. holds (sw_boxes w) b 0
       then count (sw_ran w) 0 = 0 \<and> (\<exists>!b. holds (sw_boxes w) b 0) \<and> (\<forall>b. holds (sw_boxes w) b 0 \<longrightarrow> raw_get_work 16 b \<in> id (sw_kernel w))
       else count (sw_ran w) 0 = 1)) \<and>
    (\<exists>r. try_spawn ref_workq al 16 (sw_boxes w) (sw_kernel w) 1 = Inr r) \<and>
    (17 \<in> id (sw_kernel w) \<longrightarrow>
      (\<exists>b i h. box_work_run 16 17 = Inr b \<and> closure_work_run (sw_boxes w) b = Inr ([i], h)))"
proof -
  let ?al = "\<lambda>h :: nat boxes. List.find (\<lambda>a. h a = None) [1..<8]"
  let ?w0 = "\<lparr>sw_boxes = Map.empty, sw_kernel = {} :: addr set, sw_next = 0, sw_ran = {#}\<rparr>"
  have "try_spawn ref_workq ?al 16 (sw_boxes ?w0) (sw_kernel ?w0) (sw_next ?w0) = Inr (Ok (), [1 \<mapsto> \<lparr>cw_func = Some 0\<rparr>], {17})"
    by (simp add: try_spawn_def queue_enqueue_def box_enqueue_def ref_workq_def raw_get_work_def upt_rec)
  from spawn_step.spawn [OF this, of id]
  have "spawn_reach ref_workq id ?al 16 \<lparr>sw_boxes = [1 \<mapsto> \<lparr>cw_func = Some 0\<rparr>], sw_kernel = {17 :: addr}, sw_next = 1, sw_ran = {#}\<rparr>"
    by (intro spawn_reach_step [OF spawn_reach_init [of id "{}"]]) simp_all
  from spawned_closures_run_once [OF ref_workq_ok box_first_free_ok this] show ?thesis unfolding Let_def by blast
qed

end
