(* ===== verification/Address_Space.thy ===== *)
theory Address_Space
  imports Kernel_Types "HOL-Library.Multiset"
begin

text \<open>
  \<open>rust/src/mm.rs\<close>: address spaces with their two reference counts, their read locks and the areas looked up under them.

  The counts and the locks are the kernel's: its functions are the parameter \<open>c_mm\<close> on a state \<open>'s\<close>. Their contract is stated over a
  view of that state: for each address space the references taken by \<open>mmgrab\<close>, the users taken by \<open>mmget\<close> and the readers of
  its map, and for each area its readers. All users together keep the structure itself alive, so the structure
  exists as long as one of the first two numbers is positive.
\<close>

section \<open>Handles and guards\<close>


















section \<open>Contract\<close>

text \<open>\<open>mv_area v m a\<close> is the area of the address space \<open>m\<close> at the address \<open>a\<close>.\<close>

record mm_view =
  mv_grabs :: "addr \<Rightarrow> nat"
  mv_users :: "addr \<Rightarrow> nat"
  mv_readers :: "addr \<Rightarrow> nat"
  mv_vreaders :: "addr \<Rightarrow> nat"
  mv_area :: "addr \<Rightarrow> usize \<rightharpoonup> addr"

definition mm_alive :: "mm_view \<Rightarrow> addr \<Rightarrow> bool" where
  "mm_alive v m \<longleftrightarrow> 0 < mv_grabs v m \<or> 0 < mv_users v m"










section \<open>Programs\<close>








section \<open>The books\<close>





















section \<open>Instance\<close>

text \<open>A state is its own view, without areas at the null address. Forbidden calls fault; locks are always free.\<close>

definition ref_mm_view :: "mm_view \<Rightarrow> mm_view" where
  "ref_mm_view v = v\<lparr>mv_area := \<lambda>m a. if mv_area v m a = Some 0 then None else mv_area v m a\<rparr>"


lemma ref_mm_view_simps [simp]:
  "mv_grabs (ref_mm_view v) = mv_grabs v" "mv_users (ref_mm_view v) = mv_users v" "mv_readers (ref_mm_view v) = mv_readers v"
  "mv_vreaders (ref_mm_view v) = mv_vreaders v" "mm_alive (ref_mm_view v) m = mm_alive v m"
  "mv_area (ref_mm_view v) m a = (if mv_area v m a = Some 0 then None else mv_area v m a)"
  "ref_mm_view (v\<lparr>mv_grabs := f\<rparr>) = (ref_mm_view v)\<lparr>mv_grabs := f\<rparr>" "ref_mm_view (v\<lparr>mv_users := f\<rparr>) = (ref_mm_view v)\<lparr>mv_users := f\<rparr>"
  "ref_mm_view (v\<lparr>mv_readers := f\<rparr>) = (ref_mm_view v)\<lparr>mv_readers := f\<rparr>"
  "ref_mm_view (v\<lparr>mv_vreaders := f\<rparr>) = (ref_mm_view v)\<lparr>mv_vreaders := f\<rparr>"
  by (simp_all add: ref_mm_view_def mm_alive_def cong: if_cong)






section \<open>Properties\<close>



end
