(* ===== verification/Virtual_Area.thy ===== *)
theory Virtual_Area
  imports Kernel_Types
begin

text \<open>
  \<open>rust/src/mm/virt.rs\<close>: areas of virtual memory, as a driver sets them up and works on them.

  An area is its C structure, as the accessors of \<open>src/shim.c\<close> read and write it. The page tables are the kernel's: their
  functions are the parameter \<open>c_vm\<close> on a state \<open>'s\<close>, and what they promise is stated over the page mapped at each address.
\<close>

unbundle bit_operations_syntax

section \<open>Flags of an area\<close>

definition VM_NONE :: u64 where "VM_NONE = 0x00000000"
definition VM_READ :: u64 where "VM_READ = 0x00000001"
definition VM_WRITE :: u64 where "VM_WRITE = 0x00000002"
definition VM_EXEC :: u64 where "VM_EXEC = 0x00000004"
definition VM_SHARED :: u64 where "VM_SHARED = 0x00000008"
definition VM_MAYREAD :: u64 where "VM_MAYREAD = 0x00000010"
definition VM_MAYWRITE :: u64 where "VM_MAYWRITE = 0x00000020"
definition VM_MAYEXEC :: u64 where "VM_MAYEXEC = 0x00000040"
definition VM_MAYSHARE :: u64 where "VM_MAYSHARE = 0x00000080"
definition VM_PFNMAP :: u64 where "VM_PFNMAP = 0x00000400"
definition VM_IO :: u64 where "VM_IO = 0x00004000"
definition VM_DONTCOPY :: u64 where "VM_DONTCOPY = 0x00020000"
definition VM_DONTEXPAND :: u64 where "VM_DONTEXPAND = 0x00040000"
definition VM_DONTDUMP :: u64 where "VM_DONTDUMP = 0x04000000"
definition VM_MIXEDMAP :: u64 where "VM_MIXEDMAP = 0x10000000"

section \<open>Areas\<close>

record vm_area_struct =
  vm_mm :: addr
  vm_flags :: u64
  vm_start :: usize
  vm_end :: usize

definition rs_vma_set_flags :: "vm_area_struct \<Rightarrow> u64 \<Rightarrow> vm_area_struct" where
  "rs_vma_set_flags vma flags = vma\<lparr>vm_flags := flags\<rparr>"

record 's c_vm =
  cv_zap_page_range_single :: "'s \<Rightarrow> vm_area_struct \<Rightarrow> usize \<Rightarrow> usize \<Rightarrow> 's exec"
  cv_vm_insert_page :: "'s \<Rightarrow> vm_area_struct \<Rightarrow> usize \<Rightarrow> addr \<Rightarrow> int \<times> 's"

text \<open>A sum and whether it left the range of \<open>usize\<close>.\<close>

definition overflowing_add :: "usize \<Rightarrow> usize \<Rightarrow> usize \<times> bool" where
  "overflowing_add a b = (wrapping_add a b, usize_max < a + b)"

definition zap_page_range_single :: "'s c_vm \<Rightarrow> vm_area_struct \<Rightarrow> usize \<Rightarrow> usize \<Rightarrow> 's \<Rightarrow> 's exec" where
  "zap_page_range_single K self address sz s =
     (let (end_addr, did_overflow) = overflowing_add address sz in
      if did_overflow \<or> address < vm_start self \<or> vm_end self < end_addr then Inr s
      else cv_zap_page_range_single K s self address sz)"

text \<open>A \<open>VmaMixedMap\<close> is the area under a type that promises the flag.\<close>

datatype vma_mixed_map = VmaMixedMap vm_area_struct


fun vm_insert_page :: "'s c_vm \<Rightarrow> vma_mixed_map \<Rightarrow> usize \<Rightarrow> addr \<Rightarrow> 's \<Rightarrow> (unit, error) result \<times> 's" where
  "vm_insert_page K (VmaMixedMap vma) address page s =
     (let (ret, s) = cv_vm_insert_page K s vma address page in (to_result ret, s))"

subsection \<open>Areas under construction\<close>

definition update_flags :: "vm_area_struct \<Rightarrow> u64 \<Rightarrow> u64 \<Rightarrow> vm_area_struct" where
  "update_flags self s u =
     (let flags = vm_flags self;
          flags = flags OR s;
          flags = flags AND NOT u
      in rs_vma_set_flags self flags)"















subsection \<open>Flags as sets of bits\<close>

lemma vm_flag_bits:
  "VM_READ = 2 ^ 0" "VM_WRITE = 2 ^ 1" "VM_EXEC = 2 ^ 2" "VM_SHARED = 2 ^ 3" "VM_MAYREAD = 2 ^ 4" "VM_MAYWRITE = 2 ^ 5"
  "VM_MAYEXEC = 2 ^ 6" "VM_MAYSHARE = 2 ^ 7" "VM_PFNMAP = 2 ^ 10" "VM_IO = 2 ^ 14" "VM_DONTCOPY = 2 ^ 17" "VM_DONTEXPAND = 2 ^ 18"
  "VM_DONTDUMP = 2 ^ 26" "VM_MIXEDMAP = 2 ^ 28"
  by (simp_all add: VM_READ_def VM_WRITE_def VM_EXEC_def VM_SHARED_def VM_MAYREAD_def VM_MAYWRITE_def VM_MAYEXEC_def VM_MAYSHARE_def
      VM_PFNMAP_def VM_IO_def VM_DONTCOPY_def VM_DONTEXPAND_def VM_DONTDUMP_def VM_MIXEDMAP_def)


lemma vm_flag_bit:
  fixes w :: u64
  assumes "f = 2 ^ k" and "k < 64"
  shows "w AND f = 0 \<longleftrightarrow> \<not> bit w k" "bit f n \<longleftrightarrow> n = k"
  using assms by (auto simp: and_exp_eq_0_iff_not_bit bit_exp_iff possible_bit_word)


lemma bit_vm_flag [simp]:
  "bit VM_READ n \<longleftrightarrow> n = 0" "bit VM_WRITE n \<longleftrightarrow> n = 1" "bit VM_EXEC n \<longleftrightarrow> n = 2"
  "bit VM_MAYREAD n \<longleftrightarrow> n = 4" "bit VM_MAYWRITE n \<longleftrightarrow> n = 5" "bit VM_MAYEXEC n \<longleftrightarrow> n = 6"
  "bit VM_PFNMAP n \<longleftrightarrow> n = 10" "bit VM_IO n \<longleftrightarrow> n = 14" "bit VM_DONTCOPY n \<longleftrightarrow> n = 17"
  "bit VM_DONTEXPAND n \<longleftrightarrow> n = 18" "bit VM_DONTDUMP n \<longleftrightarrow> n = 26" "bit VM_MIXEDMAP n \<longleftrightarrow> n = 28"
  by (rule vm_flag_bit(2), rule vm_flag_bits, simp)+






definition same_area :: "vm_area_struct \<Rightarrow> vm_area_struct \<Rightarrow> bool" where
  "same_area v v' \<longleftrightarrow> vm_mm v' = vm_mm v \<and> vm_start v' = vm_start v \<and> vm_end v' = vm_end v"


lemma same_area_update [simp]: "same_area v (update_flags v s u)"
  by (simp add: same_area_def update_flags_def rs_vma_set_flags_def)

lemma same_area_refl [simp]: "same_area v v"
  by (simp add: same_area_def)












section \<open>Contract and instance of the page tables\<close>

text \<open>
  The page mapped at each address. \<open>zap_page_range_single\<close> may only be called on a range inside the area; it unmaps the range, and
  nothing outside of the area.
\<close>

definition c_vm_ok :: "'s c_vm \<Rightarrow> ('s \<Rightarrow> usize \<rightharpoonup> addr) \<Rightarrow> bool" where
  "c_vm_ok K pt \<longleftrightarrow> (\<forall>s v a n. vm_start v \<le> a \<and> a + n \<le> vm_end v \<longrightarrow>
     (\<exists>s'. cv_zap_page_range_single K s v a n = Inr s' \<and> (\<forall>x. a \<le> x \<and> x < a + n \<longrightarrow> pt s' x = None) \<and>
       (\<forall>x. x < vm_start v \<or> vm_end v \<le> x \<longrightarrow> pt s' x = pt s x)))"

definition ref_vm :: "(usize \<rightharpoonup> addr) c_vm" where
  "ref_vm = \<lparr>cv_zap_page_range_single = (\<lambda>s v a n.
       if vm_start v \<le> a \<and> a + n \<le> vm_end v then Inr (\<lambda>x. if a \<le> x \<and> x < a + n then None else s x) else Inl UB),
     cv_vm_insert_page = (\<lambda>s v a p. (0, s(a \<mapsto> p)))\<rparr>"

lemma ref_vm_ok: "c_vm_ok ref_vm (\<lambda>s. s)"
  by (auto simp: c_vm_ok_def ref_vm_def)

section \<open>Properties of areas\<close>



text \<open>
  \<open>zap_page_range_single\<close> touches no memory outside its area. For every address and size, also where their sum leaves the range
  of \<open>usize\<close>: the call never faults, no mapping outside of the area changes, and it unmaps the whole range exactly where
  the range lies inside the area; otherwise it does nothing at all.
\<close>

lemma zap_stays_inside:
  assumes "c_vm_ok K pt" and "vm_end v \<le> usize_max"
  shows "\<exists>s'. zap_page_range_single K v a n s = Inr s' \<and>
    (\<forall>x. x < vm_start v \<or> vm_end v \<le> x \<longrightarrow> pt s' x = pt s x) \<and>
    (if vm_start v \<le> a \<and> a + n \<le> vm_end v then \<forall>x. a \<le> x \<and> x < a + n \<longrightarrow> pt s' x = None else s' = s)"
proof (cases "vm_start v \<le> a \<and> a + n \<le> vm_end v")
  case True
  with assms(2) have "wrapping_add a n = a + n" "\<not> usize_max < a + n"
    by (simp_all add: wrapping_add_def usize_max_def)
  moreover from assms(1) True obtain s' where "cv_zap_page_range_single K s v a n = Inr s'"
    "\<forall>x. a \<le> x \<and> x < a + n \<longrightarrow> pt s' x = None" "\<forall>x. x < vm_start v \<or> vm_end v \<le> x \<longrightarrow> pt s' x = pt s x"
    unfolding c_vm_ok_def by blast
  ultimately show ?thesis using True by (simp add: zap_page_range_single_def overflowing_add_def)
next
  case False
  then have "usize_max < a + n \<or> a < vm_start v \<or> vm_end v < wrapping_add a n"
    by (auto simp: wrapping_add_def usize_max_def)
  with False show ?thesis by (auto simp: zap_page_range_single_def overflowing_add_def)
qed

end
