(* ===== verification/Macro_Tokens.thy ===== *)
theory Macro_Tokens
  imports Kernel_Prelude
begin

text \<open>
  \<open>rust/macros/helpers.rs\<close>, \<open>concat_idents.rs\<close>, \<open>zeroable.rs\<close>: the parts of the procedural macros that take token streams apart.

  A token stream is a list of token trees, as \<open>proc_macro\<close> has them; an iterator over one is the list of tokens that are left.
  Spans only serve diagnostics and have no model. A failing macro panics: \<open>Inl Panic\<close>. Strings are their bytes.
\<close>

section \<open>Token trees\<close>

datatype delimiter = Parenthesis | Brace | Bracket | NoDelimiter

datatype spacing = Joint | Alone

datatype token_tree = Ident string | Literal string | Punct char spacing | Group delimiter "token_tree list"

type_synonym tokens = "token_tree list"

fun is_punct :: "char \<Rightarrow> token_tree \<Rightarrow> bool" where
  "is_punct c (Punct d _) \<longleftrightarrow> d = c"
| "is_punct c _ \<longleftrightarrow> False"

fun is_ident :: "string \<Rightarrow> token_tree \<Rightarrow> bool" where
  "is_ident i (Ident j) \<longleftrightarrow> j = i"
| "is_ident i _ \<longleftrightarrow> False"

definition starts_with :: "string \<Rightarrow> string \<Rightarrow> bool" where
  "starts_with p s \<longleftrightarrow> take (length p) s = p"

definition ends_with :: "string \<Rightarrow> string \<Rightarrow> bool" where
  "ends_with p s \<longleftrightarrow> length p \<le> length s \<and> drop (length s - length p) s = p"

definition is_ascii :: "string \<Rightarrow> bool" where
  "is_ascii s \<longleftrightarrow> (\<forall>c \<in> set s. of_char c < (128 :: nat))"

abbreviation dquote :: char where "dquote \<equiv> CHR 0x22"
abbreviation backslash :: char where "backslash \<equiv> CHR 0x5C"
abbreviation squote :: char where "squote \<equiv> CHR 0x27"

text \<open>\<open>to_uppercase\<close> and \<open>to_lowercase\<close> on ASCII text, which is what module names are checked to be and identifiers of the crate are.\<close>

definition upper_char :: "char \<Rightarrow> char" where
  "upper_char c = (let n = of_char c :: nat in if 97 \<le> n \<and> n \<le> 122 then char_of (n - 32) else c)"

definition lower_char :: "char \<Rightarrow> char" where
  "lower_char c = (let n = of_char c :: nat in if 65 \<le> n \<and> n \<le> 90 then char_of (n + 32) else c)"

definition to_uppercase :: "string \<Rightarrow> string" where
  "to_uppercase s = map upper_char s"

definition to_lowercase :: "string \<Rightarrow> string" where
  "to_lowercase s = map lower_char s"

section \<open>Helpers\<close>

fun try_ident :: "tokens \<Rightarrow> string option \<times> tokens" where
  "try_ident [] = (None, [])"
| "try_ident (Ident i # ts) = (Some i, ts)"
| "try_ident (_ # ts) = (None, ts)"

fun try_literal :: "tokens \<Rightarrow> string option \<times> tokens" where
  "try_literal [] = (None, [])"
| "try_literal (Literal l # ts) = (Some l, ts)"
| "try_literal (_ # ts) = (None, ts)"

text \<open>The slice \<open>[1..len - 1]\<close> panics for a string of length one.\<close>

definition string_content :: "string \<Rightarrow> string option exec" where
  "string_content s =
     (if starts_with [dquote] s \<and> ends_with [dquote] s then
        if length s < 2 then Inl Panic
        else let content = take (length s - 2) (drop 1 s) in
             if backslash \<in> set content then Inl Panic else Inr (Some content)
      else if starts_with [CHR ''r'', dquote] s then Inl Panic
      else Inr None)"

definition try_string :: "tokens \<Rightarrow> (string option \<times> tokens) exec" where
  "try_string it = (let (l, it) = try_literal it in
     case l of None \<Rightarrow> Inr (None, it) | Some s \<Rightarrow> exec_bind (string_content s) (\<lambda>r. Inr (r, it)))"

definition expect_some :: "'a option \<times> tokens \<Rightarrow> ('a \<times> tokens) exec" where
  "expect_some r = (case r of (Some x, it) \<Rightarrow> Inr (x, it) | (None, it) \<Rightarrow> Inl Panic)"

definition expect_ident :: "tokens \<Rightarrow> (string \<times> tokens) exec" where
  "expect_ident it = expect_some (try_ident it)"

fun expect_punct :: "tokens \<Rightarrow> (char \<times> tokens) exec" where
  "expect_punct (Punct c _ # it) = Inr (c, it)"
| "expect_punct _ = Inl Panic"

definition expect_string :: "tokens \<Rightarrow> (string \<times> tokens) exec" where
  "expect_string it = exec_bind (try_string it) expect_some"

definition expect_string_ascii :: "tokens \<Rightarrow> (string \<times> tokens) exec" where
  "expect_string_ascii it =
     exec_bind (exec_bind (try_string it) expect_some) (\<lambda>(s, it).
     exec_bind (require Panic (is_ascii s)) (\<lambda>_. Inr (s, it)))"

fun expect_group :: "tokens \<Rightarrow> (delimiter \<times> tokens \<times> tokens) exec" where
  "expect_group (Group d g # it) = Inr (d, g, it)"
| "expect_group _ = Inl Panic"

definition expect_end :: "tokens \<Rightarrow> unit exec" where
  "expect_end it = require Panic (it = [])"

section \<open>Concatenation of identifiers\<close>

definition concat_idents :: "tokens \<Rightarrow> tokens exec" where
  "concat_idents ts =
     exec_bind (expect_ident ts) (\<lambda>(a, it).
     exec_bind (expect_punct it) (\<lambda>(c, it).
     exec_bind (require Panic (c = CHR '','')) (\<lambda>_.
     exec_bind (expect_ident it) (\<lambda>(b, it).
     exec_bind (require Panic (it = [])) (\<lambda>_.
     Inr [Ident (a @ b)])))))"

section \<open>Generics\<close>

record generics =
  decl_generics :: tokens
  impl_generics :: tokens
  ty_generics :: tokens

text \<open>The local variables of the loop.\<close>

record pg_state = generics +
  pg_rest :: tokens
  pg_nesting :: nat
  pg_at_start :: bool
  pg_skip :: bool

definition push_decl :: "token_tree \<Rightarrow> pg_state \<Rightarrow> pg_state" where
  "push_decl tt s = s\<lparr>decl_generics := decl_generics s @ [tt]\<rparr>"

definition push_impl :: "token_tree \<Rightarrow> pg_state \<Rightarrow> pg_state" where
  "push_impl tt s = s\<lparr>impl_generics := impl_generics s @ [tt]\<rparr>"

definition push_ty :: "token_tree \<Rightarrow> pg_state \<Rightarrow> pg_state" where
  "push_ty tt s = s\<lparr>ty_generics := ty_generics s @ [tt]\<rparr>"

definition push_rest :: "tokens \<Rightarrow> pg_state \<Rightarrow> pg_state" where
  "push_rest ts s = s\<lparr>pg_rest := pg_rest s @ ts\<rparr>"

text \<open>
  A token at depth one that is neither \<open>const\<close> at the start of a parameter nor an angle bracket, outside of a default value.
\<close>

definition pg_param_token :: "token_tree \<Rightarrow> pg_state \<Rightarrow> pg_state" where
  "pg_param_token tt s =
     (case tt of
        Ident i \<Rightarrow> if pg_at_start s then (push_ty tt (push_impl tt s))\<lparr>pg_at_start := False\<rparr> else push_impl tt s
      | Punct c _ \<Rightarrow>
          if c = CHR '','' then (push_ty tt (push_impl tt s))\<lparr>pg_at_start := True\<rparr>
          else if c = squote \<and> pg_at_start s then push_ty tt (push_impl tt s)
          else if c = CHR ''='' then s\<lparr>pg_skip := True\<rparr>
          else push_impl tt s
      | _ \<Rightarrow> push_impl tt s)"

fun pg_loop :: "pg_state \<Rightarrow> tokens \<Rightarrow> pg_state" where
  "pg_loop s [] = s"
| "pg_loop s (tt # toks) =
     (if pg_nesting s = 1 \<and> is_punct (CHR ''>'') tt then push_rest toks s
      else
        let s = (if 1 \<le> pg_nesting s then push_decl tt s else s) in
        if is_punct (CHR ''<'') tt then
          let s = (if 1 \<le> pg_nesting s \<and> \<not> pg_skip s then push_impl tt s else s) in
          pg_loop (s\<lparr>pg_nesting := pg_nesting s + 1\<rparr>) toks
        else if is_punct (CHR ''>'') tt then
          if pg_nesting s = 0 then push_rest toks s
          else let s = s\<lparr>pg_nesting := pg_nesting s - 1\<rparr>;
                   s = (if 1 \<le> pg_nesting s \<and> \<not> pg_skip s then push_impl tt s else s) in
               pg_loop s toks
        else if pg_skip s \<and> is_punct (CHR '','') tt then
          if pg_nesting s = 1 then pg_loop ((push_impl tt (push_impl tt s))\<lparr>pg_skip := False\<rparr>) toks
          else pg_loop s toks
        else if \<not> pg_skip s then
          if pg_nesting s = 0 then pg_loop (push_rest [tt] s) toks
          else if pg_nesting s = 1 then
            if is_ident ''const'' tt \<and> pg_at_start s then
              (case toks of
                 [] \<Rightarrow> s
               | name # toks \<Rightarrow>
                   pg_loop ((push_decl name (push_ty name (push_impl name (push_impl tt s))))\<lparr>pg_at_start := False\<rparr>) toks)
            else pg_loop (pg_param_token tt s) toks
          else pg_loop (push_impl tt s) toks
        else pg_loop s toks)"

definition parse_generics :: "tokens \<Rightarrow> generics \<times> tokens" where
  "parse_generics input =
     (let s = pg_loop \<lparr>decl_generics = [], impl_generics = [], ty_generics = [], pg_rest = [], pg_nesting = 0,
                       pg_at_start = True, pg_skip = False\<rparr> input
      in (\<lparr>decl_generics = decl_generics s, impl_generics = impl_generics s, ty_generics = ty_generics s\<rparr>, pg_rest s))"


section \<open>Quoting\<close>

text \<open>
  The template language of \<open>quote!\<close>: interpolations (\<open>#id\<close> and \<open>#(#id)*\<close>, with the tokens that they stand for), groups, \<open>::\<close>, the other
  punctuation and identifiers.
\<close>

datatype quoted = QSplice tokens | QGroup delimiter "quoted list" | QPathSep | QPunct char | QIdent string

fun quote_spanned :: "quoted list \<Rightarrow> tokens" where
  "quote_spanned [] = []"
| "quote_spanned (QSplice ts # tt) = ts @ quote_spanned tt"
| "quote_spanned (QGroup d inner # tt) = Group d (quote_spanned inner) # quote_spanned tt"
| "quote_spanned (QPathSep # tt) = Punct (CHR '':'') Joint # Punct (CHR '':'') Alone # quote_spanned tt"
| "quote_spanned (QPunct c # tt) = Punct c Alone # quote_spanned tt"
| "quote_spanned (QIdent i # tt) = Ident i # quote_spanned tt"

section \<open>Deriving \<open>Zeroable\<close>\<close>

definition zeroable_path :: "quoted list" where
  "zeroable_path = [QPathSep, QIdent ''kernel'', QPathSep, QIdent ''init'', QPathSep, QIdent ''Zeroable'']"

fun zeroable_loop :: "bool \<Rightarrow> bool \<Rightarrow> nat \<Rightarrow> tokens \<Rightarrow> tokens \<Rightarrow> (bool \<times> bool \<times> nat \<times> tokens) exec" where
  "zeroable_loop in_generic inserted nested new [] = Inr (in_generic, inserted, nested, new)"
| "zeroable_loop in_generic inserted nested new (tt # tts) =
     (if nested = 0 \<and> is_punct (CHR '','') tt then
        let new = (if in_generic \<and> \<not> inserted then new @ quote_spanned (QPunct (CHR '':'') # zeroable_path) else new) in
        zeroable_loop True False nested (new @ [tt]) tts
      else if nested = 0 \<and> is_punct squote tt then zeroable_loop False inserted nested (new @ [tt]) tts
      else if nested = 0 \<and> is_punct (CHR '':'') tt then
        let new = new @ [tt] in
        if in_generic then zeroable_loop in_generic True nested (new @ quote_spanned (zeroable_path @ [QPunct (CHR ''+'')])) tts
        else zeroable_loop in_generic inserted nested new tts
      else if is_punct (CHR ''<'') tt then zeroable_loop in_generic inserted (nested + 1) (new @ [tt]) tts
      else if is_punct (CHR ''>'') tt then
        exec_bind (require Panic (0 < nested)) (\<lambda>_. zeroable_loop in_generic inserted (nested - 1) (new @ [tt]) tts)
      else zeroable_loop in_generic inserted nested (new @ [tt]) tts)"

definition zeroable_generics :: "tokens \<Rightarrow> tokens exec" where
  "zeroable_generics impls =
     exec_bind (zeroable_loop (impls \<noteq> []) False 0 [] impls) (\<lambda>(in_generic, inserted, nested, new).
     exec_bind (require Panic (nested = 0)) (\<lambda>_.
     Inr (if in_generic \<and> \<not> inserted then new @ quote_spanned (QPunct (CHR '':'') # zeroable_path) else new)))"

text \<open>\<open>Vec::pop\<close>, and how \<open>quote!\<close> interpolates an \<open>Option\<close>.\<close>

definition pop_last :: "tokens \<Rightarrow> tokens \<times> token_tree option" where
  "pop_last ts = (if ts = [] then ([], None) else (butlast ts, Some (last ts)))"

definition option_tokens :: "token_tree option \<Rightarrow> tokens" where
  "option_tokens t = (case t of None \<Rightarrow> [] | Some t \<Rightarrow> [t])"

definition zeroable_call :: "tokens \<Rightarrow> tokens \<Rightarrow> tokens \<Rightarrow> tokens \<Rightarrow> tokens" where
  "zeroable_call rest new_impl_generics tys body = quote_spanned
     [QPathSep, QIdent ''kernel'', QPathSep, QIdent ''__derive_zeroable'', QPunct (CHR ''!''),
      QGroup Parenthesis
        [QIdent ''parse_input'', QPunct (CHR '':''),
         QPunct (CHR ''@''), QIdent ''sig'', QGroup Parenthesis [QSplice rest], QPunct (CHR '',''),
         QPunct (CHR ''@''), QIdent ''impl_generics'', QGroup Parenthesis [QSplice new_impl_generics], QPunct (CHR '',''),
         QPunct (CHR ''@''), QIdent ''ty_generics'', QGroup Parenthesis [QSplice tys], QPunct (CHR '',''),
         QPunct (CHR ''@''), QIdent ''body'', QGroup Parenthesis [QSplice body], QPunct (CHR '','')],
      QPunct (CHR '';'')]"

definition derive_zeroable :: "tokens \<Rightarrow> tokens exec" where
  "derive_zeroable input =
     (let (g, rest) = parse_generics input; (rest, last_tt) = pop_last rest in
      exec_bind (zeroable_generics (impl_generics g)) (\<lambda>new_impl_generics.
      Inr (zeroable_call rest new_impl_generics (ty_generics g) (option_tokens last_tt))))"

section \<open>What the generics of a declaration are\<close>

text \<open>
  A parameter is a lifetime, a type or a constant with its bounds, which start at the colon where there are any. Inside of bounds
  angle brackets are balanced, and commas and equality signs occur only within them. A comma follows each parameter but the last.
\<close>

datatype gparam = Lifetime string tokens | TypeParam string tokens | ConstParam string tokens

fun param_decl :: "gparam \<Rightarrow> tokens" where
  "param_decl (Lifetime n b) = Punct squote Joint # Ident n # b"
| "param_decl (TypeParam n b) = Ident n # b"
| "param_decl (ConstParam n b) = Ident ''const'' # Ident n # b"

fun param_name :: "gparam \<Rightarrow> tokens" where
  "param_name (Lifetime n b) = [Punct squote Joint, Ident n]"
| "param_name (TypeParam n b) = [Ident n]"
| "param_name (ConstParam n b) = [Ident n]"

fun balanced :: "nat \<Rightarrow> tokens \<Rightarrow> bool" where
  "balanced d [] \<longleftrightarrow> d = 0"
| "balanced d (t # ts) \<longleftrightarrow>
     (if is_punct (CHR ''<'') t then balanced (Suc d) ts
      else if is_punct (CHR ''>'') t then 0 < d \<and> balanced (d - 1) ts
      else (d = 0 \<longrightarrow> \<not> is_punct (CHR '','') t \<and> \<not> is_punct (CHR ''='') t) \<and> balanced d ts)"

fun param_ok :: "gparam \<Rightarrow> bool" where
  "param_ok (Lifetime n b) \<longleftrightarrow> n \<noteq> ''const'' \<and> balanced 0 b"
| "param_ok (TypeParam n b) \<longleftrightarrow> n \<noteq> ''const'' \<and> balanced 0 b"
| "param_ok (ConstParam n b) \<longleftrightarrow> balanced 0 b"

fun comma_sep :: "tokens list \<Rightarrow> tokens" where
  "comma_sep [] = []"
| "comma_sep [x] = x"
| "comma_sep (x # y # xs) = x @ Punct (CHR '','') Alone # comma_sep (y # xs)"

definition no_angles :: "tokens \<Rightarrow> bool" where
  "no_angles ts \<longleftrightarrow> (\<forall>t \<in> set ts. \<not> is_punct (CHR ''<'') t \<and> \<not> is_punct (CHR ''>'') t)"

text \<open>The default value of the last parameter, after its equality sign: balanced, without a comma outside of brackets.\<close>

definition default_tokens :: "tokens option \<Rightarrow> tokens" where
  "default_tokens d = (case d of None \<Rightarrow> [] | Some ts \<Rightarrow> Punct (CHR ''='') Alone # ts)"

definition default_ok :: "tokens option \<Rightarrow> bool" where
  "default_ok d \<longleftrightarrow> (case d of None \<Rightarrow> True | Some ts \<Rightarrow> balanced 0 ts)"

subsection \<open>The loop of \<open>parse_generics\<close>\<close>

definition add_bounds :: "tokens \<Rightarrow> pg_state \<Rightarrow> pg_state" where
  "add_bounds b s = s\<lparr>decl_generics := decl_generics s @ b, impl_generics := impl_generics s @ b\<rparr>"

lemmas pg_defs = push_decl_def push_impl_def push_ty_def push_rest_def pg_param_token_def add_bounds_def

lemma pg_cong: "s = s' \<Longrightarrow> pg_loop s ts = pg_loop s' ts"
  by simp

lemma pg_loop_prefix:
  assumes "no_angles ts" and "pg_nesting s = 0" and "\<not> pg_skip s"
  shows "pg_loop s (ts @ toks) = pg_loop (push_rest ts s) toks"
  using assms
proof (induction ts arbitrary: s)
  case (Cons t ts)
  then have "\<not> is_punct (CHR ''<'') t" "\<not> is_punct (CHR ''>'') t" "no_angles ts" by (simp_all add: no_angles_def)
  then show ?case using Cons.prems Cons.IH [of "push_rest [t] s"] by (simp add: push_rest_def)
qed (simp add: push_rest_def)

lemma pg_loop_bounds:
  assumes "balanced d b" and "pg_nesting s = Suc d" and "\<not> pg_skip s" and "\<not> pg_at_start s"
  shows "pg_loop s (b @ toks) = pg_loop ((add_bounds b s)\<lparr>pg_nesting := 1\<rparr>) toks"
  using assms
proof (induction b arbitrary: s d)
  case Nil
  then have "s = (add_bounds [] s)\<lparr>pg_nesting := 1\<rparr>" by (simp add: add_bounds_def)
  then show ?case by (simp only: append_Nil)
next
  case (Cons t b)
  let ?s = "add_bounds [t] s"
  consider "is_punct (CHR ''<'') t" | "is_punct (CHR ''>'') t" "\<not> is_punct (CHR ''<'') t"
    | "\<not> is_punct (CHR ''>'') t" "\<not> is_punct (CHR ''<'') t" by blast
  then show ?case
  proof cases
    case 1
    then have "\<not> is_punct (CHR ''>'') t" by (cases t) auto
    then have "pg_loop s ((t # b) @ toks) = pg_loop (?s\<lparr>pg_nesting := Suc (Suc d)\<rparr>) (b @ toks)"
      using Cons.prems 1 by (simp add: pg_defs)
    also have "\<dots> = pg_loop ((add_bounds b (?s\<lparr>pg_nesting := Suc (Suc d)\<rparr>))\<lparr>pg_nesting := 1\<rparr>) toks"
      by (rule Cons.IH) (use Cons.prems 1 in \<open>simp_all add: add_bounds_def\<close>)
    finally show ?thesis by (simp add: add_bounds_def)
  next
    case 2
    with Cons.prems have d: "0 < d" "balanced (d - 1) b" by simp_all
    then have "pg_loop s ((t # b) @ toks) = pg_loop (?s\<lparr>pg_nesting := d\<rparr>) (b @ toks)"
      using Cons.prems 2 by (simp add: pg_defs) (intro pg_cong, simp)
    also have "\<dots> = pg_loop ((add_bounds b (?s\<lparr>pg_nesting := d\<rparr>))\<lparr>pg_nesting := 1\<rparr>) toks"
      by (rule Cons.IH [OF d(2)]) (use Cons.prems(2-4) d in \<open>simp_all add: add_bounds_def\<close>)
    finally show ?thesis by (simp add: add_bounds_def)
  next
    case 3
    with Cons.prems(1) have "d = 0 \<Longrightarrow> pg_param_token t (push_decl t s) = ?s"
      using Cons.prems(4) by (cases t) (auto simp: pg_defs)
    then have "pg_loop s ((t # b) @ toks) = pg_loop ?s (b @ toks)"
      using Cons.prems 3 by (simp add: push_decl_def push_impl_def add_bounds_def Let_def)
    also have "\<dots> = pg_loop ((add_bounds b ?s)\<lparr>pg_nesting := 1\<rparr>) toks"
      by (rule Cons.IH) (use Cons.prems 3 in \<open>simp_all add: add_bounds_def\<close>)
    finally show ?thesis by (simp add: add_bounds_def)
  qed
qed


definition add_param :: "gparam \<Rightarrow> pg_state \<Rightarrow> pg_state" where
  "add_param p s = (add_bounds (param_decl p) s)\<lparr>ty_generics := ty_generics s @ param_name p, pg_at_start := False\<rparr>"

lemma pg_loop_param:
  assumes "param_ok p" and "pg_nesting s = 1" and "\<not> pg_skip s" and "pg_at_start s"
  shows "pg_loop s (param_decl p @ toks) = pg_loop (add_param p s) toks"
proof -
  obtain n b where p: "p = Lifetime n b \<or> p = TypeParam n b \<or> p = ConstParam n b" by (cases p) auto
  then have "balanced 0 b" using assms(1) by auto
  note bounds = pg_loop_bounds [OF this]
  from p show ?thesis
  proof (elim disjE)
    assume [simp]: "p = Lifetime n b"
    let ?s = "(push_ty (Ident n) (add_bounds [Ident n] (push_ty (Punct squote Joint) (add_bounds [Punct squote Joint] s))))
      \<lparr>pg_at_start := False\<rparr>"
    have "pg_loop s (param_decl p @ toks) = pg_loop ?s (b @ toks)"
      using assms by (simp add: pg_defs)
    also have "\<dots> = pg_loop (add_param p s) toks"
      using assms by (subst bounds) (simp_all add: pg_defs add_param_def, intro pg_cong, simp)
    finally show ?thesis .
  next
    assume [simp]: "p = TypeParam n b"
    let ?s = "(push_ty (Ident n) (add_bounds [Ident n] s))\<lparr>pg_at_start := False\<rparr>"
    have "pg_loop s (param_decl p @ toks) = pg_loop ?s (b @ toks)"
      using assms by (simp add: pg_defs)
    also have "\<dots> = pg_loop (add_param p s) toks"
      using assms by (subst bounds) (simp_all add: pg_defs add_param_def, intro pg_cong, simp)
    finally show ?thesis .
  next
    assume [simp]: "p = ConstParam n b"
    let ?s = "(push_ty (Ident n) (add_bounds [Ident ''const'', Ident n] s))\<lparr>pg_at_start := False\<rparr>"
    have "pg_loop s (param_decl p @ toks) = pg_loop ?s (b @ toks)"
      using assms by (simp add: pg_defs) (intro pg_cong, simp)
    also have "\<dots> = pg_loop (add_param p s) toks"
      using assms by (subst bounds) (simp_all add: pg_defs add_param_def, intro pg_cong, simp)
    finally show ?thesis .
  qed
qed

lemma pg_loop_params:
  assumes "\<forall>p \<in> set ps. param_ok p" and "pg_nesting s = 1" and "\<not> pg_skip s" and "pg_at_start s"
  shows "pg_loop s (comma_sep (map param_decl ps) @ toks) =
    pg_loop ((add_bounds (comma_sep (map param_decl ps)) s)
      \<lparr>ty_generics := ty_generics s @ comma_sep (map param_name ps), pg_at_start := (ps = [])\<rparr>) toks"
  using assms
proof (induction ps arbitrary: s rule: induct_list012)
  case 1
  then show ?case by (simp add: add_bounds_def) (intro pg_cong, simp)
next
  case (2 p)
  then show ?case by (simp add: pg_loop_param) (simp add: add_param_def add_bounds_def)
next
  case (3 p q ps)
  let ?c = "Punct (CHR '','') Alone"
  let ?s = "(push_ty ?c (add_bounds [?c] (add_param p s)))\<lparr>pg_at_start := True\<rparr>"
  have "pg_loop s (comma_sep (map param_decl (p # q # ps)) @ toks) =
      pg_loop (add_param p s) (?c # comma_sep (map param_decl (q # ps)) @ toks)"
    using 3 by (simp add: pg_loop_param)
  also have "\<dots> = pg_loop ?s (comma_sep (map param_decl (q # ps)) @ toks)"
    using 3 by (simp add: pg_defs add_param_def)
  also have "\<dots> = pg_loop ((add_bounds (comma_sep (map param_decl (q # ps))) ?s)
      \<lparr>ty_generics := ty_generics ?s @ comma_sep (map param_name (q # ps)), pg_at_start := (q # ps = [])\<rparr>) toks"
    by (rule 3) (use 3 in \<open>simp_all add: pg_defs add_param_def\<close>)
  finally show ?case by (simp add: pg_defs add_param_def)
qed

lemma pg_loop_default:
  assumes "balanced d ts" and "pg_nesting s = Suc d" and "pg_skip s"
  shows "pg_loop s (ts @ toks) = pg_loop (s\<lparr>decl_generics := decl_generics s @ ts, pg_nesting := 1\<rparr>) toks"
  using assms
proof (induction ts arbitrary: s d)
  case Nil
  then have "s = s\<lparr>decl_generics := decl_generics s @ [], pg_nesting := 1\<rparr>" by simp
  then show ?case by (simp only: append_Nil)
next
  case (Cons t ts)
  consider "is_punct (CHR ''<'') t" "\<not> is_punct (CHR ''>'') t" | "is_punct (CHR ''>'') t" "\<not> is_punct (CHR ''<'') t"
    | "\<not> is_punct (CHR ''>'') t" "\<not> is_punct (CHR ''<'') t" by (cases t) auto
  then show ?case
  proof cases
    case 1
    then have "pg_loop s ((t # ts) @ toks) = pg_loop ((push_decl t s)\<lparr>pg_nesting := Suc (Suc d)\<rparr>) (ts @ toks)"
      using Cons.prems by (simp add: push_decl_def)
    also have "\<dots> = pg_loop (s\<lparr>decl_generics := decl_generics s @ t # ts, pg_nesting := 1\<rparr>) toks"
      by (subst Cons.IH) (use Cons.prems 1 in \<open>simp_all add: push_decl_def\<close>)
    finally show ?thesis .
  next
    case 2
    with Cons.prems have d: "0 < d" "balanced (d - 1) ts" by simp_all
    then have "pg_loop s ((t # ts) @ toks) = pg_loop ((push_decl t s)\<lparr>pg_nesting := d\<rparr>) (ts @ toks)"
      using Cons.prems 2 by (simp add: push_decl_def)
    also have "\<dots> = pg_loop (s\<lparr>decl_generics := decl_generics s @ t # ts, pg_nesting := 1\<rparr>) toks"
      by (subst Cons.IH [OF d(2)]) (use Cons.prems d in \<open>simp_all add: push_decl_def\<close>)
    finally show ?thesis .
  next
    case 3
    then have "pg_loop s ((t # ts) @ toks) = pg_loop (push_decl t s) (ts @ toks)"
      using Cons.prems by (auto simp: push_decl_def Let_def)
    also have "\<dots> = pg_loop (s\<lparr>decl_generics := decl_generics s @ t # ts, pg_nesting := 1\<rparr>) toks"
      by (subst Cons.IH) (use Cons.prems 3 in \<open>simp_all add: push_decl_def\<close>)
    finally show ?thesis .
  qed
qed


subsection \<open>Bounds that \<open>derive(Zeroable)\<close> adds\<close>

text \<open>
  A lifetime keeps its bounds; a type without bounds gets one, and one with bounds, which then start with a colon,
  gets one more in front. The first colon of the bounds is the only one outside of brackets.
\<close>

definition zeroable_bound :: tokens where
  "zeroable_bound = quote_spanned (QPunct (CHR '':'') # zeroable_path)"

definition zeroable_bounds :: "tokens \<Rightarrow> tokens" where
  "zeroable_bounds b = (case b of [] \<Rightarrow> zeroable_bound
     | colon # b \<Rightarrow> colon # quote_spanned (zeroable_path @ [QPunct (CHR ''+'')]) @ b)"

fun zeroable_param :: "gparam \<Rightarrow> gparam" where
  "zeroable_param (Lifetime n b) = Lifetime n b"
| "zeroable_param (TypeParam n b) = TypeParam n (zeroable_bounds b)"
| "zeroable_param (ConstParam n b) = ConstParam n b"

text \<open>No further colon outside of angle brackets.\<close>

fun plain_bounds :: "nat \<Rightarrow> tokens \<Rightarrow> bool" where
  "plain_bounds d [] \<longleftrightarrow> True"
| "plain_bounds d (t # ts) \<longleftrightarrow>
     (if is_punct (CHR ''<'') t then plain_bounds (Suc d) ts
      else if is_punct (CHR ''>'') t then plain_bounds (d - 1) ts
      else (d = 0 \<longrightarrow> \<not> is_punct (CHR '':'') t) \<and> plain_bounds d ts)"

fun derivable :: "gparam \<Rightarrow> bool" where
  "derivable (Lifetime n b) \<longleftrightarrow> balanced 0 b"
| "derivable (TypeParam n b) \<longleftrightarrow> (case b of [] \<Rightarrow> True | c # b \<Rightarrow> is_punct (CHR '':'') c \<and> balanced 0 b \<and> plain_bounds 0 b)"
| "derivable (ConstParam n b) \<longleftrightarrow> False"

lemma is_punct_iff: "is_punct c t \<longleftrightarrow> (\<exists>sp. t = Punct c sp)"
  by (cases t) auto

lemma zeroable_loop_plain:
  assumes "balanced d b" and "plain_bounds d b"
  shows "\<exists>g'. \<forall>new ts. zeroable_loop g True d new (b @ ts) = zeroable_loop g' True 0 (new @ b) ts"
  using assms
proof (induction b arbitrary: d g)
  case (Cons t b)
  let ?d = "if is_punct (CHR ''<'') t then Suc d else if is_punct (CHR ''>'') t then d - 1 else d"
  let ?g = "g \<and> \<not> (d = 0 \<and> is_punct squote t)"
  have "zeroable_loop g True d new (t # ts) = zeroable_loop ?g True ?d (new @ [t]) ts" for new ts
    using Cons.prems by (auto simp: is_punct_iff split: if_splits)
  moreover obtain g' where "\<forall>new ts. zeroable_loop ?g True ?d new (b @ ts) = zeroable_loop g' True 0 (new @ b) ts"
    using Cons.IH [of ?d ?g] Cons.prems by (auto split: if_splits)
  ultimately show ?case by (intro exI [of _ g']) simp
qed auto

lemma zeroable_loop_lifetime:
  assumes "balanced d b"
  shows "zeroable_loop False i d new (b @ ts) = zeroable_loop False i 0 (new @ b) ts"
  using assms by (induction b arbitrary: d new) (auto simp: is_punct_iff split: if_splits)

lemma zeroable_loop_bounds:
  assumes "c = Punct (CHR '':'') sp" and "balanced 0 b" and "plain_bounds 0 b"
  shows "\<exists>g'. \<forall>new ts. zeroable_loop True False 0 new (c # b @ ts) = zeroable_loop g' True 0 (new @ zeroable_bounds (c # b)) ts"
proof -
  obtain g' where "\<forall>new ts. zeroable_loop True True 0 new (b @ ts) = zeroable_loop g' True 0 (new @ b) ts"
    using zeroable_loop_plain [OF assms(2,3)] by blast
  with assms(1) show ?thesis by (intro exI [of _ g']) (simp add: zeroable_bounds_def Let_def)
qed

text \<open>One parameter: what the loop has done after it, and the bound that the comma or the end adds.\<close>

lemma zeroable_loop_param:
  assumes "derivable p"
  shows "\<exists>g i new'. (\<forall>new ts. zeroable_loop True False 0 new (param_decl p @ ts) = zeroable_loop g i 0 (new @ new') ts) \<and>
    new' @ (if g \<and> \<not> i then zeroable_bound else []) = param_decl (zeroable_param p)"
proof (cases p)
  case (Lifetime n b)
  with assms have "zeroable_loop True False 0 new (param_decl p @ ts) = zeroable_loop False False 0 (new @ param_decl p) ts" for new ts
    by (simp add: zeroable_loop_lifetime)
  with Lifetime show ?thesis by (intro exI [of _ False] exI [of _ False] exI [of _ "param_decl p"]) simp_all
next
  case (TypeParam n b)
  show ?thesis
  proof (cases b)
    case Nil
    with TypeParam show ?thesis by (intro exI [of _ True] exI [of _ False] exI [of _ "[Ident n]"]) (simp add: zeroable_bounds_def)
  next
    case (Cons c b')
    with assms TypeParam obtain sp where "c = Punct (CHR '':'') sp" "balanced 0 b'" "plain_bounds 0 b'" by (auto simp: is_punct_iff)
    then obtain g' where "\<forall>new ts. zeroable_loop True False 0 new (b @ ts) = zeroable_loop g' True 0 (new @ zeroable_bounds b) ts"
      using zeroable_loop_bounds [of c sp b'] Cons by auto
    with TypeParam show ?thesis by (intro exI [of _ g'] exI [of _ True] exI [of _ "Ident n # zeroable_bounds b"]) simp
  qed
qed (use assms in simp)

lemma zeroable_loop_params:
  assumes "\<forall>p \<in> set ps. derivable p" and "ps \<noteq> []"
  shows "\<exists>g i new'. zeroable_loop True False 0 new (comma_sep (map param_decl ps)) = Inr (g, i, 0, new @ new') \<and>
    new' @ (if g \<and> \<not> i then zeroable_bound else []) = comma_sep (map param_decl (map zeroable_param ps))"
  using assms
proof (induction ps arbitrary: new rule: induct_list012)
  case (2 p)
  then have "derivable p" by simp
  then obtain g i new' where loop: "\<forall>new ts. zeroable_loop True False 0 new (param_decl p @ ts) = zeroable_loop g i 0 (new @ new') ts"
    and "new' @ (if g \<and> \<not> i then zeroable_bound else []) = param_decl (zeroable_param p)"
    using zeroable_loop_param by blast
  with loop [rule_format, of new "[]"] show ?case by auto
next
  case (3 p q ps)
  then have "derivable p" by simp
  then obtain g i new' where loop: "\<forall>new ts. zeroable_loop True False 0 new (param_decl p @ ts) = zeroable_loop g i 0 (new @ new') ts"
    and p: "new' @ (if g \<and> \<not> i then zeroable_bound else []) = param_decl (zeroable_param p)"
    using zeroable_loop_param by blast
  have "zeroable_loop True False 0 new (comma_sep (map param_decl (p # q # ps))) =
      zeroable_loop True False 0 (new @ param_decl (zeroable_param p) @ [Punct (CHR '','') Alone]) (comma_sep (map param_decl (q # ps)))"
    by (simp add: loop Let_def zeroable_bound_def flip: p)
  moreover obtain g' i' new'' where
    "zeroable_loop True False 0 (new @ param_decl (zeroable_param p) @ [Punct (CHR '','') Alone]) (comma_sep (map param_decl (q # ps))) =
       Inr (g', i', 0, (new @ param_decl (zeroable_param p) @ [Punct (CHR '','') Alone]) @ new'')"
    "new'' @ (if g' \<and> \<not> i' then zeroable_bound else []) = comma_sep (map param_decl (map zeroable_param (q # ps)))"
    using "3.IH"(2) [of "new @ param_decl (zeroable_param p) @ [Punct (CHR '','') Alone]"] "3.prems" by auto
  ultimately show ?case by auto
qed simp


section \<open>Properties\<close>

lemma parse_generics_prefix:
  assumes "no_angles pre"
  shows "parse_generics pre = (\<lparr>decl_generics = [], impl_generics = [], ty_generics = []\<rparr>, pre)"
  using pg_loop_prefix [OF assms, where toks = "[]"] by (simp add: parse_generics_def push_rest_def)

lemma parse_generics_params:
  assumes "no_angles pre" and "\<forall>p \<in> set ps. param_ok p" and "default_ok d" and "ps = [] \<longrightarrow> d = None"
  defines "decls \<equiv> comma_sep (map param_decl ps)"
  shows "parse_generics (pre @ Punct (CHR ''<'') s1 # decls @ default_tokens d @ Punct (CHR ''>'') s2 # post) =
    (\<lparr>decl_generics = decls @ default_tokens d, impl_generics = decls, ty_generics = comma_sep (map param_name ps)\<rparr>, pre @ post)"
proof -
  let ?s0 = "\<lparr>decl_generics = [], impl_generics = [], ty_generics = [], pg_rest = [], pg_nesting = 0, pg_at_start = True, pg_skip = False\<rparr>"
  let ?s1 = "(push_rest pre ?s0)\<lparr>pg_nesting := 1\<rparr>"
  let ?s2 = "(add_bounds decls ?s1)\<lparr>ty_generics := comma_sep (map param_name ps), pg_at_start := (ps = [])\<rparr>"
  let ?close = "Punct (CHR ''>'') s2 # post"
  have "pg_loop ?s0 (pre @ Punct (CHR ''<'') s1 # decls @ default_tokens d @ ?close) = pg_loop ?s1 (decls @ default_tokens d @ ?close)"
    using pg_loop_prefix [OF assms(1), of ?s0 "Punct (CHR ''<'') s1 # decls @ default_tokens d @ ?close"]
    by (simp add: push_rest_def)
  also have "\<dots> = pg_loop ?s2 (default_tokens d @ ?close)"
    unfolding decls_def using pg_loop_params [OF assms(2), of ?s1] by (simp add: push_rest_def)
  also have "pg_rest \<dots> = pre @ post \<and> decl_generics \<dots> = decls @ default_tokens d \<and>
      impl_generics \<dots> = decls \<and> ty_generics \<dots> = comma_sep (map param_name ps)"
  proof (cases d)
    case None
    then show ?thesis by (simp add: default_tokens_def push_rest_def add_bounds_def)
  next
    case (Some ts)
    let ?s3 = "(push_decl (Punct (CHR ''='') Alone) ?s2)\<lparr>pg_skip := True\<rparr>"
    have "pg_loop ?s2 (default_tokens d @ ?close) = pg_loop ?s3 (ts @ ?close)"
      using Some by (simp add: default_tokens_def pg_defs)
    also have "\<dots> = pg_loop (?s3\<lparr>decl_generics := decl_generics ?s3 @ ts, pg_nesting := 1\<rparr>) ?close"
      using assms(3) Some by (intro pg_loop_default) (simp_all add: default_ok_def pg_defs)
    finally show ?thesis using Some by (simp add: default_tokens_def pg_defs)
  qed
  finally show ?thesis by (simp add: parse_generics_def)
qed


lemma zeroable_generics_params:
  assumes "\<forall>p \<in> set ps. derivable p"
  shows "zeroable_generics (comma_sep (map param_decl ps)) = Inr (comma_sep (map param_decl (map zeroable_param ps)))"
proof (cases "ps = []")
  case False
  have "param_decl p \<noteq> []" for p by (cases p) simp_all
  then have "comma_sep (map param_decl ps) \<noteq> []" using False by (induction ps rule: induct_list012) simp_all
  moreover obtain g i new where "zeroable_loop True False 0 [] (comma_sep (map param_decl ps)) = Inr (g, i, 0, [] @ new)"
    "new @ (if g \<and> \<not> i then zeroable_bound else []) = comma_sep (map param_decl (map zeroable_param ps))"
    using zeroable_loop_params [OF assms False, of "[]"] by blast
  ultimately show ?thesis by (auto simp: zeroable_generics_def zeroable_bound_def)
qed (simp add: zeroable_generics_def)

text \<open>
  \<open>parse_generics\<close> takes the generics out of a declaration. For a declaration with lifetimes, types and constants as parameters, with bounds
  that may nest angle brackets, and with a default value for the last parameter: the generics of the declaration are
  all of it, those of an \<open>impl\<close> block leave out the default value, those of a use of the type are the names, with the
  quotes of lifetimes, without bounds and without \<open>const\<close>; and what is around the angle brackets is returned untouched.
\<close>

lemma parse_generics_correct:
  assumes "no_angles pre" and "\<forall>p \<in> set ps. param_ok p" and "default_ok d" and "ps = [] \<longrightarrow> d = None"
  shows "parse_generics (pre @ Punct (CHR ''<'') s1 # comma_sep (map param_decl ps) @ default_tokens d @ Punct (CHR ''>'') s2 # post) =
    (\<lparr>decl_generics = comma_sep (map param_decl ps) @ default_tokens d, impl_generics = comma_sep (map param_decl ps),
      ty_generics = comma_sep (map param_name ps)\<rparr>, pre @ post)"
  using parse_generics_params [OF assms] .

text \<open>
  \<open>derive(Zeroable)\<close> asks every type parameter to be \<open>Zeroable\<close>. On a declaration with lifetimes and type parameters, the derived
  \<open>impl\<close> block has the same parameters, each type with the bound \<open>::kernel::init::Zeroable\<close> in front of its own bounds, lifetimes as they
  were; the names, the rest of the declaration and its body are passed on, and no assertion of the macro fails.
\<close>

lemma derive_zeroable_correct:
  assumes "no_angles pre" and "\<forall>p \<in> set ps. param_ok p \<and> derivable p"
  shows "derive_zeroable (pre @ Punct (CHR ''<'') s1 # comma_sep (map param_decl ps) @ Punct (CHR ''>'') s2 # post @ [body]) =
    Inr (zeroable_call (pre @ post) (comma_sep (map param_decl (map zeroable_param ps))) (comma_sep (map param_name ps)) [body])"
proof -
  have "parse_generics (pre @ Punct (CHR ''<'') s1 # comma_sep (map param_decl ps) @ Punct (CHR ''>'') s2 # post @ [body]) =
    (\<lparr>decl_generics = comma_sep (map param_decl ps), impl_generics = comma_sep (map param_decl ps),
      ty_generics = comma_sep (map param_name ps)\<rparr>, pre @ post @ [body])"
    using parse_generics_params [OF assms(1), of ps None s1 s2 "post @ [body]"] assms(2)
    by (simp add: default_tokens_def default_ok_def)
  moreover have "pop_last (pre @ post @ [body]) = (pre @ post, Some body)" by (simp add: pop_last_def butlast_append)
  ultimately show ?thesis
    using zeroable_generics_params [of ps] assms(2) by (simp add: derive_zeroable_def option_tokens_def)
qed

subsection \<open>Limits\<close>

text \<open>
  A default value followed by another parameter goes wrong: the comma after it is pushed twice to the generics of \<open>impl\<close>
  blocks and not to the names, and the next parameter is not seen as the start of one. For \<open>struct F<T = A, U> {}\<close> the \<open>impl\<close>
  generics are \<open>T , , U\<close> and the only name is \<open>T\<close>.
\<close>

lemma parse_generics_inner_default:
  "let comma = Punct (CHR '','') Alone in
   parse_generics [Ident ''struct'', Ident ''F'', Punct (CHR ''<'') Alone, Ident ''T'', Punct (CHR ''='') Alone, Ident ''A'', comma,
       Ident ''U'', Punct (CHR ''>'') Alone, Group Brace []] =
     (\<lparr>decl_generics = [Ident ''T'', Punct (CHR ''='') Alone, Ident ''A'', comma, Ident ''U''],
       impl_generics = [Ident ''T'', comma, comma, Ident ''U''], ty_generics = [Ident ''T'']\<rparr>,
      [Ident ''struct'', Ident ''F'', Group Brace []])"
  by (simp add: parse_generics_def pg_defs)

text \<open>The arrow of a function bound closes the generics: \<open>struct F<T: Fn() -> A> {}\<close> leaves \<open>A >\<close> in the rest.\<close>

lemma parse_generics_arrow:
  "snd (parse_generics [Ident ''struct'', Ident ''F'', Punct (CHR ''<'') Alone, Ident ''T'', Punct (CHR '':'') Alone, Ident ''Fn'',
     Group Parenthesis [], Punct (CHR ''-'') Joint, Punct (CHR ''>'') Alone, Ident ''A'', Punct (CHR ''>'') Alone, Group Brace []]) =
   [Ident ''struct'', Ident ''F'', Ident ''A'', Punct (CHR ''>'') Alone, Group Brace []]"
  by (simp add: parse_generics_def pg_defs)

text \<open>A constant gets the bound as if it were a type, and a path in a bound gets one after each of its colons.\<close>

lemma zeroable_generics_const:
  "zeroable_generics [Ident ''const'', Ident ''N'', Punct (CHR '':'') Alone, Ident ''usize''] =
     Inr ([Ident ''const'', Ident ''N'', Punct (CHR '':'') Alone] @ quote_spanned (zeroable_path @ [QPunct (CHR ''+'')]) @ [Ident ''usize''])"
  by (simp add: zeroable_generics_def)

lemma zeroable_generics_path:
  "let add = quote_spanned (zeroable_path @ [QPunct (CHR ''+'')]) in
   zeroable_generics [Ident ''T'', Punct (CHR '':'') Alone, Ident ''a'', Punct (CHR '':'') Joint, Punct (CHR '':'') Alone, Ident ''B''] =
     Inr ([Ident ''T'', Punct (CHR '':'') Alone] @ add @ [Ident ''a'', Punct (CHR '':'') Joint] @ add @ [Punct (CHR '':'') Alone] @ add @ [Ident ''B''])"
  by (simp add: zeroable_generics_def Let_def)

end
