(* ===== verification/Macro_Items.thy ===== *)
theory Macro_Items
  imports Macro_Tokens
begin

text \<open>
  \<open>rust/macros/vtable.rs\<close> and \<open>rust/macros/paste.rs\<close>: the constants that \<open>#[vtable]\<close> adds to traits and implementations, and the identifiers
  that \<open>paste!\<close> glues together.
\<close>

section \<open>Tables of optional methods\<close>

fun is_trait_or_impl :: "tokens \<Rightarrow> bool option" where
  "is_trait_or_impl [] = None"
| "is_trait_or_impl (t # ts) =
     (if is_ident ''trait'' t then Some True else if is_ident ''impl'' t then Some False else is_trait_or_impl ts)"

text \<open>The functions and constants of a body. The set of constants is a list, in the order of insertion.\<close>

fun scan_items :: "tokens \<Rightarrow> string list \<times> string list" where
  "scan_items [] = ([], [])"
| "scan_items (t # ts) =
     (if is_ident ''fn'' t then
        (case ts of
           [] \<Rightarrow> ([], [])
         | Ident n # ts \<Rightarrow> let (fs, cs) = scan_items ts in (n # fs, cs)
         | _ # ts \<Rightarrow> scan_items ts)
      else if is_ident ''const'' t then
        (case ts of
           [] \<Rightarrow> ([], [])
         | Ident n # ts \<Rightarrow> let (fs, cs) = scan_items ts in (fs, n # cs)
         | _ # ts \<Rightarrow> scan_items ts)
      else scan_items ts)"

definition has_const :: "string \<Rightarrow> string" where
  "has_const f = ''HAS_'' @ to_uppercase f"

definition doc_attr :: "string \<Rightarrow> tokens" where
  "doc_attr s = [Punct (CHR ''#'') Alone, Group Bracket [Ident ''doc'', Punct (CHR ''='') Alone, Literal (dquote # s @ [dquote])]]"

definition const_bool :: "string \<Rightarrow> string \<Rightarrow> tokens" where
  "const_bool n v = [Ident ''const'', Ident n, Punct (CHR '':'') Alone, Ident ''bool'', Punct (CHR ''='') Alone, Ident v, Punct (CHR '';'') Alone]"

definition trait_marker :: tokens where
  "trait_marker =
     doc_attr '' A marker to prevent implementors from forgetting to use [`#[vtable]`](vtable)'' @
     doc_attr '' attribute when implementing this trait.'' @
     [Ident ''const'', Ident ''USE_VTABLE_ATTR'', Punct (CHR '':'') Alone, Group Parenthesis [], Punct (CHR '';'') Alone]"

definition impl_marker :: tokens where
  "impl_marker = [Ident ''const'', Ident ''USE_VTABLE_ATTR'', Punct (CHR '':'') Alone, Group Parenthesis [], Punct (CHR ''='') Alone,
     Group Parenthesis [], Punct (CHR '';'') Alone]"

fun trait_consts :: "string list \<Rightarrow> string list \<Rightarrow> tokens" where
  "trait_consts [] consts = []"
| "trait_consts (f # fs) consts =
     (let gen_const_name = has_const f in
      if gen_const_name \<in> set consts then trait_consts fs consts
      else doc_attr ('' Indicates if the `'' @ f @ ''` method is overridden by the implementor.'') @
           const_bool gen_const_name ''false'' @ trait_consts fs (gen_const_name # consts))"

fun impl_consts :: "string list \<Rightarrow> string list \<Rightarrow> tokens" where
  "impl_consts [] consts = []"
| "impl_consts (f # fs) consts =
     (let gen_const_name = has_const f in
      if gen_const_name \<in> set consts then impl_consts fs consts
      else const_bool gen_const_name ''true'' @ impl_consts fs consts)"

definition vtable :: "tokens \<Rightarrow> tokens exec" where
  "vtable ts =
     (case is_trait_or_impl ts of
        None \<Rightarrow> Inl Panic
      | Some is_trait \<Rightarrow>
          (case pop_last ts of
             (tokens, Some (Group Brace body)) \<Rightarrow>
               let (functions, consts) = scan_items body;
                   const_items = (if is_trait then trait_marker @ trait_consts functions consts
                                  else impl_marker @ impl_consts functions consts) in
               Inr (tokens @ [Group Brace (const_items @ body)])
           | _ \<Rightarrow> Inl Panic))"

section \<open>Pasting identifiers\<close>

text \<open>A string that \<open>Ident::new\<close> accepts.\<close>

definition ident_char :: "char \<Rightarrow> bool" where
  "ident_char c \<longleftrightarrow> (let n = of_char c :: nat in
     97 \<le> n \<and> n \<le> 122 \<or> 65 \<le> n \<and> n \<le> 90 \<or> n = 95 \<or> 48 \<le> n \<and> n \<le> 57)"

definition valid_ident :: "string \<Rightarrow> bool" where
  "valid_ident s \<longleftrightarrow> s \<noteq> [] \<and> list_all ident_char s \<and> \<not> (48 \<le> (of_char (hd s) :: nat) \<and> (of_char (hd s) :: nat) \<le> 57)"

definition literal_segment :: "string \<Rightarrow> string" where
  "literal_segment v = (if starts_with [dquote] v \<and> ends_with [dquote] v then butlast (tl v) else v)"

definition ident_segment :: "string \<Rightarrow> string" where
  "ident_segment v = (if starts_with ''r#'' v then drop 2 v else v)"

text \<open>The segments, last first; the flag says that a span was chosen.\<close>

fun concat_loop :: "string list \<Rightarrow> bool \<Rightarrow> tokens \<Rightarrow> string list exec" where
  "concat_loop segs span [] = Inr segs"
| "concat_loop segs span (Literal l # ts) = concat_loop (literal_segment l # segs) span ts"
| "concat_loop segs span (Ident i # ts) = concat_loop (ident_segment i # segs) span ts"
| "concat_loop segs span (Group d g # ts) = Inl Panic"
| "concat_loop segs span (Punct c sp # ts) =
     (if c \<noteq> CHR '':'' then Inl Panic
      else case ts of
        Ident m # ts \<Rightarrow>
          (case segs of
             [] \<Rightarrow> Inl Panic
           | value # segs \<Rightarrow>
               if m = ''span'' then exec_bind (require Panic (\<not> span)) (\<lambda>_. concat_loop (value # segs) True ts)
               else if m = ''lower'' then concat_loop (to_lowercase value # segs) span ts
               else if m = ''upper'' then concat_loop (to_uppercase value # segs) span ts
               else Inl Panic)
      | _ \<Rightarrow> Inl Panic)"

definition paste_concat :: "tokens \<Rightarrow> token_tree exec" where
  "paste_concat ts =
     exec_bind (concat_loop [] False ts) (\<lambda>segs.
     let pasted = concat (rev segs) in
     exec_bind (require Panic (valid_ident pasted)) (\<lambda>_. Inr (Ident pasted)))"

definition is_paste_group :: "delimiter \<Rightarrow> tokens \<Rightarrow> bool" where
  "is_paste_group d stream \<longleftrightarrow> d = Bracket \<and> 3 \<le> length stream \<and> is_punct (CHR ''<'') (stream ! 0) \<and>
     is_punct (CHR ''>'') (stream ! (length stream - 1))"

text \<open>\<open>tokens.splice(i..i + 1, stream)\<close> where the token at \<open>i\<close> is a group without delimiters.\<close>

definition splice_none :: "nat \<Rightarrow> tokens \<Rightarrow> tokens" where
  "splice_none i ts = (case ts ! i of Group NoDelimiter g \<Rightarrow> take i ts @ g @ drop (i + 1) ts | _ \<Rightarrow> ts)"

fun is_joint_colon :: "token_tree \<Rightarrow> bool" where
  "is_joint_colon (Punct c Joint) \<longleftrightarrow> c = CHR '':''"
| "is_joint_colon _ \<longleftrightarrow> False"

definition path_step :: "nat \<Rightarrow> tokens \<Rightarrow> tokens exec" where
  "path_step i ts =
     exec_bind (require Panic (i + 2 < length ts)) (\<lambda>_.
     if is_joint_colon (ts ! (i + 1)) \<and> is_punct (CHR '':'') (ts ! (i + 2)) then
       exec_bind (require Panic (i + 3 < length ts)) (\<lambda>_.
       Inr (splice_none i (splice_none (i + 3) ts)))
     else Inr ts)"

fun path_loop :: "nat \<Rightarrow> tokens \<Rightarrow> tokens exec" where
  "path_loop 0 ts = Inr ts"
| "path_loop (Suc i) ts = exec_bind (path_step i ts) (path_loop i)"

fun expand_token :: "token_tree \<Rightarrow> token_tree exec" and expand_tokens :: "tokens \<Rightarrow> tokens exec" where
  "expand_token (Group d stream) =
     (if is_paste_group d stream then paste_concat (butlast (tl stream))
      else exec_bind (expand_tokens stream) (\<lambda>stream.
           exec_bind (path_loop (length stream - 3) stream) (\<lambda>stream. Inr (Group d stream))))"
| "expand_token (Ident i) = Inr (Ident i)"
| "expand_token (Literal l) = Inr (Literal l)"
| "expand_token (Punct c sp) = Inr (Punct c sp)"
| "expand_tokens [] = Inr []"
| "expand_tokens (t # ts) = exec_bind (expand_token t) (\<lambda>t. exec_bind (expand_tokens ts) (\<lambda>ts. Inr (t # ts)))"

definition paste_expand :: "tokens \<Rightarrow> tokens exec" where
  "paste_expand tokens = exec_bind (expand_tokens tokens) (\<lambda>tokens. path_loop (length tokens - 3) tokens)"


section \<open>Constants of a table\<close>

text \<open>The names that are generated for a trait: one for each method that has none yet.\<close>

fun trait_names :: "string list \<Rightarrow> string list \<Rightarrow> string list" where
  "trait_names [] consts = []"
| "trait_names (f # fs) consts =
     (if has_const f \<in> set consts then trait_names fs consts else has_const f # trait_names fs (has_const f # consts))"

definition impl_names :: "string list \<Rightarrow> string list \<Rightarrow> string list" where
  "impl_names fs consts = filter (\<lambda>n. n \<notin> set consts) (map has_const fs)"

definition add_consts :: "string list \<Rightarrow> string list \<times> string list \<Rightarrow> string list \<times> string list" where
  "add_consts ns s = (fst s, ns @ snd s)"

lemma scan_doc_attr: "scan_items (doc_attr s @ ts) = scan_items ts"
  by (simp add: doc_attr_def)

lemma scan_const_bool: "v \<in> {''true'', ''false''} \<Longrightarrow> scan_items (const_bool n v @ ts) = add_consts [n] (scan_items ts)"
  by (auto simp: const_bool_def add_consts_def split_beta Let_def)

lemma scan_markers:
  "scan_items (trait_marker @ ts) = add_consts [''USE_VTABLE_ATTR''] (scan_items ts)"
  "scan_items (impl_marker @ ts) = add_consts [''USE_VTABLE_ATTR''] (scan_items ts)"
  by (simp_all add: trait_marker_def impl_marker_def scan_doc_attr add_consts_def split_beta Let_def)

lemma scan_trait_consts: "scan_items (trait_consts fs cs @ ts) = add_consts (trait_names fs cs) (scan_items ts)"
  by (induction fs cs rule: trait_names.induct) (auto simp: Let_def scan_doc_attr scan_const_bool add_consts_def)

lemma scan_impl_consts: "scan_items (impl_consts fs cs @ ts) = add_consts (impl_names fs cs) (scan_items ts)"
  by (induction fs) (auto simp: Let_def scan_const_bool add_consts_def impl_names_def)

lemma trait_names_props:
  "set (trait_names fs cs) = has_const ` set fs - set cs" "distinct (trait_names fs cs)"
  by (induction fs cs rule: trait_names.induct) auto

lemma impl_names_props:
  "set (impl_names fs cs) = has_const ` set fs - set cs" "distinct (map has_const fs) \<Longrightarrow> distinct (impl_names fs cs)"
  by (auto simp: impl_names_def)

section \<open>Pasting\<close>

fun no_none :: "token_tree \<Rightarrow> bool" where
  "no_none (Group d ts) \<longleftrightarrow> d \<noteq> NoDelimiter \<and> list_all no_none ts"
| "no_none _ \<longleftrightarrow> True"

fun no_paste :: "token_tree \<Rightarrow> bool" where
  "no_paste (Group d ts) \<longleftrightarrow> \<not> is_paste_group d ts \<and> list_all no_paste ts"
| "no_paste _ \<longleftrightarrow> True"

text \<open>The segments of every \<open>[<...>]\<close> make an identifier.\<close>

fun paste_ok :: "token_tree \<Rightarrow> bool" where
  "paste_ok (Group d ts) \<longleftrightarrow> (if is_paste_group d ts then \<exists>i. paste_concat (butlast (tl ts)) = Inr i else list_all paste_ok ts)"
| "paste_ok _ \<longleftrightarrow> True"

lemma path_loop_id:
  assumes "list_all no_none ts" and "n \<le> length ts - 3"
  shows "path_loop n ts = Inr ts"
  using assms(2)
proof (induction n)
  case (Suc i)
  have "splice_none j ts = ts" if "j < length ts" for j
  proof -
    from assms(1) that have "no_none (ts ! j)" by (simp add: list_all_length)
    then show ?thesis by (auto simp: splice_none_def split: token_tree.splits delimiter.splits)
  qed
  with Suc show ?case by (auto simp: path_step_def)
qed simp

lemma paste_concat_ident: "paste_concat ts = Inr t \<Longrightarrow> \<exists>i. t = Ident i"
  by (auto simp: paste_concat_def Let_def)

text \<open>Expansion keeps the punctuation of a list, so a group is a paste group after it exactly if it was one before.\<close>

lemma expand_token_punct: "expand_token t = Inr t' \<Longrightarrow> is_punct c t' = is_punct c t"
  by (cases t) (auto dest: paste_concat_ident split: if_splits)

lemma expand_tokens_punct:
  "expand_tokens ts = Inr ts' \<Longrightarrow> length ts' = length ts \<and> (\<forall>i < length ts. is_punct c (ts' ! i) = is_punct c (ts ! i))"
proof (induction ts arbitrary: ts')
  case (Cons t ts)
  then obtain t1 ts1 where "expand_token t = Inr t1" "expand_tokens ts = Inr ts1" "ts' = t1 # ts1" by auto
  with Cons.IH expand_token_punct show ?case by (auto simp: nth_Cons split: nat.splits)
qed simp

lemma expand_paste_group:
  assumes "expand_tokens ts = Inr ts'"
  shows "is_paste_group d ts' = is_paste_group d ts"
proof (cases ts)
  case Nil
  with assms show ?thesis by simp
next
  case (Cons t rest)
  then have "0 < length ts" "length ts - 1 < length ts" by simp_all
  with expand_tokens_punct [OF assms] have "length ts' = length ts" "is_punct c (ts' ! 0) = is_punct c (ts ! 0)"
    "is_punct c (ts' ! (length ts - 1)) = is_punct c (ts ! (length ts - 1))" for c by blast+
  then show ?thesis by (simp add: is_paste_group_def)
qed

lemma expand_complete:
  "no_none t \<Longrightarrow> expand_token t = Inr t' \<Longrightarrow> no_none t' \<and> no_paste t'"
  "list_all no_none ts \<Longrightarrow> expand_tokens ts = Inr ts' \<Longrightarrow> list_all no_none ts' \<and> list_all no_paste ts'"
proof (induction t and ts arbitrary: t' and ts' rule: expand_token_expand_tokens.induct)
  case (1 d stream)
  show ?case
  proof (cases "is_paste_group d stream")
    case True
    with 1 show ?thesis by (auto dest: paste_concat_ident)
  next
    case False
    with 1(3) obtain s1 s2 where s1: "expand_tokens stream = Inr s1" "path_loop (length s1 - 3) s1 = Inr s2" "t' = Group d s2" by auto
    with 1(1) [OF False, of s1] 1(2) have "list_all no_none s1" "list_all no_paste s1" by simp_all
    moreover from this s1(2) have "s2 = s1" by (simp add: path_loop_id)
    ultimately show ?thesis using 1(2) s1 False by (simp add: expand_paste_group [OF s1(1)])
  qed
qed auto

lemma expand_id: "no_none t \<Longrightarrow> no_paste t \<Longrightarrow> expand_token t = Inr t"
  "list_all no_none ts \<Longrightarrow> list_all no_paste ts \<Longrightarrow> expand_tokens ts = Inr ts"
  by (induction t and ts rule: expand_token_expand_tokens.induct) (auto simp: path_loop_id)

lemma expand_returns:
  "no_none t \<Longrightarrow> paste_ok t \<longleftrightarrow> (\<exists>t'. expand_token t = Inr t')"
  "list_all no_none ts \<Longrightarrow> list_all paste_ok ts \<longleftrightarrow> (\<exists>ts'. expand_tokens ts = Inr ts')"
proof (induction t and ts rule: expand_token_expand_tokens.induct)
  case (1 d stream)
  have "path_loop (length s - 3) s = Inr s" if "expand_tokens stream = Inr s" for s
    using expand_complete(2) [OF _ that] 1(2) by (simp add: path_loop_id)
  with 1 show ?case by (cases "is_paste_group d stream") auto
qed auto

lemma paste_expand_tokens:
  assumes "list_all no_none ts" shows "paste_expand ts = expand_tokens ts"
proof (cases "expand_tokens ts")
  case (Inr ts')
  with expand_complete(2) [OF assms Inr] show ?thesis by (simp add: paste_expand_def path_loop_id)
qed (simp add: paste_expand_def)

section \<open>Properties\<close>

text \<open>
  after \<open>#[vtable]\<close> the implementation of every method is known. The macro only adds constants in front of the body of a trait or an
  \<open>impl\<close> block. Afterwards the block declares the marker and a constant \<open>HAS_<METHOD>\<close> for each of its methods, those that were
  declared before keep their declaration, and the generated names are those that were missing; in a trait each of them is
  generated once, in an \<open>impl\<close> block too if its methods have different names.
\<close>

lemma vtable_correct:
  assumes "vtable ts = Inr out"
  shows "\<exists>pre body items names is_trait. ts = pre @ [Group Brace body] \<and> out = pre @ [Group Brace (items @ body)] \<and>
    is_trait_or_impl ts = Some is_trait \<and>
    scan_items (items @ body) = (fst (scan_items body), ''USE_VTABLE_ATTR'' # names @ snd (scan_items body)) \<and>
    set names = has_const ` set (fst (scan_items body)) - set (snd (scan_items body)) \<and>
    (is_trait \<or> distinct (map has_const (fst (scan_items body))) \<longrightarrow> distinct names)"
proof -
  from assms obtain is_trait pre body where kind: "is_trait_or_impl ts = Some is_trait" and pop: "pop_last ts = (pre, Some (Group Brace body))"
    by (auto simp: vtable_def split: option.splits prod.splits token_tree.splits delimiter.splits)
  from pop have ts: "ts = pre @ [Group Brace body]" by (auto simp: pop_last_def split: if_splits) (metis append_butlast_last_id)
  obtain fns cs where scan: "scan_items body = (fns, cs)" by fastforce
  define items where "items = (if is_trait then trait_marker @ trait_consts fns cs else impl_marker @ impl_consts fns cs)"
  define names where "names = (if is_trait then trait_names fns cs else impl_names fns cs)"
  have "out = pre @ [Group Brace (items @ body)]" using assms kind pop scan by (simp add: vtable_def items_def)
  moreover have "scan_items (items @ body) = (fns, ''USE_VTABLE_ATTR'' # names @ cs)"
    using scan by (simp add: items_def names_def scan_markers scan_trait_consts scan_impl_consts add_consts_def)
  moreover have "set names = has_const ` set fns - set cs" "is_trait \<or> distinct (map has_const fns) \<longrightarrow> distinct names"
    by (auto simp: names_def trait_names_props impl_names_props)
  ultimately show ?thesis using kind ts scan by auto
qed

text \<open>
  \<open>paste!\<close> leaves nothing to paste. On tokens without groups that macro expansion left without delimiters, the macro returns exactly if the
  segments of every \<open>[<...>]\<close>, however deep, make an identifier; then the result has as many tokens, no such group anywhere, and
  pasting it again changes nothing.
\<close>

lemma paste_expand_complete:
  assumes "list_all no_none ts"
  shows "(list_all paste_ok ts \<longleftrightarrow> (\<exists>ts'. paste_expand ts = Inr ts')) \<and>
    (\<forall>ts'. paste_expand ts = Inr ts' \<longrightarrow> length ts' = length ts \<and> list_all no_paste ts' \<and> paste_expand ts' = Inr ts')"
proof -
  have "length ts' = length ts \<and> list_all no_paste ts' \<and> paste_expand ts' = Inr ts'" if "paste_expand ts = Inr ts'" for ts'
    using expand_complete(2) [OF assms, of ts'] expand_tokens_punct [of ts ts'] expand_id(2) [of ts'] paste_expand_tokens [of ts'] that
    by (simp add: paste_expand_tokens [OF assms])
  then show ?thesis using expand_returns(2) [OF assms] by (auto simp: paste_expand_tokens [OF assms])
qed

text \<open>
  With groups without delimiters the loop over paths can run out of its list: two empty ones around \<open>::\<close> shrink it by two, and the next
  step reads behind its end.
\<close>

lemma paste_expand_empty_groups:
  "paste_expand [Punct (CHR '':'') Joint, Punct (CHR '':'') Joint, Group NoDelimiter [], Punct (CHR '':'') Joint, Punct (CHR '':'') Alone,
     Group NoDelimiter []] = Inl Panic"
  by (simp add: paste_expand_def numeral_eq_Suc path_step_def splice_none_def is_paste_group_def)

end
