(* ===== verification/Macro_Pin.thy ===== *)
theory Macro_Pin
  imports Macro_Tokens
begin

text \<open>
  \<open>rust/macros/pin_data.rs\<close> and \<open>rust/macros/pinned_drop.rs\<close>: the attributes that prepare a struct and its destructor for pinned
  initialisation. Both rewrite their input into a call of a declarative macro of the crate.
\<close>

section \<open>Pinned data\<close>

definition compile_error_tokens :: "string \<Rightarrow> tokens" where
  "compile_error_tokens msg =
     [Punct (CHR '':'') Joint, Punct (CHR '':'') Alone, Ident ''core'', Punct (CHR '':'') Joint, Punct (CHR '':'') Alone,
      Ident ''compile_error'', Punct (CHR ''!'') Alone, Group Parenthesis [Literal (dquote # msg @ [dquote])], Punct (CHR '';'') Alone]"

definition type_def_keywords :: "string list" where
  "type_def_keywords = [''enum'', ''trait'', ''struct'', ''union'', ''impl'']"

text \<open>The tokens that replace one, and the errors that are reported for it.\<close>

fun replace_self_and_deny_type_defs :: "tokens \<Rightarrow> token_tree \<Rightarrow> tokens \<times> tokens"
  and replace_all :: "tokens \<Rightarrow> tokens \<Rightarrow> tokens \<times> tokens" where
  "replace_self_and_deny_type_defs struct_name (Ident i) =
     (if i \<in> set type_def_keywords then
        ([Ident i], compile_error_tokens (''Cannot use `'' @ i @ ''` inside of struct definition with `#[pin_data]`.''))
      else if i = ''Self'' then (struct_name, [])
      else ([Ident i], []))"
| "replace_self_and_deny_type_defs struct_name (Literal l) = ([Literal l], [])"
| "replace_self_and_deny_type_defs struct_name (Punct c sp) = ([Punct c sp], [])"
| "replace_self_and_deny_type_defs struct_name (Group d g) =
     (let r = replace_all struct_name g in ([Group d (fst r)], snd r))"
| "replace_all struct_name [] = ([], [])"
| "replace_all struct_name (t # ts) =
     (let r = replace_self_and_deny_type_defs struct_name t; rs = replace_all struct_name ts in
      (fst r @ fst rs, snd r @ snd rs))"

text \<open>The same over the declaration itself, where \<open>struct\<close> is left alone.\<close>

fun replace_rest :: "tokens \<Rightarrow> tokens \<Rightarrow> tokens \<times> tokens" where
  "replace_rest struct_name [] = ([], [])"
| "replace_rest struct_name (t # ts) =
     (let r = (if is_ident ''struct'' t then ([t], []) else replace_self_and_deny_type_defs struct_name t);
          rs = replace_rest struct_name ts in
      (fst r @ fst rs, snd r @ snd rs))"

definition pin_data_struct_name :: "tokens \<Rightarrow> tokens \<Rightarrow> tokens \<times> tokens" where
  "pin_data_struct_name tys rest =
     (case dropWhile (\<lambda>t. \<not> is_ident ''struct'' t) rest of
        _ # Ident n # _ \<Rightarrow>
          (Ident n # (if tys = [] then []
             else [Punct (CHR '':'') Joint, Punct (CHR '':'') Alone, Punct (CHR ''<'') Alone] @ tys @ [Punct (CHR ''>'') Alone]), [])
      | _ \<Rightarrow> ([Ident ''Self''], compile_error_tokens ''Could not locate type name.''))"

definition pin_data_call :: "tokens \<Rightarrow> tokens \<Rightarrow> tokens \<Rightarrow> tokens \<Rightarrow> tokens \<Rightarrow> tokens \<Rightarrow> tokens" where
  "pin_data_call args sig impls tys decls body = quote_spanned
     [QPathSep, QIdent ''kernel'', QPathSep, QIdent ''__pin_data'', QPunct (CHR ''!''),
      QGroup Brace
        [QIdent ''parse_input'', QPunct (CHR '':''),
         QPunct (CHR ''@''), QIdent ''args'', QGroup Parenthesis [QSplice args], QPunct (CHR '',''),
         QPunct (CHR ''@''), QIdent ''sig'', QGroup Parenthesis [QSplice sig], QPunct (CHR '',''),
         QPunct (CHR ''@''), QIdent ''impl_generics'', QGroup Parenthesis [QSplice impls], QPunct (CHR '',''),
         QPunct (CHR ''@''), QIdent ''ty_generics'', QGroup Parenthesis [QSplice tys], QPunct (CHR '',''),
         QPunct (CHR ''@''), QIdent ''decl_generics'', QGroup Parenthesis [QSplice decls], QPunct (CHR '',''),
         QPunct (CHR ''@''), QIdent ''body'', QGroup Parenthesis [QSplice body], QPunct (CHR '','')]]"

definition pin_data :: "tokens \<Rightarrow> tokens \<Rightarrow> tokens" where
  "pin_data args input =
     (let (g, rest) = parse_generics input;
          (struct_name, errs) = pin_data_struct_name (ty_generics g) rest;
          (impls, errs1) = replace_all struct_name (impl_generics g);
          (rest, errs2) = replace_rest struct_name rest;
          (rest, last_tt) = pop_last rest
      in pin_data_call args rest impls (ty_generics g) (decl_generics g) (option_tokens last_tt) @ errs @ errs1 @ errs2)"

section \<open>Pinned destructors\<close>

fun pinned_drop_idx :: "nat \<Rightarrow> nat \<Rightarrow> tokens \<Rightarrow> nat option exec" where
  "pinned_drop_idx i nesting [] = Inr None"
| "pinned_drop_idx i nesting (tt # tts) =
     (if is_punct (CHR ''>'') tt then
        exec_bind (require Panic (0 < nesting)) (\<lambda>_. pinned_drop_idx (i + 1) (nesting - 1) tts)
      else
        let nesting = (if is_punct (CHR ''<'') tt then nesting + 1 else nesting) in
        if 1 \<le> i \<and> nesting = 0 then exec_bind (require Panic (is_ident ''PinnedDrop'' tt)) (\<lambda>_. Inr (Some i))
        else pinned_drop_idx (i + 1) nesting tts)"

definition pinned_drop_call :: "tokens \<Rightarrow> tokens \<Rightarrow> tokens" where
  "pinned_drop_call sig body = quote_spanned
     [QPathSep, QIdent ''kernel'', QPathSep, QIdent ''__pinned_drop'', QPunct (CHR ''!''),
      QGroup Brace
        [QPunct (CHR ''@''), QIdent ''impl_sig'', QGroup Parenthesis [QSplice sig], QPunct (CHR '',''),
         QPunct (CHR ''@''), QIdent ''impl_body'', QGroup Parenthesis [QSplice body], QPunct (CHR '','')]]"

definition init_path :: tokens where
  "init_path = quote_spanned [QPathSep, QIdent ''kernel'', QPathSep, QIdent ''init'', QPathSep]"

definition pinned_drop :: "tokens \<Rightarrow> tokens exec" where
  "pinned_drop toks =
     exec_bind (require Panic (toks \<noteq> [])) (\<lambda>_.
     exec_bind (require Panic (is_ident ''impl'' (toks ! 0))) (\<lambda>_.
     exec_bind (pinned_drop_idx 0 0 toks) (\<lambda>pinned_drop_idx.
       case pinned_drop_idx of
         None \<Rightarrow> Inl Panic
       | Some idx \<Rightarrow>
           let toks = take idx toks @ init_path @ drop idx toks in
           Inr (case pop_last toks of
                  (toks, Some (Group _ body)) \<Rightarrow> pinned_drop_call toks body
                | (toks, _) \<Rightarrow> toks))))"

section \<open>What is replaced and what is refused\<close>

fun mentions :: "string list \<Rightarrow> token_tree \<Rightarrow> bool" where
  "mentions ws (Ident i) \<longleftrightarrow> i \<in> set ws"
| "mentions ws (Group d g) \<longleftrightarrow> list_ex (mentions ws) g"
| "mentions ws _ \<longleftrightarrow> False"

lemma self_not_keyword: "''Self'' \<notin> set type_def_keywords"
  by (simp add: type_def_keywords_def)

lemma replace_no_self:
  assumes "\<not> list_ex (mentions [''Self'']) name"
  shows "\<not> list_ex (mentions [''Self'']) (fst (replace_self_and_deny_type_defs name t))"
    and "\<not> list_ex (mentions [''Self'']) (fst (replace_all name ts))"
  using assms
  by (induction name t and name ts rule: replace_self_and_deny_type_defs_replace_all.induct)
    (auto simp: Let_def self_not_keyword)

lemma replace_errs:
  "snd (replace_self_and_deny_type_defs name t) = [] \<longleftrightarrow> \<not> mentions type_def_keywords t"
  "snd (replace_all name ts) = [] \<longleftrightarrow> \<not> list_ex (mentions type_def_keywords) ts"
  by (induction name t and name ts rule: replace_self_and_deny_type_defs_replace_all.induct)
    (auto simp: Let_def compile_error_tokens_def)

lemma replace_rest_no_self:
  assumes "\<not> list_ex (mentions [''Self'']) name"
  shows "\<not> list_ex (mentions [''Self'']) (fst (replace_rest name ts))"
proof (induction ts)
  case (Cons t ts)
  have "\<not> mentions [''Self''] t" if "is_ident ''struct'' t" using that by (cases t) auto
  with Cons replace_no_self(1) [OF assms, of t] show ?case by (auto simp: Let_def)
qed simp

lemma replace_rest_errs:
  "snd (replace_rest name ts) = [] \<longleftrightarrow> \<not> list_ex (\<lambda>t. \<not> is_ident ''struct'' t \<and> mentions type_def_keywords t) ts"
  by (induction ts) (auto simp: Let_def replace_errs)

lemma pinned_drop_idx_generics:
  assumes "balanced d b" and "1 \<le> i"
  shows "pinned_drop_idx i (Suc d) (b @ ts) = pinned_drop_idx (i + length b) 1 ts"
  using assms
proof (induction b arbitrary: d i)
  case (Cons t b)
  consider "is_punct (CHR ''<'') t" "\<not> is_punct (CHR ''>'') t" | "is_punct (CHR ''>'') t" "\<not> is_punct (CHR ''<'') t"
    | "\<not> is_punct (CHR ''>'') t" "\<not> is_punct (CHR ''<'') t" by (cases t) auto
  then show ?case
  proof cases
    case 1
    with Cons.prems Cons.IH [of "Suc d" "Suc i"] show ?thesis by simp
  next
    case 2
    with Cons.prems have "0 < d" "balanced (d - 1) b" by simp_all
    with 2 Cons.IH [of "d - 1" "Suc i"] show ?thesis by simp
  next
    case 3
    with Cons.prems Cons.IH [of d "Suc i"] show ?thesis by simp
  qed
qed simp

section \<open>Properties\<close>

text \<open>
  \<open>#[pin_data]\<close> names the struct and refuses type definitions inside of it. For a declaration in which a name follows \<open>struct\<close>, the macro calls
  \<open>__pin_data!\<close> with a signature, generics and a body that do not mention \<open>Self\<close> at any depth; and it adds errors exactly if a keyword
  that starts a type definition occurs in the bounds or, apart from the \<open>struct\<close> of the declaration, at any depth of the rest.
\<close>

lemma pin_data_correct:
  assumes "parse_generics input = (g, rest)" and "dropWhile (\<lambda>t. \<not> is_ident ''struct'' t) rest = kw # Ident n # after"
    and "n \<noteq> ''Self''" and "\<not> list_ex (mentions [''Self'']) (ty_generics g)"
  shows "\<exists>sig impls body errs. pin_data args input = pin_data_call args sig impls (ty_generics g) (decl_generics g) body @ errs \<and>
    \<not> list_ex (mentions [''Self'']) (sig @ impls @ body) \<and>
    (errs = [] \<longleftrightarrow> \<not> list_ex (mentions type_def_keywords) (impl_generics g) \<and>
       \<not> list_ex (\<lambda>t. \<not> is_ident ''struct'' t \<and> mentions type_def_keywords t) rest)"
proof -
  obtain name where name: "pin_data_struct_name (ty_generics g) rest = (name, [])" and noself: "\<not> list_ex (mentions [''Self'']) name"
    using assms(2-4) by (auto simp: pin_data_struct_name_def)
  let ?impls = "replace_all name (impl_generics g)" and ?rest = "replace_rest name rest"
  obtain sig body where pop: "pop_last (fst ?rest) = (sig, body)" by fastforce
  then have sig: "fst ?rest = sig @ option_tokens body" by (auto simp: pop_last_def option_tokens_def split: if_splits)
  have "pin_data args input = pin_data_call args sig (fst ?impls) (ty_generics g) (decl_generics g) (option_tokens body) @ snd ?impls @ snd ?rest"
    using assms(1) name pop by (simp add: pin_data_def split_beta)
  moreover have "\<not> list_ex (mentions [''Self'']) (sig @ fst ?impls @ option_tokens body)"
    using replace_rest_no_self [OF noself, of rest] replace_no_self(2) [OF noself, of "impl_generics g"] unfolding sig by auto
  moreover have "snd ?impls @ snd ?rest = [] \<longleftrightarrow> \<not> list_ex (mentions type_def_keywords) (impl_generics g) \<and>
       \<not> list_ex (\<lambda>t. \<not> is_ident ''struct'' t \<and> mentions type_def_keywords t) rest"
    by (simp add: replace_errs replace_rest_errs)
  ultimately show ?thesis by blast
qed

text \<open>
  \<open>#[pinned_drop]\<close> finds the trait behind the generics. On \<open>impl<...> PinnedDrop for ... {...}\<close>, with or without generics, whose angle
  brackets are balanced, the macro calls \<open>__pinned_drop!\<close> with the signature in which the trait has its full path, and with the body.
\<close>

lemma pinned_drop_correct:
  assumes "gen = [] \<or> (\<exists>b. gen = Punct (CHR ''<'') s1 # b @ [Punct (CHR ''>'') s2] \<and> balanced 0 b)"
  shows "pinned_drop ([Ident ''impl''] @ gen @ [Ident ''PinnedDrop''] @ rest @ [Group d body]) =
    Inr (pinned_drop_call ([Ident ''impl''] @ gen @ init_path @ [Ident ''PinnedDrop''] @ rest) body)"
proof -
  let ?after = "Ident ''PinnedDrop'' # rest @ [Group d body]"
  have idx: "pinned_drop_idx 0 0 (Ident ''impl'' # gen @ ?after) = Inr (Some (Suc (length gen)))"
    using assms
  proof (elim disjE exE conjE)
    fix b assume gen: "gen = Punct (CHR ''<'') s1 # b @ [Punct (CHR ''>'') s2]" and b: "balanced 0 b"
    show ?thesis unfolding gen using pinned_drop_idx_generics [OF b, of "Suc (Suc 0)" "Punct (CHR ''>'') s2 # ?after"] by simp
  qed simp
  have "take (Suc (length gen)) (Ident ''impl'' # gen @ ?after) = Ident ''impl'' # gen"
    "drop (Suc (length gen)) (Ident ''impl'' # gen @ ?after) = ?after" by simp_all
  with idx show ?thesis by (simp add: pinned_drop_def pop_last_def butlast_append Let_def)
qed

end
