(* ===== verification/Macro_Init.thy ===== *)
theory Macro_Init
  imports Macro_Pin Pin_Init
begin

text \<open>
  \<open>rust/src/init/macros.rs\<close>: the declarative macros behind \<open>#[pin_data]\<close>, \<open>#[pinned_drop]\<close>, \<open>derive(Zeroable)\<close> and \<open>pin_init!\<close>, as functions on
  token trees.

  A rule of a macro is a branch, in the order of the rules. What the fragments \<open>ty\<close> and \<open>expr\<close> take from the front of the tokens is decided by the Rust
  parser: it is the parameter \<open>frag\<close>, which returns the fragment and the tokens behind it. A macro that calls itself does so at most as often as the compiler's recursion
  limit allows, which is the fuel; \<open>None\<close> is an error of the compiler.
\<close>

type_synonym fragment = "tokens \<Rightarrow> (tokens \<times> tokens) option"

abbreviation comma_tt :: token_tree where "comma_tt \<equiv> Punct (CHR '','') Alone"

section \<open>Fragments\<close>

text \<open>The fragment \<open>vis\<close>: \<open>pub\<close>, \<open>pub(crate)\<close> and the like, or nothing.\<close>

fun vis_scope :: "tokens \<Rightarrow> bool" where
  "vis_scope (Ident i # ts) \<longleftrightarrow> (if i = ''in'' then True else i \<in> {''crate'', ''self'', ''super''} \<and> ts = [])"
| "vis_scope _ \<longleftrightarrow> False"

fun parse_vis :: "tokens \<Rightarrow> tokens \<times> tokens" where
  "parse_vis (Ident i # Group Parenthesis g # ts) =
     (if i = ''pub'' then if vis_scope g then ([Ident i, Group Parenthesis g], ts) else ([Ident i], Group Parenthesis g # ts)
      else ([], Ident i # Group Parenthesis g # ts))"
| "parse_vis (Ident i # ts) = (if i = ''pub'' then ([Ident i], ts) else ([], Ident i # ts))"
| "parse_vis ts = ([], ts)"

text \<open>\<open>#[...]\<close> at the front.\<close>

fun hash_attr :: "tokens \<Rightarrow> (tokens \<times> tokens) option" where
  "hash_attr (Punct c sp # Group Bracket g # ts) = (if c = CHR ''#'' then Some (g, ts) else None)"
| "hash_attr _ = None"

definition attr_tokens :: "tokens \<Rightarrow> tokens" where
  "attr_tokens g = [Punct (CHR ''#'') Alone, Group Bracket g]"

function take_attrs :: "tokens \<Rightarrow> tokens \<times> tokens" where
  "take_attrs ts =
     (case hash_attr ts of
        None \<Rightarrow> ([], ts)
      | Some (g, rest) \<Rightarrow> let r = take_attrs rest in (attr_tokens g @ fst r, snd r))"
  by pat_completeness auto
termination
proof (relation "measure length")
  fix ts x g rest
  assume "hash_attr ts = Some x" "(g, rest) = x"
  then show "(rest, ts) \<in> measure length" by (cases ts rule: hash_attr.cases) (auto split: if_splits)
qed simp

declare take_attrs.simps [simp del]

text \<open>\<open>field :\<close> at the front, where the colon is not the first half of \<open>::\<close>.\<close>

fun field_colon :: "tokens \<Rightarrow> (string \<times> tokens) option" where
  "field_colon (Ident f # Punct c sp # ts) =
     (if c = CHR '':'' \<and> \<not> (sp = Joint \<and> (case ts of [] \<Rightarrow> False | t # _ \<Rightarrow> is_punct (CHR '':'') t)) then Some (f, ts) else None)"
| "field_colon _ = None"

section \<open>Finding the pinned fields\<close>



definition path_sep :: tokens where
  "path_sep = [Punct (CHR '':'') Joint, Punct (CHR '':'') Alone]"

definition core_phantom_pinned :: tokens where
  "core_phantom_pinned = path_sep @ [Ident ''core''] @ path_sep @ [Ident ''marker''] @ path_sep @ [Ident ''PhantomPinned'']"

text \<open>The ways to write the type that the first rule knows, with the comma behind it.\<close>

definition phantom_pinned_paths :: "tokens list" where
  "phantom_pinned_paths = [[Ident ''PhantomPinned''], [Ident ''marker''] @ path_sep @ [Ident ''PhantomPinned''],
     [Ident ''core''] @ path_sep @ [Ident ''marker''] @ path_sep @ [Ident ''PhantomPinned''], core_phantom_pinned]"

definition strip_prefix :: "tokens \<Rightarrow> tokens \<Rightarrow> tokens option" where
  "strip_prefix p ts = (if take (length p) ts = p then Some (drop (length p) ts) else None)"

fun after_comma :: "tokens \<Rightarrow> tokens option" where
  "after_comma (t # ts) = (if is_punct (CHR '','') t then Some ts else None)"
| "after_comma [] = None"

fun match_phantom :: "tokens list \<Rightarrow> tokens \<Rightarrow> tokens option" where
  "match_phantom [] ts = None"
| "match_phantom (p # ps) ts =
     (case strip_prefix p ts of
        None \<Rightarrow> match_phantom ps ts
      | Some rest \<Rightarrow> (case after_comma rest of None \<Rightarrow> match_phantom ps ts | Some rest \<Rightarrow> Some rest))"



section \<open>What the macro declares\<close>





record struct_sig =
  sig_attrs :: tokens
  sig_vis :: tokens
  sig_name :: string
  sig_where :: tokens

definition parse_sig :: "tokens \<Rightarrow> struct_sig option" where
  "parse_sig ts =
     (let (attrs, ts) = take_attrs ts; (vis, ts) = parse_vis ts in
      case ts of
        t # Ident name # rest \<Rightarrow>
          if is_ident ''struct'' t then
            (case rest of
               [] \<Rightarrow> Some \<lparr>sig_attrs = attrs, sig_vis = vis, sig_name = name, sig_where = []\<rparr>
             | w # whr \<Rightarrow> if is_ident ''where'' w then Some \<lparr>sig_attrs = attrs, sig_vis = vis, sig_name = name, sig_where = whr\<rparr> else None)
          else None
      | _ \<Rightarrow> None)"






section \<open>Pinned destructors\<close>

definition only_call_from_drop :: tokens where
  "only_call_from_drop = path_sep @ [Ident ''kernel''] @ path_sep @ [Ident ''init''] @ path_sep @ [Ident ''__internal''] @ path_sep @
     [Ident ''OnlyCallFromDrop'']"

definition pinned_drop_rules :: "tokens \<Rightarrow> tokens \<Rightarrow> tokens option" where
  "pinned_drop_rules impl_sig impl_body =
     (let (attrs, ts) = take_attrs impl_body in
      case ts of
        [Ident kw, Ident name, Group Parenthesis sig, Group Brace inner] \<Rightarrow>
          if kw = ''fn'' \<and> name = ''drop'' then
            Some (Ident ''unsafe'' # impl_sig @
              [Group Brace (attrs @ [Ident kw, Ident name,
                 Group Parenthesis (sig @ [comma_tt, Ident ''_'', Punct (CHR '':'') Alone] @ only_call_from_drop), Group Brace inner])])
          else None
      | _ \<Rightarrow> None)"

section \<open>Zeroable\<close>

text \<open>The types of the fields, of which the macro asserts that they are \<open>Zeroable\<close>.\<close>

fun zeroable_fields :: "fragment \<Rightarrow> nat \<Rightarrow> tokens \<Rightarrow> tokens list option" where
  "zeroable_fields ty 0 ts = None"
| "zeroable_fields ty (Suc n) ts =
     (if ts = [] then Some []
      else
        case field_colon (snd (take_attrs ts)) of
          None \<Rightarrow> None
        | Some (f, rest) \<Rightarrow>
            (case ty rest of
               None \<Rightarrow> None
             | Some (t, rest) \<Rightarrow>
                 if rest = [] then Some [t]
                 else (case after_comma rest of
                         None \<Rightarrow> None
                       | Some rest \<Rightarrow> (case zeroable_fields ty n rest of None \<Rightarrow> None | Some tys \<Rightarrow> Some (t # tys)))))"

record zeroable_impl =
  zi_sig :: struct_sig
  zi_impl_generics :: tokens
  zi_ty_generics :: tokens
  zi_asserted :: "tokens list"

definition derive_zeroable_rules :: "fragment \<Rightarrow> nat \<Rightarrow> tokens \<Rightarrow> tokens \<Rightarrow> tokens \<Rightarrow> tokens \<Rightarrow> zeroable_impl option" where
  "derive_zeroable_rules ty n sig impls tys body =
     (case (parse_sig sig, body) of
        (Some sg, [Group Brace fds]) \<Rightarrow>
          (case zeroable_fields ty n fds of
             None \<Rightarrow> None
           | Some ts \<Rightarrow> Some \<lparr>zi_sig = sg, zi_impl_generics = impls, zi_ty_generics = tys, zi_asserted = ts\<rparr>)
      | _ \<Rightarrow> None)"

section \<open>Initialisers\<close>

definition zeroed_call :: tokens where
  "zeroed_call = [Punct (CHR ''.'') Joint, Punct (CHR ''.'') Alone, Ident ''Zeroable''] @ path_sep @ [Ident ''zeroed'', Group Parenthesis []]"

text \<open>
  Whether the struct is zeroed first: the first three rules of \<open>__init_internal!\<close> eat one token tree at a time until the call is all that is left.
  Dots that are written together are one token tree of a macro.
\<close>

function munch_update :: "tokens \<Rightarrow> bool" where
  "munch_update [] \<longleftrightarrow> False"
| "munch_update (t # ts) \<longleftrightarrow>
     (if t # ts = zeroed_call then True
      else munch_update (if t = Punct (CHR ''.'') Joint then dropWhile (is_punct (CHR ''.'')) ts else ts))"
  by pat_completeness auto
termination
  by (relation "measure length") (auto simp: le_imp_less_Suc length_dropWhile_le)

text \<open>The end of the fields: the call and a comma, each of them optional.\<close>

definition fields_end :: "tokens \<Rightarrow> bool option" where
  "fields_end ts =
     (if ts = [] \<or> after_comma ts = Some [] then Some False
      else case strip_prefix zeroed_call ts of
        Some rest \<Rightarrow> if rest = [] \<or> after_comma rest = Some [] then Some True else None
      | None \<Rightarrow> None)"

datatype init_syntax = InPlaceSyntax string tokens | ByValueSyntax string "tokens option"

fun syntax_field :: "init_syntax \<Rightarrow> string" where
  "syntax_field (InPlaceSyntax f _) = f"
| "syntax_field (ByValueSyntax f _) = f"

text \<open>One field at the front: \<open>field <- expr,\<close>, \<open>field: expr,\<close> or \<open>field,\<close>.\<close>

definition munch_field :: "fragment \<Rightarrow> tokens \<Rightarrow> (init_syntax \<times> tokens) option" where
  "munch_field expr ts =
     (case ts of
        Ident f # rest \<Rightarrow>
          (case strip_prefix [Punct (CHR ''<'') Joint, Punct (CHR ''-'') Alone] rest of
             Some rest \<Rightarrow>
               (case expr rest of
                  None \<Rightarrow> None
                | Some (e, rest) \<Rightarrow> (case after_comma rest of None \<Rightarrow> None | Some rest \<Rightarrow> Some (InPlaceSyntax f e, rest)))
           | None \<Rightarrow>
               (case field_colon ts of
                  Some (f, rest) \<Rightarrow>
                    (case expr rest of
                       None \<Rightarrow> None
                     | Some (e, rest) \<Rightarrow> (case after_comma rest of None \<Rightarrow> None | Some rest \<Rightarrow> Some (ByValueSyntax f (Some e), rest)))
                | None \<Rightarrow> (case after_comma rest of None \<Rightarrow> None | Some rest \<Rightarrow> Some (ByValueSyntax f None, rest))))
      | _ \<Rightarrow> None)"

text \<open>The fields that \<open>init_slot\<close> generates code for.\<close>

fun munch_init_slot :: "fragment \<Rightarrow> nat \<Rightarrow> tokens \<Rightarrow> init_syntax list option" where
  "munch_init_slot expr 0 ts = None"
| "munch_init_slot expr (Suc n) ts =
     (case fields_end ts of
        Some _ \<Rightarrow> Some []
      | None \<Rightarrow>
          (case munch_field expr ts of
             None \<Rightarrow> None
           | Some (f, rest) \<Rightarrow> (case munch_init_slot expr n rest of None \<Rightarrow> None | Some fs \<Rightarrow> Some (f # fs))))"

text \<open>The struct literal that is only type-checked: its fields, and whether the others come from \<open>zeroed\<close>.\<close>

fun make_initializer :: "fragment \<Rightarrow> nat \<Rightarrow> tokens \<Rightarrow> string list \<Rightarrow> (string list \<times> bool) option" where
  "make_initializer expr 0 ts acc = None"
| "make_initializer expr (Suc n) ts acc =
     (case fields_end ts of
        Some update \<Rightarrow> Some (acc, update)
      | None \<Rightarrow>
          (case munch_field expr ts of
             None \<Rightarrow> None
           | Some (f, rest) \<Rightarrow> make_initializer expr n rest (acc @ [syntax_field f])))"

record init_code =
  ic_zeroed :: bool
  ic_fields :: "init_syntax list"
  ic_literal :: "string list \<times> bool"

definition init_rules :: "fragment \<Rightarrow> nat \<Rightarrow> tokens \<Rightarrow> init_code option" where
  "init_rules expr limit fds =
     (case (munch_init_slot expr limit (fds @ [comma_tt]), make_initializer expr limit (fds @ [comma_tt]) []) of
        (Some fs, Some lit) \<Rightarrow> Some \<lparr>ic_zeroed = munch_update fds, ic_fields = fs, ic_literal = lit\<rparr>
      | _ \<Rightarrow> None)"

section \<open>Fields as they are written\<close>

text \<open>The contents of its attributes, its visibility, its name and its type.\<close>

record src_field =
  sf_attrs :: "tokens list"
  sf_vis :: tokens
  sf_name :: string
  sf_ty :: tokens

definition field_tokens_of :: "src_field \<Rightarrow> tokens" where
  "field_tokens_of f = concat (map attr_tokens (sf_attrs f)) @ sf_vis f @ [Ident (sf_name f), Punct (CHR '':'') Alone] @ sf_ty f"

definition vis_ok :: "tokens \<Rightarrow> bool" where
  "vis_ok v \<longleftrightarrow> v = [] \<or> v = [Ident ''pub''] \<or> (\<exists>g. v = [Ident ''pub'', Group Parenthesis g] \<and> vis_scope g)"

text \<open>The parser takes the type up to the comma, and a type that starts like \<open>PhantomPinned\<close> before a comma is this type.\<close>

definition field_ok :: "fragment \<Rightarrow> src_field \<Rightarrow> bool" where
  "field_ok ty f \<longleftrightarrow> vis_ok (sf_vis f) \<and> (\<forall>rest. ty (sf_ty f @ comma_tt # rest) = Some (sf_ty f, comma_tt # rest)) \<and>
     (\<forall>rest. match_phantom phantom_pinned_paths (sf_ty f @ comma_tt # rest) = (if sf_ty f \<in> set phantom_pinned_paths then Some rest else None))"






lemma field_colon_attr [simp]: "field_colon (attr_tokens g @ ts) = None" "hash_attr (attr_tokens g @ ts) = Some (g, ts)"
  by (simp_all add: attr_tokens_def)
















section \<open>Properties\<close>


text \<open>\<open>pub struct S<T> { #[pin] a: T, #[doc] pub(crate) b: u8, c: marker::PhantomPinned, }\<close>, with a parser that takes types up to the first comma.\<close>

definition demo_ty :: fragment where
  "demo_ty ts = (let t = takeWhile (\<lambda>t. t \<noteq> comma_tt) ts in if t = [] then None else Some (t, drop (length t) ts))"




section \<open>Initialisers of structs\<close>

text \<open>A fragment is taken from the front of the tokens.\<close>

definition frag_ok :: "fragment \<Rightarrow> bool" where
  "frag_ok frag \<longleftrightarrow> (\<forall>ts e rest. frag ts = Some (e, rest) \<longrightarrow> ts = e @ rest)"

lemma frag_okD: "frag_ok frag \<Longrightarrow> frag ts = Some (e, rest) \<Longrightarrow> ts = e @ rest"
  by (simp add: frag_ok_def)

lemma after_comma_Some: "after_comma ts = Some rest \<Longrightarrow> \<exists>c. ts = c # rest \<and> is_punct (CHR '','') c"
  by (cases ts) (auto split: if_splits)

lemma strip_prefix_Some: "strip_prefix p ts = Some rest \<Longrightarrow> ts = p @ rest"
  by (auto simp: strip_prefix_def split: if_splits) (metis append_take_drop_id)

lemma field_colon_Some: "field_colon ts = Some (f, rest) \<Longrightarrow> \<exists>c. ts = Ident f # c # rest"
  by (cases ts rule: field_colon.cases) (auto split: if_splits)

lemma munch_field_suffix:
  assumes "frag_ok expr" "munch_field expr ts = Some (f, rest)"
  shows "\<exists>pre c. ts = pre @ c # rest \<and> is_punct (CHR '','') c"
proof -
  obtain g ts' where ts: "ts = Ident g # ts'" using assms(2) by (auto simp: munch_field_def split: list.splits token_tree.splits)
  have suffix: "\<exists>pre c. ts'' = pre @ c # rest \<and> is_punct (CHR '','') c" if "expr ts'' = Some (e, r)" "after_comma r = Some rest" for ts'' e r
    using frag_okD [OF assms(1) that(1)] after_comma_Some [OF that(2)] by auto
  consider (arrow) r where "strip_prefix [Punct (CHR ''<'') Joint, Punct (CHR ''-'') Alone] ts' = Some r"
    | (colon) h r where "strip_prefix [Punct (CHR ''<'') Joint, Punct (CHR ''-'') Alone] ts' = None" "field_colon ts = Some (h, r)"
    | (plain) "strip_prefix [Punct (CHR ''<'') Joint, Punct (CHR ''-'') Alone] ts' = None" "field_colon ts = None"
    by (cases "strip_prefix [Punct (CHR ''<'') Joint, Punct (CHR ''-'') Alone] ts'"; cases "field_colon ts") auto
  then show ?thesis
  proof cases
    case arrow
    with assms(2) ts obtain pre c where "r = pre @ c # rest" "is_punct (CHR '','') c"
      using suffix by (auto simp: munch_field_def split: option.splits) metis
    with strip_prefix_Some [OF arrow] ts show ?thesis
      by (intro exI [of _ "Ident g # [Punct (CHR ''<'') Joint, Punct (CHR ''-'') Alone] @ pre"] exI [of _ c]) simp
  next
    case colon
    with assms(2) ts obtain pre c where "r = pre @ c # rest" "is_punct (CHR '','') c"
      using suffix by (auto simp: munch_field_def split: option.splits) metis
    with field_colon_Some [OF colon(2)] show ?thesis by (metis append_Cons)
  next
    case plain
    with assms(2) ts have "after_comma ts' = Some rest" by (auto simp: munch_field_def split: option.splits)
    from after_comma_Some [OF this] ts show ?thesis by (metis append_Cons append_Nil)
  qed
qed

lemma munch_update_suffix:
  "xs = [] \<or> \<not> is_punct (CHR ''.'') (last xs) \<Longrightarrow> munch_update (xs @ zeroed_call)"
proof (induction "length xs" arbitrary: xs rule: less_induct)
  case less
  show ?case
  proof (cases xs)
    case Nil
    then show ?thesis by (simp add: zeroed_call_def)
  next
    case (Cons t ts)
    show ?thesis
    proof (cases "t = Punct (CHR ''.'') Joint")
      case True
      with Cons less.prems have "ts \<noteq> []" and last: "\<not> is_punct (CHR ''.'') (last ts)" by (auto split: if_splits)
      then have some: "last ts \<in> set ts" by simp
      let ?ts = "dropWhile (is_punct (CHR ''.'')) ts"
      have "?ts @ zeroed_call = dropWhile (is_punct (CHR ''.'')) (ts @ zeroed_call)"
        using dropWhile_append1 [of "last ts" ts "is_punct (CHR ''.'')" zeroed_call] some last by simp
      moreover have nonempty: "?ts \<noteq> []" using last some dropWhile_eq_Nil_conv [of "is_punct (CHR ''.'')" ts] by auto
      moreover have "last ?ts = last ts" using nonempty by (metis last_appendR takeWhile_dropWhile_id)
      moreover have "length ?ts < length xs" using length_dropWhile_le [of "is_punct (CHR ''.'')" ts] Cons by simp
      ultimately have "munch_update (dropWhile (is_punct (CHR ''.'')) (ts @ zeroed_call))" using less.hyps [of ?ts] last by simp
      with True Cons show ?thesis by simp
    next
      case False
      with Cons less.prems less.hyps [of ts] show ?thesis by (cases "ts = []") (auto simp: zeroed_call_def)
    qed
  qed
qed

lemma literal_names:
  "munch_init_slot expr n ts = Some fs \<Longrightarrow> make_initializer expr n ts acc = Some lit \<Longrightarrow> fst lit = acc @ map syntax_field fs"
proof (induction n arbitrary: ts fs acc)
  case (Suc n)
  show ?case
  proof (cases "fields_end ts")
    case None
    with Suc.prems obtain f rest fs' where "munch_field expr ts = Some (f, rest)" "munch_init_slot expr n rest = Some fs'" "fs = f # fs'"
      by (auto split: option.splits)
    with None Suc.prems(2) Suc.IH [of rest fs' "acc @ [syntax_field f]"] show ?thesis by simp
  qed (use Suc.prems in auto)
qed simp

lemma literal_update:
  assumes "frag_ok expr"
  shows "make_initializer expr n ts acc = Some (names, True) \<Longrightarrow>
    \<exists>pre z. ts = pre @ z \<and> (pre = [] \<or> is_punct (CHR '','') (last pre)) \<and> fields_end z = Some True"
proof (induction n arbitrary: ts acc)
  case (Suc n)
  show ?case
  proof (cases "fields_end ts")
    case None
    with Suc.prems obtain f rest where f: "munch_field expr ts = Some (f, rest)" "make_initializer expr n rest (acc @ [syntax_field f]) = Some (names, True)"
      by (auto split: option.splits)
    obtain p c where p: "ts = p @ c # rest" "is_punct (CHR '','') c" using munch_field_suffix [OF assms f(1)] by auto
    obtain q z where q: "rest = q @ z" "q = [] \<or> is_punct (CHR '','') (last q)" "fields_end z = Some True" using Suc.IH [OF f(2)] by auto
    show ?thesis by (rule exI [of _ "p @ c # q"], rule exI [of _ z]) (use p q in auto)
  next
    case (Some u)
    with Suc.prems have "fields_end ts = Some True" by simp
    then show ?thesis by (intro exI [of _ "[]"] exI [of _ ts]) simp
  qed
qed simp

lemma fields_end_True: "fields_end z = Some True \<Longrightarrow> z = zeroed_call \<or> (\<exists>c. z = zeroed_call @ [c])"
proof -
  assume "fields_end z = Some True"
  then obtain rest where "strip_prefix zeroed_call z = Some rest" "rest = [] \<or> after_comma rest = Some []"
    by (auto simp: fields_end_def split: if_splits option.splits)
  then show ?thesis using strip_prefix_Some [of zeroed_call z rest] after_comma_Some [of rest "[]"] by auto
qed

lemma init_rules_zeroed:
  assumes "frag_ok expr" "init_rules expr limit fds = Some ic" "snd (ic_literal ic)"
  shows "ic_zeroed ic"
proof -
  from assms(2,3) obtain names where "make_initializer expr limit (fds @ [comma_tt]) [] = Some (names, True)" and ic: "ic_zeroed ic = munch_update fds"
    by (auto simp: init_rules_def split: option.splits)
  from literal_update [OF assms(1) this(1)] obtain pre z where
    split: "fds @ [comma_tt] = pre @ z" and pre: "pre = [] \<or> is_punct (CHR '','') (last pre)" and z: "fields_end z = Some True" by auto
  have "z \<noteq> zeroed_call"
  proof
    assume "z = zeroed_call"
    then have "last (pre @ z) = Group Parenthesis []" by (simp add: zeroed_call_def)
    then show False using split [symmetric] by simp
  qed
  with fields_end_True [OF z] obtain c where "z = zeroed_call @ [c]" by blast
  with split have "fds = pre @ zeroed_call" by (metis append_assoc butlast_snoc)
  moreover have "pre = [] \<or> \<not> is_punct (CHR ''.'') (last pre)" using pre by (cases "last pre") auto
  ultimately show ?thesis using munch_update_suffix ic by simp
qed

text \<open>
  A struct literal is accepted by the compiler when no field is named twice, every name is a field, and, unless the others come from another value, every field
  is named.
\<close>

definition literal_accepted :: "string list \<Rightarrow> string list \<times> bool \<Rightarrow> bool" where
  "literal_accepted all lit \<longleftrightarrow> distinct (fst lit) \<and> set (fst lit) \<subseteq> set all \<and> (snd lit \<or> set all \<subseteq> set (fst lit))"

text \<open>The code for a field is an initialiser for \<open>field <- expr\<close> and a value otherwise.\<close>

fun codes_field :: "init_syntax \<Rightarrow> ('v, 'e) field_init \<Rightarrow> bool" where
  "codes_field (InPlaceSyntax f e) (InPlace g i) \<longleftrightarrow> f = g"
| "codes_field (ByValueSyntax f e) (ByValue g v) \<longleftrightarrow> f = g"
| "codes_field _ _ \<longleftrightarrow> False"

lemma codes_field_name: "codes_field x y \<Longrightarrow> field_name y = syntax_field x"
  by (cases x; cases y) auto

lemma codes_names: "list_all2 codes_field xs ys \<Longrightarrow> map field_name ys = map syntax_field xs"
  by (induction rule: list_all2_induct) (auto dest: codes_field_name)

text \<open>
  C31: A struct that \<open>pin_init!\<close> or \<open>init!\<close> initialised has no field left out. Whenever the rules of \<open>__init_internal!\<close> expand the fields that the user wrote and the
  compiler accepts the struct literal that they generate for checking, the generated code, run on memory that is not initialised,
  returns; and if it returns \<open>Ok\<close> then every field of the struct, also those that were not mentioned next to \<open>..Zeroable::zeroed()\<close>, is
  initialised, no other memory is, and nothing has been dropped.
\<close>

theorem init_macro_complete:
  assumes "frag_ok expr" "init_rules expr limit fds = Some ic" "literal_accepted all (ic_literal ic)"
    and "list_all2 codes_field (ic_fields ic) fs" "list_all2 field_yields fs rs" "dom zs = set all"
  shows "\<exists>r slot ds. init_internal (if ic_zeroed ic then Some zs else None) fs Map.empty = Inr (r, slot, ds) \<and>
    (r = Ok () \<longrightarrow> dom slot = set all \<and> ds = [])"
proof -
  from assms(2) have "fst (ic_literal ic) = map syntax_field (ic_fields ic)"
    by (auto simp: init_rules_def dest: literal_names split: option.splits)
  then have names: "fst (ic_literal ic) = map field_name fs" using codes_names [OF assms(4)] by simp
  let ?slot = "if ic_zeroed ic then zs else Map.empty"
  obtain r slot ds where run: "init_slot [] ?slot fs = Inr (r, slot, ds)" and post: "struct_post fs rs ?slot [] [] r slot ds"
    using init_slot_ok [OF assms(5), of "[]" ?slot "[]"] assms(3) names by (auto simp: literal_accepted_def)
  have "dom slot = set all \<and> ds = []" if "r = Ok ()"
  proof -
    from that post obtain vs where vs: "rs = map Ok vs" "slot = ?slot(map field_name fs [\<mapsto>] vs)" "ds = []"
      by (auto simp: struct_post_def)
    have "length vs = length fs" using list_all2_lengthD [OF assms(5)] vs(1) by simp
    then have "dom slot = dom ?slot \<union> set (map field_name fs)" using vs(2) by (simp add: dom_map_upds Un_commute)
    moreover have "set (map field_name fs) \<subseteq> set all" "ic_zeroed ic \<or> set all \<subseteq> set (map field_name fs)"
      using assms(3) init_rules_zeroed [OF assms(1,2)] unfolding names [symmetric] literal_accepted_def by blast+
    ultimately show ?thesis using vs(3) assms(6) by auto
  qed
  moreover have "init_internal (if ic_zeroed ic then Some zs else None) fs Map.empty = Inr (r, slot, ds)"
    using run by (simp add: init_internal_def split: if_splits)
  ultimately show ?thesis by blast
qed

text \<open>\<open>init!(S { a <- x, b: 2, ..Zeroable::zeroed() })\<close> for a struct with a third field.\<close>

definition demo_init :: tokens where
  "demo_init = [Ident ''a'', Punct (CHR ''<'') Joint, Punct (CHR ''-'') Alone, Ident ''x'', comma_tt, Ident ''b'', Punct (CHR '':'') Alone, Literal ''2'', comma_tt] @ zeroed_call"

lemma demo_init_rules: "init_rules demo_ty 4 demo_init =
  Some \<lparr>ic_zeroed = True, ic_fields = [InPlaceSyntax ''a'' [Ident ''x''], ByValueSyntax ''b'' (Some [Literal ''2''])], ic_literal = ([''a'', ''b''], True)\<rparr>"
  by (simp add: init_rules_def demo_init_def zeroed_call_def path_sep_def numeral_eq_Suc fields_end_def strip_prefix_def munch_field_def demo_ty_def)

theorem init_macro_complete_witness:
  "\<exists>r slot ds. init_internal (Some [''a'' \<mapsto> 0, ''b'' \<mapsto> 0, ''c'' \<mapsto> (0 :: nat)]) [InPlace ''a'' (value_init 1), ByValue ''b'' (Ok 2 :: (nat, error) result)] Map.empty =
     Inr (r, slot, ds) \<and> (r = Ok () \<longrightarrow> dom slot = set [''a'', ''b'', ''c''] \<and> ds = [])"
proof -
  have "ts = takeWhile P ts @ drop (length (takeWhile P ts)) ts" for P and ts :: tokens
    by (metis append_take_drop_id takeWhile_eq_take)
  then have frag: "frag_ok demo_ty" by (auto simp: frag_ok_def demo_ty_def Let_def split: if_splits)
  have lit: "literal_accepted [''a'', ''b'', ''c''] ([''a'', ''b''], True)" by (simp add: literal_accepted_def)
  show ?thesis
    using init_macro_complete [OF frag demo_init_rules, of "[''a'', ''b'', ''c'']" "[InPlace ''a'' (value_init 1), ByValue ''b'' (Ok 2 :: (nat, error) result)]"
        "[Ok 1, Ok 2]" "[''a'' \<mapsto> 0, ''b'' \<mapsto> 0, ''c'' \<mapsto> (0 :: nat)]"] lit
    by (simp add: plain_value.initializer_axioms insert_commute)
qed

section \<open>Destructors and zeroable types\<close>

text \<open>The destructor gets the token that only \<open>Drop\<close> can make, behind its own parameters, and keeps its attributes and its body.\<close>

lemma take_attrs_all:
  assumes "hash_attr rest = None"
  shows "take_attrs (concat (map attr_tokens gs) @ rest) = (concat (map attr_tokens gs), rest)"
proof (induction gs)
  case Nil
  then show ?case using assms by (simp add: take_attrs.simps)
next
  case (Cons g gs)
  then show ?case by (subst take_attrs.simps) (simp add: Let_def)
qed

lemma pinned_drop_rules_correct:
  "pinned_drop_rules sig (concat (map attr_tokens gs) @ [Ident ''fn'', Ident ''drop'', Group Parenthesis params, Group Brace inner]) =
     Some (Ident ''unsafe'' # sig @ [Group Brace (concat (map attr_tokens gs) @ [Ident ''fn'', Ident ''drop'',
       Group Parenthesis (params @ [comma_tt, Ident ''_'', Punct (CHR '':'') Alone] @ only_call_from_drop), Group Brace inner])])"
  by (simp add: pinned_drop_rules_def take_attrs_all)

text \<open>Every field without a visibility is asserted to be \<open>Zeroable\<close>; a field with one is refused.\<close>

lemma zeroable_fields_types:
  assumes "\<forall>f \<in> set fs. field_ok ty f \<and> sf_vis f = []" "length fs < n"
  shows "zeroable_fields ty n (concat (map (\<lambda>f. field_tokens_of f @ [comma_tt]) fs)) = Some (map sf_ty fs)"
  using assms
proof (induction fs arbitrary: n)
  case Nil
  then show ?case by (cases n) auto
next
  case (Cons f fs)
  then obtain m where n: "n = Suc m" "length fs < m" by (cases n) auto
  let ?rest = "concat (map (\<lambda>f. field_tokens_of f @ [comma_tt]) fs)"
  have ok: "ty (sf_ty f @ comma_tt # ?rest) = Some (sf_ty f, comma_tt # ?rest)" "sf_vis f = []"
    using Cons.prems(1) by (simp_all add: field_ok_def)
  have "snd (take_attrs (field_tokens_of f @ comma_tt # ?rest)) = Ident (sf_name f) # Punct (CHR '':'') Alone # sf_ty f @ comma_tt # ?rest"
    using take_attrs_all [of "Ident (sf_name f) # Punct (CHR '':'') Alone # sf_ty f @ comma_tt # ?rest" "sf_attrs f"] ok(2)
    by (simp add: field_tokens_of_def)
  moreover have "field_tokens_of f @ comma_tt # ?rest \<noteq> []" by simp
  ultimately show ?case using Cons n ok(1) by simp
qed

lemma zeroable_fields_vis: "zeroable_fields ty n ([Ident ''pub'', Ident x, Punct (CHR '':'') Alone] @ ts) = None"
  by (cases n) (simp_all add: take_attrs.simps)

end
