(* ===== verification/Macro_Module.thy ===== *)
theory Macro_Module
  imports Macro_Tokens Kernel_Error
begin

text \<open>
  \<open>rust/macros/module.rs\<close>: the macro \<open>module!\<close>. It parses the description of a module, emits the entries of the \<open>.modinfo\<close> section and
  generates the functions that load and unload the module.
\<close>

section \<open>Parsing\<close>

text \<open>\<open>m?\<close> and loops around it need the bound value in the termination proof.\<close>

lemma exec_bind_cong [fundef_cong]:
  "m = m' \<Longrightarrow> (\<And>x. m' = Inr x \<Longrightarrow> f x = f' x) \<Longrightarrow> exec_bind m f = exec_bind m' f'"
  by (cases m') auto

lemma try_string_consumes: "try_string it = Inr (Some v, it') \<Longrightarrow> \<exists>t. it = t # it'"
  by (cases it rule: try_literal.cases) (auto simp: try_string_def)

function string_array_loop :: "string list \<Rightarrow> tokens \<Rightarrow> string list exec" where
  "string_array_loop vals it =
     exec_bind (try_string it) (\<lambda>(r, it).
       case r of
         None \<Rightarrow> Inr vals
       | Some v \<Rightarrow>
           exec_bind (require Panic (is_ascii v)) (\<lambda>_.
           let vals = vals @ [v] in
           case it of
             [] \<Rightarrow> Inr vals
           | t # it \<Rightarrow>
               (case t of
                  Punct c _ \<Rightarrow> exec_bind (require Panic (c = CHR '','')) (\<lambda>_. string_array_loop vals it)
                | _ \<Rightarrow> Inl Panic)))"
  by pat_completeness auto
termination
  by (relation "measure (\<lambda>(_, it). length it)") (auto dest: try_string_consumes)

definition expect_string_array :: "tokens \<Rightarrow> (string list \<times> tokens) exec" where
  "expect_string_array it =
     exec_bind (expect_group it) (\<lambda>(d, g, it).
     exec_bind (require Panic (d = Bracket)) (\<lambda>_.
     exec_bind (string_array_loop [] g) (\<lambda>vals.
     Inr (vals, it))))"

record module_info =
  mi_type :: string
  mi_license :: string
  mi_name :: string
  mi_author :: "string option"
  mi_description :: "string option"
  mi_alias :: "string list option"
  mi_firmware :: "string list option"

definition module_info_default :: module_info where
  "module_info_default = \<lparr>mi_type = [], mi_license = [], mi_name = [], mi_author = None, mi_description = None, mi_alias = None,
     mi_firmware = None\<rparr>"

definition EXPECTED_KEYS :: "string list" where
  "EXPECTED_KEYS = [''type'', ''name'', ''author'', ''description'', ''license'', ''alias'', ''firmware'']"

definition REQUIRED_KEYS :: "string list" where
  "REQUIRED_KEYS = [''type'', ''name'', ''license'']"

definition parse_value :: "string \<Rightarrow> module_info \<Rightarrow> tokens \<Rightarrow> (module_info \<times> tokens) exec" where
  "parse_value key info it =
     (if key = ''type'' then exec_bind (expect_ident it) (\<lambda>(v, it). Inr (info\<lparr>mi_type := v\<rparr>, it))
      else if key = ''name'' then exec_bind (expect_string_ascii it) (\<lambda>(v, it). Inr (info\<lparr>mi_name := v\<rparr>, it))
      else if key = ''author'' then exec_bind (expect_string it) (\<lambda>(v, it). Inr (info\<lparr>mi_author := Some v\<rparr>, it))
      else if key = ''description'' then exec_bind (expect_string it) (\<lambda>(v, it). Inr (info\<lparr>mi_description := Some v\<rparr>, it))
      else if key = ''license'' then exec_bind (expect_string_ascii it) (\<lambda>(v, it). Inr (info\<lparr>mi_license := v\<rparr>, it))
      else if key = ''alias'' then exec_bind (expect_string_array it) (\<lambda>(v, it). Inr (info\<lparr>mi_alias := Some v\<rparr>, it))
      else if key = ''firmware'' then exec_bind (expect_string_array it) (\<lambda>(v, it). Inr (info\<lparr>mi_firmware := Some v\<rparr>, it))
      else Inl Panic)"

text \<open>Every value is one token tree.\<close>

lemma expect_ident_Inr: "expect_ident it = Inr (v, it') \<longleftrightarrow> it = Ident v # it'"
  by (cases it rule: try_ident.cases) (auto simp: expect_ident_def expect_some_def)

lemma expect_punct_Inr: "expect_punct it = Inr (c, it') \<longleftrightarrow> (\<exists>sp. it = Punct c sp # it')"
  by (cases it rule: expect_punct.cases) auto

lemma expect_string_Inr:
  "expect_string it = Inr (v, it') \<longleftrightarrow> (\<exists>l. it = Literal l # it' \<and> string_content l = Inr (Some v))"
  by (cases it rule: try_literal.cases)
    (auto simp: expect_string_def expect_some_def try_string_def split: option.splits prod.splits)

lemma expect_string_ascii_Inr:
  "expect_string_ascii it = Inr (v, it') \<longleftrightarrow> expect_string it = Inr (v, it') \<and> is_ascii v"
  by (auto simp: expect_string_ascii_def expect_string_def)

lemma expect_string_array_Inr:
  "expect_string_array it = Inr (v, it') \<longleftrightarrow> (\<exists>g. it = Group Bracket g # it' \<and> string_array_loop [] g = Inr v)"
  by (cases it rule: expect_group.cases) (auto simp: expect_string_array_def)

lemmas expect_Inr = expect_ident_Inr expect_punct_Inr expect_string_Inr expect_string_ascii_Inr expect_string_array_Inr

definition single_token :: "(tokens \<Rightarrow> ('a \<times> tokens) exec) \<Rightarrow> bool" where
  "single_token p \<longleftrightarrow> (\<forall>it v it'. p it = Inr (v, it') \<longleftrightarrow> (\<exists>t. it = t # it' \<and> p [t] = Inr (v, [])))"

lemma single_token_expect:
  "single_token expect_ident" "single_token expect_string" "single_token expect_string_ascii" "single_token expect_string_array"
  by (auto simp: single_token_def expect_Inr)

lemma single_token_if: "single_token p \<Longrightarrow> single_token q \<Longrightarrow> single_token (\<lambda>it. if b then p it else q it)"
  by (cases b) simp_all

lemma single_token_fail: "single_token (\<lambda>it. Inl Panic)"
  by (simp add: single_token_def)

lemma single_token_map:
  assumes "single_token p"
  shows "single_token (\<lambda>it. exec_bind (p it) (\<lambda>(v, it). Inr (g v, it)))"
proof -
  have bind: "exec_bind (p it) (\<lambda>(v, it). Inr (g v, it)) = Inr (w, it') \<longleftrightarrow> (\<exists>v. p it = Inr (v, it') \<and> w = g v)" for it w it'
    by (auto split: prod.splits)
  note p = assms [unfolded single_token_def, rule_format]
  have "(\<exists>v. p it = Inr (v, it') \<and> w = g v) \<longleftrightarrow> (\<exists>t. it = t # it' \<and> (\<exists>v. p [t] = Inr (v, []) \<and> w = g v))" for it w it'
    by (subst p) blast
  then show ?thesis unfolding single_token_def bind by (intro allI)
qed

lemma single_token_parse_value: "single_token (parse_value key info)"
  unfolding parse_value_def [abs_def]
  by (intro single_token_if single_token_map single_token_expect single_token_fail)

lemma parse_value_single:
  "parse_value key info it = Inr (info', it') \<longleftrightarrow> (\<exists>t. it = t # it' \<and> parse_value key info [t] = Inr (info', []))"
  using single_token_parse_value unfolding single_token_def by blast

lemma parse_value_consumes: "parse_value key info it = Inr (info', it') \<Longrightarrow> length it = Suc (length it')"
  by (drule parse_value_single [THEN iffD1]) auto

function parse_loop :: "string list \<Rightarrow> module_info \<Rightarrow> tokens \<Rightarrow> (string list \<times> module_info \<times> tokens) exec" where
  "parse_loop seen_keys info it =
     (case it of
        [] \<Rightarrow> Inr (seen_keys, info, [])
      | t # it \<Rightarrow>
          (case t of
             Ident key \<Rightarrow>
               if key \<in> set seen_keys then Inl Panic
               else
                 exec_bind (expect_punct it) (\<lambda>(c, it).
                 exec_bind (require Panic (c = CHR '':'')) (\<lambda>_.
                 exec_bind (parse_value key info it) (\<lambda>(info, it).
                 exec_bind (expect_punct it) (\<lambda>(c, it).
                 exec_bind (require Panic (c = CHR '','')) (\<lambda>_.
                 parse_loop (seen_keys @ [key]) info it)))))
           | _ \<Rightarrow> Inl Panic))"
  by pat_completeness auto
termination
  by (relation "measure (\<lambda>(_, _, it). length it)") (auto simp: expect_punct_Inr dest!: parse_value_consumes)

definition module_info_parse :: "tokens \<Rightarrow> module_info exec" where
  "module_info_parse it =
     exec_bind (parse_loop [] module_info_default it) (\<lambda>(seen_keys, info, it).
     exec_bind (expect_end it) (\<lambda>_.
     exec_bind (require Panic (\<forall>key \<in> set REQUIRED_KEYS. key \<in> set seen_keys)) (\<lambda>_.
     let ordered_keys = filter (\<lambda>key. key \<in> set seen_keys) EXPECTED_KEYS in
     exec_bind (require Panic (seen_keys = ordered_keys)) (\<lambda>_.
     Inr info))))"


section \<open>The \<open>.modinfo\<close> section\<close>

text \<open>
  One static that \<open>emit_base\<close> writes: whether it is for a loadable module, the module name and the number in the name of the static, the declared
  length and the bytes of the literal. The rest of the emitted text is fixed.
\<close>

record modinfo_entry =
  me_loadable :: bool
  me_static :: "string \<times> nat"
  me_length :: nat
  me_bytes :: string

record modinfo_builder =
  mb_module :: string
  mb_counter :: nat
  mb_buffer :: "modinfo_entry list"

definition builder_new :: "string \<Rightarrow> modinfo_builder" where
  "builder_new module = \<lparr>mb_module = module, mb_counter = 0, mb_buffer = []\<rparr>"

definition emit_base :: "string \<Rightarrow> string \<Rightarrow> bool \<Rightarrow> modinfo_builder \<Rightarrow> modinfo_builder" where
  "emit_base field content builtin b =
     (let s = (if builtin then mb_module b @ ''.'' @ field @ ''='' @ content @ [CHR 0x00] else field @ ''='' @ content @ [CHR 0x00]) in
      b\<lparr>mb_buffer := mb_buffer b @ [\<lparr>me_loadable = (\<not> builtin), me_static = (to_uppercase (mb_module b), mb_counter b),
           me_length = length s, me_bytes = s\<rparr>],
         mb_counter := mb_counter b + 1\<rparr>)"

definition emit_only_builtin :: "string \<Rightarrow> string \<Rightarrow> modinfo_builder \<Rightarrow> modinfo_builder" where
  "emit_only_builtin field content b = emit_base field content True b"

definition emit_only_loadable :: "string \<Rightarrow> string \<Rightarrow> modinfo_builder \<Rightarrow> modinfo_builder" where
  "emit_only_loadable field content b = emit_base field content False b"

definition emit :: "string \<Rightarrow> string \<Rightarrow> modinfo_builder \<Rightarrow> modinfo_builder" where
  "emit field content b = emit_only_loadable field content (emit_only_builtin field content b)"

text \<open>\<open>modfile\<close> is the environment variable \<open>RUST_MODFILE\<close>, which may be unset.\<close>

record module_code =
  mc_name :: string
  mc_type :: string
  mc_modinfo :: "modinfo_entry list"

definition emit_opt :: "string \<Rightarrow> string option \<Rightarrow> modinfo_builder \<Rightarrow> modinfo_builder" where
  "emit_opt field content b = (case content of None \<Rightarrow> b | Some c \<Rightarrow> emit field c b)"

definition emit_all :: "string \<Rightarrow> string list option \<Rightarrow> modinfo_builder \<Rightarrow> modinfo_builder" where
  "emit_all field contents b = (case contents of None \<Rightarrow> b | Some cs \<Rightarrow> fold (emit field) cs b)"

definition module_macro :: "string option \<Rightarrow> tokens \<Rightarrow> module_code exec" where
  "module_macro modfile ts =
     exec_bind (module_info_parse ts) (\<lambda>info.
     let modinfo = builder_new (mi_name info);
         modinfo = emit_opt ''author'' (mi_author info) modinfo;
         modinfo = emit_opt ''description'' (mi_description info) modinfo;
         modinfo = emit ''license'' (mi_license info) modinfo;
         modinfo = emit_all ''alias'' (mi_alias info) modinfo;
         modinfo = emit_all ''firmware'' (mi_firmware info) modinfo in
     case modfile of
       None \<Rightarrow> Inl Panic
     | Some file \<Rightarrow>
         let modinfo = emit_only_builtin ''file'' file modinfo in
         Inr \<lparr>mc_name = mi_name info, mc_type = mi_type info, mc_modinfo = mb_buffer modinfo\<rparr>)"

section \<open>What is accepted\<close>

declare parse_loop.simps [simp del] string_array_loop.simps [simp del]

text \<open>A field \<open>key: value,\<close> of the description, with the spacing of its punctuation.\<close>

type_synonym field = "string \<times> spacing \<times> token_tree \<times> spacing"

fun field_tokens :: "field \<Rightarrow> tokens" where
  "field_tokens (key, s1, v, s2) = [Ident key, Punct (CHR '':'') s1, v, Punct (CHR '','') s2]"

fun run_fields :: "field list \<Rightarrow> module_info \<Rightarrow> module_info option" where
  "run_fields [] info = Some info"
| "run_fields ((key, _, v, _) # fs) info =
     (case parse_value key info [v] of Inr (info', []) \<Rightarrow> run_fields fs info' | _ \<Rightarrow> None)"

lemma parse_loop_field:
  assumes "key \<notin> set seen" and "parse_value key info [v] = Inr (info', [])"
  shows "parse_loop seen info (field_tokens (key, s1, v, s2) @ rest) = parse_loop (seen @ [key]) info' rest"
proof -
  have "parse_value key info (v # Punct (CHR '','') s2 # rest) = Inr (info', Punct (CHR '','') s2 # rest)"
    by (subst parse_value_single) (simp add: assms(2))
  with assms(1) show ?thesis by (subst parse_loop.simps) simp
qed

lemma parse_loop_ConsD:
  assumes "parse_loop seen info (t # it) = Inr r"
  obtains key s1 v s2 info' rest where "t # it = field_tokens (key, s1, v, s2) @ rest" and "key \<notin> set seen"
    and "parse_value key info [v] = Inr (info', [])" and "parse_loop (seen @ [key]) info' rest = Inr r"
proof -
  from assms obtain key where t: "t = Ident key" and key: "key \<notin> set seen"
    by (subst (asm) parse_loop.simps) (auto split: token_tree.splits if_splits)
  from assms t key obtain s1 it1 info' it2 s2 rest where "it = Punct (CHR '':'') s1 # it1"
    and v: "parse_value key info it1 = Inr (info', it2)" and "it2 = Punct (CHR '','') s2 # rest"
    and "parse_loop (seen @ [key]) info' rest = Inr r"
    by (subst (asm) parse_loop.simps) (auto simp: expect_punct_Inr)
  moreover from v obtain x where "it1 = x # it2" "parse_value key info [x] = Inr (info', [])"
    by (auto dest: parse_value_single [THEN iffD1])
  ultimately show ?thesis using t key by (intro that [of key s1 x s2 rest info']) simp_all
qed

lemma parse_loop_sound:
  assumes "parse_loop seen info ts = Inr (seen', info', it')"
  shows "it' = [] \<and> (\<exists>fs. ts = concat (map field_tokens fs) \<and> run_fields fs info = Some info' \<and> seen' = seen @ map fst fs \<and>
    distinct (map fst fs) \<and> set (map fst fs) \<inter> set seen = {})"
  using assms
proof (induction ts arbitrary: seen info rule: length_induct)
  case (1 ts)
  show ?case
  proof (cases ts)
    case Nil
    with 1 show ?thesis by (subst (asm) (2) parse_loop.simps) (auto intro: exI [of _ "[]"])
  next
    case (Cons t it)
    with 1 have "parse_loop seen info (t # it) = Inr (seen', info', it')" by simp
    then obtain key s1 v s2 info1 rest where ts: "ts = field_tokens (key, s1, v, s2) @ rest" and key: "key \<notin> set seen"
      and v: "parse_value key info [v] = Inr (info1, [])" and rest: "parse_loop (seen @ [key]) info1 rest = Inr (seen', info', it')"
      unfolding Cons by (rule parse_loop_ConsD)
    from ts have "length rest < length ts" by simp
    with 1 rest obtain fs where "it' = []" "rest = concat (map field_tokens fs)" "run_fields fs info1 = Some info'"
      "seen' = seen @ [key] @ map fst fs" "distinct (map fst fs)" "set (map fst fs) \<inter> set (seen @ [key]) = {}"
      by (metis append.assoc)
    with ts key v show ?thesis by (intro conjI exI [of _ "(key, s1, v, s2) # fs"]) auto
  qed
qed

lemma parse_loop_complete:
  assumes "run_fields fs info = Some info'" and "distinct (map fst fs)" and "set (map fst fs) \<inter> set seen = {}"
  shows "parse_loop seen info (concat (map field_tokens fs)) = Inr (seen @ map fst fs, info', [])"
  using assms
proof (induction fs arbitrary: seen info)
  case Nil
  then show ?case by (subst parse_loop.simps) simp
next
  case (Cons f fs)
  obtain key s1 v s2 where f: "f = (key, s1, v, s2)" by (cases f)
  with Cons.prems(1) obtain info1 where v: "parse_value key info [v] = Inr (info1, [])" "run_fields fs info1 = Some info'"
    by (auto split: sum.splits prod.splits list.splits)
  with Cons f show ?case by (simp add: parse_loop_field del: field_tokens.simps)
qed

text \<open>Keys that are in the expected order are distinct and known.\<close>

lemma module_info_parse_iff:
  "module_info_parse ts = Inr info \<longleftrightarrow>
     (\<exists>fs. ts = concat (map field_tokens fs) \<and> run_fields fs module_info_default = Some info \<and>
        map fst fs = filter (\<lambda>k. k \<in> fst ` set fs) EXPECTED_KEYS \<and> set REQUIRED_KEYS \<subseteq> fst ` set fs)"
  (is "_ \<longleftrightarrow> (\<exists>fs. ?P fs)")
proof
  assume "module_info_parse ts = Inr info"
  then obtain seen it where "parse_loop [] module_info_default ts = Inr (seen, info, it)" "set REQUIRED_KEYS \<subseteq> set seen"
    "seen = filter (\<lambda>key. key \<in> set seen) EXPECTED_KEYS"
    by (auto simp: module_info_parse_def Let_def)
  with parse_loop_sound [OF this(1)] show "\<exists>fs. ?P fs" by auto
next
  assume "\<exists>fs. ?P fs"
  then obtain fs where fs: "?P fs" by blast
  have "distinct EXPECTED_KEYS" by (simp add: EXPECTED_KEYS_def)
  with fs have "distinct (map fst fs)" by (metis distinct_filter)
  with fs parse_loop_complete [of fs module_info_default info "[]"]
  have "parse_loop [] module_info_default ts = Inr (map fst fs, info, [])" by simp
  moreover have "set (map fst fs) = fst ` set fs" by simp
  ultimately show "module_info_parse ts = Inr info" using fs
    unfolding module_info_parse_def expect_end_def Let_def by (simp add: subset_iff del: set_map)
qed


subsection \<open>Writing a description\<close>

definition string_literal :: "string \<Rightarrow> token_tree" where
  "string_literal s = Literal (dquote # s @ [dquote])"

fun string_array_tokens :: "string list \<Rightarrow> tokens" where
  "string_array_tokens [] = []"
| "string_array_tokens [x] = [string_literal x]"
| "string_array_tokens (x # y # xs) = string_literal x # Punct (CHR '','') Alone # string_array_tokens (y # xs)"

definition plain_string :: "string \<Rightarrow> bool" where
  "plain_string s \<longleftrightarrow> backslash \<notin> set s"

definition plain_field :: "string \<Rightarrow> token_tree \<Rightarrow> field" where
  "plain_field k v = (k, Alone, v, Alone)"

definition opt_field :: "string \<Rightarrow> ('a \<Rightarrow> token_tree) \<Rightarrow> 'a option \<Rightarrow> field list" where
  "opt_field k g x = (case x of None \<Rightarrow> [] | Some y \<Rightarrow> [plain_field k (g y)])"

definition module_fields :: "module_info \<Rightarrow> field list" where
  "module_fields i =
      [plain_field ''type'' (Ident (mi_type i)), plain_field ''name'' (string_literal (mi_name i))] @
      opt_field ''author'' string_literal (mi_author i) @ opt_field ''description'' string_literal (mi_description i) @
      [plain_field ''license'' (string_literal (mi_license i))] @
      opt_field ''alias'' (\<lambda>xs. Group Bracket (string_array_tokens xs)) (mi_alias i) @
      opt_field ''firmware'' (\<lambda>xs. Group Bracket (string_array_tokens xs)) (mi_firmware i)"

definition module_info_ok :: "module_info \<Rightarrow> bool" where
  "module_info_ok i \<longleftrightarrow>
     plain_string (mi_name i) \<and> is_ascii (mi_name i) \<and> plain_string (mi_license i) \<and> is_ascii (mi_license i) \<and>
     (\<forall>a \<in> set_option (mi_author i) \<union> set_option (mi_description i). plain_string a) \<and>
     (\<forall>xs \<in> set_option (mi_alias i) \<union> set_option (mi_firmware i). \<forall>x \<in> set xs. plain_string x \<and> is_ascii x)"

lemma string_content_literal: "plain_string s \<Longrightarrow> string_content (dquote # s @ [dquote]) = Inr (Some s)"
  by (simp add: string_content_def starts_with_def ends_with_def plain_string_def)

lemma try_string_literal: "plain_string s \<Longrightarrow> try_string (string_literal s # it) = Inr (Some s, it)"
  by (simp add: try_string_def string_literal_def string_content_literal)

lemma string_array_loop_tokens:
  assumes "\<forall>x \<in> set xs. plain_string x \<and> is_ascii x"
  shows "string_array_loop vals (string_array_tokens xs) = Inr (vals @ xs)"
  using assms
proof (induction xs arbitrary: vals rule: string_array_tokens.induct)
  case 1
  then show ?case by (subst string_array_loop.simps) (simp add: try_string_def)
next
  case (2 x)
  then show ?case by (subst string_array_loop.simps) (simp add: try_string_literal)
next
  case (3 x y xs)
  then show ?case by (subst string_array_loop.simps) (simp add: try_string_literal)
qed

lemma parse_value_simps:
  "parse_value ''type'' i [Ident v] = Inr (i\<lparr>mi_type := v\<rparr>, [])"
  "plain_string v \<Longrightarrow> is_ascii v \<Longrightarrow> parse_value ''name'' i [string_literal v] = Inr (i\<lparr>mi_name := v\<rparr>, [])"
  "plain_string v \<Longrightarrow> parse_value ''author'' i [string_literal v] = Inr (i\<lparr>mi_author := Some v\<rparr>, [])"
  "plain_string v \<Longrightarrow> parse_value ''description'' i [string_literal v] = Inr (i\<lparr>mi_description := Some v\<rparr>, [])"
  "plain_string v \<Longrightarrow> is_ascii v \<Longrightarrow> parse_value ''license'' i [string_literal v] = Inr (i\<lparr>mi_license := v\<rparr>, [])"
  "\<forall>x \<in> set xs. plain_string x \<and> is_ascii x \<Longrightarrow>
     parse_value ''alias'' i [Group Bracket (string_array_tokens xs)] = Inr (i\<lparr>mi_alias := Some xs\<rparr>, [])"
  "\<forall>x \<in> set xs. plain_string x \<and> is_ascii x \<Longrightarrow>
     parse_value ''firmware'' i [Group Bracket (string_array_tokens xs)] = Inr (i\<lparr>mi_firmware := Some xs\<rparr>, [])"
  by (simp_all add: parse_value_def expect_ident_def expect_some_def expect_string_def expect_string_ascii_def
      expect_string_array_def try_string_literal string_array_loop_tokens)

lemma run_module_fields:
  assumes "module_info_ok i"
  shows "run_fields (module_fields i) module_info_default = Some i"
  using assms
  by (cases "mi_author i"; cases "mi_description i"; cases "mi_alias i"; cases "mi_firmware i")
    (simp_all add: module_fields_def opt_field_def plain_field_def module_info_ok_def parse_value_simps module_info_default_def)

lemma module_fields_keys:
  "map fst (module_fields i) = filter (\<lambda>k. k \<in> fst ` set (module_fields i)) EXPECTED_KEYS"
  "set REQUIRED_KEYS \<subseteq> fst ` set (module_fields i)"
  by (cases "mi_author i"; cases "mi_description i"; cases "mi_alias i"; cases "mi_firmware i";
      simp add: module_fields_def opt_field_def plain_field_def EXPECTED_KEYS_def REQUIRED_KEYS_def)+


subsection \<open>Entries of the \<open>.modinfo\<close> section\<close>

definition modinfo_fields :: "module_info \<Rightarrow> (string \<times> string) list" where
  "modinfo_fields i =
     map (Pair ''author'') (case mi_author i of None \<Rightarrow> [] | Some a \<Rightarrow> [a]) @
     map (Pair ''description'') (case mi_description i of None \<Rightarrow> [] | Some d \<Rightarrow> [d]) @
     [(''license'', mi_license i)] @
     map (Pair ''alias'') (case mi_alias i of None \<Rightarrow> [] | Some xs \<Rightarrow> xs) @
     map (Pair ''firmware'') (case mi_firmware i of None \<Rightarrow> [] | Some xs \<Rightarrow> xs)"

definition modinfo_line :: "string \<times> string \<Rightarrow> string" where
  "modinfo_line fc = fst fc @ ''='' @ snd fc @ [CHR 0x00]"

definition modinfo_inv :: "string \<Rightarrow> (string \<times> string) list \<Rightarrow> (string \<times> string) list \<Rightarrow> modinfo_builder \<Rightarrow> bool" where
  "modinfo_inv name loadable builtin b \<longleftrightarrow>
     mb_module b = name \<and>
     map me_static (mb_buffer b) = map (Pair (to_uppercase name)) [0..<mb_counter b] \<and>
     (\<forall>e \<in> set (mb_buffer b). me_length e = length (me_bytes e)) \<and>
     map me_bytes (filter me_loadable (mb_buffer b)) = map modinfo_line loadable \<and>
     map me_bytes (filter (\<lambda>e. \<not> me_loadable e) (mb_buffer b)) = map (\<lambda>fc. name @ ''.'' @ modinfo_line fc) builtin"

lemma modinfo_inv_new: "modinfo_inv name [] [] (builder_new name)"
  by (simp add: modinfo_inv_def builder_new_def)

lemma modinfo_inv_emit_base:
  "modinfo_inv name xs ys b \<Longrightarrow>
     modinfo_inv name (if builtin then xs else xs @ [(f, c)]) (if builtin then ys @ [(f, c)] else ys) (emit_base f c builtin b)"
  by (auto simp: modinfo_inv_def emit_base_def modinfo_line_def)

lemma modinfo_inv_emit: "modinfo_inv name xs xs b \<Longrightarrow> modinfo_inv name (xs @ [(f, c)]) (xs @ [(f, c)]) (emit f c b)"
  using modinfo_inv_emit_base [of name xs "xs @ [(f, c)]" "emit_base f c True b" False f c]
    modinfo_inv_emit_base [of name xs xs b True f c]
  by (simp add: emit_def emit_only_builtin_def emit_only_loadable_def)

lemma modinfo_inv_emits:
  "modinfo_inv name xs xs b \<Longrightarrow> modinfo_inv name (xs @ map (Pair f) cs) (xs @ map (Pair f) cs) (fold (emit f) cs b)"
proof (induction cs arbitrary: xs b)
  case (Cons c cs)
  from Cons.IH [OF modinfo_inv_emit [OF Cons.prems, of f c]] show ?case by simp
qed simp

lemma emit_opt_fold: "emit_opt f c b = fold (emit f) (case c of None \<Rightarrow> [] | Some c \<Rightarrow> [c]) b"
  by (simp add: emit_opt_def split: option.splits)

lemma emit_all_fold: "emit_all f cs b = fold (emit f) (case cs of None \<Rightarrow> [] | Some cs \<Rightarrow> cs) b"
  by (simp add: emit_all_def split: option.splits)

section \<open>Properties\<close>


text \<open>
  descriptions of modules survive being written and parsed. For every description whose strings have no backslash, with an ASCII name,
  license, aliases and firmware names, parsing its fields in the documented order gives the description back.
\<close>

lemma module_info_roundtrip:
  assumes "module_info_ok info"
  shows "module_info_parse (concat (map field_tokens (module_fields info))) = Inr info"
  unfolding module_info_parse_iff
  using run_module_fields [OF assms] module_fields_keys [of info] by blast

text \<open>
  the \<open>.modinfo\<close> section says what the description says. If the macro succeeds, its loadable entries are \<open>field=content\<close> with a closing zero
  byte for the author, the description, the license, each alias and each firmware, in this order; its built-in entries are the
  same with the name of the module in front, and the file of the module at the end; every static is declared with the
  length of its bytes, and no two statics have the same name.
\<close>

lemma module_modinfo_correct:
  assumes "module_info_parse ts = Inr info"
  shows "\<exists>code. module_macro (Some file) ts = Inr code \<and> mc_name code = mi_name info \<and> mc_type code = mi_type info \<and>
    map me_bytes (filter me_loadable (mc_modinfo code)) = map modinfo_line (modinfo_fields info) \<and>
    map me_bytes (filter (\<lambda>e. \<not> me_loadable e) (mc_modinfo code)) =
      map (\<lambda>fc. mi_name info @ ''.'' @ modinfo_line fc) (modinfo_fields info @ [(''file'', file)]) \<and>
    (\<forall>e \<in> set (mc_modinfo code). me_length e = length (me_bytes e)) \<and> distinct (map me_static (mc_modinfo code))"
proof -
  let ?opt = "\<lambda>c. case c of None \<Rightarrow> [] | Some c \<Rightarrow> [c]" and ?all = "\<lambda>cs. case cs of None \<Rightarrow> [] | Some cs \<Rightarrow> cs"
  let ?b = "fold (emit ''firmware'') (?all (mi_firmware info)) (fold (emit ''alias'') (?all (mi_alias info))
    (emit ''license'' (mi_license info) (fold (emit ''description'') (?opt (mi_description info))
      (fold (emit ''author'') (?opt (mi_author info)) (builder_new (mi_name info))))))"
  have "modinfo_inv (mi_name info) (modinfo_fields info) (modinfo_fields info) ?b"
    using modinfo_inv_emits [OF modinfo_inv_emits [OF modinfo_inv_emit [OF modinfo_inv_emits [OF modinfo_inv_emits
      [OF modinfo_inv_new [of "mi_name info"], of "''author''" "?opt (mi_author info)"], of "''description''" "?opt (mi_description info)"],
      of "''license''" "mi_license info"], of "''alias''" "?all (mi_alias info)"], of "''firmware''" "?all (mi_firmware info)"]
    by (simp add: modinfo_fields_def)
  from modinfo_inv_emit_base [OF this, of True "''file''" "file"]
  have inv: "modinfo_inv (mi_name info) (modinfo_fields info) (modinfo_fields info @ [(''file'', file)]) (emit_only_builtin ''file'' file ?b)"
    by (simp add: emit_only_builtin_def)
  have "module_macro (Some file) ts =
      Inr \<lparr>mc_name = mi_name info, mc_type = mi_type info, mc_modinfo = mb_buffer (emit_only_builtin ''file'' file ?b)\<rparr>"
    using assms by (simp add: module_macro_def Let_def emit_opt_fold emit_all_fold)
  moreover have "distinct (map (Pair (to_uppercase (mi_name info))) [0..<n])" for n by (simp add: distinct_map inj_on_def)
  ultimately show ?thesis using inv unfolding modinfo_inv_def by simp
qed

text \<open>
  The arrays are read up to the first token that is not a string; what follows is ignored. In \<open>alias: ["a", 5 b]\<close> the macro reads one
  alias and does not object.
\<close>

lemma string_array_ignores_rest:
  assumes "plain_string s" "is_ascii s"
  shows "expect_string_array [Group Bracket [string_literal s, Punct (CHR '','') Alone, Literal ''5'', Ident ''b'']] = Inr ([s], [])"
proof -
  have "try_string [Literal ''5'', Ident ''b''] = Inr (None, [Ident ''b''])"
    by (simp add: try_string_def string_content_def starts_with_def)
  then show ?thesis using assms
    by (simp add: expect_string_array_def string_array_loop.simps [of "[]"] string_array_loop.simps [of "[s]"] try_string_literal)
qed

end
