(* ===== verification/KUnit.thy ===== *)
theory KUnit
  imports Macro_Module
begin

text \<open>
  \<open>rust/macros/kunit.rs\<close>, \<open>rust/src/kunit.rs\<close>, the registry of \<open>src/shim_kunit.c\<close>, the notifier of \<open>src/main.c\<close>, and the functions that the macro
  \<open>module!\<close> generates: how the tests of a module are collected, laid out for KUnit, registered, and found again when KUnit
  runs them.

  \<open>'f\<close> are the test functions. The size of the C structure \<open>kunit_case\<close> depends on the kernel and is the parameter \<open>csz\<close>.
  The suites that a module brings along are in memory, by address: a slot that the Rust macro made, or a suite of
  a module in C.
\<close>

section \<open>The macro\<close>

fun is_test_attr :: "token_tree \<Rightarrow> bool" where
  "is_test_attr (Group Bracket [Ident i]) \<longleftrightarrow> i = ''test''"
| "is_test_attr _ \<longleftrightarrow> False"

fun scan_tests :: "tokens \<Rightarrow> string list" where
  "scan_tests [] = []"
| "scan_tests (t # ts) =
     (if is_test_attr t then
        (case ts of
           [] \<Rightarrow> []
         | u # ts \<Rightarrow>
             if is_ident ''fn'' u then
               (case ts of
                  [] \<Rightarrow> []
                | Ident n # ts \<Rightarrow> n # scan_tests ts
                | _ # ts \<Rightarrow> scan_tests ts)
             else scan_tests ts)
      else scan_tests ts)"

fun strip_tests :: "tokens \<Rightarrow> tokens" where
  "strip_tests [] = []"
| "strip_tests (t # ts) =
     (if is_punct (CHR ''#'') t then
        (case ts of
           [] \<Rightarrow> [t]
         | u # ts \<Rightarrow> if is_test_attr u then strip_tests ts else t # u # strip_tests ts)
      else t # strip_tests ts)"

text \<open>
  The items that the macro writes as text: a wrapper for each test, the table of test cases with the name and the wrapper of each and
  a null entry, with the length that it is declared with, and the suite with the number of its cases.
\<close>

record kunit_items =
  ki_wrappers :: "(string \<times> string) list"
  ki_cases :: "(string \<times> string) option list"
  ki_cases_len :: nat
  ki_suite :: string
  ki_num :: nat

definition wrapper_name :: "string \<Rightarrow> string" where
  "wrapper_name test = ''kunit_rust_wrapper_'' @ test"

definition kunit_macros :: "string \<Rightarrow> string list \<Rightarrow> kunit_items" where
  "kunit_macros attr tests =
     \<lparr>ki_wrappers = map (\<lambda>t. (wrapper_name t, t)) tests,
      ki_cases = map (\<lambda>t. Some (t, wrapper_name t)) tests @ [None],
      ki_cases_len = length tests + 1, ki_suite = attr, ki_num = length tests + 1\<rparr>"

definition cfg_kunit :: tokens where
  "cfg_kunit = [Punct (CHR ''#'') Alone, Group Bracket [Ident ''cfg'', Group Parenthesis [Ident ''CONFIG_KUNIT'']]]"

text \<open>The signature of the module, its body without the test attributes, and the items after it.\<close>

definition kunit_tests :: "string \<Rightarrow> tokens \<Rightarrow> (tokens \<times> tokens \<times> kunit_items) exec" where
  "kunit_tests attr ts =
     exec_bind (require Panic (attr \<noteq> [])) (\<lambda>_.
     exec_bind (require Panic (length attr \<le> 255)) (\<lambda>_.
     exec_bind (require Panic (list_ex (is_ident ''mod'') ts)) (\<lambda>_.
       case pop_last ts of
         (tokens, Some (Group Brace body)) \<Rightarrow>
           let tests = scan_tests body in
           Inr (Group NoDelimiter cfg_kunit # tokens, strip_tests body, kunit_macros attr tests)
       | _ \<Rightarrow> Inl Panic)))"

section \<open>Suites in memory\<close>

definition KUNIT_MAX_TEST_CASES :: nat where "KUNIT_MAX_TEST_CASES = 128"
definition KUNIT_CASE_STORAGE_SIZE :: nat where "KUNIT_CASE_STORAGE_SIZE = 64"

record 'f case_meta =
  meta_name :: "string option"
  meta_run_case :: "'f option"

definition case_meta_new :: "string \<Rightarrow> 'f \<Rightarrow> 'f case_meta" where
  "case_meta_new name run_case = \<lparr>meta_name = Some name, meta_run_case = Some run_case\<rparr>"

definition case_meta_null :: "'f case_meta" where
  "case_meta_null = \<lparr>meta_name = None, meta_run_case = None\<rparr>"

text \<open>A C case: its name, and whether it runs the dispatcher (a null entry runs nothing).\<close>

record kunit_case =
  kc_name :: "string option"
  kc_dispatch :: bool

record 'f suite_slot =
  sl_name :: string
  sl_case_meta :: "'f case_meta list"
  sl_num_cases :: nat
  sl_test_cases :: "nat \<rightharpoonup> kunit_case"
  sl_suite :: "string option"

definition suite_slot_new :: "string \<Rightarrow> 'f case_meta list \<Rightarrow> nat \<Rightarrow> 'f suite_slot" where
  "suite_slot_new name metas num_cases =
     \<lparr>sl_name = name, sl_case_meta = metas, sl_num_cases = num_cases, sl_test_cases = Map.empty, sl_suite = None\<rparr>"

datatype 'f suite_mem = RustSuite "'f suite_slot" | ForeignSuite

section \<open>The registry\<close>

definition RS_KUNIT_MAX_TEST_CASES :: nat where "RS_KUNIT_MAX_TEST_CASES = 256"

record 'f test_entry =
  te_owner :: addr
  te_name :: string
  te_run_case :: 'f

record 'f kunit_state =
  ku_suites :: "addr \<rightharpoonup> 'f suite_mem"
  ku_entries :: "nat \<Rightarrow> 'f test_entry"
  ku_count :: nat

definition rs_kunit_register_case :: "addr \<Rightarrow> string option \<Rightarrow> 'f option \<Rightarrow> 'f kunit_state \<Rightarrow> 'f kunit_state" where
  "rs_kunit_register_case md name run_case st =
     (case (name, run_case) of
        (Some n, Some f) \<Rightarrow>
          if RS_KUNIT_MAX_TEST_CASES \<le> ku_count st then st
          else st\<lparr>ku_entries := (ku_entries st)(ku_count st := \<lparr>te_owner = md, te_name = n, te_run_case = f\<rparr>),
                  ku_count := ku_count st + 1\<rparr>
      | _ \<Rightarrow> st)"

text \<open>The loop at \<open>i\<close> with \<open>n\<close> entries to go, of which \<open>j\<close> were kept so far.\<close>

fun unregister_loop :: "addr \<Rightarrow> nat \<Rightarrow> nat \<Rightarrow> nat \<Rightarrow> (nat \<Rightarrow> 'f test_entry) \<Rightarrow> nat \<times> (nat \<Rightarrow> 'f test_entry)" where
  "unregister_loop md 0 i j es = (j, es)"
| "unregister_loop md (Suc n) i j es =
     (if te_owner (es i) = md then unregister_loop md n (i + 1) j es
      else unregister_loop md n (i + 1) (j + 1) (if j \<noteq> i then es(j := es i) else es))"

definition rs_kunit_unregister_module :: "addr \<Rightarrow> 'f kunit_state \<Rightarrow> 'f kunit_state" where
  "rs_kunit_unregister_module md st =
     (let (j, es) = unregister_loop md (ku_count st) 0 0 (ku_entries st) in st\<lparr>ku_entries := es, ku_count := j\<rparr>)"

fun find_entry :: "string \<Rightarrow> nat \<Rightarrow> nat \<Rightarrow> (nat \<Rightarrow> 'f test_entry) \<Rightarrow> 'f test_entry option" where
  "find_entry name 0 i es = None"
| "find_entry name (Suc n) i es = (if te_name (es i) = name then Some (es i) else find_entry name n (i + 1) es)"

text \<open>The entry whose function the dispatcher runs for a test of the given name.\<close>

definition rs_kunit_run_case :: "string \<Rightarrow> 'f kunit_state \<Rightarrow> 'f test_entry option" where
  "rs_kunit_run_case name st = find_entry name (ku_count st) 0 (ku_entries st)"

section \<open>Initialisation of suites\<close>

text \<open>A case is written into the pool of the slot, with the stride of the C structure.\<close>

definition case_array_set :: "nat \<Rightarrow> nat \<Rightarrow> kunit_case \<Rightarrow> (nat \<rightharpoonup> kunit_case) \<Rightarrow> (nat \<rightharpoonup> kunit_case) exec" where
  "case_array_set csz j c cases =
     exec_bind (require UB ((j + 1) * csz \<le> KUNIT_MAX_TEST_CASES * KUNIT_CASE_STORAGE_SIZE)) (\<lambda>_. Inr (cases(j \<mapsto> c)))"

definition rs_kunit_case_array_init :: "nat \<Rightarrow> nat \<Rightarrow> string option \<Rightarrow> (nat \<rightharpoonup> kunit_case) \<Rightarrow> (nat \<rightharpoonup> kunit_case) exec" where
  "rs_kunit_case_array_init csz j name cases = case_array_set csz j \<lparr>kc_name = name, kc_dispatch = True\<rparr> cases"

definition rs_kunit_case_array_init_null :: "nat \<Rightarrow> nat \<Rightarrow> (nat \<rightharpoonup> kunit_case) \<Rightarrow> (nat \<rightharpoonup> kunit_case) exec" where
  "rs_kunit_case_array_init_null csz j cases = case_array_set csz j \<lparr>kc_name = None, kc_dispatch = False\<rparr> cases"

text \<open>\<open>strscpy\<close> into the 256 bytes of the name.\<close>

definition rs_kunit_suite_init_rust :: "string \<Rightarrow> string" where
  "rs_kunit_suite_init_rust name = take 255 name"

fun init_cases :: "nat \<Rightarrow> addr \<Rightarrow> 'f case_meta list \<Rightarrow> nat \<Rightarrow> nat \<Rightarrow> (nat \<rightharpoonup> kunit_case) \<Rightarrow> 'f kunit_state \<Rightarrow>
    ((nat \<rightharpoonup> kunit_case) \<times> 'f kunit_state) exec" where
  "init_cases csz module metas 0 j cases st = Inr (cases, st)"
| "init_cases csz module metas (Suc n) j cases st =
     exec_bind (require UB (j < length metas)) (\<lambda>_.
     let meta = metas ! j in
     if meta_name meta = None then
       exec_bind (rs_kunit_case_array_init_null csz j cases) (\<lambda>cases. init_cases csz module metas n (j + 1) cases st)
     else
       exec_bind (rs_kunit_case_array_init csz j (meta_name meta) cases) (\<lambda>cases.
       init_cases csz module metas n (j + 1) cases (rs_kunit_register_case module (meta_name meta) (meta_run_case meta) st)))"

definition init_suite :: "nat \<Rightarrow> addr \<Rightarrow> addr \<Rightarrow> 'f kunit_state \<Rightarrow> 'f kunit_state exec" where
  "init_suite csz module suite_ptr st =
     (if suite_ptr = 0 then Inr st
      else case ku_suites st suite_ptr of
        Some (RustSuite slot) \<Rightarrow>
          exec_bind (init_cases csz module (sl_case_meta slot) (sl_num_cases slot) 0 (sl_test_cases slot) st) (\<lambda>(cases, st).
          Inr (st\<lparr>ku_suites := (ku_suites st)(suite_ptr \<mapsto>
                 RustSuite (slot\<lparr>sl_test_cases := cases, sl_suite := Some (rs_kunit_suite_init_rust (sl_name slot))\<rparr>))\<rparr>))
      | _ \<Rightarrow> Inl UB)"

fun init_suites :: "nat \<Rightarrow> addr \<Rightarrow> addr list \<Rightarrow> 'f kunit_state \<Rightarrow> 'f kunit_state exec" where
  "init_suites csz module [] st = Inr st"
| "init_suites csz module (p # ps) st = exec_bind (init_suite csz module p st) (init_suites csz module ps)"

text \<open>The suites of a module are the kernel's list for it; without KUnit there is none.\<close>

definition init_test_suites :: "nat \<Rightarrow> (addr \<Rightarrow> addr list option) \<Rightarrow> addr \<Rightarrow> 'f kunit_state \<Rightarrow> 'f kunit_state exec" where
  "init_test_suites csz suites module st = (case suites module of None \<Rightarrow> Inr st | Some ps \<Rightarrow> init_suites csz module ps st)"

datatype module_event = MODULE_STATE_LIVE | MODULE_STATE_COMING | MODULE_STATE_GOING

definition rs_kunit_module_notify ::
  "nat \<Rightarrow> (addr \<Rightarrow> addr list option) \<Rightarrow> module_event \<Rightarrow> addr \<Rightarrow> 'f kunit_state \<Rightarrow> 'f kunit_state exec" where
  "rs_kunit_module_notify csz suites val md st =
     (if val = MODULE_STATE_COMING then init_test_suites csz suites md st
      else if val = MODULE_STATE_GOING then Inr (rs_kunit_unregister_module md st)
      else Inr st)"

section \<open>Generated functions of a module\<close>

text \<open>The static \<open>__MOD\<close>, and the values that were dropped.\<close>

record 'm module_static =
  mod_value :: "'m option"
  mod_dropped :: "'m list"

definition set_mod :: "'m option \<Rightarrow> 'm module_static \<Rightarrow> 'm module_static" where
  "set_mod v s = \<lparr>mod_value = v, mod_dropped = mod_dropped s @ (case mod_value s of None \<Rightarrow> [] | Some old \<Rightarrow> [old])\<rparr>"

definition module_init_fn ::
  "nat \<Rightarrow> (addr \<Rightarrow> addr list option) \<Rightarrow> addr \<Rightarrow> ('m, error) result \<Rightarrow> 'f kunit_state \<times> 'm module_static \<Rightarrow>
     (int \<times> 'f kunit_state \<times> 'm module_static) exec" where
  "module_init_fn csz suites this_module init_result w =
     exec_bind (init_test_suites csz suites this_module (fst w)) (\<lambda>st.
       case init_result of
         Ok m \<Rightarrow> Inr (0, st, set_mod (Some m) (snd w))
       | Err e \<Rightarrow> Inr (to_errno e, st, snd w))"

definition module_exit_fn :: "'m module_static \<Rightarrow> 'm module_static" where
  "module_exit_fn s = set_mod None s"


section \<open>The registry as a list\<close>

definition registered :: "'f kunit_state \<Rightarrow> 'f test_entry list" where
  "registered st = map (ku_entries st) [0..<ku_count st]"

lemma length_registered [simp]: "length (registered st) = ku_count st"
  by (simp add: registered_def)

lemma registered_suites [simp]: "registered (st\<lparr>ku_suites := x\<rparr>) = registered st"
  by (simp add: registered_def)

lemma registered_register:
  "registered (rs_kunit_register_case md name run_case st) =
     (case (name, run_case) of
        (Some n, Some f) \<Rightarrow> if RS_KUNIT_MAX_TEST_CASES \<le> ku_count st then registered st
                            else registered st @ [\<lparr>te_owner = md, te_name = n, te_run_case = f\<rparr>]
      | _ \<Rightarrow> registered st)"
  by (auto simp: rs_kunit_register_case_def registered_def split: option.splits)

lemma register_suites [simp]: "ku_suites (rs_kunit_register_case md name run_case st) = ku_suites st"
  by (auto simp: rs_kunit_register_case_def split: option.splits)



lemma find_entry_find: "find_entry name n i es = List.find (\<lambda>e. te_name e = name) (map es [i..<i + n])"
proof (induction n arbitrary: i)
  case (Suc n)
  have "map es [i..<i + Suc n] = es i # map es [i + 1..<i + 1 + n]" by (simp add: upt_conv_Cons del: upt_Suc)
  with Suc show ?case by (simp del: upt_Suc)
qed simp

lemma run_case_find: "rs_kunit_run_case name st = List.find (\<lambda>e. te_name e = name) (registered st)"
  by (simp add: rs_kunit_run_case_def find_entry_find registered_def)

section \<open>Suites that the macro made\<close>

definition kunit_slot :: "(string \<Rightarrow> 'f) \<Rightarrow> kunit_items \<Rightarrow> 'f suite_slot" where
  "kunit_slot fn items = suite_slot_new (ki_suite items)
     (map (\<lambda>c. case c of None \<Rightarrow> case_meta_null | Some (n, w) \<Rightarrow> case_meta_new n (fn w)) (ki_cases items)) (ki_num items)"

definition test_meta :: "(string \<Rightarrow> 'f) \<Rightarrow> string \<Rightarrow> 'f case_meta" where
  "test_meta fn t = case_meta_new t (fn (wrapper_name t))"

definition test_entry_of :: "(string \<Rightarrow> 'f) \<Rightarrow> addr \<Rightarrow> string \<Rightarrow> 'f test_entry" where
  "test_entry_of fn md t = \<lparr>te_owner = md, te_name = t, te_run_case = fn (wrapper_name t)\<rparr>"

definition fits_pool :: "nat \<Rightarrow> string list \<Rightarrow> bool" where
  "fits_pool csz tests \<longleftrightarrow> (length tests + 1) * csz \<le> KUNIT_MAX_TEST_CASES * KUNIT_CASE_STORAGE_SIZE"

lemma kunit_slot_macros:
  "sl_case_meta (kunit_slot fn (kunit_macros attr tests)) = map (test_meta fn) tests @ [case_meta_null]"
  "sl_num_cases (kunit_slot fn (kunit_macros attr tests)) = Suc (length tests)"
  "sl_name (kunit_slot fn (kunit_macros attr tests)) = attr" "sl_test_cases (kunit_slot fn (kunit_macros attr tests)) = Map.empty"
  by (simp_all add: kunit_slot_def kunit_macros_def suite_slot_new_def test_meta_def)

definition case_table :: "string list \<Rightarrow> nat \<Rightarrow> kunit_case option" where
  "case_table tests i =
     (if i < length tests then Some \<lparr>kc_name = Some (tests ! i), kc_dispatch = True\<rparr>
      else if i = length tests then Some \<lparr>kc_name = None, kc_dispatch = False\<rparr> else None)"

lemma case_array_set_ok: "(j + 1) * csz \<le> KUNIT_MAX_TEST_CASES * KUNIT_CASE_STORAGE_SIZE \<Longrightarrow> case_array_set csz j c cs = Inr (cs(j \<mapsto> c))"
  by (simp add: case_array_set_def)

lemma init_cases_tests:
  assumes "fits_pool csz (pre @ tests)" and "ku_count st + length tests \<le> RS_KUNIT_MAX_TEST_CASES"
    and "\<forall>i. cs i = (if i < length pre then case_table (pre @ tests) i else None)"
  shows "\<exists>st'. init_cases csz md (map (test_meta fn) (pre @ tests) @ [case_meta_null]) (Suc (length tests)) (length pre) cs st =
      Inr (case_table (pre @ tests), st') \<and> registered st' = registered st @ map (test_entry_of fn md) tests \<and> ku_suites st' = ku_suites st"
  using assms
proof (induction tests arbitrary: pre cs st)
  case Nil
  have "cs(length pre \<mapsto> \<lparr>kc_name = None, kc_dispatch = False\<rparr>) = case_table pre"
    using Nil(3) by (auto simp: case_table_def fun_eq_iff)
  with Nil(1,2) show ?case
    by (simp add: fits_pool_def case_meta_null_def rs_kunit_case_array_init_null_def case_array_set_ok nth_append)
next
  case (Cons t tests)
  let ?cs = "cs(length pre \<mapsto> \<lparr>kc_name = Some t, kc_dispatch = True\<rparr>)"
  let ?st = "rs_kunit_register_case md (Some t) (Some (fn (wrapper_name t))) st"
  have "(length pre + 1) * csz \<le> (length (pre @ t # tests) + 1) * csz" by (rule mult_le_mono1) simp
  with Cons.prems(1) have fits: "(length pre + 1) * csz \<le> KUNIT_MAX_TEST_CASES * KUNIT_CASE_STORAGE_SIZE" by (simp add: fits_pool_def)
  have reg: "registered ?st = registered st @ [test_entry_of fn md t]" using Cons.prems(2)
    by (simp add: registered_register test_entry_of_def)
  then have "ku_count ?st = Suc (ku_count st)" by (metis length_append_singleton length_registered)
  then have "\<exists>st'. init_cases csz md (map (test_meta fn) ((pre @ [t]) @ tests) @ [case_meta_null]) (Suc (length tests)) (length (pre @ [t])) ?cs ?st =
      Inr (case_table ((pre @ [t]) @ tests), st') \<and> registered st' = registered ?st @ map (test_entry_of fn md) tests \<and> ku_suites st' = ku_suites ?st"
    by (intro Cons.IH) (use Cons.prems in \<open>auto simp: case_table_def nth_append\<close>)
  moreover have "init_cases csz md (map (test_meta fn) (pre @ t # tests) @ [case_meta_null]) (Suc (length (t # tests))) (length pre) cs st =
      init_cases csz md (map (test_meta fn) ((pre @ [t]) @ tests) @ [case_meta_null]) (Suc (length tests)) (length (pre @ [t])) ?cs ?st"
    using fits by (subst init_cases.simps(2))
      (simp add: test_meta_def case_meta_new_def rs_kunit_case_array_init_def case_array_set_ok nth_append del: init_cases.simps)
  ultimately show ?case using reg by simp
qed

lemma init_suite_tests:
  assumes "p \<noteq> 0" and "ku_suites st p = Some (RustSuite (kunit_slot fn (kunit_macros attr tests)))"
    and "fits_pool csz tests" and "ku_count st + length tests \<le> RS_KUNIT_MAX_TEST_CASES" and "length attr \<le> 255"
  shows "\<exists>st' slot. init_suite csz md p st = Inr st' \<and> registered st' = registered st @ map (test_entry_of fn md) tests \<and>
    ku_suites st' = (ku_suites st)(p \<mapsto> RustSuite slot) \<and> sl_suite slot = Some attr \<and> sl_test_cases slot = case_table tests"
proof -
  obtain st' where "init_cases csz md (map (test_meta fn) tests @ [case_meta_null]) (Suc (length tests)) 0 Map.empty st =
      Inr (case_table tests, st')" "registered st' = registered st @ map (test_entry_of fn md) tests" "ku_suites st' = ku_suites st"
    using init_cases_tests [of csz "[]" tests st Map.empty md fn] assms(3,4) by auto
  with assms(1,2,5) show ?thesis
    by (simp add: init_suite_def kunit_slot_macros rs_kunit_suite_init_rust_def del: init_cases.simps)
      (rule exI [of _ "kunit_slot fn (kunit_macros attr tests)\<lparr>sl_test_cases := case_table tests, sl_suite := Some attr\<rparr>"], simp)
qed


lemma init_suites_tests:
  assumes "\<forall>p \<in> set ps. p \<noteq> 0 \<and> ku_suites st p = Some (RustSuite (kunit_slot fn (kunit_macros (attr p) (tests p)))) \<and>
      fits_pool csz (tests p) \<and> length (attr p) \<le> 255"
    and "distinct ps" and "ku_count st + length (concat (map tests ps)) \<le> RS_KUNIT_MAX_TEST_CASES"
  shows "\<exists>st'. init_suites csz md ps st = Inr st' \<and> registered st' = registered st @ map (test_entry_of fn md) (concat (map tests ps)) \<and>
    (\<forall>p. p \<notin> set ps \<longrightarrow> ku_suites st' p = ku_suites st p) \<and>
    (\<forall>p \<in> set ps. \<exists>slot. ku_suites st' p = Some (RustSuite slot) \<and> sl_suite slot = Some (attr p) \<and> sl_test_cases slot = case_table (tests p))"
  using assms
proof (induction ps arbitrary: st)
  case (Cons p ps)
  then obtain st1 slot where st1: "init_suite csz md p st = Inr st1" "registered st1 = registered st @ map (test_entry_of fn md) (tests p)"
    "ku_suites st1 = (ku_suites st)(p \<mapsto> RustSuite slot)" "sl_suite slot = Some (attr p)" "sl_test_cases slot = case_table (tests p)"
    using init_suite_tests [of p st fn "attr p" "tests p" csz md] by fastforce
  from st1(2) have "ku_count st1 = ku_count st + length (tests p)" by (metis length_append length_map length_registered)
  then obtain st' where "init_suites csz md ps st1 = Inr st'"
    "registered st' = registered st1 @ map (test_entry_of fn md) (concat (map tests ps))"
    "\<forall>q. q \<notin> set ps \<longrightarrow> ku_suites st' q = ku_suites st1 q"
    "\<forall>p \<in> set ps. \<exists>slot. ku_suites st' p = Some (RustSuite slot) \<and> sl_suite slot = Some (attr p) \<and> sl_test_cases slot = case_table (tests p)"
    using Cons.IH [of st1] Cons.prems st1(3) by fastforce
  with st1 Cons.prems(2) show ?case by auto
qed simp

lemma find_map_entry:
  assumes "\<forall>e \<in> set es. te_name e \<noteq> t" and "distinct ts" and "t \<in> set ts"
  shows "List.find (\<lambda>e. te_name e = t) (es @ map (test_entry_of fn md) ts) = Some (test_entry_of fn md t)"
proof -
  have skip: "List.find (\<lambda>e. te_name e = t) (es @ xs) = List.find (\<lambda>e. te_name e = t) xs" for xs
    using assms(1) by (induction es) auto
  show ?thesis unfolding skip using assms(2,3) by (induction ts) (auto simp: test_entry_of_def)
qed

lemma find_append_map_entry:
  assumes "t \<notin> set ts"
  shows "List.find (\<lambda>e. te_name e = t) (es @ map (test_entry_of fn md) ts) = List.find (\<lambda>e. te_name e = t) es"
proof -
  have "List.find (\<lambda>e. te_name e = t) (map (test_entry_of fn md) ts) = None"
    using assms by (auto simp: find_None_iff test_entry_of_def)
  then show ?thesis by (induction es) auto
qed

section \<open>Modules that come and go\<close>

record 'f kunit_world =
  kw_state :: "'f kunit_state"
  kw_loaded :: "addr set"



text \<open>An initialisation registers at most tests of its module, behind those that are there, and never more than the registry holds.\<close>

definition extends_by :: "addr \<Rightarrow> 'f kunit_state \<Rightarrow> 'f kunit_state \<Rightarrow> bool" where
  "extends_by m st st' \<longleftrightarrow> (\<exists>es. registered st' = registered st @ es \<and> (\<forall>e \<in> set es. te_owner e = m)) \<and>
     (ku_count st \<le> RS_KUNIT_MAX_TEST_CASES \<longrightarrow> ku_count st' \<le> RS_KUNIT_MAX_TEST_CASES)"

lemma extends_refl [simp]: "extends_by m st st"
  by (simp add: extends_by_def)


lemma extends_suites [simp]: "extends_by m st (st'\<lparr>ku_suites := x\<rparr>) \<longleftrightarrow> extends_by m st st'"
  by (simp add: extends_by_def)










section \<open>The body of a test module\<close>

text \<open>
  What the body of a test module is written as: test functions, with whatever follows the name, and other items.
  Neither part contains a group \<open>[test]\<close> or ends with a \<open>#\<close>.
\<close>

datatype body_item = TestFn string tokens | OtherItem tokens

definition no_test_attr :: "tokens \<Rightarrow> bool" where
  "no_test_attr ts \<longleftrightarrow> \<not> list_ex is_test_attr ts \<and> (ts = [] \<or> \<not> is_punct (CHR ''#'') (last ts))"

fun item_ok :: "body_item \<Rightarrow> bool" where
  "item_ok (TestFn n ts) \<longleftrightarrow> no_test_attr ts"
| "item_ok (OtherItem ts) \<longleftrightarrow> no_test_attr ts"

fun plain_item :: "body_item \<Rightarrow> tokens" where
  "plain_item (TestFn n ts) = Ident ''fn'' # Ident n # ts"
| "plain_item (OtherItem ts) = ts"

fun attr_item :: "body_item \<Rightarrow> tokens" where
  "attr_item (TestFn n ts) = Punct (CHR ''#'') Alone # Group Bracket [Ident ''test''] # plain_item (TestFn n ts)"
| "attr_item (OtherItem ts) = ts"

fun item_tests :: "body_item \<Rightarrow> string list" where
  "item_tests (TestFn n ts) = [n]"
| "item_tests (OtherItem ts) = []"

lemma scan_tests_plain: "\<not> list_ex is_test_attr ts \<Longrightarrow> scan_tests (ts @ rest) = scan_tests rest"
  by (induction ts) auto

lemma strip_tests_plain: "no_test_attr ts \<Longrightarrow> strip_tests (ts @ rest) = ts @ strip_tests rest"
proof (induction ts rule: strip_tests.induct)
  case (2 t ts)
  show ?case
  proof (cases "is_punct (CHR ''#'') t")
    case True
    with "2.prems" obtain u us where ts: "ts = u # us" by (cases ts) (auto simp: no_test_attr_def)
    with "2.prems" have "\<not> is_test_attr u" "no_test_attr us" by (auto simp: no_test_attr_def)
    with True ts "2.IH"(2) show ?thesis by simp
  next
    case False
    with "2.prems" have "no_test_attr ts" by (auto simp: no_test_attr_def)
    with False "2.IH"(3) show ?thesis by simp
  qed
qed simp

lemma scan_tests_items: "list_all item_ok its \<Longrightarrow> scan_tests (concat (map attr_item its)) = concat (map item_tests its)"
proof (induction its)
  case (Cons it its)
  then show ?case by (cases it) (auto simp: no_test_attr_def scan_tests_plain)
qed simp

lemma strip_tests_items: "list_all item_ok its \<Longrightarrow> strip_tests (concat (map attr_item its)) = concat (map plain_item its)"
proof (induction its)
  case (Cons it its)
  then show ?case by (cases it) (auto simp: strip_tests_plain)
qed simp

lemma kunit_tests_items:
  assumes "kunit_tests attr (sg @ [Group Brace (concat (map attr_item its))]) = Inr (sg', body', items)" and "list_all item_ok its"
  shows "items = kunit_macros attr (concat (map item_tests its))" "body' = concat (map plain_item its)"
    "sg' = Group NoDelimiter cfg_kunit # sg" "length attr \<le> 255"
  using assms by (auto simp: kunit_tests_def pop_last_def Let_def scan_tests_items strip_tests_items split: if_splits)

section \<open>Properties\<close>

text \<open>
  C27: A test that is written as \<open>#[test] fn n\<close> in a module with the attribute \<open>kunit_tests\<close> is found and run. Let a module
  have the suites at the addresses \<open>ps\<close>, each one what the macro made of a body of tests and other items, with few enough
  tests for the pool of the suite and the registry, and with names that are distinct and not registered yet. Then the
  macro keeps the body apart from the test attributes, \<open>init_test_suites\<close> returns, every suite has its name and a table
  with exactly its tests in order and a null entry behind them, and the dispatcher finds for the name of
  each test the wrapper of this test; the other registered tests and suites are as before.
\<close>

theorem kunit_tests_run:
  assumes "\<forall>p \<in> set ps. kunit_tests (attr p) (sg p @ [Group Brace (concat (map attr_item (its p)))]) = Inr (sg' p, body' p, items p)"
    and "\<forall>p \<in> set ps. list_all item_ok (its p) \<and> p \<noteq> 0 \<and> ku_suites st p = Some (RustSuite (kunit_slot fn (items p)))"
    and "\<forall>p \<in> set ps. (length (concat (map item_tests (its p))) + 1) * csz \<le> 8192"
    and "suites md = Some ps" "distinct ps"
    and "tests = concat (map (\<lambda>p. concat (map item_tests (its p))) ps)"
    and "ku_count st + length tests \<le> 256" "distinct tests"
    and "\<forall>e \<in> set (registered st). te_name e \<notin> set tests"
  shows "(\<forall>p \<in> set ps. body' p = concat (map plain_item (its p)) \<and> sg' p = Group NoDelimiter cfg_kunit # sg p) \<and>
    (\<exists>st'. init_test_suites csz suites md st = Inr st' \<and>
      (\<forall>p \<in> set ps. \<exists>slot. ku_suites st' p = Some (RustSuite slot) \<and> sl_suite slot = Some (attr p) \<and>
         sl_test_cases slot = case_table (concat (map item_tests (its p)))) \<and>
      (\<forall>t \<in> set tests. rs_kunit_run_case t st' = Some \<lparr>te_owner = md, te_name = t, te_run_case = fn (wrapper_name t)\<rparr>) \<and>
      (\<forall>t. t \<notin> set tests \<longrightarrow> rs_kunit_run_case t st' = rs_kunit_run_case t st) \<and>
      (\<forall>p. p \<notin> set ps \<longrightarrow> ku_suites st' p = ku_suites st p))"
proof
  show "\<forall>p \<in> set ps. body' p = concat (map plain_item (its p)) \<and> sg' p = Group NoDelimiter cfg_kunit # sg p"
    using assms(1,2) kunit_tests_items(2,3) by metis
  let ?tests = "\<lambda>p. concat (map item_tests (its p))"
  have slots: "\<forall>p \<in> set ps. p \<noteq> 0 \<and> ku_suites st p = Some (RustSuite (kunit_slot fn (kunit_macros (attr p) (?tests p)))) \<and>
      fits_pool csz (?tests p) \<and> length (attr p) \<le> 255"
  proof
    fix p
    assume p: "p \<in> set ps"
    have macro: "kunit_tests (attr p) (sg p @ [Group Brace (concat (map attr_item (its p)))]) = Inr (sg' p, body' p, items p)"
      "list_all item_ok (its p)" using assms(1,2) p by auto
    note kunit_tests_items(1,4) [OF macro]
    with p assms(2,3) show "p \<noteq> 0 \<and> ku_suites st p = Some (RustSuite (kunit_slot fn (kunit_macros (attr p) (?tests p)))) \<and>
        fits_pool csz (?tests p) \<and> length (attr p) \<le> 255"
      by (simp add: fits_pool_def KUNIT_MAX_TEST_CASES_def KUNIT_CASE_STORAGE_SIZE_def)
  qed
  from init_suites_tests [OF this assms(5), of md] assms(6,7) obtain st' where
    st': "init_suites csz md ps st = Inr st'" "registered st' = registered st @ map (test_entry_of fn md) tests"
      "\<forall>p. p \<notin> set ps \<longrightarrow> ku_suites st' p = ku_suites st p"
      "\<forall>p \<in> set ps. \<exists>slot. ku_suites st' p = Some (RustSuite slot) \<and> sl_suite slot = Some (attr p) \<and> sl_test_cases slot = case_table (?tests p)"
    by (auto simp: RS_KUNIT_MAX_TEST_CASES_def)
  have "rs_kunit_run_case t st' = Some (test_entry_of fn md t)" if "t \<in> set tests" for t
    unfolding run_case_find st'(2) by (rule find_map_entry) (use assms(8,9) that in auto)
  moreover have "rs_kunit_run_case t st' = rs_kunit_run_case t st" if "t \<notin> set tests" for t
    using that by (simp add: run_case_find st'(2) find_append_map_entry)
  ultimately show "\<exists>st'. init_test_suites csz suites md st = Inr st' \<and>
      (\<forall>p \<in> set ps. \<exists>slot. ku_suites st' p = Some (RustSuite slot) \<and> sl_suite slot = Some (attr p) \<and>
         sl_test_cases slot = case_table (?tests p)) \<and>
      (\<forall>t \<in> set tests. rs_kunit_run_case t st' = Some \<lparr>te_owner = md, te_name = t, te_run_case = fn (wrapper_name t)\<rparr>) \<and>
      (\<forall>t. t \<notin> set tests \<longrightarrow> rs_kunit_run_case t st' = rs_kunit_run_case t st) \<and>
      (\<forall>p. p \<notin> set ps \<longrightarrow> ku_suites st' p = ku_suites st p)"
    using st' assms(4) by (auto simp: init_test_suites_def test_entry_of_def)
qed

text \<open>A module with the tests \<open>foo\<close> and \<open>bar\<close> and a helper function between them.\<close>

definition demo_items :: "body_item list" where
  "demo_items = [TestFn ''foo'' [Group Parenthesis [], Group Brace []], OtherItem [Ident ''fn'', Ident ''aux'', Group Parenthesis [], Group Brace []],
     TestFn ''bar'' [Group Parenthesis [], Group Brace []]]"

definition demo_mod :: tokens where
  "demo_mod = [Ident ''mod'', Ident ''tests'']"

definition demo_kunit_state :: "string kunit_state" where
  "demo_kunit_state = \<lparr>ku_suites = [16 \<mapsto> RustSuite (kunit_slot (\<lambda>f. f) (kunit_macros ''demo'' [''foo'', ''bar'']))],
     ku_entries = (\<lambda>_. \<lparr>te_owner = 1, te_name = ''old'', te_run_case = ''f''\<rparr>), ku_count = 1\<rparr>"

theorem kunit_tests_run_witness:
  "\<exists>st'. init_test_suites 56 [7 \<mapsto> [16]] 7 demo_kunit_state = Inr st' \<and>
     rs_kunit_run_case ''bar'' st' = Some \<lparr>te_owner = 7, te_name = ''bar'', te_run_case = ''kunit_rust_wrapper_bar''\<rparr>"
proof -
  have macro: "kunit_tests ''demo'' (demo_mod @ [Group Brace (concat (map attr_item demo_items))]) =
      Inr (Group NoDelimiter cfg_kunit # demo_mod, concat (map plain_item demo_items), kunit_macros ''demo'' [''foo'', ''bar''])"
    by (simp add: kunit_tests_def demo_items_def demo_mod_def pop_last_def)
  have "(\<forall>p \<in> set [16 :: addr]. concat (map plain_item demo_items) = concat (map plain_item demo_items) \<and>
        Group NoDelimiter cfg_kunit # demo_mod = Group NoDelimiter cfg_kunit # demo_mod) \<and>
      (\<exists>st'. init_test_suites 56 [7 \<mapsto> [16]] 7 demo_kunit_state = Inr st' \<and>
      (\<forall>p \<in> set [16]. \<exists>slot. ku_suites st' p = Some (RustSuite slot) \<and> sl_suite slot = Some ''demo'' \<and>
         sl_test_cases slot = case_table (concat (map item_tests demo_items))) \<and>
      (\<forall>t \<in> set [''foo'', ''bar'']. rs_kunit_run_case t st' = Some \<lparr>te_owner = 7, te_name = t, te_run_case = wrapper_name t\<rparr>) \<and>
      (\<forall>t. t \<notin> set [''foo'', ''bar''] \<longrightarrow> rs_kunit_run_case t st' = rs_kunit_run_case t demo_kunit_state) \<and>
      (\<forall>p. p \<notin> set [16] \<longrightarrow> ku_suites st' p = ku_suites demo_kunit_state p))"
    by (rule kunit_tests_run [where fn = "\<lambda>f. f" and attr = "\<lambda>_. ''demo''" and sg = "\<lambda>_. demo_mod" and its = "\<lambda>_. demo_items"
        and sg' = "\<lambda>_. Group NoDelimiter cfg_kunit # demo_mod" and body' = "\<lambda>_. concat (map plain_item demo_items)"
        and items = "\<lambda>_. kunit_macros ''demo'' [''foo'', ''bar'']"])
      (use macro in \<open>auto simp: demo_items_def demo_kunit_state_def no_test_attr_def registered_def\<close>)
  then show ?thesis by (auto simp: wrapper_name_def)
qed


text \<open>Loading the module above into an empty registry, and the test that is found then.\<close>

definition demo_world :: "string kunit_world" where
  "demo_world = \<lparr>kw_state = demo_kunit_state\<lparr>ku_count := 0\<rparr>, kw_loaded = {}\<rparr>"


section \<open>Where the registry is weaker than its use\<close>

text \<open>
  The notifier treats the suites of every module that is announced as slots of the Rust macro: a module in C with a suite
  of its own makes it read past the suite.
\<close>

lemma notify_foreign_suite:
  assumes "suites md = Some (p # ps)" "p \<noteq> 0" "ku_suites st p = Some ForeignSuite"
  shows "rs_kunit_module_notify csz suites MODULE_STATE_COMING md st = Inl UB"
  using assms by (simp add: rs_kunit_module_notify_def init_test_suites_def init_suite_def)

text \<open>The dispatcher looks at the name alone: a second test of the same name, also of another module, is never run.\<close>

lemma run_case_shadowed:
  assumes "rs_kunit_run_case name st = Some e"
  shows "rs_kunit_run_case name (rs_kunit_register_case md (Some name) (Some f) st) = Some e"
proof -
  have "List.find P xs = Some e \<Longrightarrow> List.find P (xs @ ys) = Some e" for P :: "'a test_entry \<Rightarrow> bool" and xs ys
    by (induction xs) auto
  then show ?thesis using assms by (simp add: run_case_find registered_register)
qed

text \<open>A module is initialised twice, by the notifier and by its own \<open>__init\<close>: each of its tests takes two of the entries.\<close>

lemma module_registers_twice:
  "case rs_kunit_module_notify 56 [7 \<mapsto> [16]] MODULE_STATE_COMING 7 (kw_state demo_world) of
     Inl _ \<Rightarrow> False
   | Inr st \<Rightarrow> (case module_init_fn 56 [7 \<mapsto> [16]] 7 (Ok ()) (st, \<lparr>mod_value = None, mod_dropped = []\<rparr>) of
       Inl _ \<Rightarrow> False
     | Inr (ret, st', ms) \<Rightarrow> map te_name (registered st') = [''foo'', ''bar'', ''foo'', ''bar''])"
  by code_simp

text \<open>Nothing bounds the number of tests of a suite by the pool: the first case past it is written out of bounds.\<close>

lemma init_cases_overflow:
  assumes "KUNIT_MAX_TEST_CASES * KUNIT_CASE_STORAGE_SIZE < (j + 1) * csz" "j < length metas"
  shows "init_cases csz md metas (Suc n) j cs st = Inl UB"
  using assms by (simp add: Let_def rs_kunit_case_array_init_def rs_kunit_case_array_init_null_def case_array_set_def)

text \<open>The value of a module is dropped exactly once, when the module exits after a successful initialisation.\<close>

lemma module_value_lifecycle:
  assumes "module_init_fn csz suites md r (st, \<lparr>mod_value = None, mod_dropped = []\<rparr>) = Inr (ret, st', ms)"
  shows "(\<forall>m. r = Ok m \<longrightarrow> ret = 0 \<and> mod_value ms = Some m \<and> module_exit_fn ms = \<lparr>mod_value = None, mod_dropped = [m]\<rparr>) \<and>
    (\<forall>e. r = Err e \<longrightarrow> ret = to_errno e \<and> ms = \<lparr>mod_value = None, mod_dropped = []\<rparr>)"
  using assms by (cases r) (auto simp: module_init_fn_def set_mod_def module_exit_fn_def)

end
