(* ===== verification/Misc_Device.thy ===== *)
theory Misc_Device
  imports Kernel_Types
begin

text \<open>
  \<open>rust/src/miscdevice.rs\<close>, with the allocation of devices in \<open>src/shim_fs_misc.c\<close>: character devices whose callbacks are methods of a
  Rust type.

  A driver is the record of its methods over a state \<open>'d\<close>, with \<open>None\<close> for those it does not implement; \<open>'p\<close> is its private data \<open>Ptr\<close>. A function pointer in a table
  of operations is the name of the callback. The list of registered devices, the allocator and the user buffers are the kernel's: its functions are parameters.
\<close>

section \<open>Drivers\<close>

text \<open>
  A method that is given a reference whose target may not be initialised gets the outcome of reading it as
  argument, and fails when it looks at it too early.
\<close>

record kiocb =
  ki_filp :: addr
  ki_pos :: int

record ('p, 'd, 'i) misc_driver =
  drv_open :: "addr \<Rightarrow> addr exec \<Rightarrow> 'd \<Rightarrow> (('p, error) result \<times> 'd) exec"
  drv_release :: "'p \<Rightarrow> addr \<Rightarrow> 'd \<Rightarrow> 'd exec"
  drv_mmap :: "('p \<Rightarrow> addr \<Rightarrow> addr \<Rightarrow> 'd \<Rightarrow> ((unit, error) result \<times> 'd) exec) option"
  drv_llseek :: "('p \<Rightarrow> addr \<Rightarrow> int \<Rightarrow> int \<Rightarrow> 'd \<Rightarrow> ((int, error) result \<times> 'd) exec) option"
  drv_read_iter :: "('p exec \<Rightarrow> kiocb \<Rightarrow> 'i \<Rightarrow> 'd \<Rightarrow> ((usize, error) result \<times> kiocb \<times> 'i \<times> 'd) exec) option"
  drv_write_iter :: "('p exec \<Rightarrow> kiocb \<Rightarrow> 'i \<Rightarrow> 'd \<Rightarrow> ((usize, error) result \<times> kiocb \<times> 'i \<times> 'd) exec) option"
  drv_ioctl :: "('p \<Rightarrow> addr \<Rightarrow> u32 \<Rightarrow> usize \<Rightarrow> 'd \<Rightarrow> ((int, error) result \<times> 'd) exec) option"
  drv_compat_ioctl :: "('p \<Rightarrow> addr \<Rightarrow> u32 \<Rightarrow> usize \<Rightarrow> 'd \<Rightarrow> ((int, error) result \<times> 'd) exec) option"
  drv_show_fdinfo :: "('p \<Rightarrow> addr \<Rightarrow> addr \<Rightarrow> 'd \<Rightarrow> 'd exec) option"

text \<open>\<open>release\<close> of a driver that does not define it drops the private data.\<close>

definition release_default :: "('p \<Rightarrow> 'd \<Rightarrow> 'd exec) \<Rightarrow> 'p \<Rightarrow> addr \<Rightarrow> 'd \<Rightarrow> 'd exec" where
  "release_default drop_ptr device fl d = drop_ptr device d"

section \<open>Tables of operations\<close>

datatype callback = CbOpen | CbRelease | CbMmap | CbLlseek | CbReadIter | CbWriteIter | CbIoctl | CbCompatIoctl
  | CompatPtrIoctl | CbShowFdinfo

record misc_fops =
  fo_open :: "callback option"
  fo_release :: "callback option"
  fo_mmap :: "callback option"
  fo_llseek :: "callback option"
  fo_read_iter :: "callback option"
  fo_write_iter :: "callback option"
  fo_unlocked_ioctl :: "callback option"
  fo_compat_ioctl :: "callback option"
  fo_show_fdinfo :: "callback option"

definition fops_build :: "('p, 'd, 'i) misc_driver \<Rightarrow> misc_fops" where
  "fops_build D =
     \<lparr>fo_open = Some CbOpen,
      fo_release = Some CbRelease,
      fo_mmap = (if drv_mmap D \<noteq> None then Some CbMmap else None),
      fo_llseek = (if drv_llseek D \<noteq> None then Some CbLlseek else None),
      fo_read_iter = (if drv_read_iter D \<noteq> None then Some CbReadIter else None),
      fo_write_iter = (if drv_write_iter D \<noteq> None then Some CbWriteIter else None),
      fo_unlocked_ioctl = (if drv_ioctl D \<noteq> None then Some CbIoctl else None),
      fo_compat_ioctl =
        (if drv_compat_ioctl D \<noteq> None then Some CbCompatIoctl
         else if drv_ioctl D \<noteq> None then Some CompatPtrIoctl else None),
      fo_show_fdinfo = (if drv_show_fdinfo D \<noteq> None then Some CbShowFdinfo else None)\<rparr>"

section \<open>The state\<close>

definition MISC_DYNAMIC_MINOR :: int where "MISC_DYNAMIC_MINOR = 255"

record misc_priv =
  mp_minor :: int
  mp_name :: string
  mp_fops :: misc_fops
  mp_owner :: addr

text \<open>An open file: its private data, and the device in whose block its table of operations is.\<close>

record misc_file =
  fl_private :: addr
  fl_fops :: addr

text \<open>
  The blocks of the devices, the memory of registrations (\<open>Some None\<close> before it is written), the open files, and the states of the
  kernel and of the driver.
\<close>

record ('d, 'k) misc_world =
  mw_privs :: "addr \<rightharpoonup> misc_priv"
  mw_slots :: "addr \<rightharpoonup> addr option"
  mw_files :: "addr \<rightharpoonup> misc_file"
  mw_kernel :: 'k
  mw_drv :: 'd

record 'k c_misc =
  c_kzalloc :: "addr set \<Rightarrow> addr"
  c_misc_register :: "addr \<Rightarrow> 'k \<Rightarrow> int \<times> 'k"
  c_misc_deregister :: "addr \<Rightarrow> 'k \<Rightarrow> 'k"
  c_generic_file_open :: "addr \<Rightarrow> 'k \<Rightarrow> int"

record 'p foreign_ops =
  for_into :: "'p \<Rightarrow> addr"
  for_from :: "addr \<Rightarrow> 'p exec"
  for_borrow :: "addr \<Rightarrow> 'p exec"

section \<open>Registration\<close>

text \<open>The device is the first member of its block, so \<open>container_of\<close> is the identity on addresses.\<close>

definition rs_miscdevice_init ::
  "'k c_misc \<Rightarrow> string option \<Rightarrow> misc_fops option \<Rightarrow> addr \<Rightarrow> ('d, 'k) misc_world \<Rightarrow> addr \<times> ('d, 'k) misc_world" where
  "rs_miscdevice_init K name fops owner w =
     (case (name, fops) of
        (Some n, Some f) \<Rightarrow>
          let priv = c_kzalloc K (dom (mw_privs w)) in
          if priv = 0 then (0, w)
          else (priv, w\<lparr>mw_privs := (mw_privs w)(priv \<mapsto>
                 \<lparr>mp_minor = MISC_DYNAMIC_MINOR, mp_name = n, mp_fops = f, mp_owner = owner\<rparr>)\<rparr>)
      | _ \<Rightarrow> (0, w))"

definition rs_miscdevice_free :: "addr \<Rightarrow> ('d, 'k) misc_world \<Rightarrow> ('d, 'k) misc_world exec" where
  "rs_miscdevice_free misc w =
     (if misc = 0 then Inr w
      else exec_bind (require UB (misc \<in> dom (mw_privs w))) (\<lambda>_. Inr (w\<lparr>mw_privs := (mw_privs w)(misc := None)\<rparr>)))"

definition rs_miscdevice_owner :: "addr \<Rightarrow> ('d, 'k) misc_world \<Rightarrow> addr exec" where
  "rs_miscdevice_owner misc w =
     (if misc = 0 then Inr 0
      else case mw_privs w misc of None \<Rightarrow> Inl UB | Some priv \<Rightarrow> Inr (mp_owner priv))"

definition misc_into_raw ::
  "'k c_misc \<Rightarrow> ('p, 'd, 'i) misc_driver \<Rightarrow> string \<Rightarrow> addr \<Rightarrow> ('d, 'k) misc_world \<Rightarrow> (addr, error) result \<times> ('d, 'k) misc_world" where
  "misc_into_raw K D name owner w =
     (let fops = fops_build D;
          (misc, w) = rs_miscdevice_init K (Some name) (Some fops) owner w
      in if misc = 0 then (Err ENOMEM, w) else (Ok misc, w))"

text \<open>
  \<open>register\<close> up to the registration with the kernel, and the write of the slot behind it: the device can be opened
  between the two.
\<close>

definition register_device ::
  "'k c_misc \<Rightarrow> ('p, 'd, 'i) misc_driver \<Rightarrow> string \<Rightarrow> addr \<Rightarrow> ('d, 'k) misc_world \<Rightarrow> ((addr, error) result \<times> ('d, 'k) misc_world) exec" where
  "register_device K D name slot w =
     (case misc_into_raw K D name slot w of
        (Err e, w) \<Rightarrow> Inr (Err e, w)
      | (Ok misc, w) \<Rightarrow>
          let (ret, k) = c_misc_register K misc (mw_kernel w); w = w\<lparr>mw_kernel := k\<rparr> in
          if ret < 0 then exec_bind (rs_miscdevice_free misc w) (\<lambda>w. Inr (Err (from_errno ret), w))
          else Inr (Ok misc, w))"

definition registration_write :: "addr \<Rightarrow> addr \<Rightarrow> ('d, 'k) misc_world \<Rightarrow> ('d, 'k) misc_world exec" where
  "registration_write slot misc w =
     exec_bind (require UB (slot \<in> dom (mw_slots w))) (\<lambda>_. Inr (w\<lparr>mw_slots := (mw_slots w)(slot \<mapsto> Some misc)\<rparr>))"

definition misc_register ::
  "'k c_misc \<Rightarrow> ('p, 'd, 'i) misc_driver \<Rightarrow> string \<Rightarrow> addr \<Rightarrow> ('d, 'k) misc_world \<Rightarrow> ((unit, error) result \<times> ('d, 'k) misc_world) exec" where
  "misc_register K D name slot w =
     exec_bind (register_device K D name slot w) (\<lambda>(r, w).
       case r of
         Err e \<Rightarrow> Inr (Err e, w)
       | Ok misc \<Rightarrow> exec_bind (registration_write slot misc w) (\<lambda>w. Inr (Ok (), w)))"

definition registration_as_raw :: "addr \<Rightarrow> ('d, 'k) misc_world \<Rightarrow> addr exec" where
  "registration_as_raw slot w = (case mw_slots w slot of Some (Some misc) \<Rightarrow> Inr misc | _ \<Rightarrow> Inl UB)"

text \<open>\<open>drop\<close> of the registration, after which its memory is gone.\<close>

definition registration_drop :: "'k c_misc \<Rightarrow> addr \<Rightarrow> ('d, 'k) misc_world \<Rightarrow> ('d, 'k) misc_world exec" where
  "registration_drop K slot w =
     exec_bind (registration_as_raw slot w) (\<lambda>misc.
     exec_bind (rs_miscdevice_free misc (w\<lparr>mw_kernel := c_misc_deregister K misc (mw_kernel w)\<rparr>)) (\<lambda>w.
     Inr (w\<lparr>mw_slots := (mw_slots w)(slot := None)\<rparr>)))"

section \<open>Callbacks\<close>

definition rs_file_private_data :: "addr \<Rightarrow> ('d, 'k) misc_world \<Rightarrow> addr exec" where
  "rs_file_private_data f w = (case mw_files w f of None \<Rightarrow> Inl UB | Some fl \<Rightarrow> Inr (fl_private fl))"

definition rs_file_set_private_data :: "addr \<Rightarrow> addr \<Rightarrow> ('d, 'k) misc_world \<Rightarrow> ('d, 'k) misc_world exec" where
  "rs_file_set_private_data f data w =
     (case mw_files w f of None \<Rightarrow> Inl UB | Some fl \<Rightarrow> Inr (w\<lparr>mw_files := (mw_files w)(f \<mapsto> fl\<lparr>fl_private := data\<rparr>)\<rparr>))"

definition fops_open ::
  "'k c_misc \<Rightarrow> 'p foreign_ops \<Rightarrow> ('p, 'd, 'i) misc_driver \<Rightarrow> addr \<Rightarrow> ('d, 'k) misc_world \<Rightarrow> (int \<times> ('d, 'k) misc_world) exec" where
  "fops_open K F D raw_file w =
     (let ret = c_generic_file_open K raw_file (mw_kernel w) in
      if ret \<noteq> 0 then Inr (ret, w)
      else
        exec_bind (rs_file_private_data raw_file w) (\<lambda>misc_ptr.
        exec_bind (rs_miscdevice_owner misc_ptr w) (\<lambda>owner.
        exec_bind (require UB (owner \<in> dom (mw_slots w))) (\<lambda>_.
        exec_bind (drv_open D raw_file (registration_as_raw owner w) (mw_drv w)) (\<lambda>(r, d).
        let w = w\<lparr>mw_drv := d\<rparr> in
        case r of
          Err e \<Rightarrow> Inr (to_errno e, w)
        | Ok ptr \<Rightarrow> exec_bind (rs_file_set_private_data raw_file (for_into F ptr) w) (\<lambda>w. Inr (0, w)))))))"

definition fops_release ::
  "'p foreign_ops \<Rightarrow> ('p, 'd, 'i) misc_driver \<Rightarrow> addr \<Rightarrow> ('d, 'k) misc_world \<Rightarrow> (int \<times> ('d, 'k) misc_world) exec" where
  "fops_release F D f w =
     exec_bind (rs_file_private_data f w) (\<lambda>private.
     exec_bind (for_from F private) (\<lambda>ptr.
     exec_bind (drv_release D ptr f (mw_drv w)) (\<lambda>d.
     Inr (0, w\<lparr>mw_drv := d\<rparr>))))"

text \<open>The callbacks that borrow the private data and hand it to a method of the driver, whose error becomes the C return value.\<close>

definition with_device ::
  "'p foreign_ops \<Rightarrow> addr \<Rightarrow> ('p \<Rightarrow> 'd \<Rightarrow> ('a \<times> 'd) exec) \<Rightarrow> ('d, 'k) misc_world \<Rightarrow> ('a \<times> ('d, 'k) misc_world) exec" where
  "with_device F f m w =
     exec_bind (rs_file_private_data f w) (\<lambda>private.
     exec_bind (for_borrow F private) (\<lambda>device.
     exec_bind (m device (mw_drv w)) (\<lambda>(r, d).
     Inr (r, w\<lparr>mw_drv := d\<rparr>))))"

fun errno_or :: "('a \<Rightarrow> int) \<Rightarrow> ('a, error) result \<Rightarrow> int" where
  "errno_or f (Ok x) = f x"
| "errno_or f (Err e) = to_errno e"

definition map_exec :: "('a \<Rightarrow> 'b) \<Rightarrow> ('a \<times> 'w) exec \<Rightarrow> ('b \<times> 'w) exec" where
  "map_exec f m = exec_bind m (\<lambda>(r, w). Inr (f r, w))"

definition fops_mmap ::
  "'p foreign_ops \<Rightarrow> ('p \<Rightarrow> addr \<Rightarrow> addr \<Rightarrow> 'd \<Rightarrow> ((unit, error) result \<times> 'd) exec) \<Rightarrow> addr \<Rightarrow> addr \<Rightarrow> ('d, 'k) misc_world \<Rightarrow>
     (int \<times> ('d, 'k) misc_world) exec" where
  "fops_mmap F m f vma w = map_exec (errno_or (\<lambda>_. 0)) (with_device F f (\<lambda>device. m device f vma) w)"

definition fops_llseek ::
  "'p foreign_ops \<Rightarrow> ('p \<Rightarrow> addr \<Rightarrow> int \<Rightarrow> int \<Rightarrow> 'd \<Rightarrow> ((int, error) result \<times> 'd) exec) \<Rightarrow> addr \<Rightarrow> int \<Rightarrow> int \<Rightarrow>
     ('d, 'k) misc_world \<Rightarrow> (int \<times> ('d, 'k) misc_world) exec" where
  "fops_llseek F m f offset whence w = map_exec (errno_or (\<lambda>res. res)) (with_device F f (\<lambda>device. m device f offset whence) w)"

definition fops_ioctl ::
  "'p foreign_ops \<Rightarrow> ('p \<Rightarrow> addr \<Rightarrow> u32 \<Rightarrow> usize \<Rightarrow> 'd \<Rightarrow> ((int, error) result \<times> 'd) exec) \<Rightarrow> addr \<Rightarrow> u32 \<Rightarrow> usize \<Rightarrow>
     ('d, 'k) misc_world \<Rightarrow> (int \<times> ('d, 'k) misc_world) exec" where
  "fops_ioctl F m f cmd arg w = map_exec (errno_or (\<lambda>ret. ret)) (with_device F f (\<lambda>device. m device f cmd arg) w)"

definition fops_compat_ioctl ::
  "'p foreign_ops \<Rightarrow> ('p \<Rightarrow> addr \<Rightarrow> u32 \<Rightarrow> usize \<Rightarrow> 'd \<Rightarrow> ((int, error) result \<times> 'd) exec) \<Rightarrow> addr \<Rightarrow> u32 \<Rightarrow> usize \<Rightarrow>
     ('d, 'k) misc_world \<Rightarrow> (int \<times> ('d, 'k) misc_world) exec" where
  "fops_compat_ioctl F m f cmd arg w = map_exec (errno_or (\<lambda>ret. ret)) (with_device F f (\<lambda>device. m device f cmd arg) w)"

definition fops_show_fdinfo ::
  "'p foreign_ops \<Rightarrow> ('p \<Rightarrow> addr \<Rightarrow> addr \<Rightarrow> 'd \<Rightarrow> 'd exec) \<Rightarrow> addr \<Rightarrow> addr \<Rightarrow> ('d, 'k) misc_world \<Rightarrow> (unit \<times> ('d, 'k) misc_world) exec" where
  "fops_show_fdinfo F m seq_file f w = with_device F f (\<lambda>device d. exec_bind (m device seq_file f d) (\<lambda>d. Inr ((), d))) w"

text \<open>\<open>usize as isize\<close>.\<close>

definition as_isize :: "usize \<Rightarrow> int" where
  "as_isize n = (if n \<le> isize_max then int n else int n - 2 ^ 64)"

definition kiocb_private_data :: "'p foreign_ops \<Rightarrow> kiocb \<Rightarrow> ('d, 'k) misc_world \<Rightarrow> 'p exec" where
  "kiocb_private_data F io w =
     (let f = ki_filp io in exec_bind (rs_file_private_data f w) (\<lambda>private. for_borrow F private))"

definition kiocb_set_ki_pos :: "kiocb \<Rightarrow> int \<Rightarrow> kiocb" where
  "kiocb_set_ki_pos io v = io\<lparr>ki_pos := v\<rparr>"

definition fops_read_iter ::
  "'p foreign_ops \<Rightarrow> ('p exec \<Rightarrow> kiocb \<Rightarrow> 'i \<Rightarrow> 'd \<Rightarrow> ((usize, error) result \<times> kiocb \<times> 'i \<times> 'd) exec) \<Rightarrow> kiocb \<Rightarrow> 'i \<Rightarrow>
     ('d, 'k) misc_world \<Rightarrow> (int \<times> kiocb \<times> 'i \<times> ('d, 'k) misc_world) exec" where
  "fops_read_iter F m io iov w =
     exec_bind (m (kiocb_private_data F io w) io iov (mw_drv w)) (\<lambda>(r, io, iov, d).
     Inr (errno_or as_isize r, io, iov, w\<lparr>mw_drv := d\<rparr>))"

definition fops_write_iter ::
  "'p foreign_ops \<Rightarrow> ('p exec \<Rightarrow> kiocb \<Rightarrow> 'i \<Rightarrow> 'd \<Rightarrow> ((usize, error) result \<times> kiocb \<times> 'i \<times> 'd) exec) \<Rightarrow> kiocb \<Rightarrow> 'i \<Rightarrow>
     ('d, 'k) misc_world \<Rightarrow> (int \<times> kiocb \<times> 'i \<times> ('d, 'k) misc_world) exec" where
  "fops_write_iter F m io iov w =
     exec_bind (m (kiocb_private_data F io w) io iov (mw_drv w)) (\<lambda>(r, io, iov, d).
     Inr (errno_or as_isize r, io, iov, w\<lparr>mw_drv := d\<rparr>))"

section \<open>Buffers\<close>

record 'i c_iov =
  c_copy_from_iter :: "nat \<Rightarrow> 'i \<Rightarrow> u8 list \<times> 'i"
  c_copy_to_iter :: "u8 list \<Rightarrow> 'i \<Rightarrow> nat \<times> 'i"

text \<open>The bytes that were copied stand at the start of the buffer; the rest of it is as before.\<close>

definition copy_from_iter :: "'i c_iov \<Rightarrow> u8 list \<Rightarrow> 'i \<Rightarrow> nat \<times> u8 list \<times> 'i" where
  "copy_from_iter I buf iov =
     (let (bs, iov) = c_copy_from_iter I (length buf) iov in (length bs, bs @ drop (length bs) buf, iov))"

definition copy_to_iter :: "'i c_iov \<Rightarrow> u8 list \<Rightarrow> 'i \<Rightarrow> (unit, error) result \<times> 'i" where
  "copy_to_iter I v iov =
     (let len = length v; (res, iov) = c_copy_to_iter I v iov in
      (if res = len then Ok () else Err EFAULT, iov))"

section \<open>What the kernel does with a device\<close>

text \<open>
  \<open>misc_open\<close> of the kernel gives a file the device as private data and the device's table of operations, and calls \<open>open\<close>; a file whose
  \<open>open\<close> fails is gone again. On close the kernel follows the table to \<open>release\<close>.
\<close>

definition misc_open_file ::
  "'k c_misc \<Rightarrow> 'p foreign_ops \<Rightarrow> ('p, 'd, 'i) misc_driver \<Rightarrow> addr \<Rightarrow> addr \<Rightarrow> ('d, 'k) misc_world \<Rightarrow> (int \<times> ('d, 'k) misc_world) exec" where
  "misc_open_file K F D misc f w =
     exec_bind (fops_open K F D f (w\<lparr>mw_files := (mw_files w)(f \<mapsto> \<lparr>fl_private = misc, fl_fops = misc\<rparr>)\<rparr>)) (\<lambda>(ret, w).
     Inr (ret, if ret = 0 then w else w\<lparr>mw_files := (mw_files w)(f := None)\<rparr>))"

definition file_fops :: "addr \<Rightarrow> ('d, 'k) misc_world \<Rightarrow> misc_fops exec" where
  "file_fops f w =
     (case mw_files w f of
        None \<Rightarrow> Inl UB
      | Some fl \<Rightarrow> (case mw_privs w (fl_fops fl) of None \<Rightarrow> Inl UB | Some priv \<Rightarrow> Inr (mp_fops priv)))"

definition misc_close_file ::
  "'p foreign_ops \<Rightarrow> ('p, 'd, 'i) misc_driver \<Rightarrow> addr \<Rightarrow> ('d, 'k) misc_world \<Rightarrow> (int \<times> ('d, 'k) misc_world) exec" where
  "misc_close_file F D f w =
     exec_bind (file_fops f w) (\<lambda>fops.
     exec_bind (if fo_release fops = Some CbRelease then fops_release F D f w else Inr (0, w)) (\<lambda>(ret, w).
     Inr (ret, w\<lparr>mw_files := (mw_files w)(f := None)\<rparr>)))"

text \<open>The registered devices are what \<open>reg\<close> reads off the kernel's state.\<close>

definition c_misc_ok :: "'k c_misc \<Rightarrow> ('k \<Rightarrow> addr set) \<Rightarrow> bool" where
  "c_misc_ok K reg \<longleftrightarrow>
     (\<forall>S. c_kzalloc K S \<notin> S \<or> c_kzalloc K S = 0) \<and>
     (\<forall>m k ret k'. c_misc_register K m k = (ret, k') \<longrightarrow> reg k' = (if ret < 0 then reg k else insert m (reg k))) \<and>
     (\<forall>m k. reg (c_misc_deregister K m k) = reg k - {m})"

text \<open>What the types of \<open>open\<close> promise: private data that can be handed to C, and errors in range.\<close>

definition driver_ok :: "('p, 'd, 'i) misc_driver \<Rightarrow> ('p \<Rightarrow> bool) \<Rightarrow> bool" where
  "driver_ok D valid \<longleftrightarrow> (\<forall>f r d r' d'. drv_open D f r d = Inr (r', d') \<longrightarrow> (case r' of Ok p \<Rightarrow> valid p | Err e \<Rightarrow> error_inv e))"

locale foreign_borrow = foreign_ownable +
  fixes borrow :: "addr \<Rightarrow> 'a exec"
  assumes borrow_into: "valid x \<Longrightarrow> borrow (into_foreign x) = Inr x"
begin

lemma with_device_valid:
  assumes "mw_files w f = Some fl" "fl_private fl = into_foreign p" "valid p" "for_borrow F = borrow"
  shows "with_device F f m w = exec_bind (m p (mw_drv w)) (\<lambda>(r, d). Inr (r, w\<lparr>mw_drv := d\<rparr>))"
  using assms by (simp add: with_device_def rs_file_private_data_def borrow_into)

lemma private_data_valid:
  assumes "mw_files w (ki_filp io) = Some fl" "fl_private fl = into_foreign p" "valid p" "for_borrow F = borrow"
  shows "kiocb_private_data F io w = Inr p"
  using assms by (simp add: kiocb_private_data_def rs_file_private_data_def borrow_into)

lemma release_valid:
  assumes "mw_files w f = Some fl" "fl_private fl = into_foreign p" "valid p" "for_from F = from_foreign"
  shows "fops_release F D f w = exec_bind (drv_release D p f (mw_drv w)) (\<lambda>d. Inr (0, w\<lparr>mw_drv := d\<rparr>))"
  using assms by (simp add: fops_release_def rs_file_private_data_def from_into)

end

interpretation foreign_unit_borrow: foreign_borrow unit_into_foreign unit_from_foreign "\<lambda>_. True" unit_borrow
  by unfold_locales (simp add: unit_borrow_def)

interpretation foreign_arc_borrow: foreign_borrow arc_into_foreign arc_from_foreign "\<lambda>a. a \<noteq> 0" arc_foreign_borrow
  by unfold_locales (simp add: arc_foreign_borrow_def arc_into_foreign_def)

section \<open>Programs with devices\<close>

text \<open>The world, with the private data that the driver returned for each open file and the registrations whose slot is not yet written.\<close>

record ('p, 'd, 'k) misc_conf =
  mc_world :: "('d, 'k) misc_world"
  mc_live :: "addr \<rightharpoonup> 'p"
  mc_pending :: "addr \<rightharpoonup> addr"

inductive misc_step ::
  "'k c_misc \<Rightarrow> ('k \<Rightarrow> addr set) \<Rightarrow> 'p foreign_ops \<Rightarrow> ('p, 'd, 'i) misc_driver \<Rightarrow> ('p, 'd, 'k) misc_conf \<Rightarrow> ('p, 'd, 'k) misc_conf \<Rightarrow> bool"
  for K reg F D where
  mst_alloc: "slot \<notin> dom (mw_slots (mc_world c)) \<Longrightarrow>
    misc_step K reg F D c (c\<lparr>mc_world := (mc_world c)\<lparr>mw_slots := (mw_slots (mc_world c))(slot \<mapsto> None)\<rparr>\<rparr>)"
| mst_register: "mw_slots (mc_world c) slot = Some None \<Longrightarrow> mc_pending c slot = None \<Longrightarrow>
    register_device K D name slot (mc_world c) = Inr (Ok misc, w) \<Longrightarrow>
    misc_step K reg F D c (c\<lparr>mc_world := w, mc_pending := (mc_pending c)(slot \<mapsto> misc)\<rparr>)"
| mst_register_err: "mw_slots (mc_world c) slot = Some None \<Longrightarrow> mc_pending c slot = None \<Longrightarrow>
    register_device K D name slot (mc_world c) = Inr (Err e, w) \<Longrightarrow> misc_step K reg F D c (c\<lparr>mc_world := w\<rparr>)"
| mst_write: "mc_pending c slot = Some misc \<Longrightarrow> registration_write slot misc (mc_world c) = Inr w \<Longrightarrow>
    misc_step K reg F D c (c\<lparr>mc_world := w, mc_pending := (mc_pending c)(slot := None)\<rparr>)"
| mst_open: "misc \<in> reg (mw_kernel (mc_world c)) \<Longrightarrow> f \<notin> dom (mw_files (mc_world c)) \<Longrightarrow>
    rs_miscdevice_owner misc (mc_world c) = Inr owner \<Longrightarrow>
    drv_open D f (registration_as_raw owner (mc_world c)) (mw_drv (mc_world c)) = Inr (Ok p, d) \<Longrightarrow>
    misc_open_file K F D misc f (mc_world c) = Inr (0, w) \<Longrightarrow>
    misc_step K reg F D c (c\<lparr>mc_world := w, mc_live := (mc_live c)(f \<mapsto> p)\<rparr>)"
| mst_open_err: "misc \<in> reg (mw_kernel (mc_world c)) \<Longrightarrow> f \<notin> dom (mw_files (mc_world c)) \<Longrightarrow>
    misc_open_file K F D misc f (mc_world c) = Inr (ret, w) \<Longrightarrow> ret \<noteq> 0 \<Longrightarrow> misc_step K reg F D c (c\<lparr>mc_world := w\<rparr>)"
| mst_driver: "misc_step K reg F D c (c\<lparr>mc_world := (mc_world c)\<lparr>mw_drv := d\<rparr>\<rparr>)"
| mst_close: "f \<in> dom (mw_files (mc_world c)) \<Longrightarrow> misc_close_file F D f (mc_world c) = Inr (ret, w) \<Longrightarrow>
    misc_step K reg F D c (c\<lparr>mc_world := w, mc_live := (mc_live c)(f := None)\<rparr>)"
| mst_drop: "mw_slots (mc_world c) slot = Some (Some misc) \<Longrightarrow>
    (\<forall>f fl. mw_files (mc_world c) f = Some fl \<longrightarrow> fl_fops fl \<noteq> misc) \<Longrightarrow>
    registration_drop K slot (mc_world c) = Inr w \<Longrightarrow> misc_step K reg F D c (c\<lparr>mc_world := w\<rparr>)"

definition misc_start :: "('k \<Rightarrow> addr set) \<Rightarrow> ('p, 'd, 'k) misc_conf \<Rightarrow> bool" where
  "misc_start reg c \<longleftrightarrow> reg (mw_kernel (mc_world c)) = {} \<and> mw_privs (mc_world c) = Map.empty \<and> mw_slots (mc_world c) = Map.empty \<and>
     mw_files (mc_world c) = Map.empty \<and> mc_live c = Map.empty \<and> mc_pending c = Map.empty"

inductive misc_reach ::
  "'k c_misc \<Rightarrow> ('k \<Rightarrow> addr set) \<Rightarrow> 'p foreign_ops \<Rightarrow> ('p, 'd, 'i) misc_driver \<Rightarrow> ('p, 'd, 'k) misc_conf \<Rightarrow> bool" for K reg F D where
  mr_start: "misc_start reg c \<Longrightarrow> misc_reach K reg F D c"
| mr_step: "misc_reach K reg F D c \<Longrightarrow> misc_step K reg F D c c' \<Longrightarrow> misc_reach K reg F D c'"

section \<open>Registering and dropping\<close>

definition device_block :: "('p, 'd, 'i) misc_driver \<Rightarrow> string \<Rightarrow> addr \<Rightarrow> misc_priv" where
  "device_block D name slot = \<lparr>mp_minor = MISC_DYNAMIC_MINOR, mp_name = name, mp_fops = fops_build D, mp_owner = slot\<rparr>"

lemma device_block_simps [simp]: "mp_fops (device_block D name slot) = fops_build D" "mp_owner (device_block D name slot) = slot"
  by (simp_all add: device_block_def)

lemma c_misc_okD:
  assumes "c_misc_ok K reg"
  shows "c_kzalloc K S \<noteq> 0 \<Longrightarrow> c_kzalloc K S \<notin> S"
    "c_misc_register K m k = (ret, k') \<Longrightarrow> reg k' = (if ret < 0 then reg k else insert m (reg k))"
    "reg (c_misc_deregister K m k) = reg k - {m}"
proof -
  have "c_kzalloc K S \<notin> S \<or> c_kzalloc K S = 0" using assms by (simp add: c_misc_ok_def)
  then show "c_kzalloc K S \<noteq> 0 \<Longrightarrow> c_kzalloc K S \<notin> S" by simp
qed (use assms in \<open>simp_all add: c_misc_ok_def\<close>)

lemma register_device_cases:
  assumes "c_misc_ok K reg"
  obtains (ok) misc k where "register_device K D name slot w =
        Inr (Ok misc, w\<lparr>mw_privs := (mw_privs w)(misc \<mapsto> device_block D name slot), mw_kernel := k\<rparr>)"
      "misc \<noteq> 0" "misc \<notin> dom (mw_privs w)" "reg k = insert misc (reg (mw_kernel w))"
  | (err) e k where "register_device K D name slot w = Inr (Err e, w\<lparr>mw_kernel := k\<rparr>)" "reg k = reg (mw_kernel w)"
proof (cases "c_kzalloc K (dom (mw_privs w)) = 0")
  case True
  then have "register_device K D name slot w = Inr (Err ENOMEM, w\<lparr>mw_kernel := mw_kernel w\<rparr>)"
    by (simp add: register_device_def misc_into_raw_def rs_miscdevice_init_def)
  then show thesis by (rule err) simp
next
  case False
  let ?misc = "c_kzalloc K (dom (mw_privs w))"
  let ?w = "w\<lparr>mw_privs := (mw_privs w)(?misc \<mapsto> device_block D name slot)\<rparr>"
  note fresh = c_misc_okD(1) [OF assms False]
  have raw: "misc_into_raw K D name slot w = (Ok ?misc, ?w)"
    using False by (simp add: misc_into_raw_def rs_miscdevice_init_def device_block_def Let_def)
  obtain ret k where reg: "c_misc_register K ?misc (mw_kernel w) = (ret, k)" by fastforce
  note k = c_misc_okD(2) [OF assms reg]
  show thesis
  proof (cases "ret < 0")
    case True
    have "(mw_privs w)(?misc := None) = mw_privs w" using fresh by auto
    with True False raw reg have "register_device K D name slot w = Inr (Err (from_errno ret), w\<lparr>mw_kernel := k\<rparr>)"
      by (simp add: register_device_def rs_miscdevice_free_def)
    with k True show thesis by (intro err [of "from_errno ret" k]) simp_all
  next
    case ret: False
    with raw reg have "register_device K D name slot w = Inr (Ok ?misc, ?w\<lparr>mw_kernel := k\<rparr>)" by (simp add: register_device_def)
    with ok [of ?misc k] False fresh k ret show thesis by simp
  qed
qed

lemma registration_drop_ok:
  assumes "mw_slots w slot = Some (Some misc)" "misc \<in> dom (mw_privs w)" "misc \<noteq> 0"
  shows "registration_drop K slot w = Inr (w\<lparr>mw_privs := (mw_privs w)(misc := None), mw_slots := (mw_slots w)(slot := None),
    mw_kernel := c_misc_deregister K misc (mw_kernel w)\<rparr>)"
  using assms by (auto simp: registration_drop_def registration_as_raw_def rs_miscdevice_free_def)

section \<open>The invariant\<close>

definition slot_holds :: "('p, 'd, 'k) misc_conf \<Rightarrow> addr \<Rightarrow> addr \<Rightarrow> bool" where
  "slot_holds c slot misc \<longleftrightarrow>
     mc_pending c slot = Some misc \<and> mw_slots (mc_world c) slot = Some None \<or>
     mc_pending c slot = None \<and> mw_slots (mc_world c) slot = Some (Some misc)"

definition devices_inv :: "('k \<Rightarrow> addr set) \<Rightarrow> ('p, 'd, 'i) misc_driver \<Rightarrow> ('p, 'd, 'k) misc_conf \<Rightarrow> bool" where
  "devices_inv reg D c \<longleftrightarrow>
     reg (mw_kernel (mc_world c)) = dom (mw_privs (mc_world c)) \<and>
     (\<forall>misc priv. mw_privs (mc_world c) misc = Some priv \<longrightarrow> misc \<noteq> 0 \<and> mp_fops priv = fops_build D \<and> slot_holds c (mp_owner priv) misc) \<and>
     (\<forall>slot misc. slot_holds c slot misc \<longrightarrow> (\<exists>priv. mw_privs (mc_world c) misc = Some priv \<and> mp_owner priv = slot)) \<and>
     (\<forall>slot misc. mc_pending c slot = Some misc \<longrightarrow> mw_slots (mc_world c) slot = Some None)"

lemma devices_invD:
  assumes "devices_inv reg D c"
  shows "reg (mw_kernel (mc_world c)) = dom (mw_privs (mc_world c))"
    "mw_privs (mc_world c) misc = Some priv \<Longrightarrow> misc \<noteq> 0 \<and> mp_fops priv = fops_build D \<and> slot_holds c (mp_owner priv) misc"
    "slot_holds c slot misc \<Longrightarrow> \<exists>priv. mw_privs (mc_world c) misc = Some priv \<and> mp_owner priv = slot"
    "mc_pending c slot = Some misc \<Longrightarrow> mw_slots (mc_world c) slot = Some None"
  using assms by (auto simp: devices_inv_def)

lemma slot_holds_fun: "slot_holds c slot misc \<Longrightarrow> slot_holds c slot misc' \<Longrightarrow> misc' = misc"
  by (auto simp: slot_holds_def)

definition files_inv :: "'p foreign_ops \<Rightarrow> ('p \<Rightarrow> bool) \<Rightarrow> ('p, 'd, 'k) misc_conf \<Rightarrow> bool" where
  "files_inv F valid c \<longleftrightarrow>
     dom (mc_live c) = dom (mw_files (mc_world c)) \<and>
     (\<forall>f fl p. mw_files (mc_world c) f = Some fl \<longrightarrow> mc_live c f = Some p \<longrightarrow>
        fl_fops fl \<in> dom (mw_privs (mc_world c)) \<and> valid p \<and> fl_private fl = for_into F p)"

lemma devices_inv_frame:
  assumes "devices_inv reg D c" "mc_pending c' = mc_pending c" "mw_privs (mc_world c') = mw_privs (mc_world c)"
   "mw_slots (mc_world c') = mw_slots (mc_world c)" "reg (mw_kernel (mc_world c')) = reg (mw_kernel (mc_world c))"
  shows "devices_inv reg D c'"
proof -
  have "slot_holds c' = slot_holds c" using assms(2,4) by (simp add: slot_holds_def fun_eq_iff)
  with assms show ?thesis by (simp add: devices_inv_def)
qed

lemma devices_inv_alloc:
  assumes inv: "devices_inv reg D c" and "slot \<notin> dom (mw_slots (mc_world c))"
  shows "devices_inv reg D (c\<lparr>mc_world := (mc_world c)\<lparr>mw_slots := (mw_slots (mc_world c))(slot \<mapsto> None)\<rparr>\<rparr>)" (is "devices_inv reg D ?c")
proof -
  have new: "mc_pending c slot = None" "mw_slots (mc_world c) slot = None"
    using devices_invD(4) [OF inv, of slot] assms(2) by (cases "mc_pending c slot"; auto simp: domIff)+
  then have "slot_holds ?c = slot_holds c" by (auto simp: slot_holds_def fun_eq_iff)
  with inv new show ?thesis by (auto simp: devices_inv_def)
qed

lemma devices_inv_register:
  assumes inv: "devices_inv reg D c" and slot: "mw_slots (mc_world c) slot = Some None" "mc_pending c slot = None"
    and misc: "misc \<noteq> 0" "misc \<notin> dom (mw_privs (mc_world c))" "reg k = insert misc (reg (mw_kernel (mc_world c)))"
  shows "devices_inv reg D (c\<lparr>mc_world := (mc_world c)\<lparr>mw_privs := (mw_privs (mc_world c))(misc \<mapsto> device_block D name slot),
    mw_kernel := k\<rparr>, mc_pending := (mc_pending c)(slot \<mapsto> misc)\<rparr>)"
    (is "devices_inv reg D ?c")
proof -
  have holds: "slot_holds ?c s m \<longleftrightarrow> (if s = slot then m = misc else slot_holds c s m)" for s m
    using slot by (auto simp: slot_holds_def)
  have none: "\<not> slot_holds c slot m" for m using slot by (simp add: slot_holds_def)
  have "\<exists>priv. mw_privs (mc_world ?c) m = Some priv \<and> mp_owner priv = s" if "slot_holds ?c s m" for s m
    using that devices_invD(3) [OF inv, of s m] misc(2) by (fastforce simp: holds split: if_splits)
  moreover have "m \<noteq> 0 \<and> mp_fops priv = fops_build D \<and> slot_holds ?c (mp_owner priv) m" if "mw_privs (mc_world ?c) m = Some priv" for m priv
    using that devices_invD(2) [OF inv, of m priv] misc(1) none [of m] by (auto simp: holds split: if_splits)
  ultimately show ?thesis using devices_invD(1,4) [OF inv] slot misc(3) by (auto simp: devices_inv_def split: if_splits)
qed

lemma devices_inv_write:
  assumes inv: "devices_inv reg D c" and pend: "mc_pending c slot = Some misc"
  shows "devices_inv reg D (c\<lparr>mc_world := (mc_world c)\<lparr>mw_slots := (mw_slots (mc_world c))(slot \<mapsto> Some misc)\<rparr>,
    mc_pending := (mc_pending c)(slot := None)\<rparr>)" (is "devices_inv reg D ?c")
proof -
  have "slot_holds ?c = slot_holds c" using pend devices_invD(4) [OF inv pend] by (auto simp: slot_holds_def fun_eq_iff)
  with inv show ?thesis by (simp add: devices_inv_def)
qed

lemma devices_inv_drop:
  assumes inv: "devices_inv reg D c" and slot: "mw_slots (mc_world c) slot = Some (Some misc)"
    and k: "reg k = reg (mw_kernel (mc_world c)) - {misc}"
  shows "devices_inv reg D (c\<lparr>mc_world := (mc_world c)\<lparr>mw_privs := (mw_privs (mc_world c))(misc := None),
    mw_slots := (mw_slots (mc_world c))(slot := None), mw_kernel := k\<rparr>\<rparr>)" (is "devices_inv reg D ?c")
proof -
  have pend: "mc_pending c slot = None" using devices_invD(4) [OF inv, of slot] slot by (cases "mc_pending c slot") auto
  then have own: "slot_holds c slot misc" using slot by (simp add: slot_holds_def)
  have holds: "slot_holds ?c s m \<longleftrightarrow> s \<noteq> slot \<and> slot_holds c s m" for s m using pend by (auto simp: slot_holds_def)
  have "\<exists>priv. mw_privs (mc_world ?c) m = Some priv \<and> mp_owner priv = s" if "slot_holds ?c s m" for s m
    using that devices_invD(3) [OF inv own] devices_invD(3) [OF inv, of s m] by (auto simp: holds)
  moreover have "m \<noteq> 0 \<and> mp_fops priv = fops_build D \<and> slot_holds ?c (mp_owner priv) m" if "mw_privs (mc_world ?c) m = Some priv" for m priv
    using that devices_invD(2) [OF inv, of m priv] slot_holds_fun [OF own, of m] by (auto simp: holds split: if_splits)
  ultimately show ?thesis using devices_invD(1,4) [OF inv] pend k by (auto simp: devices_inv_def)
qed

section \<open>Opening and closing\<close>

lemma error_inv_errno: "error_inv e \<Longrightarrow> to_errno e \<noteq> 0"
  by (cases e) auto

lemma driver_okD:
  assumes "driver_ok D valid" "drv_open D f r d = Inr (x, d')"
  shows "x = Ok p \<Longrightarrow> valid p" "x = Err e \<Longrightarrow> to_errno e \<noteq> 0"
  using assms error_inv_errno by (force simp: driver_ok_def split: result.splits)+

lemma misc_open_file_eq:
  assumes priv: "mw_privs w misc = Some priv" "misc \<noteq> 0" "mp_owner priv \<in> dom (mw_slots w)" and f: "f \<notin> dom (mw_files w)"
    and D: "driver_ok D valid"
  shows "misc_open_file K F D misc f w =
    (if c_generic_file_open K f (mw_kernel w) \<noteq> 0 then Inr (c_generic_file_open K f (mw_kernel w), w)
     else exec_bind (drv_open D f (registration_as_raw (mp_owner priv) w) (mw_drv w)) (\<lambda>(r, d).
       Inr (case r of
         Ok p \<Rightarrow> (0, w\<lparr>mw_drv := d, mw_files := (mw_files w)(f \<mapsto> \<lparr>fl_private = for_into F p, fl_fops = misc\<rparr>)\<rparr>)
       | Err e \<Rightarrow> (to_errno e, w\<lparr>mw_drv := d\<rparr>))))"
proof -
  have restore: "(mw_files w)(f := None) = mw_files w" using f by auto
  let ?r = "drv_open D f (registration_as_raw (mp_owner priv) w) (mw_drv w)"
  have raw: "registration_as_raw slot (w\<lparr>mw_files := x\<rparr>) = registration_as_raw slot w" for slot x
    by (simp add: registration_as_raw_def)
  show ?thesis
  proof (cases ?r)
    case (Inr rd)
    then obtain x d where r: "?r = Inr (x, d)" by (cases rd) auto
    show ?thesis
      using priv restore driver_okD(2) [OF D r]
      by (cases x) (simp_all add: misc_open_file_def fops_open_def rs_file_private_data_def rs_miscdevice_owner_def
        rs_file_set_private_data_def raw r Let_def)
  qed (use priv restore in \<open>simp add: misc_open_file_def fops_open_def rs_file_private_data_def rs_miscdevice_owner_def raw Let_def\<close>)
qed

lemma misc_close_file_eq:
  assumes "foreign_borrow (for_into F) (for_from F) valid (for_borrow F)"
    and f: "mw_files w f = Some fl" "fl_private fl = for_into F p" "valid p"
    and priv: "mw_privs w (fl_fops fl) = Some priv" "mp_fops priv = fops_build D"
  shows "misc_close_file F D f w =
    exec_bind (drv_release D p f (mw_drv w)) (\<lambda>d. Inr (0, w\<lparr>mw_drv := d, mw_files := (mw_files w)(f := None)\<rparr>))"
proof -
  have rel: "fops_release F D f w = exec_bind (drv_release D p f (mw_drv w)) (\<lambda>d. Inr (0, w\<lparr>mw_drv := d\<rparr>))"
    by (rule foreign_borrow.release_valid [OF assms(1) f refl])
  show ?thesis using f priv
    by (cases "drv_release D p f (mw_drv w)") (simp_all add: misc_close_file_def file_fops_def rel fops_build_def)
qed

lemma devices_inv_owner:
  assumes "devices_inv reg D c" "misc \<in> reg (mw_kernel (mc_world c))"
  obtains priv where "mw_privs (mc_world c) misc = Some priv" "misc \<noteq> 0" "mp_fops priv = fops_build D"
    "mp_owner priv \<in> dom (mw_slots (mc_world c))" "slot_holds c (mp_owner priv) misc"
proof -
  from assms obtain priv where priv: "mw_privs (mc_world c) misc = Some priv" using devices_invD(1) by blast
  note inv = devices_invD(2) [OF assms(1) priv]
  then have "mp_owner priv \<in> dom (mw_slots (mc_world c))" by (auto simp: slot_holds_def)
  with inv priv show thesis by (intro that [OF priv]) simp_all
qed

lemma devices_inv_written:
  assumes "devices_inv reg D c" "mw_slots (mc_world c) slot = Some (Some misc)"
  shows "misc \<in> dom (mw_privs (mc_world c))" "misc \<noteq> 0"
proof -
  have "slot_holds c slot misc"
    using devices_invD(4) [OF assms(1), of slot] assms(2) by (cases "mc_pending c slot") (auto simp: slot_holds_def)
  from devices_invD(3) [OF assms(1) this] show "misc \<in> dom (mw_privs (mc_world c))" by auto
  then show "misc \<noteq> 0" using devices_invD(2) [OF assms(1)] by blast
qed

lemma fops_open_frame:
  assumes "fops_open K F D f w = Inr (ret, w')"
  shows "mw_privs w' = mw_privs w \<and> mw_slots w' = mw_slots w \<and> mw_kernel w' = mw_kernel w"
proof (cases "c_generic_file_open K f (mw_kernel w) = 0")
  case True
  with assms obtain r d where "(case r of Err e \<Rightarrow> Inr (to_errno e, w\<lparr>mw_drv := d\<rparr>)
      | Ok ptr \<Rightarrow> exec_bind (rs_file_set_private_data f (for_into F ptr) (w\<lparr>mw_drv := d\<rparr>)) (\<lambda>w. Inr (0, w))) = Inr (ret, w')"
    unfolding fops_open_def Let_def by auto
  then show ?thesis by (cases r) (auto simp: rs_file_set_private_data_def split: option.splits)
qed (use assms in \<open>simp add: fops_open_def\<close>)

lemma misc_open_file_frame:
  assumes "misc_open_file K F D misc f w = Inr (ret, w')"
  shows "mw_privs w' = mw_privs w" "mw_slots w' = mw_slots w" "mw_kernel w' = mw_kernel w"
  using assms by (auto simp: misc_open_file_def dest!: fops_open_frame)

lemma devices_inv_step:
  assumes K: "c_misc_ok K reg"
  shows "misc_step K reg F D c c' \<Longrightarrow> devices_inv reg D c \<Longrightarrow> devices_inv reg D c'"
proof (induction rule: misc_step.induct)
  case (mst_alloc slot c)
  then show ?case by (intro devices_inv_alloc)
next
  case (mst_register c slot name misc w)
  from mst_register(3) show ?case
    by (cases rule: register_device_cases [OF K, of D name slot "mc_world c"])
      (auto intro: devices_inv_register [OF mst_register.prems mst_register(1,2)])
next
  case (mst_register_err c slot name e w)
  from mst_register_err(3) show ?case
    by (cases rule: register_device_cases [OF K, of D name slot "mc_world c"])
      (auto intro: devices_inv_frame [OF mst_register_err.prems])
next
  case (mst_write c slot misc w)
  then show ?case by (auto simp: registration_write_def intro: devices_inv_write)
next
  case (mst_open misc c f owner p d w)
  from misc_open_file_frame [OF mst_open(5)] show ?case by (intro devices_inv_frame [OF mst_open.prems]) simp_all
next
  case (mst_open_err misc c f ret w)
  from misc_open_file_frame [OF mst_open_err(3)] show ?case by (intro devices_inv_frame [OF mst_open_err.prems]) simp_all
next
  case (mst_driver c d)
  then show ?case by (rule devices_inv_frame) simp_all
next
  case (mst_close f c ret w)
  from mst_close(2) show ?case
    by (intro devices_inv_frame [OF mst_close.prems]) (auto simp: misc_close_file_def fops_release_def split: if_splits)
next
  case (mst_drop c slot misc w)
  from mst_drop(3) registration_drop_ok [OF mst_drop(1) devices_inv_written [OF mst_drop.prems mst_drop(1)], of K] show ?case
    using devices_inv_drop [OF mst_drop.prems mst_drop(1) c_misc_okD(3) [OF K]] by simp
qed

lemma files_inv_frame:
  assumes "files_inv F valid c" "mw_files (mc_world c') = mw_files (mc_world c)" "mc_live c' = mc_live c"
    "\<And>f fl. mw_files (mc_world c) f = Some fl \<Longrightarrow> fl_fops fl \<in> dom (mw_privs (mc_world c)) \<Longrightarrow> fl_fops fl \<in> dom (mw_privs (mc_world c'))"
  shows "files_inv F valid c'"
  using assms by (simp add: files_inv_def)

lemma files_invD:
  assumes "files_inv F valid c" "mw_files (mc_world c) f = Some fl"
  obtains p where "mc_live c f = Some p" "valid p" "fl_private fl = for_into F p" "fl_fops fl \<in> dom (mw_privs (mc_world c))"
proof -
  from assms obtain p where "mc_live c f = Some p" unfolding files_inv_def by blast
  with assms that show thesis unfolding files_inv_def by blast
qed

lemma files_inv_open:
  assumes "files_inv F valid c" "misc \<in> dom (mw_privs (mc_world c))" "valid p"
  shows "files_inv F valid (c\<lparr>mc_world := (mc_world c)\<lparr>mw_drv := d,
    mw_files := (mw_files (mc_world c))(f \<mapsto> \<lparr>fl_private = for_into F p, fl_fops = misc\<rparr>)\<rparr>, mc_live := (mc_live c)(f \<mapsto> p)\<rparr>)"
  using assms by (simp add: files_inv_def)

lemma files_inv_close:
  assumes "files_inv F valid c"
  shows "files_inv F valid (c\<lparr>mc_world := (mc_world c)\<lparr>mw_drv := d, mw_files := (mw_files (mc_world c))(f := None)\<rparr>,
    mc_live := (mc_live c)(f := None)\<rparr>)"
  using assms by (simp add: files_inv_def)

lemma files_inv_step:
  assumes K: "c_misc_ok K reg" and D: "driver_ok D valid" and F: "foreign_borrow (for_into F) (for_from F) valid (for_borrow F)"
  shows "misc_step K reg F D c c' \<Longrightarrow> devices_inv reg D c \<Longrightarrow> files_inv F valid c \<Longrightarrow> files_inv F valid c'"
proof (induction rule: misc_step.induct)
  case (mst_register c slot name misc w)
  from mst_register(3) show ?case
    by (cases rule: register_device_cases [OF K, of D name slot "mc_world c"])
      (auto intro!: files_inv_frame [OF mst_register.prems(2)])
next
  case (mst_register_err c slot name e w)
  from mst_register_err(3) show ?case
    by (cases rule: register_device_cases [OF K, of D name slot "mc_world c"])
      (auto intro!: files_inv_frame [OF mst_register_err.prems(2)])
next
  case (mst_open misc c f owner p d w)
  obtain priv where priv: "mw_privs (mc_world c) misc = Some priv" "misc \<noteq> 0" "mp_owner priv \<in> dom (mw_slots (mc_world c))"
    using devices_inv_owner [OF mst_open.prems(1) mst_open(1)] by metis
  with mst_open(3) have owner: "owner = mp_owner priv" by (simp add: rs_miscdevice_owner_def)
  from misc_open_file_eq [OF priv mst_open(2) D, of K F] mst_open(4,5) owner
  have w: "w = (mc_world c)\<lparr>mw_drv := d, mw_files := (mw_files (mc_world c))(f \<mapsto> \<lparr>fl_private = for_into F p, fl_fops = misc\<rparr>)\<rparr>"
    by (auto split: if_splits)
  show ?case unfolding w using mst_open.prems(2) priv(1) driver_okD(1) [OF D mst_open(4) refl] by (intro files_inv_open) auto
next
  case (mst_open_err misc c f ret w)
  obtain priv where priv: "mw_privs (mc_world c) misc = Some priv" "misc \<noteq> 0" "mp_owner priv \<in> dom (mw_slots (mc_world c))"
    using devices_inv_owner [OF mst_open_err.prems(1) mst_open_err(1)] by metis
  have "mw_files w = mw_files (mc_world c)"
  proof (cases "drv_open D f (registration_as_raw (mp_owner priv) (mc_world c)) (mw_drv (mc_world c))")
    case (Inr rd)
    with misc_open_file_eq [OF priv mst_open_err(2) D, of K F] mst_open_err(3,4) show ?thesis
      by (cases rd; cases "fst rd") (auto split: if_splits)
  qed (use misc_open_file_eq [OF priv mst_open_err(2) D, of K F] mst_open_err(3) in \<open>auto split: if_splits\<close>)
  with misc_open_file_frame(1) [OF mst_open_err(3)] show ?case by (intro files_inv_frame [OF mst_open_err.prems(2)]) auto
next
  case (mst_close f c ret w)
  then obtain fl where fl: "mw_files (mc_world c) f = Some fl" by auto
  obtain p where p: "valid p" "fl_private fl = for_into F p" and dom: "fl_fops fl \<in> dom (mw_privs (mc_world c))"
    using files_invD [OF mst_close.prems(2) fl] by metis
  from dom obtain priv where priv: "mw_privs (mc_world c) (fl_fops fl) = Some priv" by auto
  with devices_invD(2) [OF mst_close.prems(1)] have "mp_fops priv = fops_build D" by blast
  from mst_close(2) [unfolded misc_close_file_eq [OF F fl p(2,1) priv this]]
  obtain d where w: "w = (mc_world c)\<lparr>mw_drv := d, mw_files := (mw_files (mc_world c))(f := None)\<rparr>" by auto
  show ?case unfolding w by (rule files_inv_close [OF mst_close.prems(2)])
next
  case (mst_drop c slot misc w)
  from mst_drop(2,3) registration_drop_ok [OF mst_drop(1) devices_inv_written [OF mst_drop.prems(1) mst_drop(1)], of K] show ?case
    by (intro files_inv_frame [OF mst_drop.prems(2)]) auto
next
  case (mst_alloc slot c)
  then show ?case by (intro files_inv_frame [OF mst_alloc.prems(2)]) simp_all
next
  case (mst_write c slot misc w)
  from mst_write(2) show ?case by (intro files_inv_frame [OF mst_write.prems(2)]) (auto simp: registration_write_def)
next
  case (mst_driver c d)
  then show ?case by (intro files_inv_frame [OF mst_driver.prems(2)]) simp_all
qed

lemma misc_reach_inv:
  assumes "misc_reach K reg F D c" and "c_misc_ok K reg" "driver_ok D valid" "foreign_borrow (for_into F) (for_from F) valid (for_borrow F)"
  shows "devices_inv reg D c \<and> files_inv F valid c"
  using assms(1)
proof (induction rule: misc_reach.induct)
  case (mr_start c)
  then show ?case by (simp add: misc_start_def devices_inv_def files_inv_def slot_holds_def)
next
  case (mr_step c c')
  then show ?case using devices_inv_step [OF assms(2)] files_inv_step [OF assms(2-4)] by blast
qed

section \<open>Properties\<close>

text \<open>
  A file is served with private data \<open>p\<close>: its table of operations is the driver's, each callback runs the driver's
  method on \<open>p\<close> and returns its value or the code of its error, and closing the file hands \<open>p\<close> to \<open>release\<close>.
\<close>

definition served_with ::
  "'p foreign_ops \<Rightarrow> ('p, 'd, 'i) misc_driver \<Rightarrow> ('d, 'k) misc_world \<Rightarrow> addr \<Rightarrow> 'p \<Rightarrow> bool" where
  "served_with F D w f p \<longleftrightarrow>
     file_fops f w = Inr (fops_build D) \<and>
     (\<forall>m vma. fops_mmap F m f vma w = exec_bind (m p f vma (mw_drv w)) (\<lambda>(r, d). Inr (errno_or (\<lambda>_. 0) r, w\<lparr>mw_drv := d\<rparr>))) \<and>
     (\<forall>m off wh. fops_llseek F m f off wh w = exec_bind (m p f off wh (mw_drv w)) (\<lambda>(r, d). Inr (errno_or id r, w\<lparr>mw_drv := d\<rparr>))) \<and>
     (\<forall>m cmd arg. fops_ioctl F m f cmd arg w = exec_bind (m p f cmd arg (mw_drv w)) (\<lambda>(r, d). Inr (errno_or id r, w\<lparr>mw_drv := d\<rparr>)) \<and>
        fops_compat_ioctl F m f cmd arg w = fops_ioctl F m f cmd arg w) \<and>
     (\<forall>m sf. fops_show_fdinfo F m sf f w = exec_bind (m p sf f (mw_drv w)) (\<lambda>d. Inr ((), w\<lparr>mw_drv := d\<rparr>))) \<and>
     (\<forall>m io (iov :: 'i). ki_filp io = f \<longrightarrow>
        fops_read_iter F m io iov w = exec_bind (m (Inr p) io iov (mw_drv w)) (\<lambda>(r, io, iov, d). Inr (errno_or as_isize r, io, iov, w\<lparr>mw_drv := d\<rparr>)) \<and>
        fops_write_iter F m io iov w = fops_read_iter F m io iov w) \<and>
     misc_close_file F D f w = exec_bind (drv_release D p f (mw_drv w)) (\<lambda>d. Inr (0, w\<lparr>mw_drv := d, mw_files := (mw_files w)(f := None)\<rparr>))"

lemma map_exec_bind: "map_exec g (exec_bind m (\<lambda>(r, d). Inr (r, h d))) = exec_bind m (\<lambda>(r, d). Inr (g r, h d))"
  by (cases m) (auto simp: map_exec_def)

lemma served_valid:
  assumes F: "foreign_borrow (for_into F) (for_from F) valid (for_borrow F)" and f: "mw_files w f = Some fl"
    and p: "fl_private fl = for_into F p" "valid p" and priv: "mw_privs w (fl_fops fl) = Some priv" "mp_fops priv = fops_build D"
  shows "served_with F D w f p"
proof -
  note dev = foreign_borrow.with_device_valid [OF F f p refl]
  have io: "kiocb_private_data F io w = Inr p" if "ki_filp io = f" for io
    by (rule foreign_borrow.private_data_valid [OF F _ p refl]) (simp add: that f)
  have fdinfo: "fops_show_fdinfo F m sf f w = exec_bind (m p sf f (mw_drv w)) (\<lambda>d. Inr ((), w\<lparr>mw_drv := d\<rparr>))" for m sf
    by (cases "m p sf f (mw_drv w)") (simp_all add: fops_show_fdinfo_def dev)
  have "file_fops f w = Inr (fops_build D)" by (simp add: file_fops_def f priv)
  then show ?thesis unfolding served_with_def
    by (simp add: fops_mmap_def fops_llseek_def fops_ioctl_def fops_compat_ioctl_def fops_read_iter_def fops_write_iter_def
      fdinfo dev map_exec_bind id_def io misc_close_file_eq [OF F f p priv])
qed

text \<open>
  C29: Callbacks of a misc device get the private data of their own file. In every state that programs reach which register
  devices, open and close their files, run callbacks and drop a registration when none of its files are open, with any interleaving: a file
  that is open is served with the private data that the driver's \<open>open\<close> returned for it, so its table of operations is still allocated,
  every callback gets exactly this data and closing hands it back to \<open>release\<close>. A device that can be opened leads \<open>open\<close> to the registration that
  owns it, which holds the device unless its registration is still in progress. A finished registration
  can be dropped, which takes exactly its device away; and no block is allocated but those of registrations.
\<close>

theorem misc_device_sound:
  assumes "misc_reach K reg F D c" and "c_misc_ok K reg" "driver_ok D valid" "foreign_borrow (for_into F) (for_from F) valid (for_borrow F)"
    and "w = mc_world c"
  shows "(\<forall>f \<in> dom (mw_files w). \<exists>p. mc_live c f = Some p \<and> valid p \<and> served_with F D w f p) \<and>
    (\<forall>misc \<in> reg (mw_kernel w). \<exists>slot. rs_miscdevice_owner misc w = Inr slot \<and> slot \<in> dom (mw_slots w) \<and>
      (mc_pending c slot = None \<longrightarrow> registration_as_raw slot w = Inr misc)) \<and>
    (\<forall>slot misc. registration_as_raw slot w = Inr misc \<longrightarrow> misc \<in> reg (mw_kernel w) \<and> (\<exists>w'. registration_drop K slot w = Inr w' \<and>
      reg (mw_kernel w') = reg (mw_kernel w) - {misc} \<and> mw_privs w' = (mw_privs w)(misc := None))) \<and>
    dom (mw_privs w) = {misc. \<exists>slot. slot_holds c slot misc}"
proof (intro conjI ballI allI impI)
  from misc_reach_inv [OF assms(1-4)] have inv: "devices_inv reg D c" and files: "files_inv F valid c" by auto
  {
    fix f
    assume "f \<in> dom (mw_files w)"
    then obtain fl where fl: "mw_files w f = Some fl" by auto
    obtain p where p: "mc_live c f = Some p" "fl_private fl = for_into F p" "valid p" and dom: "fl_fops fl \<in> dom (mw_privs w)"
      using files_invD [OF files, of f fl] fl assms(5) by metis
    from dom obtain priv where priv: "mw_privs w (fl_fops fl) = Some priv" by auto
    then have "mp_fops priv = fops_build D" using devices_invD(2) [OF inv] assms(5) by blast
    with p served_valid [OF assms(4) fl p(2,3) priv] show "\<exists>p. mc_live c f = Some p \<and> valid p \<and> served_with F D w f p" by blast
  }
  {
    fix misc
    assume "misc \<in> reg (mw_kernel w)"
    then obtain priv where "mw_privs w misc = Some priv" "misc \<noteq> 0" "mp_owner priv \<in> dom (mw_slots w)" "slot_holds c (mp_owner priv) misc"
      using devices_inv_owner [OF inv, of misc] assms(5) by metis
    then show "\<exists>slot. rs_miscdevice_owner misc w = Inr slot \<and> slot \<in> dom (mw_slots w) \<and>
        (mc_pending c slot = None \<longrightarrow> registration_as_raw slot w = Inr misc)"
      using assms(5) by (auto simp: rs_miscdevice_owner_def registration_as_raw_def slot_holds_def)
  }
  {
    fix slot misc
    assume "registration_as_raw slot w = Inr misc"
    then have slot: "mw_slots w slot = Some (Some misc)" by (auto simp: registration_as_raw_def split: option.splits)
    note misc = devices_inv_written [OF inv, of slot misc, folded assms(5), OF slot]
    show "misc \<in> reg (mw_kernel w)" using devices_invD(1) [OF inv] misc(1) assms(5) by simp
    show "\<exists>w'. registration_drop K slot w = Inr w' \<and> reg (mw_kernel w') = reg (mw_kernel w) - {misc} \<and> mw_privs w' = (mw_privs w)(misc := None)"
      using registration_drop_ok [OF slot misc, of K] c_misc_okD(3) [OF assms(2)] by simp
  }
  show "dom (mw_privs w) = {misc. \<exists>slot. slot_holds c slot misc}"
    using devices_invD(2,3) [OF inv] assms(5) by blast
qed

text \<open>A driver whose files share an object in an \<open>Arc\<close>, and a kernel with room for one device.\<close>

definition demo_driver :: "(arc, nat, unit) misc_driver" where
  "demo_driver = \<lparr>drv_open = (\<lambda>f reg d. Inr (Ok 5, Suc d)), drv_release = (\<lambda>p f d. Inr (d - 1)), drv_mmap = None, drv_llseek = None,
     drv_read_iter = None, drv_write_iter = None, drv_ioctl = Some (\<lambda>p f cmd arg d. Inr (if arg = 0 then Err EINVAL else Ok (int p), d)),
     drv_compat_ioctl = None, drv_show_fdinfo = None\<rparr>"

definition demo_foreign :: "arc foreign_ops" where
  "demo_foreign = \<lparr>for_into = arc_into_foreign, for_from = arc_from_foreign, for_borrow = arc_foreign_borrow\<rparr>"

definition demo_c_misc :: "addr set c_misc" where
  "demo_c_misc = \<lparr>c_kzalloc = (\<lambda>S. if 64 \<in> S then 0 else 64), c_misc_register = (\<lambda>m k. (0, insert m k)),
     c_misc_deregister = (\<lambda>m k. k - {m}), c_generic_file_open = (\<lambda>f k. 0)\<rparr>"

definition demo_misc_conf :: "addr option \<Rightarrow> (addr \<rightharpoonup> misc_file) \<Rightarrow> (addr \<rightharpoonup> arc) \<Rightarrow> nat \<Rightarrow> (arc, nat, addr set) misc_conf" where
  "demo_misc_conf v files live d =
     \<lparr>mc_world = \<lparr>mw_privs = [64 \<mapsto> device_block demo_driver ''demo'' 8], mw_slots = [8 \<mapsto> v], mw_files = files, mw_kernel = {64}, mw_drv = d\<rparr>,
      mc_live = live, mc_pending = (if v = None then [8 \<mapsto> 64] else Map.empty)\<rparr>"

lemma demo_registered: "misc_reach demo_c_misc id demo_foreign demo_driver (demo_misc_conf None Map.empty Map.empty 0)"
proof -
  let ?c = "\<lparr>mc_world = \<lparr>mw_privs = Map.empty, mw_slots = [8 \<mapsto> None], mw_files = Map.empty, mw_kernel = {}, mw_drv = 0\<rparr>,
    mc_live = Map.empty, mc_pending = Map.empty\<rparr> :: (arc, nat, addr set) misc_conf"
  have "misc_reach demo_c_misc id demo_foreign demo_driver (?c\<lparr>mc_world := (mc_world ?c)\<lparr>mw_slots := Map.empty\<rparr>\<rparr>)"
    by (rule mr_start) (simp add: misc_start_def)
  from mr_step [OF this mst_alloc [of 8]] have c: "misc_reach demo_c_misc id demo_foreign demo_driver ?c" by simp
  have "register_device demo_c_misc demo_driver ''demo'' 8 (mc_world ?c) =
      Inr (Ok 64, mc_world (demo_misc_conf None Map.empty Map.empty 0))"
    by (simp add: register_device_def misc_into_raw_def rs_miscdevice_init_def demo_c_misc_def demo_misc_conf_def device_block_def)
  from mr_step [OF c mst_register [OF _ _ this]] show ?thesis by (simp add: demo_misc_conf_def)
qed

lemma demo_opened: "misc_reach demo_c_misc id demo_foreign demo_driver (demo_misc_conf (Some 64) [3 \<mapsto> \<lparr>fl_private = 5, fl_fops = 64\<rparr>] [3 \<mapsto> 5] 1)"
proof -
  have "registration_write 8 64 (mc_world (demo_misc_conf None Map.empty Map.empty 0)) = Inr (mc_world (demo_misc_conf (Some 64) Map.empty Map.empty 0))"
    by (simp add: registration_write_def demo_misc_conf_def)
  from mr_step [OF demo_registered mst_write [OF _ this]]
  have c: "misc_reach demo_c_misc id demo_foreign demo_driver (demo_misc_conf (Some 64) Map.empty Map.empty 0)" by (simp add: demo_misc_conf_def)
  let ?w = "mc_world (demo_misc_conf (Some 64) Map.empty Map.empty 0)"
  have "misc_open_file demo_c_misc demo_foreign demo_driver 64 3 ?w =
      Inr (0, mc_world (demo_misc_conf (Some 64) [3 \<mapsto> \<lparr>fl_private = 5, fl_fops = 64\<rparr>] [3 \<mapsto> 5] 1))"
    by (simp add: misc_open_file_def fops_open_def demo_c_misc_def demo_misc_conf_def rs_file_private_data_def rs_miscdevice_owner_def
      demo_driver_def device_block_def rs_file_set_private_data_def demo_foreign_def arc_into_foreign_def)
  from mr_step [OF c mst_open [OF _ _ _ _ this, where owner = 8 and p = 5 and d = 1]] show ?thesis
    by (simp add: demo_misc_conf_def rs_miscdevice_owner_def demo_driver_def)
qed

theorem misc_device_sound_witness:
  "let c = demo_misc_conf (Some 64) [3 \<mapsto> \<lparr>fl_private = 5, fl_fops = 64\<rparr>] [3 \<mapsto> 5] 1; w = mc_world c in
     misc_reach demo_c_misc id demo_foreign demo_driver c \<and> served_with demo_foreign demo_driver w 3 5 \<and>
     fops_ioctl demo_foreign (the (drv_ioctl demo_driver)) 3 0 0 w = Inr (- 22, w)"
proof -
  let ?c = "demo_misc_conf (Some 64) [3 \<mapsto> \<lparr>fl_private = 5, fl_fops = 64\<rparr>] [3 \<mapsto> 5] 1"
  have K: "c_misc_ok demo_c_misc id" by (auto simp: c_misc_ok_def demo_c_misc_def)
  have D: "driver_ok demo_driver (\<lambda>a. a \<noteq> 0)" by (simp add: driver_ok_def demo_driver_def)
  have F: "foreign_borrow (for_into demo_foreign) (for_from demo_foreign) (\<lambda>a. a \<noteq> 0) (for_borrow demo_foreign)"
    using foreign_arc_borrow.foreign_borrow_axioms by (simp add: demo_foreign_def)
  from misc_device_sound [OF demo_opened K D F refl]
  have "\<forall>f \<in> dom (mw_files (mc_world ?c)). \<exists>p. mc_live ?c f = Some p \<and> p \<noteq> 0 \<and> served_with demo_foreign demo_driver (mc_world ?c) f p" by blast
  then have served: "served_with demo_foreign demo_driver (mc_world ?c) 3 5" by (simp add: demo_misc_conf_def)
  then have "fops_ioctl demo_foreign (the (drv_ioctl demo_driver)) 3 0 0 (mc_world ?c) = Inr (- 22, mc_world ?c)"
    by (simp add: served_with_def) (simp add: demo_driver_def EINVAL_def)
  with served demo_opened show ?thesis by (simp add: Let_def)
qed

text \<open>
  Registering a misc device gives everything back that it does not keep. It always returns; on an error no block is left allocated, no
  device more is registered, and the memory of the registration is not written. On success the memory holds a new device that is registered, whose
  block has the driver's table of operations and the address of the registration; dropping the registration then
  frees this block and removes this device.
\<close>

lemma misc_register_correct:
  assumes "c_misc_ok K reg" and "mw_slots w slot = Some None"
  shows "\<exists>r w'. misc_register K D name slot w = Inr (r, w') \<and> mw_files w' = mw_files w \<and> mw_drv w' = mw_drv w \<and>
    (case r of
       Err e \<Rightarrow> mw_privs w' = mw_privs w \<and> mw_slots w' = mw_slots w \<and> reg (mw_kernel w') = reg (mw_kernel w)
     | Ok _ \<Rightarrow> \<exists>misc priv. registration_as_raw slot w' = Inr misc \<and> misc \<notin> dom (mw_privs w) \<and>
         mw_privs w' = (mw_privs w)(misc \<mapsto> priv) \<and> mp_owner priv = slot \<and> mp_fops priv = fops_build D \<and> mp_name priv = name \<and>
         reg (mw_kernel w') = insert misc (reg (mw_kernel w)) \<and>
         (\<exists>w''. registration_drop K slot w' = Inr w'' \<and> mw_privs w'' = mw_privs w \<and>
           reg (mw_kernel w'') = reg (mw_kernel w) - {misc} \<and> mw_slots w'' = (mw_slots w)(slot := None)))"
proof (rule register_device_cases [OF assms(1), of D name slot w])
  fix misc k
  assume ok: "register_device K D name slot w =
      Inr (Ok misc, w\<lparr>mw_privs := (mw_privs w)(misc \<mapsto> device_block D name slot), mw_kernel := k\<rparr>)"
    "misc \<noteq> 0" "misc \<notin> dom (mw_privs w)" "reg k = insert misc (reg (mw_kernel w))"
  let ?w = "w\<lparr>mw_privs := (mw_privs w)(misc \<mapsto> device_block D name slot), mw_kernel := k, mw_slots := (mw_slots w)(slot \<mapsto> Some misc)\<rparr>"
  have reg: "misc_register K D name slot w = Inr (Ok (), ?w)" using ok(1) assms(2) by (auto simp: misc_register_def registration_write_def)
  have "(mw_privs w)(misc := None) = mw_privs w" using ok(3) by auto
  then have "registration_drop K slot ?w = Inr (w\<lparr>mw_slots := (mw_slots w)(slot := None), mw_kernel := c_misc_deregister K misc k\<rparr>)"
    using ok(2) by (subst registration_drop_ok [of _ _ misc]) auto
  with reg ok c_misc_okD(3) [OF assms(1)] show ?thesis by (auto simp: registration_as_raw_def device_block_def)
next
  fix e k
  assume "register_device K D name slot w = Inr (Err e, w\<lparr>mw_kernel := k\<rparr>)" "reg k = reg (mw_kernel w)"
  then show ?thesis by (simp add: misc_register_def)
qed

section \<open>Buffers and tables\<close>

text \<open>The pointer variant of the compatibility ioctl is only installed for a driver that has an ioctl and no variant of its own.\<close>

lemma fops_compat: "fo_compat_ioctl (fops_build D) = Some CompatPtrIoctl \<longleftrightarrow> drv_ioctl D \<noteq> None \<and> drv_compat_ioctl D = None"
  by (simp add: fops_build_def)

definition c_iov_ok :: "'i c_iov \<Rightarrow> ('i \<Rightarrow> u8 list) \<Rightarrow> ('i \<Rightarrow> u8 list) \<Rightarrow> bool" where
  "c_iov_ok I src dst \<longleftrightarrow>
     (\<forall>n i. case c_copy_from_iter I n i of (bs, i') \<Rightarrow> length bs \<le> n \<and> src i = bs @ src i') \<and>
     (\<forall>v i. case c_copy_to_iter I v i of (res, i') \<Rightarrow> res \<le> length v \<and> dst i' = dst i @ take res v)"

lemma copy_from_iter_bounds:
  assumes "c_iov_ok I src dst" "copy_from_iter I buf i = (n, buf', i')"
  shows "length buf' = length buf \<and> take n buf' @ src i' = src i \<and> drop n buf' = drop n buf"
proof -
  obtain bs i'' where c: "c_copy_from_iter I (length buf) i = (bs, i'')" by fastforce
  have "case c_copy_from_iter I (length buf) i of (bs, i') \<Rightarrow> length bs \<le> length buf \<and> src i = bs @ src i'"
    using assms(1) by (simp add: c_iov_ok_def)
  with c assms(2) show ?thesis by (auto simp: copy_from_iter_def)
qed

lemma copy_to_iter_complete:
  assumes "c_iov_ok I src dst" "copy_to_iter I v i = (Ok (), i')"
  shows "dst i' = dst i @ v"
proof -
  obtain res i'' where c: "c_copy_to_iter I v i = (res, i'')" by fastforce
  have "case c_copy_to_iter I v i of (res, i') \<Rightarrow> res \<le> length v \<and> dst i' = dst i @ take res v"
    using assms(1) by (simp add: c_iov_ok_def)
  with c assms(2) show ?thesis by (auto simp: copy_to_iter_def split: if_splits)
qed

section \<open>Where the safety comments do not hold\<close>

text \<open>
  Between the registration with the kernel and the write of the slot the device can be opened: a driver whose \<open>open\<close> asks the
  registration for its device reads memory that is not initialised.
\<close>

lemma open_before_write:
  assumes "mw_privs w misc = Some priv" "misc \<noteq> 0" "mw_slots w (mp_owner priv) = Some None" "c_generic_file_open K f (mw_kernel w) = 0"
    and "\<And>f r d. drv_open D f r d = exec_bind r (\<lambda>dev. body f dev d)"
  shows "misc_open_file K F D misc f w = Inl UB"
proof -
  have "mp_owner priv \<in> dom (mw_slots w)" using assms(3) by auto
  with assms show ?thesis
    by (simp add: misc_open_file_def fops_open_def rs_file_private_data_def rs_miscdevice_owner_def registration_as_raw_def Let_def)
qed

lemma open_before_write_reachable:
  "misc_reach demo_c_misc id demo_foreign demo_driver (demo_misc_conf None Map.empty Map.empty 0) \<and>
   (let w = mc_world (demo_misc_conf None Map.empty Map.empty 0) in 64 \<in> mw_kernel w \<and> mw_slots w 8 = Some None)"
  using demo_registered by (simp add: demo_misc_conf_def)

text \<open>
  The table of operations is in the block that the registration frees: when it is dropped while a file is open, closing the file
  follows a dangling pointer.
\<close>

lemma close_after_drop:
  assumes "mw_slots w slot = Some (Some misc)" "misc \<in> dom (mw_privs w)" "misc \<noteq> 0"
    and "mw_files w f = Some fl" "fl_fops fl = misc" "registration_drop K slot w = Inr w'"
  shows "misc_close_file F D f w' = Inl UB"
  using assms registration_drop_ok [OF assms(1-3), of K] by (auto simp: misc_close_file_def file_fops_def)

end
