(* ===== verification/Kernel_Box.thy ===== *)
theory Kernel_Box
  imports Misc_Device Allocators "HOL-Library.Multiset"
begin

text \<open>
  \<open>rust/src/alloc/kbox.rs\<close>: boxes as the pointers that they are, with their conversions to raw and foreign pointers.

  The operations of \<open>Allocators\<close> act on the block of a box; here blocks are in a heap, by address. A type is its size, its
  alignment and, where the size is zero, its only value: such a box is a dangling pointer without a block. The address of a new block is
  chosen by the parameter \<open>fresh\<close>.
\<close>

section \<open>Boxes\<close>

record 'a box_type =
  bt_size :: usize
  bt_align :: usize
  bt_zst :: 'a

type_synonym 'a box_heap = "addr \<rightharpoonup> 'a block"


definition box_block :: "'a box_type \<Rightarrow> 'a box_heap \<Rightarrow> addr \<Rightarrow> 'a block exec" where
  "box_block T h p =
     (if bt_size T = 0 then exec_bind (require UB (p \<noteq> 0)) (\<lambda>_. Inr \<lparr>b_size = 0, b_mem = (\<lambda>_. Some (bt_zst T))\<rparr>)
      else case h p of None \<Rightarrow> Inl UB | Some b \<Rightarrow> Inr b)"


definition box_from_raw :: "addr \<Rightarrow> addr exec" where
  "box_from_raw raw = exec_bind (require UB (raw \<noteq> 0)) (\<lambda>_. Inr raw)"

definition box_into_raw :: "addr \<Rightarrow> addr" where
  "box_into_raw b = b"






text \<open>\<open>pin\<close> and \<open>From<Box<T, A>>\<close> only change the type of the pointer.\<close>

definition box_into_pin :: "addr \<Rightarrow> addr" where
  "box_into_pin b = b"


definition box_ptr_deref :: "'a box_type \<Rightarrow> 'a box_heap \<Rightarrow> addr \<Rightarrow> 'a exec" where
  "box_ptr_deref T h b = exec_bind (box_block T h b) (box_deref (bt_size T))"







section \<open>Foreign ownership\<close>

definition box_into_foreign :: "addr \<Rightarrow> addr" where
  "box_into_foreign b = box_into_raw b"

definition box_from_foreign :: "addr \<Rightarrow> addr exec" where
  "box_from_foreign p = box_from_raw p"

text \<open>The reference is the pointer.\<close>

definition box_borrow :: "addr \<Rightarrow> addr exec" where
  "box_borrow p = exec_bind (require UB (p \<noteq> 0)) (\<lambda>_. Inr p)"

definition pin_box_into_foreign :: "addr \<Rightarrow> addr" where
  "pin_box_into_foreign b = box_into_raw b"

definition pin_box_from_foreign :: "addr \<Rightarrow> addr exec" where
  "pin_box_from_foreign p = exec_bind (box_from_raw p) (\<lambda>b. Inr (box_into_pin b))"

definition pin_box_borrow :: "addr \<Rightarrow> addr exec" where
  "pin_box_borrow p = exec_bind (require UB (p \<noteq> 0)) (\<lambda>_. Inr (box_into_pin p))"

lemmas box_pointer_defs = box_into_foreign_def box_from_foreign_def box_borrow_def box_into_raw_def box_from_raw_def
  pin_box_into_foreign_def pin_box_from_foreign_def pin_box_borrow_def box_into_pin_def


interpretation foreign_pin_box: foreign_borrow pin_box_into_foreign pin_box_from_foreign "\<lambda>b. b \<noteq> 0" pin_box_borrow
  by unfold_locales (simp_all add: box_pointer_defs)

section \<open>Programs with boxes\<close>






section \<open>The state of a program\<close>

definition box_has_room :: "'a box_type \<Rightarrow> 'a box_heap \<Rightarrow> addr \<Rightarrow> bool" where
  "box_has_room T h p \<longleftrightarrow> (\<exists>blk. box_block T h p = Inr blk \<and> slot_ok (bt_size T) blk 0)"

definition box_live :: "'a box_type \<Rightarrow> 'a box_heap \<Rightarrow> addr \<Rightarrow> bool" where
  "box_live T h p \<longleftrightarrow> (\<exists>x. box_ptr_deref T h p = Inr x)"








lemma box_live_room: "box_live T h p \<Longrightarrow> box_has_room T h p"
  by (auto simp: box_live_def box_has_room_def box_ptr_deref_def box_deref_def slot_read_def split: if_splits)




section \<open>Moves between the two pools\<close>









section \<open>What each operation does to the pools\<close>































end
