(* ===== verification/Net_Phy.thy ===== *)
theory Net_Phy
  imports Kernel_Error
begin

text \<open>
  \<open>rust/src/net/phy.rs\<close> and \<open>rust/src/net/phy/reg.rs\<close>: network PHY devices, their registers, the table of callbacks that a driver
  gives to the kernel, and its registration.

  PHYLIB and the bus are not in the crate: their functions are the parameter \<open>c_phy\<close>, with the results that they document as \<open>c_phy_ok\<close>,
  and their constants the records \<open>phy_constants\<close> and \<open>mdio_constants\<close>. A device is its \<open>struct phy_device\<close>; what the functions of the bus
  change besides is of an arbitrary type. The lock of a device is held during a callback, so that a callback is one step on its device.
\<close>

unbundle bit_operations_syntax

type_synonym u16 = "16 word"

section \<open>Devices\<close>

datatype device_state =
  State_Down | State_Ready | State_Halted | State_Error | State_Up | State_Running | State_NoLink | State_CableTest

datatype duplex_mode = Duplex_Full | Duplex_Half | Duplex_Unknown

record phy_device =
  pd_phy_id :: u32
  pd_state :: u32
  pd_bitfield_1 :: u64
  pd_speed :: int
  pd_duplex :: int
  pd_mdio_bus :: addr
  pd_mdio_addr :: int

record phy_constants =
  PHY_DOWN :: u32
  PHY_READY :: u32
  PHY_HALTED :: u32
  PHY_ERROR :: u32
  PHY_UP :: u32
  PHY_RUNNING :: u32
  PHY_NOLINK :: u32
  PHY_CABLETEST :: u32
  AUTONEG_ENABLE :: u32
  DUPLEX_FULL :: u32
  DUPLEX_HALF :: u32
  DUPLEX_UNKNOWN :: u32

type_synonym 'h phy = "phy_device \<times> 'h"
type_synonym 'h phy_call = "'h phy \<Rightarrow> int \<times> 'h phy"


definition device_state_of :: "phy_constants \<Rightarrow> phy_device \<Rightarrow> device_state" where
  "device_state_of K self =
     (let state = pd_state self in
      if state = PHY_DOWN K then State_Down
      else if state = PHY_READY K then State_Ready
      else if state = PHY_HALTED K then State_Halted
      else if state = PHY_ERROR K then State_Error
      else if state = PHY_UP K then State_Up
      else if state = PHY_RUNNING K then State_Running
      else if state = PHY_NOLINK K then State_NoLink
      else if state = PHY_CABLETEST K then State_CableTest
      else State_Error)"

text \<open>\<open>_bitfield_1.get(offset, width)\<close>.\<close>

definition bitfield_get :: "u64 \<Rightarrow> nat \<Rightarrow> nat \<Rightarrow> u64" where
  "bitfield_get b bit_offset bit_width = take_bit bit_width (drop_bit bit_offset b)"

definition is_link_up :: "phy_device \<Rightarrow> bool" where
  "is_link_up self \<longleftrightarrow> bitfield_get (pd_bitfield_1 self) 14 1 = 1"

definition is_autoneg_enabled :: "phy_constants \<Rightarrow> phy_device \<Rightarrow> bool" where
  "is_autoneg_enabled K self \<longleftrightarrow> bitfield_get (pd_bitfield_1 self) 13 1 = ucast (AUTONEG_ENABLE K)"

definition is_autoneg_completed :: "phy_device \<Rightarrow> bool" where
  "is_autoneg_completed self \<longleftrightarrow> bitfield_get (pd_bitfield_1 self) 15 1 = 1"

definition set_speed :: "u32 \<Rightarrow> phy_device \<Rightarrow> phy_device" where
  "set_speed speed self = self\<lparr>pd_speed := sint speed\<rparr>"

definition set_duplex :: "phy_constants \<Rightarrow> duplex_mode \<Rightarrow> phy_device \<Rightarrow> phy_device" where
  "set_duplex K mode self =
     (let v = (case mode of
          Duplex_Full \<Rightarrow> sint (DUPLEX_FULL K)
        | Duplex_Half \<Rightarrow> sint (DUPLEX_HALF K)
        | Duplex_Unknown \<Rightarrow> sint (DUPLEX_UNKNOWN K))
      in self\<lparr>pd_duplex := v\<rparr>)"

section \<open>The functions of PHYLIB\<close>

record 'h c_phy =
  mdiobus_read :: "addr \<Rightarrow> int \<Rightarrow> u32 \<Rightarrow> 'h \<Rightarrow> int \<times> 'h"
  mdiobus_write :: "addr \<Rightarrow> int \<Rightarrow> u32 \<Rightarrow> u16 \<Rightarrow> 'h \<Rightarrow> int \<times> 'h"
  phy_read_mmd :: "int \<Rightarrow> u32 \<Rightarrow> 'h phy_call"
  phy_write_mmd :: "int \<Rightarrow> u32 \<Rightarrow> u16 \<Rightarrow> 'h phy_call"
  phy_read_paged :: "int \<Rightarrow> u32 \<Rightarrow> 'h phy_call"
  c_genphy_read_status :: "'h phy_call"
  c_genphy_c45_read_status :: "'h phy_call"
  c_genphy_soft_reset :: "'h phy_call"
  c_phy_init_hw :: "'h phy_call"
  c_phy_start_aneg :: "'h phy_call"
  c_genphy_resume :: "'h phy_call"
  c_genphy_suspend :: "'h phy_call"
  c_genphy_update_link :: "'h phy_call"
  c_genphy_read_lpa :: "'h phy_call"
  c_genphy_read_abilities :: "'h phy_call"
  c_resolve_aneg_linkmode :: "'h phy \<Rightarrow> 'h phy"

text \<open>\<open>to_result\<close> of the value that a call returns.\<close>

definition ffi_result :: "'h phy_call \<Rightarrow> 'h phy \<Rightarrow> (unit, error) result \<times> 'h phy" where
  "ffi_result call dev = (let (ret, dev) = call dev in (to_result ret, dev))"

definition read_paged :: "'h c_phy \<Rightarrow> u16 \<Rightarrow> u16 \<Rightarrow> 'h phy \<Rightarrow> (u16, error) result \<times> 'h phy" where
  "read_paged C page regnum dev =
     (let (ret, dev) = phy_read_paged C (uint page) (ucast regnum) dev in
      if ret < 0 then (Err (from_errno ret), dev) else (Ok (word_of_int ret), dev))"

definition resolve_aneg_linkmode :: "'h c_phy \<Rightarrow> 'h phy \<Rightarrow> 'h phy" where
  "resolve_aneg_linkmode C dev = c_resolve_aneg_linkmode C dev"

definition genphy_soft_reset :: "'h c_phy \<Rightarrow> 'h phy \<Rightarrow> (unit, error) result \<times> 'h phy" where
  "genphy_soft_reset C dev = ffi_result (c_genphy_soft_reset C) dev"

definition init_hw :: "'h c_phy \<Rightarrow> 'h phy \<Rightarrow> (unit, error) result \<times> 'h phy" where
  "init_hw C dev = ffi_result (c_phy_init_hw C) dev"

definition start_aneg :: "'h c_phy \<Rightarrow> 'h phy \<Rightarrow> (unit, error) result \<times> 'h phy" where
  "start_aneg C dev = ffi_result (c_phy_start_aneg C) dev"

definition genphy_resume :: "'h c_phy \<Rightarrow> 'h phy \<Rightarrow> (unit, error) result \<times> 'h phy" where
  "genphy_resume C dev = ffi_result (c_genphy_resume C) dev"

definition genphy_suspend :: "'h c_phy \<Rightarrow> 'h phy \<Rightarrow> (unit, error) result \<times> 'h phy" where
  "genphy_suspend C dev = ffi_result (c_genphy_suspend C) dev"

definition genphy_update_link :: "'h c_phy \<Rightarrow> 'h phy \<Rightarrow> (unit, error) result \<times> 'h phy" where
  "genphy_update_link C dev = ffi_result (c_genphy_update_link C) dev"

definition genphy_read_lpa :: "'h c_phy \<Rightarrow> 'h phy \<Rightarrow> (unit, error) result \<times> 'h phy" where
  "genphy_read_lpa C dev = ffi_result (c_genphy_read_lpa C) dev"

definition genphy_read_abilities :: "'h c_phy \<Rightarrow> 'h phy \<Rightarrow> (unit, error) result \<times> 'h phy" where
  "genphy_read_abilities C dev = ffi_result (c_genphy_read_abilities C) dev"

section \<open>Registers\<close>

datatype c22 = C22 u8

definition C22_BMCR :: c22 where "C22_BMCR = C22 0x00"
definition C22_BMSR :: c22 where "C22_BMSR = C22 0x01"
definition C22_PHYSID1 :: c22 where "C22_PHYSID1 = C22 0x02"
definition C22_PHYSID2 :: c22 where "C22_PHYSID2 = C22 0x03"
definition C22_ADVERTISE :: c22 where "C22_ADVERTISE = C22 0x04"
definition C22_LPA :: c22 where "C22_LPA = C22 0x05"
definition C22_EXPANSION :: c22 where "C22_EXPANSION = C22 0x06"
definition C22_NEXT_PAGE_TRANSMIT :: c22 where "C22_NEXT_PAGE_TRANSMIT = C22 0x07"
definition C22_LP_RECEIVED_NEXT_PAGE :: c22 where "C22_LP_RECEIVED_NEXT_PAGE = C22 0x08"
definition C22_MASTER_SLAVE_CONTROL :: c22 where "C22_MASTER_SLAVE_CONTROL = C22 0x09"
definition C22_MASTER_SLAVE_STATUS :: c22 where "C22_MASTER_SLAVE_STATUS = C22 0x0a"
definition C22_PSE_CONTROL :: c22 where "C22_PSE_CONTROL = C22 0x0b"
definition C22_PSE_STATUS :: c22 where "C22_PSE_STATUS = C22 0x0c"
definition C22_MMD_CONTROL :: c22 where "C22_MMD_CONTROL = C22 0x0d"
definition C22_MMD_DATA :: c22 where "C22_MMD_DATA = C22 0x0e"
definition C22_EXTENDED_STATUS :: c22 where "C22_EXTENDED_STATUS = C22 0x0f"

text \<open>A failed \<open>build_assert!\<close> is \<open>None\<close>: the program does not link.\<close>

definition vendor_specific :: "u8 \<Rightarrow> c22 option" where
  "vendor_specific N = (if N > 0x0f \<and> N < 0x20 then Some (C22 N) else None)"

fun c22_read :: "'h c_phy \<Rightarrow> c22 \<Rightarrow> 'h phy \<Rightarrow> (u16, error) result \<times> 'h phy" where
  "c22_read C (C22 r) (d, h) =
     (let (ret, h) = mdiobus_read C (pd_mdio_bus d) (pd_mdio_addr d) (ucast r) h in
      case to_result ret of Err e \<Rightarrow> (Err e, d, h) | Ok _ \<Rightarrow> (Ok (word_of_int ret), d, h))"

fun c22_write :: "'h c_phy \<Rightarrow> c22 \<Rightarrow> u16 \<Rightarrow> 'h phy \<Rightarrow> (unit, error) result \<times> 'h phy" where
  "c22_write C (C22 r) val (d, h) =
     (let (ret, h) = mdiobus_write C (pd_mdio_bus d) (pd_mdio_addr d) (ucast r) val h in (to_result ret, d, h))"

definition c22_read_status :: "'h c_phy \<Rightarrow> 'h phy \<Rightarrow> (u16, error) result \<times> 'h phy" where
  "c22_read_status C dev =
     (let (ret, dev) = c_genphy_read_status C dev in
      case to_result ret of Err e \<Rightarrow> (Err e, dev) | Ok _ \<Rightarrow> (Ok (word_of_int ret), dev))"

datatype mmd = Mmd u8

record mdio_constants =
  MDIO_MMD_PMAPMD :: int
  MDIO_MMD_WIS :: int
  MDIO_MMD_PCS :: int
  MDIO_MMD_PHYXS :: int
  MDIO_MMD_DTEXS :: int
  MDIO_MMD_TC :: int
  MDIO_MMD_AN :: int
  MDIO_MMD_C22EXT :: int
  MDIO_MMD_VEND1 :: int
  MDIO_MMD_VEND2 :: int

definition Mmd_PMAPMD :: "mdio_constants \<Rightarrow> mmd" where "Mmd_PMAPMD M = Mmd (word_of_int (MDIO_MMD_PMAPMD M))"
definition Mmd_WIS :: "mdio_constants \<Rightarrow> mmd" where "Mmd_WIS M = Mmd (word_of_int (MDIO_MMD_WIS M))"
definition Mmd_PCS :: "mdio_constants \<Rightarrow> mmd" where "Mmd_PCS M = Mmd (word_of_int (MDIO_MMD_PCS M))"
definition Mmd_PHYXS :: "mdio_constants \<Rightarrow> mmd" where "Mmd_PHYXS M = Mmd (word_of_int (MDIO_MMD_PHYXS M))"
definition Mmd_DTEXS :: "mdio_constants \<Rightarrow> mmd" where "Mmd_DTEXS M = Mmd (word_of_int (MDIO_MMD_DTEXS M))"
definition Mmd_TC :: "mdio_constants \<Rightarrow> mmd" where "Mmd_TC M = Mmd (word_of_int (MDIO_MMD_TC M))"
definition Mmd_AN :: "mdio_constants \<Rightarrow> mmd" where "Mmd_AN M = Mmd (word_of_int (MDIO_MMD_AN M))"
definition Mmd_SEPARATED_PMA1 :: mmd where "Mmd_SEPARATED_PMA1 = Mmd 8"
definition Mmd_SEPARATED_PMA2 :: mmd where "Mmd_SEPARATED_PMA2 = Mmd 9"
definition Mmd_SEPARATED_PMA3 :: mmd where "Mmd_SEPARATED_PMA3 = Mmd 10"
definition Mmd_SEPARATED_PMA4 :: mmd where "Mmd_SEPARATED_PMA4 = Mmd 11"
definition Mmd_OFDM_PMAPMD :: mmd where "Mmd_OFDM_PMAPMD = Mmd 12"
definition Mmd_POWER_UNIT :: mmd where "Mmd_POWER_UNIT = Mmd 13"
definition Mmd_C22_EXT :: "mdio_constants \<Rightarrow> mmd" where "Mmd_C22_EXT M = Mmd (word_of_int (MDIO_MMD_C22EXT M))"
definition Mmd_VEND1 :: "mdio_constants \<Rightarrow> mmd" where "Mmd_VEND1 M = Mmd (word_of_int (MDIO_MMD_VEND1 M))"
definition Mmd_VEND2 :: "mdio_constants \<Rightarrow> mmd" where "Mmd_VEND2 M = Mmd (word_of_int (MDIO_MMD_VEND2 M))"

fun mmd_index :: "mmd \<Rightarrow> u8" where
  "mmd_index (Mmd n) = n"

record c45 =
  c45_devad :: mmd
  c45_regnum :: u16

definition c45_new :: "mmd \<Rightarrow> u16 \<Rightarrow> c45" where
  "c45_new devad regnum = \<lparr>c45_devad = devad, c45_regnum = regnum\<rparr>"

definition c45_read :: "'h c_phy \<Rightarrow> c45 \<Rightarrow> 'h phy \<Rightarrow> (u16, error) result \<times> 'h phy" where
  "c45_read C self dev =
     (let (ret, dev) = phy_read_mmd C (uint (mmd_index (c45_devad self))) (ucast (c45_regnum self)) dev in
      case to_result ret of Err e \<Rightarrow> (Err e, dev) | Ok _ \<Rightarrow> (Ok (word_of_int ret), dev))"

definition c45_write :: "'h c_phy \<Rightarrow> c45 \<Rightarrow> u16 \<Rightarrow> 'h phy \<Rightarrow> (unit, error) result \<times> 'h phy" where
  "c45_write C self val dev =
     (let (ret, dev) = phy_write_mmd C (uint (mmd_index (c45_devad self))) (ucast (c45_regnum self)) val dev in (to_result ret, dev))"

definition c45_read_status :: "'h c_phy \<Rightarrow> 'h phy \<Rightarrow> (u16, error) result \<times> 'h phy" where
  "c45_read_status C dev =
     (let (ret, dev) = c_genphy_c45_read_status C dev in
      case to_result ret of Err e \<Rightarrow> (Err e, dev) | Ok _ \<Rightarrow> (Ok (word_of_int ret), dev))"

text \<open>The methods of \<open>Device\<close> that take any register forward to its implementation of \<open>Register\<close>.\<close>

record ('r, 'h) register_impl =
  reg_read :: "'r \<Rightarrow> 'h phy \<Rightarrow> (u16, error) result \<times> 'h phy"
  reg_write :: "'r \<Rightarrow> u16 \<Rightarrow> 'h phy \<Rightarrow> (unit, error) result \<times> 'h phy"
  reg_read_status :: "'h phy \<Rightarrow> (u16, error) result \<times> 'h phy"

definition c22_register :: "'h c_phy \<Rightarrow> (c22, 'h) register_impl" where
  "c22_register C = \<lparr>reg_read = c22_read C, reg_write = c22_write C, reg_read_status = c22_read_status C\<rparr>"

definition c45_register :: "'h c_phy \<Rightarrow> (c45, 'h) register_impl" where
  "c45_register C = \<lparr>reg_read = c45_read C, reg_write = c45_write C, reg_read_status = c45_read_status C\<rparr>"

definition device_read :: "('r, 'h) register_impl \<Rightarrow> 'r \<Rightarrow> 'h phy \<Rightarrow> (u16, error) result \<times> 'h phy" where
  "device_read R reg self = reg_read R reg self"

definition device_write :: "('r, 'h) register_impl \<Rightarrow> 'r \<Rightarrow> u16 \<Rightarrow> 'h phy \<Rightarrow> (unit, error) result \<times> 'h phy" where
  "device_write R reg val self = reg_write R reg val self"

definition genphy_read_status :: "('r, 'h) register_impl \<Rightarrow> 'h phy \<Rightarrow> (u16, error) result \<times> 'h phy" where
  "genphy_read_status R self = reg_read_status R self"

section \<open>Device identifiers\<close>

datatype device_mask = Mask_Exact | Mask_Model | Mask_Vendor | Mask_Custom u32

definition MASK_EXACT :: u32 where "MASK_EXACT = NOT 0"
definition MASK_MODEL :: u32 where "MASK_MODEL = push_bit 4 (NOT 0)"
definition MASK_VENDOR :: u32 where "MASK_VENDOR = push_bit 10 (NOT 0)"

fun device_mask_as_int :: "device_mask \<Rightarrow> u32" where
  "device_mask_as_int Mask_Exact = MASK_EXACT"
| "device_mask_as_int Mask_Model = MASK_MODEL"
| "device_mask_as_int Mask_Vendor = MASK_VENDOR"
| "device_mask_as_int (Mask_Custom m) = m"

record device_id =
  di_id :: u32
  di_mask :: device_mask

definition new_with_exact_mask :: "u32 \<Rightarrow> device_id" where
  "new_with_exact_mask i = \<lparr>di_id = i, di_mask = Mask_Exact\<rparr>"

definition new_with_model_mask :: "u32 \<Rightarrow> device_id" where
  "new_with_model_mask i = \<lparr>di_id = i, di_mask = Mask_Model\<rparr>"

definition new_with_vendor_mask :: "u32 \<Rightarrow> device_id" where
  "new_with_vendor_mask i = \<lparr>di_id = i, di_mask = Mask_Vendor\<rparr>"

definition new_with_custom_mask :: "u32 \<Rightarrow> u32 \<Rightarrow> device_id" where
  "new_with_custom_mask i m = \<lparr>di_id = i, di_mask = Mask_Custom m\<rparr>"

definition mask_as_int :: "device_id \<Rightarrow> u32" where
  "mask_as_int self = device_mask_as_int (di_mask self)"

record mdio_device_id =
  mi_phy_id :: u32
  mi_phy_id_mask :: u32

definition mdio_device_id_of :: "device_id \<Rightarrow> mdio_device_id" where
  "mdio_device_id_of self = \<lparr>mi_phy_id = di_id self, mi_phy_id_mask = device_mask_as_int (di_mask self)\<rparr>"

section \<open>Drivers and their callbacks\<close>

text \<open>
  An implementation of \<open>Driver\<close>: \<open>None\<close> for a method that it does not override. \<open>#[vtable]\<close> makes the constant \<open>HAS_*\<close> of a
  method true exactly when it is overridden.
\<close>

type_synonym ('t, 'h) phy_method = "'h phy \<Rightarrow> ('t, error) result \<times> 'h phy"

record 'h driver =
  drv_FLAGS :: u32
  drv_NAME :: string
  drv_PHY_DEVICE_ID :: device_id
  drv_soft_reset :: "(unit, 'h) phy_method option"
  drv_probe :: "(unit, 'h) phy_method option"
  drv_get_features :: "(unit, 'h) phy_method option"
  drv_match_phy_device :: "(phy_device \<Rightarrow> bool) option"
  drv_config_aneg :: "(unit, 'h) phy_method option"
  drv_read_status :: "(u16, 'h) phy_method option"
  drv_suspend :: "(unit, 'h) phy_method option"
  drv_resume :: "(unit, 'h) phy_method option"
  drv_read_mmd :: "(u8 \<Rightarrow> u16 \<Rightarrow> (u16, 'h) phy_method) option"
  drv_write_mmd :: "(u8 \<Rightarrow> u16 \<Rightarrow> u16 \<Rightarrow> (unit, 'h) phy_method) option"
  drv_link_change_notify :: "('h phy \<Rightarrow> 'h phy) option"

definition default_FLAGS :: u32 where
  "default_FLAGS = 0"

definition default_PHY_DEVICE_ID :: device_id where
  "default_PHY_DEVICE_ID = new_with_custom_mask 0 0"

definition new_with_driver :: "'h driver \<Rightarrow> device_id" where
  "new_with_driver T = drv_PHY_DEVICE_ID T"

text \<open>The default body \<open>build_error\<close> must not be reached: the program would not link. In the model it is a fault.\<close>

fun driver_method :: "'m option \<Rightarrow> 'm exec" where
  "driver_method (Some m) = Inr m"
| "driver_method None = Inl Panic"

definition driver_soft_reset :: "'h driver \<Rightarrow> (unit, 'h) phy_method exec" where
  "driver_soft_reset T = driver_method (drv_soft_reset T)"

definition driver_probe :: "'h driver \<Rightarrow> (unit, 'h) phy_method exec" where
  "driver_probe T = driver_method (drv_probe T)"

definition driver_get_features :: "'h driver \<Rightarrow> (unit, 'h) phy_method exec" where
  "driver_get_features T = driver_method (drv_get_features T)"

definition driver_match_phy_device :: "'h driver \<Rightarrow> phy_device \<Rightarrow> bool" where
  "driver_match_phy_device T dev = (case drv_match_phy_device T of Some m \<Rightarrow> m dev | None \<Rightarrow> False)"

definition driver_config_aneg :: "'h driver \<Rightarrow> (unit, 'h) phy_method exec" where
  "driver_config_aneg T = driver_method (drv_config_aneg T)"

definition driver_read_status :: "'h driver \<Rightarrow> (u16, 'h) phy_method exec" where
  "driver_read_status T = driver_method (drv_read_status T)"

definition driver_suspend :: "'h driver \<Rightarrow> (unit, 'h) phy_method exec" where
  "driver_suspend T = driver_method (drv_suspend T)"

definition driver_resume :: "'h driver \<Rightarrow> (unit, 'h) phy_method exec" where
  "driver_resume T = driver_method (drv_resume T)"

definition driver_read_mmd :: "'h driver \<Rightarrow> (u8 \<Rightarrow> u16 \<Rightarrow> (u16, 'h) phy_method) exec" where
  "driver_read_mmd T = driver_method (drv_read_mmd T)"

definition driver_write_mmd :: "'h driver \<Rightarrow> (u8 \<Rightarrow> u16 \<Rightarrow> u16 \<Rightarrow> (unit, 'h) phy_method) exec" where
  "driver_write_mmd T = driver_method (drv_write_mmd T)"

definition driver_link_change_notify :: "'h driver \<Rightarrow> 'h phy \<Rightarrow> 'h phy" where
  "driver_link_change_notify T dev = (case drv_link_change_notify T of Some m \<Rightarrow> m dev | None \<Rightarrow> dev)"

text \<open>
  The devices of the system, by address. \<open>Device::from_raw\<close> turns the pointer that PHYLIB passes into an exclusive reference for the
  time of the callback.
\<close>

record 'h phy_world =
  pw_devs :: "addr \<rightharpoonup> phy_device"
  pw_rest :: 'h

definition device_from_raw :: "addr \<Rightarrow> 'h phy_world \<Rightarrow> 'h phy exec" where
  "device_from_raw ptr w = (case pw_devs w ptr of Some d \<Rightarrow> Inr (d, pw_rest w) | None \<Rightarrow> Inl UB)"

definition device_release :: "addr \<Rightarrow> 'h phy \<Rightarrow> 'h phy_world \<Rightarrow> 'h phy_world" where
  "device_release ptr dev w = w\<lparr>pw_devs := (pw_devs w)(ptr \<mapsto> fst dev), pw_rest := snd dev\<rparr>"

text \<open>\<open>from_result\<close> around the call of a method; \<open>ok\<close> is the integer for its value.\<close>

definition adapter_call :: "('t \<Rightarrow> int) \<Rightarrow> ('t, 'h) phy_method exec \<Rightarrow> addr \<Rightarrow> 'h phy_world \<Rightarrow> (int \<times> 'h phy_world) exec" where
  "adapter_call ok method phydev w =
     exec_bind (device_from_raw phydev w) (\<lambda>dev.
     exec_bind method (\<lambda>m.
     let (r, dev) = m dev in
     Inr (from_result id (case r of Ok v \<Rightarrow> Ok (ok v) | Err e \<Rightarrow> Err e), device_release phydev dev w)))"

type_synonym 'h phy_callback = "addr \<Rightarrow> 'h phy_world \<Rightarrow> (int \<times> 'h phy_world) exec"

definition soft_reset_callback :: "'h driver \<Rightarrow> 'h phy_callback" where
  "soft_reset_callback T phydev w = adapter_call (\<lambda>_. 0) (driver_soft_reset T) phydev w"

definition probe_callback :: "'h driver \<Rightarrow> 'h phy_callback" where
  "probe_callback T phydev w = adapter_call (\<lambda>_. 0) (driver_probe T) phydev w"

definition get_features_callback :: "'h driver \<Rightarrow> 'h phy_callback" where
  "get_features_callback T phydev w = adapter_call (\<lambda>_. 0) (driver_get_features T) phydev w"

definition suspend_callback :: "'h driver \<Rightarrow> 'h phy_callback" where
  "suspend_callback T phydev w = adapter_call (\<lambda>_. 0) (driver_suspend T) phydev w"

definition resume_callback :: "'h driver \<Rightarrow> 'h phy_callback" where
  "resume_callback T phydev w = adapter_call (\<lambda>_. 0) (driver_resume T) phydev w"

definition config_aneg_callback :: "'h driver \<Rightarrow> 'h phy_callback" where
  "config_aneg_callback T phydev w = adapter_call (\<lambda>_. 0) (driver_config_aneg T) phydev w"

definition read_status_callback :: "'h driver \<Rightarrow> 'h phy_callback" where
  "read_status_callback T phydev w = adapter_call (\<lambda>_. 0) (driver_read_status T) phydev w"

definition match_phy_device_callback :: "'h driver \<Rightarrow> 'h phy_callback" where
  "match_phy_device_callback T phydev w =
     exec_bind (device_from_raw phydev w) (\<lambda>dev. Inr (of_bool (driver_match_phy_device T (fst dev)), w))"

text \<open>\<open>devnum as u8\<close> keeps the low byte.\<close>

definition read_mmd_callback :: "'h driver \<Rightarrow> int \<Rightarrow> u16 \<Rightarrow> 'h phy_callback" where
  "read_mmd_callback T devnum regnum phydev w =
     adapter_call uint (exec_bind (driver_read_mmd T) (\<lambda>m. Inr (m (word_of_int devnum) regnum))) phydev w"

definition write_mmd_callback :: "'h driver \<Rightarrow> int \<Rightarrow> u16 \<Rightarrow> u16 \<Rightarrow> 'h phy_callback" where
  "write_mmd_callback T devnum regnum val phydev w =
     adapter_call (\<lambda>_. 0) (exec_bind (driver_write_mmd T) (\<lambda>m. Inr (m (word_of_int devnum) regnum val))) phydev w"

definition link_change_notify_callback :: "'h driver \<Rightarrow> addr \<Rightarrow> 'h phy_world \<Rightarrow> 'h phy_world exec" where
  "link_change_notify_callback T phydev w =
     exec_bind (device_from_raw phydev w) (\<lambda>dev. Inr (device_release phydev (driver_link_change_notify T dev) w))"

section \<open>The table of a driver\<close>

record 'h phy_driver =
  pv_name :: string
  pv_flags :: u32
  pv_phy_id :: u32
  pv_phy_id_mask :: u32
  pv_soft_reset :: "'h phy_callback option"
  pv_probe :: "'h phy_callback option"
  pv_get_features :: "'h phy_callback option"
  pv_match_phy_device :: "'h phy_callback option"
  pv_suspend :: "'h phy_callback option"
  pv_resume :: "'h phy_callback option"
  pv_config_aneg :: "'h phy_callback option"
  pv_read_status :: "'h phy_callback option"
  pv_read_mmd :: "(int \<Rightarrow> u16 \<Rightarrow> 'h phy_callback) option"
  pv_write_mmd :: "(int \<Rightarrow> u16 \<Rightarrow> u16 \<Rightarrow> 'h phy_callback) option"
  pv_link_change_notify :: "(addr \<Rightarrow> 'h phy_world \<Rightarrow> 'h phy_world exec) option"

definition create_phy_driver :: "'h driver \<Rightarrow> 'h phy_driver" where
  "create_phy_driver T = \<lparr>
     pv_name = drv_NAME T,
     pv_flags = drv_FLAGS T,
     pv_phy_id = di_id (drv_PHY_DEVICE_ID T),
     pv_phy_id_mask = mask_as_int (drv_PHY_DEVICE_ID T),
     pv_soft_reset = (if drv_soft_reset T \<noteq> None then Some (soft_reset_callback T) else None),
     pv_probe = (if drv_probe T \<noteq> None then Some (probe_callback T) else None),
     pv_get_features = (if drv_get_features T \<noteq> None then Some (get_features_callback T) else None),
     pv_match_phy_device = (if drv_match_phy_device T \<noteq> None then Some (match_phy_device_callback T) else None),
     pv_suspend = (if drv_suspend T \<noteq> None then Some (suspend_callback T) else None),
     pv_resume = (if drv_resume T \<noteq> None then Some (resume_callback T) else None),
     pv_config_aneg = (if drv_config_aneg T \<noteq> None then Some (config_aneg_callback T) else None),
     pv_read_status = (if drv_read_status T \<noteq> None then Some (read_status_callback T) else None),
     pv_read_mmd = (if drv_read_mmd T \<noteq> None then Some (read_mmd_callback T) else None),
     pv_write_mmd = (if drv_write_mmd T \<noteq> None then Some (write_mmd_callback T) else None),
     pv_link_change_notify = (if drv_link_change_notify T \<noteq> None then Some (link_change_notify_callback T) else None)\<rparr>"

section \<open>Registration\<close>

text \<open>
  \<open>phy_drivers_register\<close> and \<open>phy_drivers_unregister\<close> get the address of the first table and the number of tables; \<open>sz\<close> is the size of
  \<open>struct phy_driver\<close>. \<open>'k\<close> is the state of PHYLIB.
\<close>

record 'k c_phy_reg =
  phy_drivers_register :: "addr \<Rightarrow> int \<Rightarrow> addr \<Rightarrow> 'k \<Rightarrow> int \<times> 'k"
  phy_drivers_unregister :: "addr \<Rightarrow> int \<Rightarrow> 'k \<Rightarrow> 'k"

text \<open>The static slice of a module: the address of its first element and the elements.\<close>

type_synonym 'h driver_slice = "addr \<times> 'h phy_driver list"

record 'h phy_registration =
  rg_drivers :: "'h driver_slice"

definition phy_registration_register :: "'k c_phy_reg \<Rightarrow> addr \<Rightarrow> 'h driver_slice \<Rightarrow> 'k \<Rightarrow> ('h phy_registration, error) result \<times> 'k" where
  "phy_registration_register C module drivers k =
     (if snd drivers = [] then (Err EINVAL, k)
      else if length (snd drivers) > i32_max then (Err (error_from TryFromIntError), k)
      else let (ret, k) = phy_drivers_register C (fst drivers) (int (length (snd drivers))) module k in
        case to_result ret of Err e \<Rightarrow> (Err e, k) | Ok _ \<Rightarrow> (Ok \<lparr>rg_drivers = drivers\<rparr>, k))"

text \<open>Indexing the first driver of an empty slice would panic.\<close>

definition phy_registration_drop :: "'k c_phy_reg \<Rightarrow> 'h phy_registration \<Rightarrow> 'k \<Rightarrow> 'k exec" where
  "phy_registration_drop C self k =
     exec_bind (require Panic (snd (rg_drivers self) \<noteq> [])) (\<lambda>_.
     Inr (phy_drivers_unregister C (fst (rg_drivers self)) (as_i32 (int (length (snd (rg_drivers self))))) k))"

section \<open>The macro for modules\<close>

fun count_devices :: "'x list \<Rightarrow> nat" where
  "count_devices [] = 0"
| "count_devices (x # xs) = 1 + count_devices xs"

definition device_table :: "device_id list \<Rightarrow> mdio_device_id list" where
  "device_table devs = map mdio_device_id_of devs @ [\<lparr>mi_phy_id = 0, mi_phy_id_mask = 0\<rparr>]"

definition device_table_len :: "device_id list \<Rightarrow> nat" where
  "device_table_len devs = count_devices devs + 1"

definition module_drivers :: "'h driver list \<Rightarrow> 'h phy_driver list" where
  "module_drivers drivers = map create_phy_driver drivers"

definition module_drivers_len :: "'h driver list \<Rightarrow> nat" where
  "module_drivers_len drivers = count_devices drivers"

definition phy_module_init :: "'k c_phy_reg \<Rightarrow> addr \<Rightarrow> addr \<Rightarrow> 'h driver list \<Rightarrow> 'k \<Rightarrow> ('h phy_registration, error) result \<times> 'k" where
  "phy_module_init C module DRIVERS drivers k = phy_registration_register C module (DRIVERS, module_drivers drivers) k"

section \<open>Contracts\<close>

text \<open>A function that reads a register returns its 16 bits or a negative error code.\<close>

definition read_range :: "int \<Rightarrow> bool" where
  "read_range ret \<longleftrightarrow> - MAX_ERRNO \<le> ret \<and> ret < 2 ^ 16"

definition c_phy_ok :: "'h c_phy \<Rightarrow> bool" where
  "c_phy_ok C \<longleftrightarrow>
     (\<forall>b a r h. read_range (fst (mdiobus_read C b a r h))) \<and>
     (\<forall>n r dev. read_range (fst (phy_read_mmd C n r dev))) \<and>
     (\<forall>n r dev. read_range (fst (phy_read_paged C n r dev))) \<and>
     (\<forall>dev. read_range (fst (c_genphy_read_status C dev))) \<and>
     (\<forall>dev. read_range (fst (c_genphy_c45_read_status C dev)))"

text \<open>What a reader of registers promises, over the call that it makes.\<close>

locale phy_register =
  fixes read :: "'r \<Rightarrow> 'd \<Rightarrow> (u16, error) result \<times> 'd"
    and raw :: "'r \<Rightarrow> 'd \<Rightarrow> int \<times> 'd"
  assumes read_raw: "read r d = (case to_result (fst (raw r d)) of Err e \<Rightarrow> Err e | Ok _ \<Rightarrow> Ok (word_of_int (fst (raw r d))), snd (raw r d))"
    and raw_range: "read_range (fst (raw r d))"
begin

lemma read_Ok: "read r d = (Ok v, d') \<longleftrightarrow> raw r d = (uint v, d')"
proof -
  obtain ret d1 where raw: "raw r d = (ret, d1)" by fastforce
  then have range: "ret < 2 ^ 16" using raw_range [of r d] by (simp add: read_range_def)
  have "uint (word_of_int ret :: u16) = ret" if "0 \<le> ret" using that range by (simp add: uint_word_of_int_eq take_bit_int_eq_self)
  moreover have "\<not> uint v < 0" by (simp add: not_less)
  ultimately show ?thesis using read_raw [of r d] raw by (auto simp: to_result_def)
qed

lemma read_Err: "read r d = (Err e, d') \<longleftrightarrow> error_inv e \<and> raw r d = (to_errno e, d')"
proof -
  obtain ret d1 where raw: "raw r d = (ret, d1)" by fastforce
  then have range: "- MAX_ERRNO \<le> ret" using raw_range [of r d] by (simp add: read_range_def)
  have "from_errno ret = e \<longleftrightarrow> error_inv e \<and> ret = to_errno e" if "ret < 0"
    using that range by (cases e) (auto simp: error_simps)
  moreover have "\<not> (error_inv e \<and> ret = to_errno e)" if "\<not> ret < 0" using that by (cases e) auto
  ultimately show ?thesis using read_raw [of r d] raw by (auto simp: to_result_def)
qed

lemma read_cases:
  obtains v d' where "read r d = (Ok v, d')" "raw r d = (uint v, d')"
  | e d' where "read r d = (Err e, d')" "error_inv e" "raw r d = (to_errno e, d')"
  by (metis read_Ok read_Err result.exhaust surj_pair)

end

fun c22_raw :: "'h c_phy \<Rightarrow> c22 \<Rightarrow> 'h phy_call" where
  "c22_raw C (C22 r) (d, h) = (let (ret, h) = mdiobus_read C (pd_mdio_bus d) (pd_mdio_addr d) (ucast r) h in (ret, d, h))"

definition c45_raw :: "'h c_phy \<Rightarrow> c45 \<Rightarrow> 'h phy_call" where
  "c45_raw C r dev = phy_read_mmd C (uint (mmd_index (c45_devad r))) (ucast (c45_regnum r)) dev"

lemma c22_phy_register: "c_phy_ok C \<Longrightarrow> phy_register (c22_read C) (c22_raw C)"
proof
  fix r and d :: "'a phy"
  assume "c_phy_ok C"
  then show "read_range (fst (c22_raw C r d))"
    by (cases r; cases d) (auto simp: c_phy_ok_def split: prod.splits dest: spec, metis fst_conv)
  show "c22_read C r d = (case to_result (fst (c22_raw C r d)) of Err e \<Rightarrow> Err e | Ok _ \<Rightarrow> Ok (word_of_int (fst (c22_raw C r d))), snd (c22_raw C r d))"
    by (cases r; cases d) (simp split: prod.splits result.splits)
qed

lemma c45_phy_register: "c_phy_ok C \<Longrightarrow> phy_register (c45_read C) (c45_raw C)"
  by unfold_locales (auto simp: c45_read_def c45_raw_def c_phy_ok_def split: prod.splits result.splits)

lemma paged_phy_register: "c_phy_ok C \<Longrightarrow>
    phy_register (\<lambda>(page, regnum). read_paged C page regnum) (\<lambda>(page, regnum). phy_read_paged C (uint page) (ucast regnum))"
  by unfold_locales (auto simp: read_paged_def c_phy_ok_def to_result_def split: prod.splits)

lemma status_phy_register: "c_phy_ok C \<Longrightarrow> phy_register (\<lambda>_. c22_read_status C) (\<lambda>_. c_genphy_read_status C)"
  by unfold_locales (auto simp: c22_read_status_def c_phy_ok_def split: prod.splits result.splits)

lemma c45_status_phy_register: "c_phy_ok C \<Longrightarrow> phy_register (\<lambda>_. c45_read_status C) (\<lambda>_. c_genphy_c45_read_status C)"
  by unfold_locales (auto simp: c45_read_status_def c_phy_ok_def split: prod.splits result.splits)

section \<open>Fields of a device\<close>

fun state_constant :: "phy_constants \<Rightarrow> device_state \<Rightarrow> u32" where
  "state_constant K State_Down = PHY_DOWN K"
| "state_constant K State_Ready = PHY_READY K"
| "state_constant K State_Halted = PHY_HALTED K"
| "state_constant K State_Error = PHY_ERROR K"
| "state_constant K State_Up = PHY_UP K"
| "state_constant K State_Running = PHY_RUNNING K"
| "state_constant K State_NoLink = PHY_NOLINK K"
| "state_constant K State_CableTest = PHY_CABLETEST K"

lemma device_state_of_constant:
  "inj (state_constant K) \<Longrightarrow> pd_state d = state_constant K s \<Longrightarrow> device_state_of K d = s"
  by (cases s) (auto simp: device_state_of_def inj_def Let_def dest: spec)

lemma device_state_of_unknown: "pd_state d \<notin> range (state_constant K) \<Longrightarrow> device_state_of K d = State_Error"
  using rangeI [of "state_constant K" State_Down] rangeI [of "state_constant K" State_Ready] rangeI [of "state_constant K" State_Halted]
    rangeI [of "state_constant K" State_Error] rangeI [of "state_constant K" State_Up] rangeI [of "state_constant K" State_Running]
    rangeI [of "state_constant K" State_NoLink] rangeI [of "state_constant K" State_CableTest]
  by (auto simp: device_state_of_def Let_def)

lemma bitfield_get_bit: "bitfield_get b n (Suc 0) = 1 \<longleftrightarrow> bit b n"
  by (simp add: bitfield_get_def bit_iff_odd_drop_bit odd_iff_mod_2_eq_one)

lemma link_flags:
  "is_link_up d \<longleftrightarrow> bit (pd_bitfield_1 d) 14"
  "is_autoneg_completed d \<longleftrightarrow> bit (pd_bitfield_1 d) 15"
  "AUTONEG_ENABLE K = 1 \<Longrightarrow> is_autoneg_enabled K d \<longleftrightarrow> bit (pd_bitfield_1 d) 13"
  by (simp_all add: is_link_up_def is_autoneg_completed_def is_autoneg_enabled_def bitfield_get_bit)

lemma vendor_specific_range: "vendor_specific N = Some (C22 r) \<longleftrightarrow> r = N \<and> 16 \<le> unat N \<and> unat N \<le> 31"
  by (auto simp: vendor_specific_def word_less_nat_alt split: if_splits)

section \<open>Callbacks\<close>

definition callback_code :: "('t \<Rightarrow> int) \<Rightarrow> ('t, error) result \<Rightarrow> int" where
  "callback_code ok r = (case r of Ok v \<Rightarrow> ok v | Err e \<Rightarrow> to_errno e)"

text \<open>
  The entry of a table for a method: there if the method is overridden, and then a call of it runs the method on the device that the pointer
  stands for, and returns the code of its result.
\<close>

definition entry_runs :: "('t \<Rightarrow> int) \<Rightarrow> 'h phy_callback option \<Rightarrow> ('t, 'h) phy_method option \<Rightarrow> bool" where
  "entry_runs ok cb meth \<longleftrightarrow>
     (case meth of
        None \<Rightarrow> cb = None
      | Some m \<Rightarrow> \<exists>f. cb = Some f \<and>
          (\<forall>ptr w dev. device_from_raw ptr w = Inr dev \<longrightarrow> (\<forall>e. fst (m dev) = Err e \<longrightarrow> error_inv e) \<longrightarrow>
             f ptr w = Inr (callback_code ok (fst (m dev)), device_release ptr (snd (m dev)) w)))"

lemma from_result_code: "(\<forall>e. r = Err e \<longrightarrow> error_inv e) \<Longrightarrow>
    from_result id (case r of Ok v \<Rightarrow> Ok (ok v) | Err e \<Rightarrow> Err e) = callback_code ok r"
  by (cases r) (simp_all add: callback_code_def as_i16_errno)

lemma adapter_call_runs:
  assumes "device_from_raw ptr w = Inr dev" "\<forall>e. fst (m dev) = Err e \<longrightarrow> error_inv e"
  shows "adapter_call ok (Inr m) ptr w = Inr (callback_code ok (fst (m dev)), device_release ptr (snd (m dev)) w)"
  using assms from_result_code [of "fst (m dev)" ok] by (simp add: adapter_call_def split_beta Let_def)

lemma entry_runsI:
  assumes "\<And>m. meth = Some m \<Longrightarrow> cb = Some (adapter_call ok (Inr m))" "meth = None \<Longrightarrow> cb = None"
  shows "entry_runs ok cb meth"
  using assms adapter_call_runs by (cases meth) (auto simp: entry_runs_def)

lemma entry_runsD:
  assumes "entry_runs ok cb (Some m)" "device_from_raw ptr w = Inr dev" "\<forall>e. fst (m dev) = Err e \<longrightarrow> error_inv e"
  shows "\<exists>f. cb = Some f \<and> f ptr w = Inr (callback_code ok (fst (m dev)), device_release ptr (snd (m dev)) w)"
  using assms unfolding entry_runs_def option.case by blast

named_theorems phy_callbacks \<open>definitions of the callbacks and of the methods that they call\<close>

lemmas [phy_callbacks] = soft_reset_callback_def probe_callback_def get_features_callback_def suspend_callback_def resume_callback_def
  config_aneg_callback_def read_status_callback_def driver_soft_reset_def driver_probe_def driver_get_features_def driver_suspend_def
  driver_resume_def driver_config_aneg_def driver_read_status_def


lemma mmd_callback_eq:
  "drv_read_mmd T = Some rd \<Longrightarrow> read_mmd_callback T devnum regnum = adapter_call uint (Inr (rd (word_of_int devnum) regnum))"
  "drv_write_mmd T = Some wr \<Longrightarrow>
     write_mmd_callback T devnum regnum val = adapter_call (\<lambda>_. 0) (Inr (wr (word_of_int devnum) regnum val))"
  by (simp_all add: fun_eq_iff read_mmd_callback_def write_mmd_callback_def driver_read_mmd_def driver_write_mmd_def)

lemma create_phy_driver_mmd:
  "entry_runs uint (map_option (\<lambda>f. f devnum regnum) (pv_read_mmd (create_phy_driver T)))
     (map_option (\<lambda>m. m (word_of_int devnum) regnum) (drv_read_mmd T))"
  "entry_runs (\<lambda>_. 0) (map_option (\<lambda>f. f devnum regnum val) (pv_write_mmd (create_phy_driver T)))
     (map_option (\<lambda>m. m (word_of_int devnum) regnum val) (drv_write_mmd T))"
  by (rule entry_runsI; clarsimp simp: create_phy_driver_def mmd_callback_eq)+



section \<open>Registers behind a driver\<close>

text \<open>
  PHYLIB documents that \<open>phy_read_mmd\<close> and \<open>phy_write_mmd\<close> call the entries of the driver of the device, where it has them, for device
  numbers below 32 and register numbers of 16 bits, and return what these return.
\<close>

definition phylib_dispatch :: "'h c_phy \<Rightarrow> 'h phy_driver \<Rightarrow> bool" where
  "phylib_dispatch C D \<longleftrightarrow>
     (\<forall>f devad regnum ptr w w' dev ret dev'.
        pv_read_mmd D = Some f \<longrightarrow> 0 \<le> devad \<longrightarrow> devad < 32 \<longrightarrow> device_from_raw ptr w = Inr dev \<longrightarrow>
        f devad regnum ptr w = Inr (ret, w') \<longrightarrow> device_from_raw ptr w' = Inr dev' \<longrightarrow>
        phy_read_mmd C devad (ucast regnum) dev = (ret, dev')) \<and>
     (\<forall>f devad regnum val ptr w w' dev ret dev'.
        pv_write_mmd D = Some f \<longrightarrow> 0 \<le> devad \<longrightarrow> devad < 32 \<longrightarrow> device_from_raw ptr w = Inr dev \<longrightarrow>
        f devad regnum val ptr w = Inr (ret, w') \<longrightarrow> device_from_raw ptr w' = Inr dev' \<longrightarrow>
        phy_write_mmd C devad (ucast regnum) val dev = (ret, dev'))"

lemma phylib_dispatchD:
  assumes "phylib_dispatch C D" "0 \<le> devad" "devad < 32" "device_from_raw ptr w = Inr dev" "device_from_raw ptr w' = Inr dev'"
  shows "pv_read_mmd D = Some f \<Longrightarrow> f devad regnum ptr w = Inr (ret, w') \<Longrightarrow> phy_read_mmd C devad (ucast regnum) dev = (ret, dev')"
    and "pv_write_mmd D = Some g \<Longrightarrow> g devad regnum val ptr w = Inr (ret, w') \<Longrightarrow> phy_write_mmd C devad (ucast regnum) val dev = (ret, dev')"
  using assms unfolding phylib_dispatch_def by blast+

lemma device_from_release: "device_from_raw ptr (device_release ptr dev w) = Inr dev"
  by (simp add: device_from_raw_def device_release_def)

definition one_device :: "'h phy \<Rightarrow> 'h phy_world" where
  "one_device dev = \<lparr>pw_devs = [0 \<mapsto> fst dev], pw_rest = snd dev\<rparr>"

lemma device_from_one: "device_from_raw 0 (one_device dev) = Inr dev"
  by (simp add: device_from_raw_def one_device_def)

lemma dispatched_read:
  assumes "drv_read_mmd T = Some rd" "phylib_dispatch C (create_phy_driver T)" "n < 32" "\<forall>e. fst (rd n regnum dev) = Err e \<longrightarrow> error_inv e"
  shows "phy_read_mmd C (uint n) (ucast regnum) dev = (callback_code uint (fst (rd n regnum dev)), snd (rd n regnum dev))"
proof -
  have n: "0 \<le> uint n" "uint n < 32" using assms(3) by (simp_all add: word_less_def)
  obtain f where f: "pv_read_mmd (create_phy_driver T) = Some f"
      "f (uint n) regnum 0 (one_device dev) = Inr (callback_code uint (fst (rd n regnum dev)), device_release 0 (snd (rd n regnum dev)) (one_device dev))"
    using entry_runsD [OF _ device_from_one [of dev], of _ _ "rd n regnum"] create_phy_driver_mmd(1) [of "uint n" regnum T] assms(1,4)
    by fastforce
  show ?thesis by (rule phylib_dispatchD(1) [OF assms(2) n device_from_one device_from_release f])
qed

lemma dispatched_write:
  assumes "drv_write_mmd T = Some wr" "phylib_dispatch C (create_phy_driver T)" "n < 32" "\<forall>e. fst (wr n regnum val dev) = Err e \<longrightarrow> error_inv e"
  shows "phy_write_mmd C (uint n) (ucast regnum) val dev = (callback_code (\<lambda>_. 0) (fst (wr n regnum val dev)), snd (wr n regnum val dev))"
proof -
  have n: "0 \<le> uint n" "uint n < 32" using assms(3) by (simp_all add: word_less_def)
  obtain f where f: "pv_write_mmd (create_phy_driver T) = Some f"
      "f (uint n) regnum val 0 (one_device dev) =
        Inr (callback_code (\<lambda>_. 0) (fst (wr n regnum val dev)), device_release 0 (snd (wr n regnum val dev)) (one_device dev))"
    using entry_runsD [OF _ device_from_one [of dev], of _ _ "wr n regnum val"] create_phy_driver_mmd(2) [of "uint n" regnum val T] assms(1,4)
    by fastforce
  show ?thesis by (rule phylib_dispatchD(2) [OF assms(2) n device_from_one device_from_release f])
qed

lemma code_to_result: "(\<forall>e. r = Err e \<longrightarrow> error_inv e) \<Longrightarrow> (\<And>v. 0 \<le> ok v) \<Longrightarrow>
    to_result (callback_code ok r) = (case r of Ok _ \<Rightarrow> Ok () | Err e \<Rightarrow> Err e)"
  by (cases r) (auto simp: callback_code_def to_result_def not_less from_errno_to_errno elim: error_inv.elims)

text \<open>
  C34: A register of clause 45 that a program reads or writes through \<open>Device\<close>, on a device whose driver is written in Rust and implements
  the access to MMD registers, goes through PHYLIB and the table of callbacks to the driver's method with the same device and register
  number, and the method's result, value or error, comes back unchanged.
\<close>

theorem phy_mmd_roundtrip:
  assumes "drv_read_mmd T = Some rd" "drv_write_mmd T = Some wr" "phylib_dispatch C (create_phy_driver T)"
    and "mmd_index (c45_devad reg) < 32"
    and "\<forall>e. fst (rd (mmd_index (c45_devad reg)) (c45_regnum reg) dev) = Err e \<longrightarrow> error_inv e"
    and "\<forall>e. fst (wr (mmd_index (c45_devad reg)) (c45_regnum reg) val dev) = Err e \<longrightarrow> error_inv e"
  shows "device_read (c45_register C) reg dev = rd (mmd_index (c45_devad reg)) (c45_regnum reg) dev \<and>
    device_write (c45_register C) reg val dev = wr (mmd_index (c45_devad reg)) (c45_regnum reg) val dev"
proof
  let ?r = "rd (mmd_index (c45_devad reg)) (c45_regnum reg) dev" and ?w = "wr (mmd_index (c45_devad reg)) (c45_regnum reg) val dev"
  note rd = dispatched_read [OF assms(1,3,4,5)] and wr = dispatched_write [OF assms(2,3,4,6)]
  show "device_read (c45_register C) reg dev = ?r"
    using rd code_to_result [OF assms(5), of uint]
    by (cases ?r; cases "fst ?r") (simp_all add: device_read_def c45_register_def c45_read_def callback_code_def)
  show "device_write (c45_register C) reg val dev = ?w"
    using wr code_to_result [OF assms(6), of "\<lambda>_. 0"]
    by (cases ?w; cases "fst ?w") (simp_all add: device_write_def c45_register_def c45_write_def)
qed

text \<open>A bus with one bank of registers, and a driver that serves MMD registers from the same bank.\<close>

definition demo_rd :: "u8 \<Rightarrow> u16 \<Rightarrow> (u16, u16 \<Rightarrow> u16) phy_method" where
  "demo_rd n r dev = (if n = 31 then Err (Error (- 19)) else Ok (snd dev r), dev)"

definition demo_wr :: "u8 \<Rightarrow> u16 \<Rightarrow> u16 \<Rightarrow> (unit, u16 \<Rightarrow> u16) phy_method" where
  "demo_wr n r v dev = (Ok (), (fst dev, (snd dev)(r := v)))"

definition demo_phy :: "(u16 \<Rightarrow> u16) c_phy" where
  "demo_phy = \<lparr>mdiobus_read = (\<lambda>b a r h. (uint (h (ucast r)), h)), mdiobus_write = (\<lambda>b a r v h. (0, h(ucast r := v))),
     phy_read_mmd = (\<lambda>n r dev. let x = demo_rd (word_of_int n) (ucast r) dev in (callback_code uint (fst x), snd x)),
     phy_write_mmd = (\<lambda>n r v dev. let x = demo_wr (word_of_int n) (ucast r) v dev in (callback_code (\<lambda>_. 0) (fst x), snd x)),
     phy_read_paged = (\<lambda>n r dev. (uint (snd dev (ucast r)), dev)),
     c_genphy_read_status = Pair 0, c_genphy_c45_read_status = Pair 0, c_genphy_soft_reset = Pair 0, c_phy_init_hw = Pair 0,
     c_phy_start_aneg = Pair 0, c_genphy_resume = Pair 0, c_genphy_suspend = Pair 0, c_genphy_update_link = Pair 0,
     c_genphy_read_lpa = Pair 0, c_genphy_read_abilities = Pair 0, c_resolve_aneg_linkmode = id\<rparr>"

lemma uint_u16_range: "read_range (uint (x :: u16))"
  using uint_range_size [of x] order_trans [OF _ uint_ge_0 [of x], of "- MAX_ERRNO"] by (simp add: read_range_def MAX_ERRNO_def word_size)

lemma demo_phy_ok: "c_phy_ok demo_phy"
  by (simp add: c_phy_ok_def demo_phy_def uint_u16_range demo_rd_def callback_code_def Let_def read_range_def [of "- 19"]
      read_range_def [of 0] MAX_ERRNO_def)

interpretation demo_c22: phy_register "c22_read demo_phy" "c22_raw demo_phy"
  by (rule c22_phy_register [OF demo_phy_ok])

interpretation demo_c45: phy_register "c45_read demo_phy" "c45_raw demo_phy"
  by (rule c45_phy_register [OF demo_phy_ok])

definition demo_phy_driver :: "(u16 \<Rightarrow> u16) driver" where
  "demo_phy_driver = \<lparr>drv_FLAGS = default_FLAGS, drv_NAME = ''demo'', drv_PHY_DEVICE_ID = new_with_model_mask 0x1230, drv_soft_reset = None,
     drv_probe = None, drv_get_features = None, drv_match_phy_device = None, drv_config_aneg = None, drv_read_status = None,
     drv_suspend = None, drv_resume = None, drv_read_mmd = Some demo_rd, drv_write_mmd = Some demo_wr, drv_link_change_notify = None\<rparr>"

lemma demo_phy_driver_mmd [simp]: "drv_read_mmd demo_phy_driver = Some demo_rd" "drv_write_mmd demo_phy_driver = Some demo_wr"
  by (simp_all add: demo_phy_driver_def)

lemma u16_in_u32 [simp]: "ucast (ucast (r :: u16) :: u32) = r"
  by (simp add: ucast_up_ucast_id is_up)

lemma demo_dispatch: "phylib_dispatch demo_phy (create_phy_driver demo_phy_driver)"
proof -
  have rd: "read_mmd_callback demo_phy_driver = (\<lambda>n r. adapter_call uint (Inr (demo_rd (word_of_int n) r)))"
      and wr: "write_mmd_callback demo_phy_driver = (\<lambda>n r v. adapter_call (\<lambda>_. 0) (Inr (demo_wr (word_of_int n) r v)))"
    by (simp_all add: fun_eq_iff mmd_callback_eq(1) [OF demo_phy_driver_mmd(1)] mmd_callback_eq(2) [OF demo_phy_driver_mmd(2)])
  have "\<forall>e. fst (demo_rd n r dev) = Err e \<longrightarrow> error_inv e" for n r dev by (simp add: demo_rd_def MAX_ERRNO_def)
  moreover have "\<forall>e. fst (demo_wr n r v dev) = Err e \<longrightarrow> error_inv e" for n r v dev by (simp add: demo_wr_def)
  ultimately show ?thesis
    using adapter_call_runs [of _ _ _ "demo_rd _ _" uint] adapter_call_runs [of _ _ _ "demo_wr _ _ _" "\<lambda>_. 0"]
    by (auto simp: phylib_dispatch_def create_phy_driver_def rd wr demo_phy_def Let_def device_from_release)
qed

theorem phy_mmd_roundtrip_witness:
  "device_read (c45_register demo_phy) (c45_new (Mmd 3) 7) (undefined, (\<lambda>_. 0)(7 := 99)) =
     demo_rd 3 7 (undefined, (\<lambda>_. 0)(7 := 99)) \<and>
   device_write (c45_register demo_phy) (c45_new (Mmd 3) 7) 5 (undefined, (\<lambda>_. 0)(7 := 99)) =
     demo_wr 3 7 5 (undefined, (\<lambda>_. 0)(7 := 99))"
  using phy_mmd_roundtrip [of demo_phy_driver demo_rd demo_wr demo_phy "c45_new (Mmd 3) 7" "(undefined, (\<lambda>_. 0)(7 := 99))" 5] demo_dispatch
  by (simp add: c45_new_def demo_phy_driver_def demo_rd_def demo_wr_def)

section \<open>Identifiers of devices\<close>









text \<open>The reader of the table of a module stops at the entry that is zero.\<close>

definition table_entries :: "mdio_device_id list \<Rightarrow> mdio_device_id list" where
  "table_entries xs = takeWhile (\<lambda>e. e \<noteq> \<lparr>mi_phy_id = 0, mi_phy_id_mask = 0\<rparr>) xs"

lemma count_devices_length: "count_devices xs = length xs"
  by (induction xs) simp_all

lemma table_entries_all:
  "(\<forall>d \<in> set devs. mdio_device_id_of d \<noteq> \<lparr>mi_phy_id = 0, mi_phy_id_mask = 0\<rparr>) \<Longrightarrow>
     table_entries (device_table devs) = map mdio_device_id_of devs"
  by (induction devs) (simp_all add: table_entries_def device_table_def)

lemma table_entries_default: "table_entries (device_table (devs @ default_PHY_DEVICE_ID # rest)) = table_entries (device_table devs)"
  by (induction devs) (simp_all add: table_entries_def device_table_def mdio_device_id_of_def default_PHY_DEVICE_ID_def new_with_custom_mask_def)

lemma device_table_len_correct: "length (device_table devs) = device_table_len devs"
  by (simp add: device_table_def device_table_len_def count_devices_length)

lemma module_drivers_len_correct: "length (module_drivers drivers) = module_drivers_len drivers"
  by (simp add: module_drivers_def module_drivers_len_def count_devices_length)



section \<open>Modules with drivers\<close>

text \<open>
  \<open>regd\<close> are the tables that PHYLIB has registered, by address. A registration that fails registers none of the tables of its slice.
\<close>

definition driver_slots :: "nat \<Rightarrow> addr \<Rightarrow> int \<Rightarrow> addr set" where
  "driver_slots sz base n = (\<lambda>i. base + i * sz) ` {0..<nat n}"

definition c_phy_reg_ok :: "nat \<Rightarrow> ('k \<Rightarrow> addr set) \<Rightarrow> 'k c_phy_reg \<Rightarrow> bool" where
  "c_phy_reg_ok sz regd C \<longleftrightarrow>
     (\<forall>base n module k. 0 < n \<longrightarrow>
        (let (ret, k') = phy_drivers_register C base n module k in
         regd k' = (if ret < 0 then regd k else regd k \<union> driver_slots sz base n))) \<and>
     (\<forall>base n k. 0 < n \<longrightarrow> regd (phy_drivers_unregister C base n k) = regd k - driver_slots sz base n)"

record ('h, 'k) phy_sys =
  ps_kernel :: 'k
  ps_live :: "addr \<rightharpoonup> 'h phy_registration"

text \<open>\<open>mods\<close> are the modules of the system: the address of the static slice and the drivers of each.\<close>

inductive phy_sys_step :: "'k c_phy_reg \<Rightarrow> (addr \<rightharpoonup> addr \<times> 'h driver list) \<Rightarrow> ('h, 'k) phy_sys \<Rightarrow> ('h, 'k) phy_sys \<Rightarrow> bool" for C mods where
  pss_init: "mods m = Some (base, drivers) \<Longrightarrow> ps_live s m = None \<Longrightarrow>
    phy_module_init C m base drivers (ps_kernel s) = (Ok r, k) \<Longrightarrow>
    phy_sys_step C mods s (s\<lparr>ps_kernel := k, ps_live := (ps_live s)(m \<mapsto> r)\<rparr>)"
| pss_init_err: "mods m = Some (base, drivers) \<Longrightarrow> ps_live s m = None \<Longrightarrow>
    phy_module_init C m base drivers (ps_kernel s) = (Err e, k) \<Longrightarrow> phy_sys_step C mods s (s\<lparr>ps_kernel := k\<rparr>)"
| pss_exit: "ps_live s m = Some r \<Longrightarrow> phy_registration_drop C r (ps_kernel s) = Inr k \<Longrightarrow>
    phy_sys_step C mods s (s\<lparr>ps_kernel := k, ps_live := (ps_live s)(m := None)\<rparr>)"

inductive phy_sys_reach :: "'k c_phy_reg \<Rightarrow> (addr \<rightharpoonup> addr \<times> 'h driver list) \<Rightarrow> 'k \<Rightarrow> ('h, 'k) phy_sys \<Rightarrow> bool" for C mods k0 where
  psr_start: "phy_sys_reach C mods k0 \<lparr>ps_kernel = k0, ps_live = Map.empty\<rparr>"
| psr_step: "phy_sys_reach C mods k0 s \<Longrightarrow> phy_sys_step C mods s s' \<Longrightarrow> phy_sys_reach C mods k0 s'"

definition module_slots :: "nat \<Rightarrow> addr \<times> 'h driver list \<Rightarrow> addr set" where
  "module_slots sz M = driver_slots sz (fst M) (int (length (snd M)))"

text \<open>The slices of two modules do not overlap, and no other driver has its table in one of them.\<close>

definition phy_modules_ok :: "nat \<Rightarrow> (addr \<rightharpoonup> addr \<times> 'h driver list) \<Rightarrow> addr set \<Rightarrow> bool" where
  "phy_modules_ok sz mods others \<longleftrightarrow>
     (\<forall>m M m' M'. mods m = Some M \<longrightarrow> mods m' = Some M' \<longrightarrow> m \<noteq> m' \<longrightarrow> module_slots sz M \<inter> module_slots sz M' = {}) \<and>
     (\<forall>m M. mods m = Some M \<longrightarrow> module_slots sz M \<inter> others = {})"

definition live_slots :: "nat \<Rightarrow> (addr \<rightharpoonup> addr \<times> 'h driver list) \<Rightarrow> ('h, 'k) phy_sys \<Rightarrow> addr set" where
  "live_slots sz mods s = {a. \<exists>m M. m \<in> dom (ps_live s) \<and> mods m = Some M \<and> a \<in> module_slots sz M}"

definition phy_sys_inv :: "nat \<Rightarrow> ('k \<Rightarrow> addr set) \<Rightarrow> (addr \<rightharpoonup> addr \<times> 'h driver list) \<Rightarrow> addr set \<Rightarrow> ('h, 'k) phy_sys \<Rightarrow> bool" where
  "phy_sys_inv sz regd mods others s \<longleftrightarrow>
     regd (ps_kernel s) = others \<union> live_slots sz mods s \<and>
     (\<forall>m r. ps_live s m = Some r \<longrightarrow> (\<exists>base drivers. mods m = Some (base, drivers) \<and> rg_drivers r = (base, module_drivers drivers) \<and>
        drivers \<noteq> [] \<and> length drivers \<le> i32_max))"

lemma c_phy_reg_okD:
  "c_phy_reg_ok sz regd C \<Longrightarrow> 0 < n \<Longrightarrow> phy_drivers_register C base n module k = (ret, k') \<Longrightarrow>
     regd k' = (if ret < 0 then regd k else regd k \<union> driver_slots sz base n)"
  unfolding c_phy_reg_ok_def by (drule conjunct1) (metis (mono_tags, lifting) case_prod_conv)

lemma phy_sys_invD:
  "phy_sys_inv sz regd mods others s \<Longrightarrow> ps_live s m = Some r \<Longrightarrow>
     \<exists>base drivers. mods m = Some (base, drivers) \<and> rg_drivers r = (base, module_drivers drivers) \<and> drivers \<noteq> [] \<and> length drivers \<le> i32_max"
  by (simp add: phy_sys_inv_def)

lemma as_i32_small: "n \<le> i32_max \<Longrightarrow> as_i32 (int n) = int n"
  by (simp add: as_i32_def i32_max_def signed_take_bit_int_eq_self)

lemma phy_module_init_cases:
  assumes "c_phy_reg_ok sz regd C" "phy_module_init C m base drivers k = (res, k')"
  shows "case res of
      Err e \<Rightarrow> regd k' = regd k \<and> error_inv e
    | Ok r \<Rightarrow> regd k' = regd k \<union> module_slots sz (base, drivers) \<and> rg_drivers r = (base, module_drivers drivers) \<and>
        drivers \<noteq> [] \<and> length drivers \<le> i32_max"
proof (cases "drivers = [] \<or> length drivers > i32_max")
  case True
  then show ?thesis using assms(2) by (auto simp: phy_module_init_def phy_registration_register_def module_drivers_def split: if_splits)
next
  case False
  obtain ret k1 where call: "phy_drivers_register C base (int (length drivers)) m k = (ret, k1)" by fastforce
  then have "regd k1 = (if ret < 0 then regd k else regd k \<union> driver_slots sz base (int (length drivers)))"
    using c_phy_reg_okD [OF assms(1) _ call] False by simp
  then show ?thesis
    using assms(2) False call
    by (auto simp: phy_module_init_def phy_registration_register_def module_drivers_def to_result_def module_slots_def split: if_splits)
qed

lemma phy_registration_drop_correct:
  assumes "c_phy_reg_ok sz regd C" "rg_drivers r = (base, module_drivers drivers)" "drivers \<noteq> []" "length drivers \<le> i32_max"
  shows "\<exists>k'. phy_registration_drop C r k = Inr k' \<and> regd k' = regd k - module_slots sz (base, drivers)"
  using assms by (simp add: phy_registration_drop_def module_drivers_def module_slots_def as_i32_small c_phy_reg_ok_def)

lemma live_slots_load: "mods m = Some M \<Longrightarrow> live_slots sz mods (s\<lparr>ps_kernel := k, ps_live := (ps_live s)(m \<mapsto> r)\<rparr>) = live_slots sz mods s \<union> module_slots sz M"
  by (cases M) (auto simp: live_slots_def)

lemma live_slots_unload:
  assumes "phy_modules_ok sz mods others" "mods m = Some M"
  shows "live_slots sz mods (s\<lparr>ps_kernel := k, ps_live := (ps_live s)(m := None)\<rparr>) = live_slots sz mods s - module_slots sz M"
proof -
  have "a \<notin> module_slots sz M" if "m' \<noteq> m" "mods m' = Some M'" "a \<in> module_slots sz M'" for m' M' a
    using assms that unfolding phy_modules_ok_def by (metis disjoint_iff)
  then show ?thesis using assms(2) by (auto simp: live_slots_def)
qed

lemma phy_sys_step_inv:
  assumes "phy_sys_step C mods s s'" "phy_sys_inv sz regd mods others s" "c_phy_reg_ok sz regd C" "phy_modules_ok sz mods others"
  shows "phy_sys_inv sz regd mods others s'"
  using assms(1)
proof cases
  case (pss_init m base drivers r k)
  then have "regd k = others \<union> live_slots sz mods s \<union> module_slots sz (base, drivers)" "rg_drivers r = (base, module_drivers drivers)"
      "drivers \<noteq> []" "length drivers \<le> i32_max"
    using phy_module_init_cases [OF assms(3) pss_init(4)] assms(2) by (simp_all add: phy_sys_inv_def)
  then show ?thesis using assms(2) pss_init(1,2) by (auto simp: phy_sys_inv_def live_slots_load [where m = m and M = "(base, drivers)"])
next
  case (pss_init_err m base drivers e k)
  then have "regd k = others \<union> live_slots sz mods s"
    using phy_module_init_cases [OF assms(3) pss_init_err(4)] assms(2) by (simp add: phy_sys_inv_def)
  then show ?thesis using assms(2) pss_init_err(1) by (simp add: phy_sys_inv_def live_slots_def)
next
  case (pss_exit m r k)
  then obtain base drivers where M: "mods m = Some (base, drivers)" "rg_drivers r = (base, module_drivers drivers)" "drivers \<noteq> []"
      "length drivers \<le> i32_max"
    using phy_sys_invD [OF assms(2) pss_exit(2)] by blast
  have disj: "module_slots sz (base, drivers) \<inter> others = {}" using assms(4) M(1) unfolding phy_modules_ok_def by metis
  have "regd k = regd (ps_kernel s) - module_slots sz (base, drivers)"
    using phy_registration_drop_correct [OF assms(3) M(2-4), of "ps_kernel s"] pss_exit(3) by auto
  then have "regd k = others \<union> live_slots sz mods s'"
    using assms(2) disj live_slots_unload [OF assms(4) M(1), of s k] pss_exit(1) unfolding phy_sys_inv_def by blast
  then show ?thesis using assms(2) pss_exit(1) by (auto simp: phy_sys_inv_def)
qed

lemma phy_sys_reach_inv:
  assumes "phy_sys_reach C mods k0 s" "c_phy_reg_ok sz regd C" "phy_modules_ok sz mods (regd k0)"
  shows "phy_sys_inv sz regd mods (regd k0) s"
  using assms(1)
proof induction
  case psr_start
  show ?case by (simp add: phy_sys_inv_def live_slots_def)
next
  case (psr_step s s')
  then show ?case using phy_sys_step_inv assms(2,3) by blast
qed

lemma live_slots_table:
  assumes "a \<in> live_slots sz mods s"
  shows "\<exists>m base drivers i. m \<in> dom (ps_live s) \<and> mods m = Some (base, drivers) \<and> i < length drivers \<and> a = base + i * sz \<and>
    module_drivers drivers ! i = create_phy_driver (drivers ! i)"
proof -
  obtain m M where m: "m \<in> dom (ps_live s)" "mods m = Some M" "a \<in> module_slots sz M" using assms by (auto simp: live_slots_def)
  obtain base drivers where M: "M = (base, drivers)" by fastforce
  then obtain i where "i < length drivers" "a = base + i * sz" using m(3) by (auto simp: module_slots_def driver_slots_def)
  then show ?thesis using m(1,2) M by (force simp: module_drivers_def)
qed

text \<open>
  C33: Modules that are made with \<open>module_phy_driver!\<close> are loaded and unloaded in any order, and registrations may fail. At every moment the
  tables that PHYLIB has registered are those that it had before and those of the modules that are loaded: each is an element of the static slice of a
  loaded module, and is the table of the driver at its place in the module's list. Dropping a registration never panics, so that after all
  modules are gone no table of theirs is left behind; and a module without drivers does not load.
\<close>

theorem phy_registrations_sound:
  assumes "phy_sys_reach C mods k0 s" "c_phy_reg_ok sz regd C" "phy_modules_ok sz mods (regd k0)"
  shows "regd (ps_kernel s) = regd k0 \<union> live_slots sz mods s \<and>
    (\<forall>a \<in> regd (ps_kernel s) - regd k0. \<exists>m base drivers i. m \<in> dom (ps_live s) \<and> mods m = Some (base, drivers) \<and> i < length drivers \<and>
       a = base + i * sz \<and> module_drivers drivers ! i = create_phy_driver (drivers ! i)) \<and>
    (\<forall>m r. ps_live s m = Some r \<longrightarrow> (\<exists>k. phy_registration_drop C r (ps_kernel s) = Inr k)) \<and>
    (ps_live s = Map.empty \<longrightarrow> regd (ps_kernel s) = regd k0) \<and>
    (\<forall>m base. mods m = Some (base, []) \<longrightarrow> ps_live s m = None)"
proof -
  have inv: "phy_sys_inv sz regd mods (regd k0) s" by (rule phy_sys_reach_inv [OF assms])
  then have reg: "regd (ps_kernel s) = regd k0 \<union> live_slots sz mods s" by (simp add: phy_sys_inv_def)
  have "\<exists>k. phy_registration_drop C r (ps_kernel s) = Inr k" if "ps_live s m = Some r" for m r
    using phy_sys_invD [OF inv that] phy_registration_drop_correct [OF assms(2), of r] by blast
  moreover have "ps_live s m = None" if "mods m = Some (base, [])" for m base using phy_sys_invD [OF inv, of m] that by (cases "ps_live s m") auto
  moreover have "ps_live s = Map.empty \<longrightarrow> regd (ps_kernel s) = regd k0" using reg by (simp add: live_slots_def)
  ultimately show ?thesis using reg live_slots_table [of _ sz mods s] by auto
qed

definition demo_phy_reg :: "addr set c_phy_reg" where
  "demo_phy_reg = \<lparr>phy_drivers_register = (\<lambda>base n module k. (0, k \<union> driver_slots 8 base n)),
     phy_drivers_unregister = (\<lambda>base n k. k - driver_slots 8 base n)\<rparr>"

definition demo_phy_mods :: "addr \<rightharpoonup> addr \<times> (u16 \<Rightarrow> u16) driver list" where
  "demo_phy_mods = [64 \<mapsto> (1000, [demo_phy_driver])]"

definition demo_phy_sys :: "(u16 \<Rightarrow> u16, addr set) phy_sys" where
  "demo_phy_sys = \<lparr>ps_kernel = {1000}, ps_live = [64 \<mapsto> \<lparr>rg_drivers = (1000, module_drivers [demo_phy_driver])\<rparr>]\<rparr>"

lemma demo_phy_sys_reach: "phy_sys_reach demo_phy_reg demo_phy_mods {} demo_phy_sys"
proof -
  have "phy_module_init demo_phy_reg 64 1000 [demo_phy_driver] {} = (Ok \<lparr>rg_drivers = (1000, module_drivers [demo_phy_driver])\<rparr>, {1000})"
    by (simp add: phy_module_init_def phy_registration_register_def demo_phy_reg_def module_drivers_def i32_max_def to_result_def driver_slots_def)
  then have "phy_sys_step demo_phy_reg demo_phy_mods \<lparr>ps_kernel = {}, ps_live = Map.empty\<rparr> demo_phy_sys"
    using pss_init [of demo_phy_mods 64 1000 "[demo_phy_driver]" "\<lparr>ps_kernel = {}, ps_live = Map.empty\<rparr>" demo_phy_reg]
    by (simp add: demo_phy_mods_def demo_phy_sys_def)
  then show ?thesis by (blast intro: psr_start psr_step)
qed

theorem phy_registrations_sound_witness: "{1000} = live_slots 8 demo_phy_mods demo_phy_sys"
proof -
  have "c_phy_reg_ok 8 id demo_phy_reg" by (simp add: c_phy_reg_ok_def demo_phy_reg_def)
  moreover have "phy_modules_ok 8 demo_phy_mods (id {})" by (simp add: phy_modules_ok_def demo_phy_mods_def)
  ultimately have "id (ps_kernel demo_phy_sys) = id {} \<union> live_slots 8 demo_phy_mods demo_phy_sys"
    using phy_registrations_sound [OF demo_phy_sys_reach, of 8 id] by blast
  then show ?thesis by (simp add: demo_phy_sys_def)
qed

end
