(* ===== verification/Kernel_Print.thy ===== *)
theory Kernel_Print
  imports Kernel_Str
begin

text \<open>
  \<open>rust/src/print.rs\<close>, the printing of \<open>kunit.rs\<close> and \<open>seq_file.rs\<close>, and \<open>rs__printk\<close> of \<open>src/shim.c\<close>: from the macros that print a message to the
  kernel's log.

  \<open>printk\<close> is a parameter. \<open>c_printk_ok\<close> is its documented behaviour on the directives that the crate uses: arguments are taken in
  order, one for each directive; \<open>%s\<close> is a string that ends with zero, and for \<open>%pA\<close> it calls \<open>rust_fmt_argument\<close> with the rest of
  its buffer. What a pointer in the argument list points to is its model: nothing, bytes, arguments of \<open>format_args!\<close>, or unknown.
\<close>

section \<open>Arguments\<close>

datatype vararg = Arg_Null | Arg_Str bytes | Arg_Fmt fmt_args | Arg_Unknown

definition raw_formatter_pos :: "raw_formatter \<Rightarrow> addr" where
  "raw_formatter_pos self = rf_pos self"

text \<open>The buffer from \<open>buf\<close> to \<open>ed\<close> is part of the block \<open>m\<close> at address \<open>base\<close>.\<close>

definition rust_fmt_argument :: "addr \<Rightarrow> u8 block \<Rightarrow> addr \<Rightarrow> addr \<Rightarrow> vararg \<Rightarrow> (addr \<times> u8 block) exec" where
  "rust_fmt_argument base m buf ed ptr =
     (let w = raw_formatter_from_ptrs buf ed in
      case ptr of
        Arg_Fmt args \<Rightarrow> exec_bind (write_fmt (raw_write_str base) (w, m) args) (\<lambda>(_, w, m). Inr (raw_formatter_pos w, m))
      | _ \<Rightarrow> Inl UB)"

section \<open>Format strings\<close>

definition KERN_CONT :: bytes where "KERN_CONT = [0x01, 99, 0]"

definition LENGTH_PREFIX :: nat where "LENGTH_PREFIX = 2"
definition FORMAT_LENGTH :: nat where "FORMAT_LENGTH = 10"

text \<open>The suffixes are \<open>%pA\<close> with five zeros and \<open>%s: %pA\<close> with one.\<close>

definition generate :: "bool \<Rightarrow> bytes \<Rightarrow> bytes exec" where
  "generate is_cont prefix =
     exec_bind (require Panic (prefix ! 0 = 0x01)) (\<lambda>_.
     exec_bind (if is_cont then require Panic (prefix ! 1 = 99) else require Panic (prefix ! 1 \<ge> 48 \<and> prefix ! 1 \<le> 55)) (\<lambda>_.
     exec_bind (require Panic (prefix ! 2 = 0)) (\<lambda>_.
     let suffix = (if is_cont then [37, 112, 65, 0, 0, 0, 0, 0] else [37, 115, 58, 32, 37, 112, 65, 0]) in
     Inr [prefix ! 0, prefix ! 1, suffix ! 0, suffix ! 1, suffix ! 2, suffix ! 3, suffix ! 4, suffix ! 5, suffix ! 6, suffix ! 7])))"

definition format_CONT :: "bytes exec" where "format_CONT = generate True KERN_CONT"

section \<open>Printing\<close>

type_synonym 'k printk_fn = "bytes \<Rightarrow> vararg list \<Rightarrow> 'k \<Rightarrow> (int \<times> 'k) exec"

text \<open>
  What a build and a running module have: two configuration options, the prefix that \<open>module!\<close> declares, and the kernel symbols that the
  shim found.
\<close>

record 'k print_env =
  pe_config_printk :: bool
  pe_debug_assertions :: bool
  pe_log_prefix :: bytes
  pe_addr__printk :: "'k printk_fn option"
  pe_addr_printk :: "'k printk_fn option"

definition rs__printk :: "'k print_env \<Rightarrow> bytes \<Rightarrow> vararg \<Rightarrow> vararg \<Rightarrow> 'k \<Rightarrow> (int \<times> 'k) exec" where
  "rs__printk E fmt module_name args k =
     (case pe_addr__printk E of
        Some f \<Rightarrow> f fmt [module_name, args] k
      | None \<Rightarrow> (case pe_addr_printk E of Some f \<Rightarrow> f fmt [module_name, args] k | None \<Rightarrow> Inr (0, k)))"

definition call_printk :: "'k print_env \<Rightarrow> bytes \<Rightarrow> bytes \<Rightarrow> fmt_args \<Rightarrow> 'k \<Rightarrow> 'k exec" where
  "call_printk E format_string module_name args k =
     (if pe_config_printk E
      then exec_bind (rs__printk E format_string (Arg_Str module_name) (Arg_Fmt args) k) (\<lambda>(_, k). Inr k)
      else Inr k)"

definition call_printk_cont :: "'k print_env \<Rightarrow> fmt_args \<Rightarrow> 'k \<Rightarrow> 'k exec" where
  "call_printk_cont E args k =
     (if pe_config_printk E
      then exec_bind format_CONT (\<lambda>cont. exec_bind (rs__printk E cont Arg_Null (Arg_Fmt args) k) (\<lambda>(_, k). Inr k))
      else Inr k)"

text \<open>The last argument says whether the message continues the one before it.\<close>

definition print_macro :: "'k print_env \<Rightarrow> bytes exec \<Rightarrow> bool \<Rightarrow> fmt_args \<Rightarrow> 'k \<Rightarrow> 'k exec" where
  "print_macro E format_string is_cont args k =
     (if is_cont then call_printk_cont E args k
      else exec_bind format_string (\<lambda>f. call_printk E f (pe_log_prefix E) args k))"









definition pr_cont :: "'k print_env \<Rightarrow> fmt_args \<Rightarrow> 'k \<Rightarrow> 'k exec" where
  "pr_cont E args k = print_macro E format_CONT True args k"

text \<open>The messages of KUnit give \<open>_printk\<close> one argument; the shim passes whatever stands in the place of a second.\<close>

definition kunit_err :: "'k print_env \<Rightarrow> fmt_args \<Rightarrow> 'k \<Rightarrow> 'k exec" where
  "kunit_err E args k =
     (if pe_config_printk E
      then exec_bind (rs__printk E [0x01, 51, 37, 112, 65, 0] (Arg_Fmt args) Arg_Unknown k) (\<lambda>(_, k). Inr k)
      else Inr k)"

definition kunit_info :: "'k print_env \<Rightarrow> fmt_args \<Rightarrow> 'k \<Rightarrow> 'k exec" where
  "kunit_info E args k =
     (if pe_config_printk E
      then exec_bind (rs__printk E [0x01, 54, 37, 112, 65, 0] (Arg_Fmt args) Arg_Unknown k) (\<lambda>(_, k). Inr k)
      else Inr k)"

definition rs_seq_printf :: "'k printk_fn \<Rightarrow> bytes \<Rightarrow> vararg \<Rightarrow> 'k \<Rightarrow> (int \<times> 'k) exec" where
  "rs_seq_printf addr_seq_printf fmt args m = addr_seq_printf fmt [args] m"

definition seq_call_printf :: "'k printk_fn \<Rightarrow> fmt_args \<Rightarrow> 'k \<Rightarrow> 'k exec" where
  "seq_call_printf seq_printf args self = exec_bind (rs_seq_printf seq_printf [37, 112, 65, 0] (Arg_Fmt args) self) (\<lambda>(_, self). Inr self)"

section \<open>What printk documents\<close>

datatype directive = Dir_Lit u8 | Dir_Str | Dir_Args

fun directives :: "bytes \<Rightarrow> directive list" where
  "directives [] = []"
| "directives (c # r) =
     (if c = 0 then []
      else if c = 37 \<and> take 1 r = [115] then Dir_Str # directives (drop 1 r)
      else if c = 37 \<and> take 2 r = [112, 65] then Dir_Args # directives (drop 2 r)
      else Dir_Lit c # directives r)"

text \<open>Bytes that do not fit are counted and not written.\<close>

definition put_bytes :: "addr \<Rightarrow> nat \<Rightarrow> bytes \<Rightarrow> addr \<times> u8 block \<Rightarrow> addr \<times> u8 block" where
  "put_bytes base lim bs st =
     (fst st + length bs, (snd st)\<lparr>b_mem := mem_upd (b_mem (snd st)) (fst st - base) (take (lim - (fst st - base)) bs)\<rparr>)"

fun emit_directives :: "addr \<Rightarrow> nat \<Rightarrow> directive list \<Rightarrow> vararg list \<Rightarrow> addr \<times> u8 block \<Rightarrow> (addr \<times> u8 block) exec" where
  "emit_directives base lim [] va st = Inr st"
| "emit_directives base lim (Dir_Lit c # ds) va st = emit_directives base lim ds va (put_bytes base lim [c] st)"
| "emit_directives base lim (Dir_Str # ds) va st =
     (case va of
        Arg_Str s # va \<Rightarrow>
          exec_bind (require UB (0 \<in> set s)) (\<lambda>_. emit_directives base lim ds va (put_bytes base lim (takeWhile (\<lambda>c. c \<noteq> 0) s) st))
      | _ \<Rightarrow> Inl UB)"
| "emit_directives base lim (Dir_Args # ds) va st =
     (case va of
        a # va \<Rightarrow> exec_bind (rust_fmt_argument base (snd st) (fst st) (base + lim) a) (emit_directives base lim ds va)
      | [] \<Rightarrow> Inl UB)"

definition empty_line :: "nat \<Rightarrow> u8 block" where
  "empty_line lim = \<lparr>b_size = lim, b_mem = (\<lambda>_. None)\<rparr>"

definition line_of :: "addr \<Rightarrow> nat \<Rightarrow> addr \<times> u8 block \<Rightarrow> bytes" where
  "line_of base lim st = map (\<lambda>i. the (b_mem (snd st) i)) [0..<min (fst st - base) lim]"

definition log_add :: "u8 \<Rightarrow> bytes \<Rightarrow> (u8 \<times> bytes) list \<Rightarrow> (u8 \<times> bytes) list" where
  "log_add level line log =
     (if level = 99 \<and> log \<noteq> [] then butlast log @ [(fst (last log), snd (last log) @ line)] else log @ [(level, line)])"

text \<open>\<open>base\<close> and \<open>lim\<close> are the buffer in which a line is made, \<open>logof\<close> the lines of the log with their levels.\<close>

definition c_printk_ok :: "addr \<Rightarrow> nat \<Rightarrow> ('k \<Rightarrow> (u8 \<times> bytes) list) \<Rightarrow> 'k printk_fn \<Rightarrow> bool" where
  "c_printk_ok base lim logof printk \<longleftrightarrow>
     (\<forall>level fmt va k. case emit_directives base lim (directives fmt) va (base, empty_line lim) of
        Inl e \<Rightarrow> printk (0x01 # level # fmt) va k = Inl e
      | Inr st \<Rightarrow> \<exists>ret k'. printk (0x01 # level # fmt) va k = Inr (ret, k') \<and> logof k' = log_add level (line_of base lim st) (logof k))"

section \<open>Arguments in a buffer\<close>

text \<open>A raw formatter over the buffer from \<open>buf\<close> to \<open>ed\<close>, of the block \<open>m0\<close>, to which \<open>ws\<close> has been written.\<close>

definition raw_rep :: "addr \<Rightarrow> addr \<Rightarrow> addr \<Rightarrow> u8 block \<Rightarrow> fmt_state \<Rightarrow> bytes \<Rightarrow> bool" where
  "raw_rep base buf ed m0 st ws \<longleftrightarrow>
     fst st = \<lparr>rf_beg = buf, rf_pos = min (buf + length ws) usize_max, rf_end = ed\<rparr> \<and>
     snd st = m0\<lparr>b_mem := mem_upd (b_mem m0) (buf - base) (take (ed - buf) ws)\<rparr>"

definition buffer_ok :: "addr \<Rightarrow> addr \<Rightarrow> addr \<Rightarrow> u8 block \<Rightarrow> bool" where
  "buffer_ok base buf ed m \<longleftrightarrow> base \<le> buf \<and> buf \<le> usize_max \<and> ed \<le> base + b_size m \<and> ed \<le> usize_max"

lemma mem_upd_append: "mem_upd (mem_upd m i xs) (i + length xs) ys = mem_upd m i (xs @ ys)"
  by (auto simp: mem_upd_def fun_eq_iff nth_append)

lemma clipped_length:
  fixes a e l u :: nat
  assumes "e \<le> u"
  shows "min (min (min a u + l) u) e - min a u = min l (e - a)"
proof (cases "a \<le> e")
  case True
  then have "min a u = a" using assms by simp
  then show ?thesis using assms True by simp
next
  case False
  then have "e \<le> min a u" using assms by simp
  then show ?thesis using False by simp
qed

lemma raw_rep_write:
  assumes "raw_rep base buf ed m0 st ws" "buffer_ok base buf ed m0"
  shows "\<exists>st'. raw_write_str base st s = Inr (Ok (), st') \<and> raw_rep base buf ed m0 st' (ws @ s)"
proof -
  define m where "m = m0\<lparr>b_mem := mem_upd (b_mem m0) (buf - base) (take (ed - buf) ws)\<rparr>"
  define p where "p = min (buf + length ws) usize_max"
  define n where "n = min (length s) (ed - (buf + length ws))"
  have st: "st = (\<lparr>rf_beg = buf, rf_pos = p, rf_end = ed\<rparr>, m)" using assms(1) by (cases st) (simp add: raw_rep_def m_def p_def)
  have ed: "base \<le> buf" "ed \<le> base + b_size m0" "ed \<le> usize_max" "buf \<le> usize_max" using assms(2) by (simp_all add: buffer_ok_def)
  have pos: "saturating_add p (length s) = min (buf + length (ws @ s)) usize_max" by (simp add: saturating_add_def p_def)
  have copy: "saturating_sub (min (saturating_add p (length s)) ed) p = n"
    unfolding saturating_sub_def saturating_add_def p_def n_def by (rule clipped_length [OF ed(3)])
  have take: "take (ed - buf) (ws @ s) = take (ed - buf) ws @ take n s"
    by (simp add: n_def min_def)
  let ?m = "m0\<lparr>b_mem := mem_upd (b_mem m0) (buf - base) (take (ed - buf) (ws @ s))\<rparr>"
  have wr: "slots_write 1 m (p - base) (take n s) = Inr ?m" if "n > 0"
  proof -
    have le: "buf + length ws < ed" "length ws \<le> ed - buf" using that by (auto simp: n_def)
    then have p: "p - base = (buf - base) + length (take (ed - buf) ws)" using ed by (simp add: p_def)
    have "slots_write 1 m (p - base) (take n s) = Inr (m\<lparr>b_mem := mem_upd (b_mem m) (p - base) (take n s)\<rparr>)"
      by (rule slots_write_ok) (use ed le p in \<open>auto simp: slot_ok_def m_def n_def\<close>)
    then show ?thesis unfolding take mem_upd_append [symmetric] p by (simp add: m_def)
  qed
  moreover have "m = ?m" if "\<not> n > 0" unfolding take using that by (simp add: m_def)
  moreover have "base \<le> p" using ed by (auto simp: p_def)
  ultimately have "raw_write_str base st s = Inr (Ok (), \<lparr>rf_beg = buf, rf_pos = saturating_add p (length s), rf_end = ed\<rparr>, ?m)"
    unfolding st raw_write_str_def prod.case Let_def raw_formatter.simps copy by simp
  then show ?thesis by (simp add: raw_rep_def pos)
qed

lemma raw_rep_pieces:
  assumes "raw_rep base buf ed m0 st ws" "buffer_ok base buf ed m0"
  shows "\<exists>st'. write_pieces (raw_write_str base) fails st ps = Inr (if fails then Err FmtError else Ok (), st') \<and>
    raw_rep base buf ed m0 st' (ws @ concat ps)"
  using assms(1)
proof (induction ps arbitrary: st ws)
  case Nil
  then show ?case by simp
next
  case (Cons q ps)
  obtain st1 where st1: "raw_write_str base st q = Inr (Ok (), st1)" "raw_rep base buf ed m0 st1 (ws @ q)"
    using raw_rep_write [OF Cons.prems assms(2)] by blast
  from Cons.IH [OF st1(2)] st1(1) show ?case by simp
qed

definition fmt_text :: "fmt_args \<Rightarrow> bytes" where
  "fmt_text args = concat (fa_pieces args)"

lemma rust_fmt_argument_eq:
  assumes "buffer_ok base buf ed m"
  shows "rust_fmt_argument base m buf ed (Arg_Fmt args) =
    Inr (min (buf + length (fmt_text args)) usize_max, m\<lparr>b_mem := mem_upd (b_mem m) (buf - base) (take (ed - buf) (fmt_text args))\<rparr>)"
proof -
  have "raw_rep base buf ed m (raw_formatter_from_ptrs buf ed, m) []"
    using assms by (simp add: raw_rep_def raw_formatter_from_ptrs_def buffer_ok_def)
  from raw_rep_pieces [OF this assms, of "fa_fails args" "fa_pieces args"] show ?thesis
    by (auto simp: rust_fmt_argument_def write_fmt_def raw_rep_def raw_formatter_pos_def fmt_text_def)
qed



section \<open>Lines of the log\<close>

definition line_holds :: "addr \<Rightarrow> nat \<Rightarrow> addr \<times> u8 block \<Rightarrow> bytes \<Rightarrow> bool" where
  "line_holds base lim st ws \<longleftrightarrow>
     base \<le> fst st \<and> min (fst st - base) lim = min (length ws) lim \<and> (length ws \<le> lim \<longrightarrow> fst st = base + length ws) \<and>
     snd st = (empty_line lim)\<lparr>b_mem := mem_upd (\<lambda>_. None) 0 (take lim ws)\<rparr>"

lemma line_holds_start: "line_holds base lim (base, empty_line lim) []"
  by (simp add: line_holds_def empty_line_def)

lemma line_holds_off: "line_holds base lim st ws \<Longrightarrow>
    mem_upd (mem_upd m 0 (take lim ws)) (fst st - base) (take (lim - (fst st - base)) bs) = mem_upd m 0 (take lim (ws @ bs))"
proof (cases "length ws \<le> lim")
  case True
  assume "line_holds base lim st ws"
  then have "fst st - base = 0 + length (take lim ws)" using True by (simp add: line_holds_def)
  then show ?thesis using True mem_upd_append [of m 0 "take lim ws" "take (lim - length ws) bs"] by simp
next
  case False
  assume "line_holds base lim st ws"
  then have "lim \<le> fst st - base" using False by (simp add: line_holds_def min_def split: if_splits)
  then show ?thesis using False by simp
qed


lemma line_holds_args:
  assumes "line_holds base lim st ws" "fst st \<le> usize_max" "base + lim \<le> usize_max"
  shows "\<exists>st'. rust_fmt_argument base (snd st) (fst st) (base + lim) (Arg_Fmt args) = Inr st' \<and> line_holds base lim st' (ws @ fmt_text args)"
proof -
  have ok: "buffer_ok base (fst st) (base + lim) (snd st)" using assms by (simp add: buffer_ok_def line_holds_def empty_line_def)
  have d: "base + lim - fst st = lim - (fst st - base)" using assms(1) by (simp add: line_holds_def)
  show ?thesis
    unfolding rust_fmt_argument_eq [OF ok] d using assms line_holds_off [of base lim st ws "\<lambda>_. None" "fmt_text args"]
    by (auto simp: line_holds_def min_def split: if_splits)
qed

lemma line_of_holds: "line_holds base lim st ws \<Longrightarrow> line_of base lim st = take lim ws"
  by (rule nth_equalityI) (auto simp: line_of_def line_holds_def mem_upd_def min.commute)


lemma generate_cont: "format_CONT = Inr (1 # 99 # [37, 112, 65, 0, 0, 0, 0, 0])"
  by (simp add: format_CONT_def generate_def KERN_CONT_def)


lemma directives_args: "directives (37 # 112 # 65 # 0 # r) = [Dir_Args]"
  by simp



lemma c_printk_okD:
  assumes "c_printk_ok base lim logof f" "emit_directives base lim (directives fmt) va (base, empty_line lim) = Inr st"
  shows "\<exists>ret k'. f (1 # level # fmt) va k = Inr (ret, k') \<and> logof k' = log_add level (line_of base lim st) (logof k)"
proof -
  have "case emit_directives base lim (directives fmt) va (base, empty_line lim) of
      Inl e \<Rightarrow> f (1 # level # fmt) va k = Inl e
    | Inr st \<Rightarrow> \<exists>ret k'. f (1 # level # fmt) va k = Inr (ret, k') \<and> logof k' = log_add level (line_of base lim st) (logof k)"
    using assms(1) unfolding c_printk_ok_def by blast
  then show ?thesis unfolding assms(2) by simp
qed

lemma c_printk_faultD:
  assumes "c_printk_ok base lim logof f" "emit_directives base lim (directives fmt) va (base, empty_line lim) = Inl e"
  shows "f (1 # level # fmt) va k = Inl e"
proof -
  have "case emit_directives base lim (directives fmt) va (base, empty_line lim) of
      Inl e \<Rightarrow> f (1 # level # fmt) va k = Inl e
    | Inr st \<Rightarrow> \<exists>ret k'. f (1 # level # fmt) va k = Inr (ret, k') \<and> logof k' = log_add level (line_of base lim st) (logof k)"
    using assms(1) unfolding c_printk_ok_def by blast
  then show ?thesis unfolding assms(2) by simp
qed

text \<open>A system that prints: the shim has found \<open>printk\<close> under one of its names, and the prefix ends with its only zero.\<close>

definition print_env_ok :: "addr \<Rightarrow> nat \<Rightarrow> ('k \<Rightarrow> (u8 \<times> bytes) list) \<Rightarrow> bytes \<Rightarrow> 'k print_env \<Rightarrow> bool" where
  "print_env_ok base lim logof name E \<longleftrightarrow>
     pe_config_printk E \<and> pe_log_prefix E = name @ [0] \<and> 0 \<notin> set name \<and> base + lim \<le> usize_max \<and> base + length name + 2 \<le> usize_max \<and>
     (\<exists>f. c_printk_ok base lim logof f \<and> (pe_addr__printk E = Some f \<or> pe_addr__printk E = None \<and> pe_addr_printk E = Some f))"

lemma print_env_okE:
  assumes "print_env_ok base lim logof name E"
  obtains f where "c_printk_ok base lim logof f" "\<And>fmt a b k. rs__printk E fmt a b k = f fmt [a, b] k"
proof -
  obtain f where f: "c_printk_ok base lim logof f" "pe_addr__printk E = Some f \<or> pe_addr__printk E = None \<and> pe_addr_printk E = Some f"
    using assms unfolding print_env_ok_def by blast
  then have "rs__printk E fmt a b k = f fmt [a, b] k" for fmt a b k by (auto simp: rs__printk_def)
  with f(1) that show ?thesis by blast
qed










text \<open>
  \<open>pr_cont!\<close> gives \<open>%pA\<close> the null pointer that stands in the place of the module's name: it always faults. The messages of KUnit, with the
  arguments first, do not.
\<close>

lemma pr_cont_faults:
  assumes "print_env_ok base lim logof name E"
  shows "pr_cont E args k = Inl UB"
proof -
  obtain f where f: "c_printk_ok base lim logof f" "\<And>fmt a b k. rs__printk E fmt a b k = f fmt [a, b] k"
    using print_env_okE [OF assms(1)] by blast
  have "emit_directives base lim (directives [37, 112, 65, 0, 0, 0, 0, 0]) [Arg_Null, Arg_Fmt args] (base, empty_line lim) = Inl UB"
    by (simp add: rust_fmt_argument_def)
  from c_printk_faultD [OF f(1) this] f(2) show ?thesis
    using assms by (simp add: pr_cont_def print_macro_def call_printk_cont_def generate_cont print_env_ok_def)
qed

lemma kunit_messages:
  assumes "print_env_ok base lim logof name E"
  shows "\<exists>k'. kunit_err E args k = Inr k' \<and> logof k' = logof k @ [(51, take lim (fmt_text args))]"
    and "\<exists>k'. kunit_info E args k = Inr k' \<and> logof k' = logof k @ [(54, take lim (fmt_text args))]"
proof -
  obtain f where f: "c_printk_ok base lim logof f" "\<And>fmt a b k. rs__printk E fmt a b k = f fmt [a, b] k"
    using print_env_okE [OF assms(1)] by blast
  have E: "pe_config_printk E" "base + lim \<le> usize_max" using assms(1) by (simp_all add: print_env_ok_def)
  obtain st where st: "emit_directives base lim (directives [37, 112, 65, 0]) [Arg_Fmt args, Arg_Unknown] (base, empty_line lim) = Inr st"
      "line_of base lim st = take lim (fmt_text args)"
    using line_holds_args [OF line_holds_start [of base lim], of args] E(2) line_of_holds by (fastforce simp: directives_args)
  show "\<exists>k'. kunit_err E args k = Inr k' \<and> logof k' = logof k @ [(51, take lim (fmt_text args))]"
    using c_printk_okD [OF f(1) st(1), of 51 k] f(2) E(1) st(2) by (auto simp: kunit_err_def log_add_def)
  show "\<exists>k'. kunit_info E args k = Inr k' \<and> logof k' = logof k @ [(54, take lim (fmt_text args))]"
    using c_printk_okD [OF f(1) st(1), of 54 k] f(2) E(1) st(2) by (auto simp: kunit_info_def log_add_def)
qed

text \<open>\<open>seq_printf\<close> formats the same directives into the buffer of its file; \<open>textof\<close> is what the file holds.\<close>

definition c_seq_printf_ok :: "addr \<Rightarrow> nat \<Rightarrow> ('k \<Rightarrow> bytes) \<Rightarrow> 'k printk_fn \<Rightarrow> bool" where
  "c_seq_printf_ok base lim textof f \<longleftrightarrow>
     (\<forall>fmt va k st. emit_directives base lim (directives fmt) va (base, empty_line lim) = Inr st \<longrightarrow>
        (\<exists>ret k'. f fmt va k = Inr (ret, k') \<and> textof k' = textof k @ line_of base lim st))"

lemma seq_print_text:
  assumes "c_seq_printf_ok base lim textof f" "base + lim \<le> usize_max"
  shows "\<exists>k'. seq_call_printf f args k = Inr k' \<and> textof k' = textof k @ take lim (fmt_text args)"
proof -
  obtain st where st: "emit_directives base lim (directives [37, 112, 65, 0]) [Arg_Fmt args] (base, empty_line lim) = Inr st"
      "line_of base lim st = take lim (fmt_text args)"
    using line_holds_args [OF line_holds_start [of base lim], of args] assms(2) line_of_holds by (fastforce simp: directives_args)
  then obtain ret k' where "f [37, 112, 65, 0] [Arg_Fmt args] k = Inr (ret, k')" "textof k' = textof k @ line_of base lim st"
    using assms(1) unfolding c_seq_printf_ok_def by blast
  then show ?thesis using st(2) by (simp add: seq_call_printf_def rs_seq_printf_def)
qed

end
