(* ===== verification/Kernel_Task.thy ===== *)
theory Kernel_Task
  imports Kernel_Types Kernel_Error "HOL-Library.Multiset"
begin

text \<open>
  \<open>rust/src/task.rs\<close>, \<open>pid_namespace.rs\<close>, \<open>cred.rs\<close>, and the part of \<open>src/shim.c\<close> that finds the fields of a task: tasks, their namespaces and
  credentials, as counted references.

  The counts and the fields are the kernel's, the parameter \<open>c_task\<close> on a state \<open>'s\<close>. The contract is stated over a view of that state:
  for each object the references that belong to the crate, and those that the kernel holds itself. A task keeps its group leader and its
  namespace alive.
\<close>

section \<open>Fields of a task\<close>

datatype rs_field_id =
  FIELD_TASK_PID | FIELD_TASK_TGID | FIELD_TASK_GROUP_LEADER | FIELD_TASK_MM | FIELD_TASK_POLICY | FIELD_TASK_NORMAL_PRIO
  | FIELD_TASK_CRED | FIELD_PAGE_NID

record rs_field =
  fo_offset :: nat
  fo_valid :: bool

type_synonym rs_fields = "rs_field_id \<Rightarrow> rs_field"

definition rs_fields_start :: rs_fields where
  "rs_fields_start = (\<lambda>_. \<lparr>fo_offset = 0, fo_valid = False\<rparr>)"

text \<open>The three sources: type information of the running kernel (in bits), offsets found in the memory of the current task, and headers.\<close>

record boot_offsets =
  off_pid :: nat
  off_cred :: nat
  off_mm :: nat

definition rs_field_resolve_btf :: "(rs_field_id \<rightharpoonup> nat) \<Rightarrow> rs_field_id \<Rightarrow> rs_fields \<Rightarrow> rs_fields" where
  "rs_field_resolve_btf btf i F = (case btf i of Some bit_off \<Rightarrow> F(i := \<lparr>fo_offset = bit_off div 8, fo_valid = True\<rparr>) | None \<Rightarrow> F)"

definition rs_task_anchor_offs :: "boot_offsets option \<Rightarrow> rs_fields \<Rightarrow> rs_fields" where
  "rs_task_anchor_offs boot F =
     (case boot of
        None \<Rightarrow> F
      | Some offs \<Rightarrow>
          let F = (if off_pid offs \<noteq> 0
                   then F(FIELD_TASK_PID := \<lparr>fo_offset = off_pid offs, fo_valid = True\<rparr>,
                          FIELD_TASK_TGID := \<lparr>fo_offset = off_pid offs + 4, fo_valid = True\<rparr>) else F);
              F = (if off_cred offs \<noteq> 0 then F(FIELD_TASK_CRED := \<lparr>fo_offset = off_cred offs, fo_valid = True\<rparr>) else F)
          in (if off_mm offs \<noteq> 0 then F(FIELD_TASK_MM := \<lparr>fo_offset = off_mm offs, fo_valid = True\<rparr>) else F))"

definition rs_task_compile :: "(rs_field_id \<Rightarrow> nat) \<Rightarrow> rs_field_id \<Rightarrow> rs_fields \<Rightarrow> rs_fields" where
  "rs_task_compile offsetof i F = (if \<not> fo_valid (F i) then F(i := \<lparr>fo_offset = offsetof i, fo_valid = True\<rparr>) else F)"

definition rs_task_compile_offs :: "(rs_field_id \<Rightarrow> nat) \<Rightarrow> rs_fields \<Rightarrow> rs_fields" where
  "rs_task_compile_offs offsetof F =
     fold (rs_task_compile offsetof)
       [FIELD_TASK_PID, FIELD_TASK_TGID, FIELD_TASK_GROUP_LEADER, FIELD_TASK_MM, FIELD_TASK_POLICY, FIELD_TASK_NORMAL_PRIO, FIELD_TASK_CRED] F"

definition task_fields :: "rs_field_id list" where
  "task_fields = [FIELD_TASK_PID, FIELD_TASK_TGID, FIELD_TASK_GROUP_LEADER, FIELD_TASK_MM, FIELD_TASK_POLICY, FIELD_TASK_NORMAL_PRIO,
     FIELD_TASK_CRED]"

text \<open>The last part of \<open>rs_shim_init\<close>; \<open>- 2\<close> is \<open>- ENOENT\<close>.\<close>

definition rs_shim_init_fields :: "(rs_field_id \<rightharpoonup> nat) \<Rightarrow> boot_offsets option \<Rightarrow> (rs_field_id \<Rightarrow> nat) \<Rightarrow> rs_fields \<Rightarrow> int \<times> rs_fields" where
  "rs_shim_init_fields btf boot offsetof F =
     (let F = fold (rs_field_resolve_btf btf)
            [FIELD_TASK_PID, FIELD_TASK_TGID, FIELD_TASK_GROUP_LEADER, FIELD_TASK_MM, FIELD_TASK_POLICY, FIELD_TASK_NORMAL_PRIO,
             FIELD_TASK_CRED, FIELD_PAGE_NID] F;
          F = rs_task_anchor_offs boot F;
          F = rs_task_compile_offs offsetof F
      in if \<not> fo_valid (F FIELD_TASK_PID) \<or> \<not> fo_valid (F FIELD_TASK_TGID) \<or> \<not> fo_valid (F FIELD_TASK_GROUP_LEADER) \<or>
            \<not> fo_valid (F FIELD_TASK_MM) \<or> \<not> fo_valid (F FIELD_TASK_POLICY) \<or> \<not> fo_valid (F FIELD_TASK_NORMAL_PRIO) \<or>
            \<not> fo_valid (F FIELD_TASK_CRED)
         then (- 2, F) else (0, F))"

section \<open>Tasks\<close>

text \<open>\<open>ct_load\<close> reads memory of the kernel; the identifiers of users are their numbers.\<close>

record 's c_task =
  ct_load :: "'s \<Rightarrow> addr \<Rightarrow> int exec"
  ct_get_current :: "'s \<Rightarrow> addr"
  ct_task_uid :: "'s \<Rightarrow> addr \<Rightarrow> u32 exec"
  ct_task_euid :: "'s \<Rightarrow> addr \<Rightarrow> u32 exec"
  ct_signal_pending :: "'s \<Rightarrow> addr \<Rightarrow> int exec"
  ct_task_active_pid_ns :: "'s \<Rightarrow> addr \<Rightarrow> addr exec"
  ct_task_tgid_nr_ns :: "'s \<Rightarrow> addr \<Rightarrow> addr \<Rightarrow> int exec"
  ct_wake_up_process :: "'s \<Rightarrow> addr \<Rightarrow> 's exec"
  ct_has_capability_noaudit :: "'s \<Rightarrow> addr \<Rightarrow> int \<Rightarrow> bool exec"
  ct_task_rlimit :: "'s \<Rightarrow> addr \<Rightarrow> u32 \<Rightarrow> u64 exec"
  ct_sched_setscheduler_nocheck :: "'s \<Rightarrow> addr \<Rightarrow> int \<Rightarrow> int \<Rightarrow> 's exec"
  ct_set_user_nice :: "'s \<Rightarrow> addr \<Rightarrow> int \<Rightarrow> 's exec"
  ct_get_task_struct :: "'s \<Rightarrow> addr \<Rightarrow> 's exec"
  ct_put_task_struct :: "'s \<Rightarrow> addr \<Rightarrow> 's exec"
  ct_get_pid_ns :: "'s \<Rightarrow> addr \<Rightarrow> 's exec"
  ct_put_pid_ns :: "'s \<Rightarrow> addr \<Rightarrow> 's exec"
  ct_get_cred :: "'s \<Rightarrow> addr \<Rightarrow> 's exec"
  ct_put_cred :: "'s \<Rightarrow> addr \<Rightarrow> 's exec"
  ct_cred_euid :: "'s \<Rightarrow> addr \<Rightarrow> u32 exec"
  ct_security_cred_getsecid :: "'s \<Rightarrow> addr \<Rightarrow> u32 exec"
  ct_current_euid :: "'s \<Rightarrow> u32"
  ct_from_kuid :: "'s \<Rightarrow> addr \<Rightarrow> u32 \<Rightarrow> u32"
  ct_current_user_ns :: "'s \<Rightarrow> addr"

definition rs_task_pid :: "rs_fields \<Rightarrow> 's c_task \<Rightarrow> 's \<Rightarrow> addr \<Rightarrow> int exec" where
  "rs_task_pid F K s t = (if \<not> fo_valid (F FIELD_TASK_PID) then Inr 0 else ct_load K s (t + fo_offset (F FIELD_TASK_PID)))"

definition rs_task_group_leader :: "rs_fields \<Rightarrow> 's c_task \<Rightarrow> 's \<Rightarrow> addr \<Rightarrow> addr exec" where
  "rs_task_group_leader F K s t =
     (if \<not> fo_valid (F FIELD_TASK_GROUP_LEADER) then Inr 0
      else exec_bind (ct_load K s (t + fo_offset (F FIELD_TASK_GROUP_LEADER))) (\<lambda>v. Inr (nat v)))"

definition rs_task_policy :: "rs_fields \<Rightarrow> 's c_task \<Rightarrow> 's \<Rightarrow> addr \<Rightarrow> u32 exec" where
  "rs_task_policy F K s t =
     (if \<not> fo_valid (F FIELD_TASK_POLICY) then Inr 0
      else exec_bind (ct_load K s (t + fo_offset (F FIELD_TASK_POLICY))) (\<lambda>v. Inr (word_of_int v)))"

definition rs_task_normal_prio :: "rs_fields \<Rightarrow> 's c_task \<Rightarrow> 's \<Rightarrow> addr \<Rightarrow> int exec" where
  "rs_task_normal_prio F K s t =
     (if \<not> fo_valid (F FIELD_TASK_NORMAL_PRIO) then Inr 0 else ct_load K s (t + fo_offset (F FIELD_TASK_NORMAL_PRIO)))"

record kuid =
  kuid_raw :: u32

definition kuid_from_raw :: "u32 \<Rightarrow> kuid" where
  "kuid_from_raw k = \<lparr>kuid_raw = k\<rparr>"

definition kuid_into_raw :: "kuid \<Rightarrow> u32" where
  "kuid_into_raw self = kuid_raw self"

definition kuid_current_euid :: "'s c_task \<Rightarrow> 's \<Rightarrow> kuid" where
  "kuid_current_euid K s = kuid_from_raw (ct_current_euid K s)"

definition into_uid_in_current_ns :: "'s c_task \<Rightarrow> 's \<Rightarrow> kuid \<Rightarrow> u32" where
  "into_uid_in_current_ns K s self = ct_from_kuid K s (ct_current_user_ns K s) (kuid_raw self)"

text \<open>\<open>uid_eq\<close> compares the numbers.\<close>

definition kuid_eq :: "(u32 \<Rightarrow> u32 \<Rightarrow> bool) \<Rightarrow> kuid \<Rightarrow> kuid \<Rightarrow> bool" where
  "kuid_eq uid_eq self other \<longleftrightarrow> uid_eq (kuid_raw self) (kuid_raw other)"

definition task_current_raw :: "'s c_task \<Rightarrow> 's \<Rightarrow> addr" where
  "task_current_raw K s = ct_get_current K s"

definition task_current :: "'s c_task \<Rightarrow> 's \<Rightarrow> addr exec" where
  "task_current K s = exec_bind (require UB (task_current_raw K s \<noteq> 0)) (\<lambda>_. Inr (task_current_raw K s))"

definition group_leader :: "rs_fields \<Rightarrow> 's c_task \<Rightarrow> addr \<Rightarrow> 's \<Rightarrow> addr exec" where
  "group_leader F K self s =
     exec_bind (rs_task_group_leader F K s self) (\<lambda>ptr. exec_bind (require UB (ptr \<noteq> 0)) (\<lambda>_. Inr ptr))"

definition task_pid :: "rs_fields \<Rightarrow> 's c_task \<Rightarrow> addr \<Rightarrow> 's \<Rightarrow> int exec" where
  "task_pid F K self s = rs_task_pid F K s self"

definition task_uid :: "'s c_task \<Rightarrow> addr \<Rightarrow> 's \<Rightarrow> kuid exec" where
  "task_uid K self s = exec_bind (ct_task_uid K s self) (\<lambda>k. Inr (kuid_from_raw k))"

definition task_euid :: "'s c_task \<Rightarrow> addr \<Rightarrow> 's \<Rightarrow> kuid exec" where
  "task_euid K self s = exec_bind (ct_task_euid K s self) (\<lambda>k. Inr (kuid_from_raw k))"

definition signal_pending :: "'s c_task \<Rightarrow> addr \<Rightarrow> 's \<Rightarrow> bool exec" where
  "signal_pending K self s = exec_bind (ct_signal_pending K s self) (\<lambda>n. Inr (n \<noteq> 0))"

text \<open>The helper takes a reference to the namespace that it found.\<close>

definition helper_task_get_pid_ns :: "'s c_task \<Rightarrow> 's \<Rightarrow> addr \<Rightarrow> (addr \<times> 's) exec" where
  "helper_task_get_pid_ns K s task =
     exec_bind (ct_task_active_pid_ns K s task) (\<lambda>pid_ns.
     if pid_ns \<noteq> 0 then exec_bind (ct_get_pid_ns K s pid_ns) (\<lambda>s. Inr (pid_ns, s)) else Inr (pid_ns, s))"

definition get_pid_ns :: "'s c_task \<Rightarrow> addr \<Rightarrow> 's \<Rightarrow> (addr option \<times> 's) exec" where
  "get_pid_ns K self s =
     exec_bind (helper_task_get_pid_ns K s self) (\<lambda>(ptr, s).
     Inr (if ptr = 0 then None else Some (aref_from_raw ptr), s))"

definition tgid_nr_ns :: "'s c_task \<Rightarrow> addr \<Rightarrow> addr option \<Rightarrow> 's \<Rightarrow> int exec" where
  "tgid_nr_ns K self pidns s = ct_task_tgid_nr_ns K s self (case pidns of Some p \<Rightarrow> p | None \<Rightarrow> 0)"

definition wake_up :: "'s c_task \<Rightarrow> addr \<Rightarrow> 's \<Rightarrow> 's exec" where
  "wake_up K self s = ct_wake_up_process K s self"

definition has_capability_noaudit :: "'s c_task \<Rightarrow> addr \<Rightarrow> int \<Rightarrow> 's \<Rightarrow> bool exec" where
  "has_capability_noaudit K self capability s = ct_has_capability_noaudit K s self capability"

definition task_policy :: "rs_fields \<Rightarrow> 's c_task \<Rightarrow> addr \<Rightarrow> 's \<Rightarrow> u32 exec" where
  "task_policy F K self s = rs_task_policy F K s self"

definition normal_prio :: "rs_fields \<Rightarrow> 's c_task \<Rightarrow> addr \<Rightarrow> 's \<Rightarrow> int exec" where
  "normal_prio F K self s = rs_task_normal_prio F K s self"

definition RLIMIT_NICE :: u32 where "RLIMIT_NICE = 13"
definition RLIMIT_RTPRIO :: u32 where "RLIMIT_RTPRIO = 14"
definition MAX_NICE :: int where "MAX_NICE = 19"
definition SCHED_RESET_ON_FORK :: int where "SCHED_RESET_ON_FORK = 0x40000000"

definition rlimit_rtprio :: "'s c_task \<Rightarrow> addr \<Rightarrow> 's \<Rightarrow> int exec" where
  "rlimit_rtprio K self s = exec_bind (ct_task_rlimit K s self RLIMIT_RTPRIO) (\<lambda>r. Inr (as_i32 (uint r)))"

text \<open>Arithmetic on \<open>i32\<close> panics outside its range.\<close>

definition i32_exec :: "int \<Rightarrow> int exec" where
  "i32_exec x = exec_bind (require Panic (- (2 ^ 31) \<le> x \<and> x < 2 ^ 31)) (\<lambda>_. Inr x)"

definition rlimit_nice :: "'s c_task \<Rightarrow> addr \<Rightarrow> 's \<Rightarrow> int exec" where
  "rlimit_nice K self s =
     exec_bind (ct_task_rlimit K s self RLIMIT_NICE) (\<lambda>r.
     let prio = as_i32 (uint r) in
     exec_bind (i32_exec (MAX_NICE - prio)) (\<lambda>d. i32_exec (d + 1)))"

definition sched_setscheduler_nocheck :: "'s c_task \<Rightarrow> addr \<Rightarrow> int \<Rightarrow> int \<Rightarrow> bool \<Rightarrow> 's \<Rightarrow> 's exec" where
  "sched_setscheduler_nocheck K self policy sched_priority reset_on_fork s =
     (let policy = (if reset_on_fork then or policy SCHED_RESET_ON_FORK else policy) in
      ct_sched_setscheduler_nocheck K s self policy sched_priority)"

definition set_user_nice :: "'s c_task \<Rightarrow> addr \<Rightarrow> int \<Rightarrow> 's \<Rightarrow> 's exec" where
  "set_user_nice K self nice s = ct_set_user_nice K s self nice"

definition active_pid_ns :: "'s c_task \<Rightarrow> addr \<Rightarrow> 's \<Rightarrow> addr option exec" where
  "active_pid_ns K self s =
     exec_bind (ct_task_active_pid_ns K s self) (\<lambda>active_ns. Inr (if active_ns = 0 then None else Some active_ns))"

definition task_inc_ref :: "'s c_task \<Rightarrow> addr \<Rightarrow> 's \<Rightarrow> 's exec" where
  "task_inc_ref K self s = ct_get_task_struct K s self"

definition task_dec_ref :: "'s c_task \<Rightarrow> addr \<Rightarrow> 's \<Rightarrow> 's exec" where
  "task_dec_ref K obj s = ct_put_task_struct K s obj"

definition pid_ns_inc_ref :: "'s c_task \<Rightarrow> addr \<Rightarrow> 's \<Rightarrow> 's exec" where
  "pid_ns_inc_ref K self s = ct_get_pid_ns K s self"

definition pid_ns_dec_ref :: "'s c_task \<Rightarrow> addr \<Rightarrow> 's \<Rightarrow> 's exec" where
  "pid_ns_dec_ref K obj s = ct_put_pid_ns K s obj"

definition cred_inc_ref :: "'s c_task \<Rightarrow> addr \<Rightarrow> 's \<Rightarrow> 's exec" where
  "cred_inc_ref K self s = ct_get_cred K s self"

definition cred_dec_ref :: "'s c_task \<Rightarrow> addr \<Rightarrow> 's \<Rightarrow> 's exec" where
  "cred_dec_ref K obj s = ct_put_cred K s obj"

definition cred_get_secid :: "'s c_task \<Rightarrow> addr \<Rightarrow> 's \<Rightarrow> u32 exec" where
  "cred_get_secid K self s = ct_security_cred_getsecid K s self"

definition cred_euid :: "'s c_task \<Rightarrow> addr \<Rightarrow> 's \<Rightarrow> kuid exec" where
  "cred_euid K self s = exec_bind (ct_cred_euid K s self) (\<lambda>k. Inr (kuid_from_raw k))"

section \<open>The fields are found\<close>

definition fields_ok :: "(rs_field_id \<Rightarrow> nat) \<Rightarrow> rs_fields \<Rightarrow> bool" where
  "fields_ok offs F \<longleftrightarrow> (\<forall>i \<in> set task_fields. F i = \<lparr>fo_offset = offs i, fo_valid = True\<rparr>)"

text \<open>The sources agree with the layout of the running kernel as far as they say something.\<close>

definition sources_ok :: "(rs_field_id \<Rightarrow> nat) \<Rightarrow> (rs_field_id \<rightharpoonup> nat) \<Rightarrow> boot_offsets option \<Rightarrow> (rs_field_id \<Rightarrow> nat) \<Rightarrow> bool" where
  "sources_ok offs btf boot offsetof \<longleftrightarrow>
     (\<forall>i b. btf i = Some b \<longrightarrow> b = 8 * offs i) \<and>
     (\<forall>b. boot = Some b \<longrightarrow> (off_pid b \<noteq> 0 \<longrightarrow> off_pid b = offs FIELD_TASK_PID \<and> off_pid b + 4 = offs FIELD_TASK_TGID) \<and>
        (off_cred b \<noteq> 0 \<longrightarrow> off_cred b = offs FIELD_TASK_CRED) \<and> (off_mm b \<noteq> 0 \<longrightarrow> off_mm b = offs FIELD_TASK_MM)) \<and>
     (\<forall>i \<in> set task_fields. offsetof i = offs i)"

definition fields_partly :: "(rs_field_id \<Rightarrow> nat) \<Rightarrow> rs_fields \<Rightarrow> bool" where
  "fields_partly offs F \<longleftrightarrow> (\<forall>i. fo_valid (F i) \<longrightarrow> F i = \<lparr>fo_offset = offs i, fo_valid = True\<rparr>)"

lemma fields_partly_upd: "fields_partly offs F \<Longrightarrow> o' = offs i \<Longrightarrow> fields_partly offs (F(i := \<lparr>fo_offset = o', fo_valid = True\<rparr>))"
  by (simp add: fields_partly_def)

lemma fields_partly_btf:
  "fields_partly offs F \<Longrightarrow> sources_ok offs btf boot offsetof \<Longrightarrow> fields_partly offs (fold (rs_field_resolve_btf btf) is F)"
proof (induction "is" arbitrary: F)
  case (Cons i "is")
  have "fields_partly offs (rs_field_resolve_btf btf i F)"
  proof (cases "btf i")
    case (Some b)
    then have "b = 8 * offs i" using Cons.prems(2) unfolding sources_ok_def by blast
    then have "b div 8 = offs i" by simp
    with Some show ?thesis using fields_partly_upd [OF Cons.prems(1), of _ i] by (simp add: rs_field_resolve_btf_def)
  qed (use Cons.prems in \<open>simp add: rs_field_resolve_btf_def\<close>)
  then show ?case using Cons.IH Cons.prems(2) by simp
qed simp

lemma fields_partly_anchor:
  "fields_partly offs F \<Longrightarrow> sources_ok offs btf boot offsetof \<Longrightarrow> fields_partly offs (rs_task_anchor_offs boot F)"
  by (cases boot) (auto simp: rs_task_anchor_offs_def sources_ok_def Let_def intro!: fields_partly_upd)

lemma compile_valid: "fo_valid (fold (rs_task_compile offsetof) is F i) \<longleftrightarrow> fo_valid (F i) \<or> i \<in> set is"
  by (induction "is" arbitrary: F) (auto simp: rs_task_compile_def)

lemma fields_partly_compile:
  "fields_partly offs F \<Longrightarrow> sources_ok offs btf boot offsetof \<Longrightarrow> set is \<subseteq> set task_fields \<Longrightarrow>
     fields_partly offs (fold (rs_task_compile offsetof) is F)"
proof (induction "is" arbitrary: F)
  case (Cons i "is")
  have "fields_partly offs (rs_task_compile offsetof i F)"
    using Cons.prems fields_partly_upd [of offs F _ i] by (auto simp: rs_task_compile_def sources_ok_def)
  then show ?case using Cons.IH Cons.prems(2,3) by simp
qed simp

text \<open>
  The shim's initialisation always finds the fields of a task, in the worst case from the headers, so that its last check never fails; and it finds
  them where they are, if the sources are right.
\<close>

lemma rs_shim_init_fields_ok:
  assumes "sources_ok offs btf boot offsetof"
  shows "\<exists>F. rs_shim_init_fields btf boot offsetof rs_fields_start = (0, F) \<and> fields_ok offs F"
proof -
  let ?F = "rs_task_anchor_offs boot (fold (rs_field_resolve_btf btf)
    [FIELD_TASK_PID, FIELD_TASK_TGID, FIELD_TASK_GROUP_LEADER, FIELD_TASK_MM, FIELD_TASK_POLICY, FIELD_TASK_NORMAL_PRIO, FIELD_TASK_CRED,
     FIELD_PAGE_NID] rs_fields_start)"
  let ?G = "fold (rs_task_compile offsetof) task_fields ?F"
  have start: "fields_partly offs rs_fields_start" by (simp add: fields_partly_def rs_fields_start_def)
  have partly: "fields_partly offs ?G"
    by (rule fields_partly_compile [OF fields_partly_anchor [OF fields_partly_btf [OF start assms] assms] assms order.refl])
  have valid: "fo_valid (?G i)" if "i \<in> set task_fields" for i using compile_valid that by blast
  have "fields_ok offs ?G" using partly valid by (simp add: fields_ok_def fields_partly_def)
  moreover have "rs_shim_init_fields btf boot offsetof rs_fields_start = (0, ?G)"
    using valid by (simp add: rs_shim_init_fields_def rs_task_compile_offs_def task_fields_def [symmetric] Let_def del: fold_simps)
      (simp add: task_fields_def)
  ultimately show ?thesis by blast
qed

section \<open>Contract\<close>

datatype task_object = Obj_Task | Obj_Ns | Obj_Cred

record task_view =
  tv_own :: "task_object \<Rightarrow> addr \<Rightarrow> nat"
  tv_kern :: "task_object \<Rightarrow> addr \<Rightarrow> nat"
  tv_field :: "addr \<Rightarrow> rs_field_id \<Rightarrow> int"
  tv_ns :: "addr \<Rightarrow> addr"

definition obj_alive :: "task_view \<Rightarrow> task_object \<Rightarrow> addr \<Rightarrow> bool" where
  "obj_alive v k p \<longleftrightarrow> 0 < tv_own v k p \<or> 0 < tv_kern v k p"

definition own_add :: "task_object \<Rightarrow> addr \<Rightarrow> (task_object \<Rightarrow> addr \<Rightarrow> nat) \<Rightarrow> task_object \<Rightarrow> addr \<Rightarrow> nat" where
  "own_add k p f = f(k := (f k)(p := f k p + 1))"

definition own_sub :: "task_object \<Rightarrow> addr \<Rightarrow> (task_object \<Rightarrow> addr \<Rightarrow> nat) \<Rightarrow> task_object \<Rightarrow> addr \<Rightarrow> nat" where
  "own_sub k p f = f(k := (f k)(p := f k p - 1))"

fun obj_inc_ref :: "'s c_task \<Rightarrow> task_object \<Rightarrow> addr \<Rightarrow> 's \<Rightarrow> 's exec" where
  "obj_inc_ref K Obj_Task p s = task_inc_ref K p s"
| "obj_inc_ref K Obj_Ns p s = pid_ns_inc_ref K p s"
| "obj_inc_ref K Obj_Cred p s = cred_inc_ref K p s"

fun obj_dec_ref :: "'s c_task \<Rightarrow> task_object \<Rightarrow> addr \<Rightarrow> 's \<Rightarrow> 's exec" where
  "obj_dec_ref K Obj_Task p s = task_dec_ref K p s"
| "obj_dec_ref K Obj_Ns p s = pid_ns_dec_ref K p s"
| "obj_dec_ref K Obj_Cred p s = cred_dec_ref K p s"

text \<open>
  Taking a reference needs a live object, giving one back a reference of the crate. Dropping the last one may make the kernel drop references of its
  own. A live task can be asked anything.
\<close>

locale c_task_api =
  fixes K :: "'s c_task" and view :: "'s \<Rightarrow> task_view" and offs :: "rs_field_id \<Rightarrow> nat"
  assumes get_law: "obj_alive (view s) k p \<Longrightarrow> \<exists>s'. obj_inc_ref K k p s = Inr s' \<and> tv_own (view s') = own_add k p (tv_own (view s))"
    and put_law: "0 < tv_own (view s) k p \<Longrightarrow> \<exists>s'. obj_dec_ref K k p s = Inr s' \<and> tv_own (view s') = own_sub k p (tv_own (view s))"
    and load_law: "obj_alive (view s) Obj_Task t \<Longrightarrow> ct_load K s (t + offs i) = Inr (tv_field (view s) t i)"
    and leader_law: "obj_alive (view s) Obj_Task t \<Longrightarrow>
      0 < tv_field (view s) t FIELD_TASK_GROUP_LEADER \<and> obj_alive (view s) Obj_Task (nat (tv_field (view s) t FIELD_TASK_GROUP_LEADER))"
    and ns_law: "obj_alive (view s) Obj_Task t \<Longrightarrow>
      ct_task_active_pid_ns K s t = Inr (tv_ns (view s) t) \<and> (tv_ns (view s) t \<noteq> 0 \<longrightarrow> obj_alive (view s) Obj_Ns (tv_ns (view s) t))"
    and current_law: "ct_get_current K s \<noteq> 0 \<and> obj_alive (view s) Obj_Task (ct_get_current K s)"
    and read_law: "obj_alive (view s) Obj_Task t \<Longrightarrow>
      (\<exists>a b c r. ct_task_uid K s t = Inr a \<and> ct_task_euid K s t = Inr b \<and> ct_signal_pending K s t = Inr c \<and> ct_task_rlimit K s t l = Inr r)"
    and call_law: "obj_alive (view s) Obj_Task t \<Longrightarrow>
      (\<exists>s1 s2 s3. ct_wake_up_process K s t = Inr s1 \<and> ct_sched_setscheduler_nocheck K s t m n = Inr s2 \<and> ct_set_user_nice K s t n = Inr s3 \<and>
         tv_own (view s1) = tv_own (view s) \<and> tv_own (view s2) = tv_own (view s) \<and> tv_own (view s3) = tv_own (view s))"
begin

lemma leader_ok:
  assumes "fields_ok offs F" "obj_alive (view s) Obj_Task t"
  shows "\<exists>l. group_leader F K t s = Inr l \<and> obj_alive (view s) Obj_Task l"
proof -
  have "F FIELD_TASK_GROUP_LEADER = \<lparr>fo_offset = offs FIELD_TASK_GROUP_LEADER, fo_valid = True\<rparr>"
    using assms(1) by (simp add: fields_ok_def task_fields_def)
  then show ?thesis
    using load_law [OF assms(2)] leader_law [OF assms(2)] by (simp add: group_leader_def rs_task_group_leader_def)
qed

lemma get_pid_ns_ok:
  assumes "obj_alive (view s) Obj_Task t"
  shows "\<exists>s'. get_pid_ns K t s = Inr (if tv_ns (view s) t = 0 then None else Some (tv_ns (view s) t), s') \<and>
    tv_own (view s') = (if tv_ns (view s) t = 0 then tv_own (view s) else own_add Obj_Ns (tv_ns (view s) t) (tv_own (view s)))"
  using ns_law [OF assms] get_law [of s Obj_Ns "tv_ns (view s) t"]
  by (auto simp: get_pid_ns_def helper_task_get_pid_ns_def aref_from_raw_def pid_ns_inc_ref_def)

lemma field_reads:
  assumes "fields_ok offs F" "obj_alive (view s) Obj_Task t"
  shows "task_pid F K t s = Inr (tv_field (view s) t FIELD_TASK_PID)"
    and "task_policy F K t s = Inr (word_of_int (tv_field (view s) t FIELD_TASK_POLICY))"
    and "normal_prio F K t s = Inr (tv_field (view s) t FIELD_TASK_NORMAL_PRIO)"
  using assms(1) load_law [OF assms(2)]
  by (simp_all add: task_pid_def rs_task_pid_def task_policy_def rs_task_policy_def normal_prio_def rs_task_normal_prio_def fields_ok_def task_fields_def)

end

sublocale c_task_api \<subseteq> counted: always_ref_counted "obj_inc_ref K k p" "obj_dec_ref K k p" "\<lambda>s. tv_own (view s) k p"
  "\<lambda>s. 0 < tv_own (view s) k p" "\<lambda>_. True" for k p
proof
  show "\<exists>s'. obj_inc_ref K k p s = Inr s' \<and> 0 < tv_own (view s') k p \<and> tv_own (view s') k p = Suc (tv_own (view s) k p)"
    if "0 < tv_own (view s) k p" for s
    using get_law [of s k p] that by (auto simp: obj_alive_def own_add_def)
  show "\<exists>s'. obj_dec_ref K k p s = Inr s' \<and> tv_own (view s') k p = tv_own (view s) k p - 1 \<and> (1 < tv_own (view s) k p \<longrightarrow> 0 < tv_own (view s') k p)"
    if "0 < tv_own (view s) k p" for s
    using put_law [of s k p] that by (auto simp: own_sub_def)
qed

section \<open>Programs\<close>

text \<open>
  A program holds references to tasks, namespaces and credentials. It takes them from the current task, from a task's group leader, from a
  task's namespace or from a reference it has, and drops them; calls on a task may change the kernel's state, and so may others.
\<close>

record 's task_world =
  tw_kernel :: 's
  tw_handles :: "(task_object \<times> addr) multiset"

inductive task_step :: "rs_fields \<Rightarrow> 's c_task \<Rightarrow> ('s \<Rightarrow> task_view) \<Rightarrow> 's task_world \<Rightarrow> 's task_world \<Rightarrow> bool" for F K view where
  tst_current: "task_current K (tw_kernel w) = Inr t \<Longrightarrow> aref_from_ref (task_inc_ref K t) (tw_kernel w) = Inr s \<Longrightarrow>
    task_step F K view w (w\<lparr>tw_kernel := s, tw_handles := add_mset (Obj_Task, t) (tw_handles w)\<rparr>)"
| tst_leader: "(Obj_Task, t) \<in># tw_handles w \<Longrightarrow> group_leader F K t (tw_kernel w) = Inr l \<Longrightarrow>
    aref_from_ref (task_inc_ref K l) (tw_kernel w) = Inr s \<Longrightarrow>
    task_step F K view w (w\<lparr>tw_kernel := s, tw_handles := add_mset (Obj_Task, l) (tw_handles w)\<rparr>)"
| tst_get_ns: "(Obj_Task, t) \<in># tw_handles w \<Longrightarrow> get_pid_ns K t (tw_kernel w) = Inr (Some p, s) \<Longrightarrow>
    task_step F K view w (w\<lparr>tw_kernel := s, tw_handles := add_mset (Obj_Ns, p) (tw_handles w)\<rparr>)"
| tst_get_ns_none: "(Obj_Task, t) \<in># tw_handles w \<Longrightarrow> get_pid_ns K t (tw_kernel w) = Inr (None, s) \<Longrightarrow>
    task_step F K view w (w\<lparr>tw_kernel := s\<rparr>)"
| tst_active_ns: "task_current K (tw_kernel w) = Inr t \<Longrightarrow> active_pid_ns K t (tw_kernel w) = Inr (Some p) \<Longrightarrow>
    aref_from_ref (pid_ns_inc_ref K p) (tw_kernel w) = Inr s \<Longrightarrow>
    task_step F K view w (w\<lparr>tw_kernel := s, tw_handles := add_mset (Obj_Ns, p) (tw_handles w)\<rparr>)"
| tst_lent: "0 < tv_kern (view (tw_kernel w)) k p \<Longrightarrow> aref_from_ref (obj_inc_ref K k p) (tw_kernel w) = Inr s \<Longrightarrow>
    task_step F K view w (w\<lparr>tw_kernel := s, tw_handles := add_mset (k, p) (tw_handles w)\<rparr>)"
| tst_clone: "(k, p) \<in># tw_handles w \<Longrightarrow> aref_clone (obj_inc_ref K k p) (tw_kernel w) = Inr s \<Longrightarrow>
    task_step F K view w (w\<lparr>tw_kernel := s, tw_handles := add_mset (k, p) (tw_handles w)\<rparr>)"
| tst_drop: "(k, p) \<in># tw_handles w \<Longrightarrow> aref_drop (obj_dec_ref K k p) (tw_kernel w) = Inr s \<Longrightarrow>
    task_step F K view w (w\<lparr>tw_kernel := s, tw_handles := tw_handles w - {#(k, p)#}\<rparr>)"
| tst_wake: "(Obj_Task, t) \<in># tw_handles w \<Longrightarrow> wake_up K t (tw_kernel w) = Inr s \<Longrightarrow> task_step F K view w (w\<lparr>tw_kernel := s\<rparr>)"
| tst_sched: "(Obj_Task, t) \<in># tw_handles w \<Longrightarrow> sched_setscheduler_nocheck K t policy prio reset (tw_kernel w) = Inr s \<Longrightarrow>
    task_step F K view w (w\<lparr>tw_kernel := s\<rparr>)"
| tst_nice: "(Obj_Task, t) \<in># tw_handles w \<Longrightarrow> set_user_nice K t n (tw_kernel w) = Inr s \<Longrightarrow> task_step F K view w (w\<lparr>tw_kernel := s\<rparr>)"
| tst_other: "tv_own (view s) = tv_own (view (tw_kernel w)) \<Longrightarrow> task_step F K view w (w\<lparr>tw_kernel := s\<rparr>)"

inductive task_reach :: "rs_fields \<Rightarrow> 's c_task \<Rightarrow> ('s \<Rightarrow> task_view) \<Rightarrow> 's task_world \<Rightarrow> bool" for F K view where
  trc_start: "tv_own (view s) = (\<lambda>_ _. 0) \<Longrightarrow> task_reach F K view \<lparr>tw_kernel = s, tw_handles = {#}\<rparr>"
| trc_step: "task_reach F K view w \<Longrightarrow> task_step F K view w w' \<Longrightarrow> task_reach F K view w'"

definition task_books :: "('s \<Rightarrow> task_view) \<Rightarrow> 's task_world \<Rightarrow> bool" where
  "task_books view w \<longleftrightarrow> tv_own (view (tw_kernel w)) = (\<lambda>k p. count (tw_handles w) (k, p))"

lemma own_add_count: "own_add k p (\<lambda>k p. count H (k, p)) = (\<lambda>k' p'. count (add_mset (k, p) H) (k', p'))"
  by (auto simp: own_add_def fun_eq_iff)

lemma own_sub_count: "own_sub k p (\<lambda>k p. count H (k, p)) = (\<lambda>k' p'. count (H - {#(k, p)#}) (k', p'))"
  by (auto simp: own_sub_def fun_eq_iff)

lemma task_books_alive: "task_books view w \<Longrightarrow> (k, p) \<in># tw_handles w \<Longrightarrow> 0 < tv_own (view (tw_kernel w)) k p"
  by (simp add: task_books_def)

context c_task_api
begin

lemma task_books_get:
  assumes "task_books view w" "obj_alive (view (tw_kernel w)) k p" "obj_inc_ref K k p (tw_kernel w) = Inr s"
  shows "task_books view (w\<lparr>tw_kernel := s, tw_handles := add_mset (k, p) (tw_handles w)\<rparr>)"
  using get_law [OF assms(2)] assms(1,3) by (simp add: task_books_def own_add_count)

lemma held_alive: "task_books view w \<Longrightarrow> (k, p) \<in># tw_handles w \<Longrightarrow> obj_alive (view (tw_kernel w)) k p"
  by (simp add: obj_alive_def task_books_alive)

lemma task_books_same: "task_books view w \<Longrightarrow> tv_own (view s) = tv_own (view (tw_kernel w)) \<Longrightarrow> task_books view (w\<lparr>tw_kernel := s\<rparr>)"
  by (simp add: task_books_def)

lemma current_alive: "task_current K s = Inr t \<Longrightarrow> obj_alive (view s) Obj_Task t"
  using current_law [of s] by (auto simp: task_current_def task_current_raw_def)

lemma task_books_step:
  assumes "fields_ok offs F" "task_books view w" "task_step F K view w w'"
  shows "task_books view w'"
  using assms(3)
proof cases
  case (tst_current t s)
  then show ?thesis using task_books_get [OF assms(2) current_alive [OF tst_current(2)], of s] by (simp add: aref_from_ref_def)
next
  case (tst_leader t l s)
  have "obj_alive (view (tw_kernel w)) Obj_Task l"
    using leader_ok [OF assms(1) held_alive [OF assms(2) tst_leader(2)]] tst_leader(3) by auto
  then show ?thesis using task_books_get [OF assms(2), of Obj_Task l s] tst_leader(1,4) by (simp add: aref_from_ref_def)
next
  case (tst_get_ns t p s)
  then show ?thesis using get_pid_ns_ok [OF held_alive [OF assms(2) tst_get_ns(2)]] assms(2)
    by (auto simp: task_books_def own_add_count split: if_splits)
next
  case (tst_get_ns_none t s)
  then show ?thesis using get_pid_ns_ok [OF held_alive [OF assms(2) tst_get_ns_none(2)]] task_books_same [OF assms(2), of s]
    by (auto split: if_splits)
next
  case (tst_active_ns t p s)
  have "obj_alive (view (tw_kernel w)) Obj_Ns p"
    using ns_law [OF current_alive [OF tst_active_ns(2)]] tst_active_ns(3) by (auto simp: active_pid_ns_def split: if_splits)
  then show ?thesis using task_books_get [OF assms(2), of Obj_Ns p s] tst_active_ns(1,4) by (simp add: aref_from_ref_def)
next
  case (tst_lent k p s)
  then show ?thesis using task_books_get [OF assms(2), of k p s] by (simp add: aref_from_ref_def obj_alive_def)
next
  case (tst_clone k p s)
  then show ?thesis using task_books_get [OF assms(2) held_alive [OF assms(2) tst_clone(2)], of s] by (simp add: aref_clone_def)
next
  case (tst_drop k p s)
  then show ?thesis using put_law [OF task_books_alive [OF assms(2) tst_drop(2)]] assms(2)
    by (simp add: task_books_def own_sub_count aref_drop_def)
next
  case (tst_wake t s)
  then show ?thesis using call_law [OF held_alive [OF assms(2) tst_wake(2)]] task_books_same [OF assms(2), of s] by (auto simp: wake_up_def)
next
  case (tst_sched t policy prio reset s)
  then show ?thesis
    using call_law [OF held_alive [OF assms(2) tst_sched(2)], of "if reset then or policy SCHED_RESET_ON_FORK else policy" prio]
      task_books_same [OF assms(2), of s]
    by (auto simp: sched_setscheduler_nocheck_def Let_def)
next
  case (tst_nice t n s)
  then show ?thesis using call_law [OF held_alive [OF assms(2) tst_nice(2)], of 0 n] task_books_same [OF assms(2), of s]
    by (auto simp: set_user_nice_def)
next
  case (tst_other s)
  then show ?thesis using task_books_same [OF assms(2), of s] by simp
qed

lemma task_books_reach: "task_reach F K view w \<Longrightarrow> fields_ok offs F \<Longrightarrow> task_books view w"
proof (induction rule: task_reach.induct)
  case (trc_start s)
  then show ?case by (simp add: task_books_def)
next
  case (trc_step w w')
  then show ?case using task_books_step by blast
qed

lemma held_ops:
  assumes "fields_ok offs F" "task_books view w" "(Obj_Task, t) \<in># tw_handles w"
  shows "(\<exists>pid. task_pid F K t (tw_kernel w) = Inr pid) \<and> (\<exists>u. task_euid K t (tw_kernel w) = Inr u) \<and>
    (\<exists>b. signal_pending K t (tw_kernel w) = Inr b) \<and> (\<exists>r s. get_pid_ns K t (tw_kernel w) = Inr (r, s)) \<and>
    (\<exists>l. group_leader F K t (tw_kernel w) = Inr l \<and> obj_alive (view (tw_kernel w)) Obj_Task l)"
  using held_alive [OF assms(2,3)] field_reads(1) [OF assms(1)] leader_ok [OF assms(1)] get_pid_ns_ok read_law
  by (fastforce simp: task_euid_def signal_pending_def)

lemma held_drop:
  assumes "task_books view w" "(k, p) \<in># tw_handles w"
  shows "\<exists>s. aref_drop (obj_dec_ref K k p) (tw_kernel w) = Inr s"
  using put_law [OF task_books_alive [OF assms]] by (auto simp: aref_drop_def)

end


section \<open>Instance\<close>

text \<open>A kernel with one task, its own leader, that never goes; a state is the number of references of the crate.\<close>

definition demo_task_view :: "(task_object \<Rightarrow> addr \<Rightarrow> nat) \<Rightarrow> task_view" where
  "demo_task_view own = \<lparr>tv_own = own, tv_kern = (\<lambda>k p. if k = Obj_Task \<and> p = 64 then 1 else 0), tv_field = (\<lambda>_ _. 64), tv_ns = (\<lambda>_. 0)\<rparr>"

definition demo_task :: "(task_object \<Rightarrow> addr \<Rightarrow> nat) c_task" where
  "demo_task = \<lparr>ct_load = (\<lambda>s a. Inr 64), ct_get_current = (\<lambda>s. 64), ct_task_uid = (\<lambda>s t. Inr 0), ct_task_euid = (\<lambda>s t. Inr 0),
     ct_signal_pending = (\<lambda>s t. Inr 0), ct_task_active_pid_ns = (\<lambda>s t. Inr 0), ct_task_tgid_nr_ns = (\<lambda>s t n. Inr 0),
     ct_wake_up_process = (\<lambda>s t. Inr s), ct_has_capability_noaudit = (\<lambda>s t c. Inr False), ct_task_rlimit = (\<lambda>s t l. Inr 0),
     ct_sched_setscheduler_nocheck = (\<lambda>s t p n. Inr s), ct_set_user_nice = (\<lambda>s t n. Inr s),
     ct_get_task_struct = (\<lambda>s p. Inr (own_add Obj_Task p s)), ct_put_task_struct = (\<lambda>s p. Inr (own_sub Obj_Task p s)),
     ct_get_pid_ns = (\<lambda>s p. Inr (own_add Obj_Ns p s)), ct_put_pid_ns = (\<lambda>s p. Inr (own_sub Obj_Ns p s)),
     ct_get_cred = (\<lambda>s p. Inr (own_add Obj_Cred p s)), ct_put_cred = (\<lambda>s p. Inr (own_sub Obj_Cred p s)),
     ct_cred_euid = (\<lambda>s p. Inr 0), ct_security_cred_getsecid = (\<lambda>s p. Inr 0), ct_current_euid = (\<lambda>s. 0), ct_from_kuid = (\<lambda>s n u. u),
     ct_current_user_ns = (\<lambda>s. 8)\<rparr>"

lemma demo_task_refs: "obj_inc_ref demo_task k p s = Inr (own_add k p s)" "obj_dec_ref demo_task k p s = Inr (own_sub k p s)"
  by (cases k; simp add: demo_task_def task_inc_ref_def task_dec_ref_def pid_ns_inc_ref_def pid_ns_dec_ref_def cred_inc_ref_def cred_dec_ref_def)+

interpretation demo_task: c_task_api demo_task demo_task_view "\<lambda>_. 0"
  by unfold_locales (simp_all add: demo_task_refs, simp_all add: demo_task_view_def demo_task_def obj_alive_def)





section \<open>Priorities\<close>

text \<open>The kernel's documented inverse: a nice value from 19 to - 20 is a limit from 1 to 40.\<close>

lemma rlimit_nice_range:
  assumes "ct_task_rlimit K s t RLIMIT_NICE = Inr r" "1 \<le> uint r" "uint r \<le> 40"
  shows "\<exists>n. rlimit_nice K t s = Inr n \<and> - 20 \<le> n \<and> n \<le> 19 \<and> uint r = 20 - n"
proof -
  have "as_i32 (uint r) = uint r" using assms(2,3) by (simp add: as_i32_def signed_take_bit_int_eq_self)
  then show ?thesis using assms by (simp add: rlimit_nice_def i32_exec_def MAX_NICE_def)
qed

text \<open>Without a limit, the result is outside the range.\<close>

lemma rlimit_nice_unlimited: "ct_task_rlimit K s t RLIMIT_NICE = Inr (- 1) \<Longrightarrow> rlimit_nice K t s = Inr 21"
proof -
  have "as_i32 (uint (- 1 :: u64)) = - 1" unfolding as_i32_def by code_simp
  then show "ct_task_rlimit K s t RLIMIT_NICE = Inr (- 1) \<Longrightarrow> rlimit_nice K t s = Inr 21"
    by (simp add: rlimit_nice_def i32_exec_def MAX_NICE_def)
qed

lemma sched_reset_flag:
  assumes "0 \<le> policy" "policy < 2 ^ 30"
  shows "sched_setscheduler_nocheck K t policy prio True s = ct_sched_setscheduler_nocheck K s t (policy + SCHED_RESET_ON_FORK) prio"
proof -
  have "take_bit 30 policy = policy" using assms by (simp add: take_bit_int_eq_self)
  then have "\<not> bit policy 30" by (metis bit_take_bit_iff less_irrefl)
  then have "and policy (2 ^ 30) = 0" by (simp only: and_exp_eq_0_iff_not_bit not_False_eq_True)
  from disjunctive_add_eq_or [OF this] have "or policy (2 ^ 30) = policy + 2 ^ 30" by simp
  then show ?thesis by (simp add: sched_setscheduler_nocheck_def SCHED_RESET_ON_FORK_def)
qed

lemma kuid_raw_roundtrip: "kuid_into_raw (kuid_from_raw k) = k"
  by (simp add: kuid_into_raw_def kuid_from_raw_def)

lemma kuid_eq_iff: "(\<And>a b. uid_eq a b \<longleftrightarrow> a = b) \<Longrightarrow> kuid_eq uid_eq x y \<longleftrightarrow> x = y"
  by (cases x; cases y) (simp add: kuid_eq_def)

end
