(* ===== verification/Kernel_Security.thy ===== *)
theory Kernel_Security
  imports Kernel_Error "HOL-Library.Multiset"
begin

text \<open>
  \<open>rust/src/security.rs\<close>: the hooks of the security module for binder, and security contexts, which own a buffer of the security module.

  The security module is the parameter \<open>c_security\<close>. Its contract is stated over its buffers, by address: a context that it gives out is a new
  buffer of the length that it says, or null with length zero, and a buffer is released with its address and length.
\<close>

section \<open>Hooks and contexts\<close>

record 'k c_security =
  sc_binder_set_context_mgr :: "addr \<Rightarrow> 'k \<Rightarrow> int"
  sc_binder_transaction :: "addr \<Rightarrow> addr \<Rightarrow> 'k \<Rightarrow> int"
  sc_binder_transfer_binder :: "addr \<Rightarrow> addr \<Rightarrow> 'k \<Rightarrow> int"
  sc_binder_transfer_file :: "addr \<Rightarrow> addr \<Rightarrow> addr \<Rightarrow> 'k \<Rightarrow> int"
  sc_secid_to_secctx :: "u32 \<Rightarrow> 'k \<Rightarrow> int \<times> addr \<times> u32 \<times> 'k"
  sc_release_secctx :: "addr \<Rightarrow> u32 \<Rightarrow> 'k \<Rightarrow> 'k exec"

definition binder_set_context_mgr :: "'k c_security \<Rightarrow> addr \<Rightarrow> 'k \<Rightarrow> (unit, error) result" where
  "binder_set_context_mgr C mgr k = to_result (sc_binder_set_context_mgr C mgr k)"

definition binder_transaction :: "'k c_security \<Rightarrow> addr \<Rightarrow> addr \<Rightarrow> 'k \<Rightarrow> (unit, error) result" where
  "binder_transaction C from to k = to_result (sc_binder_transaction C from to k)"

definition binder_transfer_binder :: "'k c_security \<Rightarrow> addr \<Rightarrow> addr \<Rightarrow> 'k \<Rightarrow> (unit, error) result" where
  "binder_transfer_binder C from to k = to_result (sc_binder_transfer_binder C from to k)"

definition binder_transfer_file :: "'k c_security \<Rightarrow> addr \<Rightarrow> addr \<Rightarrow> addr \<Rightarrow> 'k \<Rightarrow> (unit, error) result" where
  "binder_transfer_file C from to f k = to_result (sc_binder_transfer_file C from to f k)"

record security_ctx =
  sx_secdata :: addr
  sx_seclen :: usize

definition ctx_from_secid :: "'k c_security \<Rightarrow> u32 \<Rightarrow> 'k \<Rightarrow> (security_ctx, error) result \<times> 'k" where
  "ctx_from_secid C secid k =
     (let (ret, secdata, seclen, k) = sc_secid_to_secctx C secid k in
      case to_result ret of Err e \<Rightarrow> (Err e, k) | Ok _ \<Rightarrow> (Ok \<lparr>sx_secdata = secdata, sx_seclen = unat seclen\<rparr>, k))"

definition ctx_is_empty :: "security_ctx \<Rightarrow> bool" where
  "ctx_is_empty self \<longleftrightarrow> sx_seclen self = 0"

definition ctx_len :: "security_ctx \<Rightarrow> usize" where
  "ctx_len self = sx_seclen self"

text \<open>\<open>bufs\<close> are the buffers that exist; \<open>dbg\<close> is \<open>debug_assertions\<close>.\<close>

definition ctx_as_bytes :: "bool \<Rightarrow> (addr \<rightharpoonup> u8 list) \<Rightarrow> security_ctx \<Rightarrow> u8 list exec" where
  "ctx_as_bytes dbg bufs self =
     (let ptr = sx_secdata self in
      if ptr = 0 then exec_bind (require Panic (dbg \<longrightarrow> sx_seclen self = 0)) (\<lambda>_. Inr [])
      else case bufs ptr of
        Some bs \<Rightarrow> if sx_seclen self \<le> length bs then Inr (take (sx_seclen self) bs) else Inl UB
      | None \<Rightarrow> Inl UB)"

definition ctx_drop :: "'k c_security \<Rightarrow> security_ctx \<Rightarrow> 'k \<Rightarrow> 'k exec" where
  "ctx_drop C self k = sc_release_secctx C (sx_secdata self) (word_of_nat (sx_seclen self)) k"

section \<open>Contract\<close>

definition c_security_ok :: "'k c_security \<Rightarrow> ('k \<Rightarrow> addr \<rightharpoonup> u8 list) \<Rightarrow> bool" where
  "c_security_ok C bufs \<longleftrightarrow>
     (\<forall>secid k ret p n k'. sc_secid_to_secctx C secid k = (ret, p, n, k') \<longrightarrow>
        (if ret < 0 then bufs k' = bufs k
         else p = 0 \<and> n = 0 \<and> bufs k' = bufs k \<or>
              p \<noteq> 0 \<and> p \<notin> dom (bufs k) \<and> (\<exists>bs. length bs = unat n \<and> bufs k' = (bufs k)(p \<mapsto> bs)))) \<and>
     (\<forall>k. \<exists>k'. sc_release_secctx C 0 0 k = Inr k' \<and> bufs k' = bufs k) \<and>
     (\<forall>p n k bs. p \<noteq> 0 \<longrightarrow> bufs k p = Some bs \<longrightarrow> length bs = unat n \<longrightarrow>
        (\<exists>k'. sc_release_secctx C p n k = Inr k' \<and> bufs k' = (bufs k)(p := None)))"

lemma c_security_okD:
  assumes "c_security_ok C bufs"
  shows "sc_secid_to_secctx C secid k = (ret, p, n, k') \<Longrightarrow>
      (if ret < 0 then bufs k' = bufs k
       else p = 0 \<and> n = 0 \<and> bufs k' = bufs k \<or>
            p \<noteq> 0 \<and> p \<notin> dom (bufs k) \<and> (\<exists>bs. length bs = unat n \<and> bufs k' = (bufs k)(p \<mapsto> bs)))"
    and "\<exists>k'. sc_release_secctx C 0 0 k = Inr k' \<and> bufs k' = bufs k"
    and "p \<noteq> 0 \<Longrightarrow> bufs k p = Some bs \<Longrightarrow> length bs = unat n \<Longrightarrow> \<exists>k'. sc_release_secctx C p n k = Inr k' \<and> bufs k' = (bufs k)(p := None)"
  using assms unfolding c_security_ok_def by blast+

section \<open>Programs\<close>

record 'k sec_world =
  xw_kernel :: 'k
  xw_ctxs :: "security_ctx multiset"

text \<open>A program asks for contexts, which may fail, and drops those that it has, in any order.\<close>

inductive sec_step :: "'k c_security \<Rightarrow> 'k sec_world \<Rightarrow> 'k sec_world \<Rightarrow> bool" for C where
  ss_new: "ctx_from_secid C secid (xw_kernel w) = (Ok c, k) \<Longrightarrow> sec_step C w (w\<lparr>xw_kernel := k, xw_ctxs := add_mset c (xw_ctxs w)\<rparr>)"
| ss_fail: "ctx_from_secid C secid (xw_kernel w) = (Err e, k) \<Longrightarrow> sec_step C w (w\<lparr>xw_kernel := k\<rparr>)"
| ss_drop: "c \<in># xw_ctxs w \<Longrightarrow> ctx_drop C c (xw_kernel w) = Inr k \<Longrightarrow> sec_step C w (w\<lparr>xw_kernel := k, xw_ctxs := xw_ctxs w - {#c#}\<rparr>)"

inductive sec_reach :: "'k c_security \<Rightarrow> 'k \<Rightarrow> 'k sec_world \<Rightarrow> bool" for C k0 where
  sr_start: "sec_reach C k0 \<lparr>xw_kernel = k0, xw_ctxs = {#}\<rparr>"
| sr_step: "sec_reach C k0 w \<Longrightarrow> sec_step C w w' \<Longrightarrow> sec_reach C k0 w'"

text \<open>A context is null and empty, or has a buffer of its length. The buffers that are not older than the program are those of its contexts,
  and no two contexts share one.\<close>

definition ctx_ok :: "(addr \<rightharpoonup> u8 list) \<Rightarrow> security_ctx \<Rightarrow> bool" where
  "ctx_ok bufs c \<longleftrightarrow> sx_seclen c < 2 ^ 32 \<and>
     (if sx_secdata c = 0 then sx_seclen c = 0 else \<exists>bs. bufs (sx_secdata c) = Some bs \<and> length bs = sx_seclen c)"

definition ctx_pointers :: "security_ctx multiset \<Rightarrow> addr multiset" where
  "ctx_pointers cs = filter_mset (\<lambda>p. p \<noteq> 0) (image_mset sx_secdata cs)"

definition sec_inv :: "(addr \<rightharpoonup> u8 list) \<Rightarrow> (addr \<rightharpoonup> u8 list) \<Rightarrow> security_ctx multiset \<Rightarrow> bool" where
  "sec_inv old bufs cs \<longleftrightarrow>
     (\<forall>c \<in># cs. ctx_ok bufs c) \<and> old \<subseteq>\<^sub>m bufs \<and> finite (dom bufs - dom old) \<and>
     ctx_pointers cs = mset_set (dom bufs - dom old)"

lemma ctx_pointers_simps [simp]:
  "ctx_pointers {#} = {#}"
  "ctx_pointers (add_mset c cs) = (if sx_secdata c = 0 then ctx_pointers cs else add_mset (sx_secdata c) (ctx_pointers cs))"
  by (simp_all add: ctx_pointers_def)

lemma ctx_pointers_diff:
  "c \<in># cs \<Longrightarrow> ctx_pointers (cs - {#c#}) = (if sx_secdata c = 0 then ctx_pointers cs else ctx_pointers cs - {#sx_secdata c#})"
  by (auto dest!: multi_member_split)

lemma ctx_pointers_mem: "c \<in># cs \<Longrightarrow> sx_secdata c \<noteq> 0 \<Longrightarrow> sx_secdata c \<in># ctx_pointers cs"
  by (auto simp: ctx_pointers_def)

lemma ctx_ok_update: "ctx_ok bufs c \<Longrightarrow> p \<noteq> sx_secdata c \<or> p = 0 \<Longrightarrow> ctx_ok (bufs(p := x)) c"
  by (auto simp: ctx_ok_def split: if_splits)

lemma sec_inv_pointer:
  assumes "sec_inv old bufs cs" "c \<in># cs" "sx_secdata c \<noteq> 0"
  shows "sx_secdata c \<in> dom bufs" "sx_secdata c \<notin> dom old" "sx_secdata c \<notin># ctx_pointers (cs - {#c#})"
proof -
  have "sx_secdata c \<in># mset_set (dom bufs - dom old)"
    using assms ctx_pointers_mem[of c cs] by (auto simp: sec_inv_def)
  then show "sx_secdata c \<in> dom bufs" "sx_secdata c \<notin> dom old" using assms(1) by (auto simp: sec_inv_def)
  show "sx_secdata c \<notin># ctx_pointers (cs - {#c#})"
    using assms by (auto simp: sec_inv_def ctx_pointers_diff mset_set.remove in_diff_count count_mset_set')
qed

lemma sec_inv_new:
  assumes "sec_inv old bufs cs" "p \<noteq> 0" "p \<notin> dom bufs" "sx_secdata c = p" "length bs = sx_seclen c" "sx_seclen c < 2 ^ 32"
  shows "sec_inv old (bufs(p \<mapsto> bs)) (add_mset c cs)"
proof -
  have old: "p \<notin> dom old" using assms by (auto simp: sec_inv_def map_le_def dom_def)
  have d: "dom (bufs(p \<mapsto> bs)) - dom old = insert p (dom bufs - dom old)" using old by auto
  have "ctx_ok (bufs(p \<mapsto> bs)) c'" if "c' \<in># cs" for c'
    using assms(1) that sec_inv_pointer(1)[OF assms(1) that] assms(2,3)
    by (metis ctx_ok_update sec_inv_def)
  moreover have "ctx_ok (bufs(p \<mapsto> bs)) c" using assms by (simp add: ctx_ok_def)
  moreover have "old \<subseteq>\<^sub>m bufs(p \<mapsto> bs)" using assms(1) old by (auto simp: sec_inv_def map_le_def)
  ultimately show ?thesis using assms unfolding sec_inv_def d by auto
qed

lemma sec_inv_release:
  assumes "sec_inv old bufs cs" "c \<in># cs" "sx_secdata c \<noteq> 0"
  shows "sec_inv old (bufs(sx_secdata c := None)) (cs - {#c#})"
proof -
  let ?p = "sx_secdata c"
  note p = sec_inv_pointer[OF assms]
  have d: "dom (bufs(?p := None)) - dom old = dom bufs - dom old - {?p}" by auto
  have "ctx_ok (bufs(?p := None)) c'" if c': "c' \<in># cs - {#c#}" for c'
  proof (rule ctx_ok_update)
    show "ctx_ok bufs c'" using assms(1) c' by (meson in_diffD sec_inv_def)
    show "?p \<noteq> sx_secdata c' \<or> ?p = 0" using p(3) ctx_pointers_mem[OF c'] assms(3) by metis
  qed
  moreover have "old \<subseteq>\<^sub>m bufs(?p := None)" using assms(1) p(2) by (auto simp: sec_inv_def map_le_def)
  moreover have "ctx_pointers (cs - {#c#}) = mset_set (dom bufs - dom old - {?p})"
    using assms p by (auto simp: sec_inv_def ctx_pointers_diff mset_set.remove)
  ultimately show ?thesis using assms(1) unfolding sec_inv_def d by auto
qed

lemma sec_inv_null:
  assumes "sec_inv old bufs cs" "sx_secdata c = 0"
  shows "sx_seclen c = 0 \<Longrightarrow> sec_inv old bufs (add_mset c cs)" and "c \<in># cs \<Longrightarrow> sec_inv old bufs (cs - {#c#})"
  using assms by (auto simp: sec_inv_def ctx_ok_def ctx_pointers_diff dest: in_diffD)

lemma ctx_drop_ok:
  assumes "c_security_ok C bufs" "sec_inv old (bufs k) cs" "c \<in># cs"
  shows "\<exists>k'. ctx_drop C c k = Inr k' \<and> sec_inv old (bufs k') (cs - {#c#})"
proof (cases "sx_secdata c = 0")
  case True
  then have "sx_seclen c = 0" using assms by (auto simp: sec_inv_def ctx_ok_def)
  then show ?thesis using c_security_okD(2)[OF assms(1), of k] True sec_inv_null(2)[OF assms(2) True assms(3)]
    by (auto simp: ctx_drop_def)
next
  case False
  have "ctx_ok (bufs k) c" using assms(2,3) by (simp add: sec_inv_def)
  then obtain bs where bs: "bufs k (sx_secdata c) = Some bs" "length bs = sx_seclen c" "sx_seclen c < 2 ^ 32"
    using False by (auto simp: ctx_ok_def)
  then have "unat (word_of_nat (sx_seclen c) :: u32) = sx_seclen c" by (simp add: unat_of_nat take_bit_nat_eq_self)
  then show ?thesis
    using c_security_okD(3)[OF assms(1) False bs(1), of "word_of_nat (sx_seclen c)"] bs sec_inv_release[OF assms(2,3) False]
    by (auto simp: ctx_drop_def)
qed

lemma ctx_from_secid_ok:
  assumes "c_security_ok C bufs" "sec_inv old (bufs k) cs" "ctx_from_secid C secid k = (r, k')"
  shows "case r of Ok c \<Rightarrow> sec_inv old (bufs k') (add_mset c cs) | Err _ \<Rightarrow> sec_inv old (bufs k') cs"
proof -
  obtain ret p n k1 where c: "sc_secid_to_secctx C secid k = (ret, p, n, k1)" by (metis prod_cases4)
  note spec = c_security_okD(1)[OF assms(1) c]
  have len: "unat n < 2 ^ 32" using unsigned_less[of n] by simp
  show ?thesis
  proof (cases "ret < 0")
    case True
    then show ?thesis using spec assms(2,3) c by (auto simp: ctx_from_secid_def to_result_def)
  next
    case False
    let ?c = "\<lparr>sx_secdata = p, sx_seclen = unat n\<rparr>"
    have r: "r = Ok ?c" "k' = k1" using False assms(3) c by (auto simp: ctx_from_secid_def to_result_def)
    consider "p = 0" "n = 0" "bufs k1 = bufs k"
      | bs where "p \<noteq> 0" "p \<notin> dom (bufs k)" "length bs = unat n" "bufs k1 = (bufs k)(p \<mapsto> bs)"
      using spec False by auto
    then show ?thesis
    proof cases
      case 1
      then show ?thesis using r sec_inv_null(1)[OF assms(2), of ?c] by simp
    next
      case 2
      then show ?thesis using r sec_inv_new[OF assms(2), of p ?c bs] len by simp
    qed
  qed
qed

lemma sec_reach_inv:
  assumes "c_security_ok C bufs" "sec_reach C k0 w"
  shows "sec_inv (bufs k0) (bufs (xw_kernel w)) (xw_ctxs w)"
  using assms(2)
proof (induction rule: sec_reach.induct)
  case sr_start
  show ?case by (simp add: sec_inv_def)
next
  case (sr_step w w')
  from sr_step.hyps(2) sr_step.IH show ?case
  proof (cases rule: sec_step.cases)
    case (ss_new secid c k)
    then show ?thesis using ctx_from_secid_ok[OF assms(1) sr_step.IH ss_new(2)] by simp
  next
    case (ss_fail secid e k)
    then show ?thesis using ctx_from_secid_ok[OF assms(1) sr_step.IH ss_fail(2)] by simp
  next
    case (ss_drop c k)
    then show ?thesis using ctx_drop_ok[OF assms(1) sr_step.IH ss_drop(2)] by auto
  qed
qed

lemma ctx_as_bytes_ok:
  "ctx_ok bufs c \<Longrightarrow> \<exists>bs. ctx_as_bytes dbg bufs c = Inr bs \<and> length bs = ctx_len c \<and> (if sx_secdata c = 0 then bs = [] else bufs (sx_secdata c) = Some bs)"
  by (auto simp: ctx_ok_def ctx_as_bytes_def ctx_len_def Let_def split: if_splits)

lemma sec_inv_all_dropped:
  assumes "sec_inv old bufs {#}"
  shows "bufs = old"
proof -
  have "dom bufs \<subseteq> dom old" and le: "old \<subseteq>\<^sub>m bufs" using assms by (auto simp: sec_inv_def mset_set_empty_iff)
  then have "bufs p = old p" for p by (cases "p \<in> dom old") (force simp: map_le_def)+
  then show ?thesis by blast
qed

section \<open>Ownership of buffers\<close>

text \<open>
  C39: a security context owns its buffer. Whatever contexts a program has asked for and dropped, \<open>as_bytes\<close> of a context that it still has gives
  exactly the bytes of its buffer, or none for a null context, and \<open>len\<close> is their number; the drop does not fault; no two contexts share a buffer,
  the buffers that others had are untouched, and once every context is dropped, no buffer is left behind.
\<close>

theorem security_ctx_sound:
  assumes "c_security_ok C bufs" and "sec_reach C k0 w"
  shows "(\<forall>c \<in># xw_ctxs w.
            (\<exists>bs. ctx_as_bytes dbg (bufs (xw_kernel w)) c = Inr bs \<and> length bs = ctx_len c \<and>
               (if sx_secdata c = 0 then bs = [] else bufs (xw_kernel w) (sx_secdata c) = Some bs)) \<and>
            (\<exists>k. ctx_drop C c (xw_kernel w) = Inr k)) \<and>
         ctx_pointers (xw_ctxs w) = mset_set (dom (bufs (xw_kernel w)) - dom (bufs k0)) \<and>
         bufs k0 \<subseteq>\<^sub>m bufs (xw_kernel w) \<and>
         (xw_ctxs w = {#} \<longrightarrow> bufs (xw_kernel w) = bufs k0)"
proof -
  have inv: "sec_inv (bufs k0) (bufs (xw_kernel w)) (xw_ctxs w)" by (rule sec_reach_inv[OF assms])
  then have "\<exists>k. ctx_drop C c (xw_kernel w) = Inr k" if "c \<in># xw_ctxs w" for c
    using ctx_drop_ok[OF assms(1) inv that] by auto
  moreover have "ctx_ok (bufs (xw_kernel w)) c" if "c \<in># xw_ctxs w" for c
    using inv that by (simp add: sec_inv_def)
  ultimately show ?thesis using inv sec_inv_all_dropped ctx_as_bytes_ok[of "bufs (xw_kernel w)"] by (auto simp: sec_inv_def)
qed

text \<open>A security module whose buffers are numbered from one: identifier 0 has no context, 1 has one of three bytes, the others are refused.\<close>

definition demo_bufs :: "'a option list \<Rightarrow> addr \<rightharpoonup> 'a" where
  "demo_bufs k p = (if p = 0 \<or> length k < p then None else k ! (p - 1))"

definition demo_secid :: "u32 \<Rightarrow> u8 list option list \<Rightarrow> int \<times> addr \<times> u32 \<times> u8 list option list" where
  "demo_secid secid k =
     (if secid = 0 then (0, 0, 0, k) else if secid = 1 then (0, length k + 1, 3, k @ [Some [99, 116, 120]]) else (-22, 0, 0, k))"

definition demo_release :: "addr \<Rightarrow> u32 \<Rightarrow> u8 list option list \<Rightarrow> u8 list option list exec" where
  "demo_release p n k =
     (if p = 0 then Inr k else case demo_bufs k p of None \<Rightarrow> Inl UB | Some bs \<Rightarrow> if length bs = unat n then Inr (k[p - 1 := None]) else Inl UB)"

definition demo_security :: "u8 list option list c_security" where
  "demo_security = \<lparr>sc_binder_set_context_mgr = \<lambda>_ _. 0, sc_binder_transaction = \<lambda>_ _ _. -1, sc_binder_transfer_binder = \<lambda>_ _ _. 0,
     sc_binder_transfer_file = \<lambda>_ _ _ _. 0, sc_secid_to_secctx = demo_secid, sc_release_secctx = demo_release\<rparr>"

lemma demo_bufs_append: "demo_bufs (k @ [x]) = (demo_bufs k)(Suc (length k) := x)"
  by (rule ext) (auto simp: demo_bufs_def nth_append)

lemma demo_bufs_release: "demo_bufs k p = Some bs \<Longrightarrow> demo_bufs (k[p - Suc 0 := None]) = (demo_bufs k)(p := None)"
  by (rule ext) (auto simp: demo_bufs_def nth_list_update split: if_splits)

lemma demo_security_ok: "c_security_ok demo_security demo_bufs"
proof -
  have "demo_bufs k (Suc (length k)) = None" for k by (simp add: demo_bufs_def)
  then show ?thesis
    by (auto simp: c_security_ok_def demo_security_def demo_secid_def demo_release_def demo_bufs_append demo_bufs_release dom_def
        split: if_splits intro!: exI[of _ "[99, 116, 120]"])
qed

lemma demo_sec_reach:
  "sec_reach demo_security [Some [7]]
     \<lparr>xw_kernel = [Some [7], None, Some [99, 116, 120]], xw_ctxs = {#\<lparr>sx_secdata = 3, sx_seclen = 3\<rparr>, \<lparr>sx_secdata = 0, sx_seclen = 0\<rparr>#}\<rparr>"
proof -
  let ?a = "\<lparr>sx_secdata = 2, sx_seclen = 3\<rparr>" and ?b = "\<lparr>sx_secdata = 3, sx_seclen = 3\<rparr>" and ?n = "\<lparr>sx_secdata = 0, sx_seclen = 0\<rparr>"
  note demo = ctx_from_secid_def demo_security_def demo_secid_def to_result_def ctx_drop_def demo_release_def demo_bufs_def
  have "sec_reach demo_security [Some [7]] \<lparr>xw_kernel = [Some [7]], xw_ctxs = {#}\<rparr>" by (rule sr_start)
  then have "sec_reach demo_security [Some [7]] \<lparr>xw_kernel = [Some [7]], xw_ctxs = {#?n#}\<rparr>"
    by (rule sr_step) (rule ss_new[where secid = 0, THEN back_subst[of "sec_step _ _"]], simp_all add: demo)
  then have "sec_reach demo_security [Some [7]] \<lparr>xw_kernel = [Some [7], Some [99, 116, 120]], xw_ctxs = {#?a, ?n#}\<rparr>"
    by (rule sr_step) (rule ss_new[where secid = 1, THEN back_subst[of "sec_step _ _"]], simp_all add: demo)
  then have "sec_reach demo_security [Some [7]] \<lparr>xw_kernel = [Some [7], Some [99, 116, 120], Some [99, 116, 120]], xw_ctxs = {#?b, ?a, ?n#}\<rparr>"
    by (rule sr_step) (rule ss_new[where secid = 1, THEN back_subst[of "sec_step _ _"]], simp_all add: demo)
  then show ?thesis
    by (rule sr_step) (rule ss_drop[where c = ?a, THEN back_subst[of "sec_step _ _"]], simp_all add: demo)
qed

theorem security_ctx_sound_witness:
  "ctx_as_bytes True (demo_bufs [Some [7], None, Some [99, 116, 120]]) \<lparr>sx_secdata = 3, sx_seclen = 3\<rparr> = Inr [99, 116, 120] \<and>
   (\<exists>k. ctx_drop demo_security \<lparr>sx_secdata = 3, sx_seclen = 3\<rparr> [Some [7], None, Some [99, 116, 120]] = Inr k)"
  using security_ctx_sound[OF demo_security_ok demo_sec_reach, of True] by (auto simp: demo_bufs_def)

end
