(* ===== verification/Kernel_Poll.thy ===== *)
theory Kernel_Poll
  imports Kernel_Prelude
begin

text \<open>
  \<open>rust/src/sync/poll.rs\<close>: poll tables, and condition variables that can be polled.

  The wait queues and the read-copy-update of the kernel are the parameter \<open>c_poll\<close>. Whoever polls runs beside the program: a reader inside a
  read-side section may still use a wait queue from which its waiter is gone. What others may do is \<open>poll_env\<close>; it is stated over three views
  of the kernel's state: the wait queues of pollable condition variables that have waiters, the queue that each reader uses, and the
  readers that a grace period still waits for.
\<close>

section \<open>Poll tables and condition variables\<close>

record ('s, 't) c_poll =
  po_poll_wait :: "addr \<Rightarrow> addr \<Rightarrow> addr \<Rightarrow> 's \<Rightarrow> 's exec"
  po_wake_up_pollfree :: "addr \<Rightarrow> 's \<Rightarrow> 's exec"
  po_rcu_start :: "'s \<Rightarrow> 't \<times> 's"
  po_rcu_elapsed :: "'t \<Rightarrow> 's \<Rightarrow> bool"

record poll_table =
  pt_table :: addr

definition poll_table_from_raw :: "addr \<Rightarrow> poll_table" where
  "poll_table_from_raw table = \<lparr>pt_table = table\<rparr>"

text \<open>A condition variable is the address of its wait queue.\<close>

definition register_wait :: "('s, 't) c_poll \<Rightarrow> poll_table \<Rightarrow> addr \<Rightarrow> addr \<Rightarrow> 's \<Rightarrow> 's exec" where
  "register_wait C self f cv s = po_poll_wait C f cv (pt_table self) s"

text \<open>The drop can be interrupted between its calls and inside \<open>synchronize_rcu\<close>, which starts a grace period and returns when it has elapsed:
  \<open>poll_condvar_drop\<close> runs it up to the next such point, \<open>None\<close> being its end.\<close>

datatype 't drop_point = Drop_Clear | Drop_Sync | Drop_Wait 't

fun poll_condvar_drop :: "('s, 't) c_poll \<Rightarrow> addr \<Rightarrow> 't drop_point \<Rightarrow> 's \<Rightarrow> ('t drop_point option \<times> 's) exec" where
  "poll_condvar_drop C cv Drop_Clear s = exec_bind (po_wake_up_pollfree C cv s) (\<lambda>s. Inr (Some Drop_Sync, s))"
| "poll_condvar_drop C cv Drop_Sync s = (let (t, s) = po_rcu_start C s in Inr (Some (Drop_Wait t), s))"
| "poll_condvar_drop C cv (Drop_Wait t) s = Inr (if po_rcu_elapsed C t s then None else Some (Drop_Wait t), s)"

section \<open>Contract\<close>

record ('s, 't) poll_view =
  pv_waiters :: "'s \<Rightarrow> addr set"
  pv_readers :: "'s \<Rightarrow> nat \<rightharpoonup> addr"
  pv_awaited :: "'t \<Rightarrow> 's \<Rightarrow> nat set"

definition same_awaited :: "('s, 't) poll_view \<Rightarrow> 's \<Rightarrow> 's \<Rightarrow> bool" where
  "same_awaited V s s' \<longleftrightarrow>
     (\<forall>t r. r \<in> pv_awaited V t s \<longrightarrow> pv_readers V s r \<noteq> None \<longrightarrow> pv_readers V s' r = pv_readers V s r \<longrightarrow> r \<in> pv_awaited V t s')"

text \<open>Others remove waiters, leave read-side sections, and enter one to use a queue that has a waiter. A reader that has not left is still awaited.\<close>

definition poll_env :: "('s, 't) poll_view \<Rightarrow> 's \<Rightarrow> 's \<Rightarrow> bool" where
  "poll_env V s s' \<longleftrightarrow> pv_waiters V s' \<subseteq> pv_waiters V s \<and> same_awaited V s s' \<and>
     (\<forall>r h. pv_readers V s' r = Some h \<longrightarrow> pv_readers V s r = Some h \<or> h \<in> pv_waiters V s)"

text \<open>\<open>poll_wait\<close> adds waiters to the given queue only, and none for a null table. \<open>__wake_up_pollfree\<close> removes all. A grace period waits for the
  readers that are there when it starts, and every grace period ends.\<close>

definition c_poll_ok :: "('s, 't) c_poll \<Rightarrow> ('s, 't) poll_view \<Rightarrow> bool" where
  "c_poll_ok C V \<longleftrightarrow>
     (\<forall>f h t s. \<exists>s'. po_poll_wait C f h t s = Inr s' \<and> pv_readers V s' = pv_readers V s \<and> same_awaited V s s' \<and>
        pv_waiters V s' \<subseteq> (if t = 0 then pv_waiters V s else insert h (pv_waiters V s))) \<and>
     (\<forall>h s. \<exists>s'. po_wake_up_pollfree C h s = Inr s' \<and> pv_readers V s' = pv_readers V s \<and> same_awaited V s s' \<and>
        pv_waiters V s' = pv_waiters V s - {h}) \<and>
     (\<forall>s t s'. po_rcu_start C s = (t, s') \<longrightarrow> pv_readers V s' = pv_readers V s \<and> same_awaited V s s' \<and>
        pv_waiters V s' = pv_waiters V s \<and> dom (pv_readers V s) \<subseteq> pv_awaited V t s') \<and>
     (\<forall>t s. po_rcu_elapsed C t s \<longrightarrow> pv_awaited V t s \<inter> dom (pv_readers V s) = {}) \<and>
     (\<forall>t s. \<exists>s'. poll_env V s s' \<and> po_rcu_elapsed C t s')"

lemma c_poll_okD:
  assumes "c_poll_ok C V"
  shows poll_wait_law: "\<exists>s'. po_poll_wait C f h t s = Inr s' \<and> pv_readers V s' = pv_readers V s \<and> same_awaited V s s' \<and>
        pv_waiters V s' \<subseteq> (if t = 0 then pv_waiters V s else insert h (pv_waiters V s))"
    and pollfree_law: "\<exists>s'. po_wake_up_pollfree C h s = Inr s' \<and> pv_readers V s' = pv_readers V s \<and> same_awaited V s s' \<and>
        pv_waiters V s' = pv_waiters V s - {h}"
    and rcu_start_law: "po_rcu_start C s = (t', s') \<Longrightarrow> pv_readers V s' = pv_readers V s \<and> same_awaited V s s' \<and>
        pv_waiters V s' = pv_waiters V s \<and> dom (pv_readers V s) \<subseteq> pv_awaited V t' s'"
    and rcu_elapsed_law: "po_rcu_elapsed C t' s \<Longrightarrow> pv_awaited V t' s \<inter> dom (pv_readers V s) = {}"
    and rcu_ends_law: "\<exists>s'. poll_env V s s' \<and> po_rcu_elapsed C t' s'"
  using assms unfolding c_poll_ok_def by blast+

section \<open>Programs beside those who poll\<close>

datatype 't cv_phase = CV_Live | CV_Dropping "'t drop_point"

record ('s, 't) poll_world =
  pw_kernel :: 's
  pw_cvs :: "addr \<rightharpoonup> 't cv_phase"

text \<open>Once its drop is over, the memory of a condition variable is given back, and may be used for another.\<close>

inductive poll_step :: "('s, 't) c_poll \<Rightarrow> ('s, 't) poll_view \<Rightarrow> ('s, 't) poll_world \<Rightarrow> ('s, 't) poll_world \<Rightarrow> bool" for C V where
  pst_new: "pw_cvs w h = None \<Longrightarrow> poll_step C V w (w\<lparr>pw_cvs := (pw_cvs w)(h \<mapsto> CV_Live)\<rparr>)"
| pst_register: "pw_cvs w h = Some CV_Live \<Longrightarrow> register_wait C tab f h (pw_kernel w) = Inr s \<Longrightarrow> poll_step C V w (w\<lparr>pw_kernel := s\<rparr>)"
| pst_drop: "pw_cvs w h = Some CV_Live \<Longrightarrow> poll_step C V w (w\<lparr>pw_cvs := (pw_cvs w)(h \<mapsto> CV_Dropping Drop_Clear)\<rparr>)"
| pst_go_on: "pw_cvs w h = Some (CV_Dropping d) \<Longrightarrow> poll_condvar_drop C h d (pw_kernel w) = Inr (d', s) \<Longrightarrow>
    poll_step C V w (w\<lparr>pw_kernel := s, pw_cvs := (pw_cvs w)(h := map_option CV_Dropping d')\<rparr>)"
| pst_others: "poll_env V (pw_kernel w) s \<Longrightarrow> poll_step C V w (w\<lparr>pw_kernel := s\<rparr>)"

inductive poll_reach :: "('s, 't) c_poll \<Rightarrow> ('s, 't) poll_view \<Rightarrow> ('s, 't) poll_world \<Rightarrow> bool" for C V where
  prc_start: "pv_waiters V s = {} \<Longrightarrow> pv_readers V s = Map.empty \<Longrightarrow> poll_reach C V \<lparr>pw_kernel = s, pw_cvs = Map.empty\<rparr>"
| prc_step: "poll_reach C V w \<Longrightarrow> poll_step C V w w' \<Longrightarrow> poll_reach C V w'"

text \<open>A queue that has waiters is not cleared yet, and a reader whose queue belongs to a drop that waits is awaited by it.\<close>

fun reader_allowed :: "('s, 't) poll_view \<Rightarrow> 's \<Rightarrow> nat \<Rightarrow> 't cv_phase option \<Rightarrow> bool" where
  "reader_allowed V s r None = False"
| "reader_allowed V s r (Some (CV_Dropping (Drop_Wait t))) = (r \<in> pv_awaited V t s)"
| "reader_allowed V s r (Some _) = True"

definition poll_inv :: "('s, 't) poll_view \<Rightarrow> ('s, 't) poll_world \<Rightarrow> bool" where
  "poll_inv V w \<longleftrightarrow>
     (\<forall>h \<in> pv_waiters V (pw_kernel w). pw_cvs w h \<in> {Some CV_Live, Some (CV_Dropping Drop_Clear)}) \<and>
     (\<forall>r h. pv_readers V (pw_kernel w) r = Some h \<longrightarrow> reader_allowed V (pw_kernel w) r (pw_cvs w h))"

lemma reader_allowed_alive: "reader_allowed V s r p \<Longrightarrow> p \<noteq> None"
  by (cases p) auto

lemma reader_allowed_later:
  "reader_allowed V s r p \<Longrightarrow> same_awaited V s s' \<Longrightarrow> pv_readers V s r = Some h \<Longrightarrow> pv_readers V s' r = Some h \<Longrightarrow> reader_allowed V s' r p"
  by (induction V s r p rule: reader_allowed.induct) (auto simp: same_awaited_def)

lemma poll_inv_cvs:
  assumes "poll_inv V w" "\<And>r. reader_allowed V (pw_kernel w) r (pw_cvs w h) \<Longrightarrow> reader_allowed V (pw_kernel w) r p"
    "h \<in> pv_waiters V (pw_kernel w) \<Longrightarrow> p \<in> {Some CV_Live, Some (CV_Dropping Drop_Clear)}"
  shows "poll_inv V (w\<lparr>pw_cvs := (pw_cvs w)(h := p)\<rparr>)"
  using assms unfolding poll_inv_def by auto

lemma poll_inv_kernel:
  assumes "poll_inv V w" "same_awaited V (pw_kernel w) s"
    "\<And>h. h \<in> pv_waiters V s \<Longrightarrow> h \<in> pv_waiters V (pw_kernel w) \<or> pw_cvs w h = Some CV_Live"
    "\<And>r h. pv_readers V s r = Some h \<Longrightarrow> pv_readers V (pw_kernel w) r = Some h \<or> h \<in> pv_waiters V (pw_kernel w)"
  shows "poll_inv V (w\<lparr>pw_kernel := s\<rparr>)"
proof -
  have "reader_allowed V s r (pw_cvs w h)" if r: "pv_readers V s r = Some h" for r h
    using assms(4)[OF r]
  proof
    assume "pv_readers V (pw_kernel w) r = Some h"
    then show ?thesis using assms(1,2) r by (auto simp: poll_inv_def intro: reader_allowed_later)
  next
    assume "h \<in> pv_waiters V (pw_kernel w)"
    then have "pw_cvs w h \<in> {Some CV_Live, Some (CV_Dropping Drop_Clear)}" using assms(1) by (auto simp: poll_inv_def)
    then show ?thesis by auto
  qed
  then show ?thesis using assms(1,3) unfolding poll_inv_def by auto
qed

lemma poll_inv_drop:
  assumes "c_poll_ok C V" "poll_inv V w" "pw_cvs w h = Some (CV_Dropping d)"
  shows "\<exists>d' s. poll_condvar_drop C h d (pw_kernel w) = Inr (d', s) \<and>
    poll_inv V (w\<lparr>pw_kernel := s, pw_cvs := (pw_cvs w)(h := map_option CV_Dropping d')\<rparr>)"
proof (cases d)
  case Drop_Clear
  obtain s where s: "po_wake_up_pollfree C h (pw_kernel w) = Inr s" "pv_readers V s = pv_readers V (pw_kernel w)"
      "same_awaited V (pw_kernel w) s" "pv_waiters V s = pv_waiters V (pw_kernel w) - {h}"
    using pollfree_law[OF assms(1)] by blast
  have "poll_inv V (w\<lparr>pw_kernel := s\<rparr>)" by (rule poll_inv_kernel[OF assms(2) s(3)]) (auto simp: s)
  then have "poll_inv V (w\<lparr>pw_kernel := s\<rparr>\<lparr>pw_cvs := (pw_cvs (w\<lparr>pw_kernel := s\<rparr>))(h := Some (CV_Dropping Drop_Sync))\<rparr>)"
    by (rule poll_inv_cvs) (auto simp: s)
  then show ?thesis using s(1) Drop_Clear by simp
next
  case Drop_Sync
  obtain t s where t: "po_rcu_start C (pw_kernel w) = (t, s)" by fastforce
  then have s: "pv_readers V s = pv_readers V (pw_kernel w)" "same_awaited V (pw_kernel w) s" "pv_waiters V s = pv_waiters V (pw_kernel w)"
      "dom (pv_readers V (pw_kernel w)) \<subseteq> pv_awaited V t s"
    using rcu_start_law[OF assms(1)] by blast+
  have k: "poll_inv V (w\<lparr>pw_kernel := s\<rparr>)" by (rule poll_inv_kernel[OF assms(2) s(2)]) (auto simp: s)
  have "h \<notin> pv_waiters V s" using assms(2,3) Drop_Sync s(3) by (auto simp: poll_inv_def)
  then have "poll_inv V (w\<lparr>pw_kernel := s, pw_cvs := (pw_cvs w)(h \<mapsto> CV_Dropping (Drop_Wait t))\<rparr>)"
    using k s(1,4) unfolding poll_inv_def by auto
  then show ?thesis using t Drop_Sync by simp
next
  case (Drop_Wait t)
  let ?s = "pw_kernel w"
  have w: "h \<notin> pv_waiters V ?s" using assms(2,3) Drop_Wait by (auto simp: poll_inv_def)
  show ?thesis
  proof (cases "po_rcu_elapsed C t ?s")
    case True
    have "pv_readers V ?s r \<noteq> Some h" for r
      using rcu_elapsed_law[OF assms(1) True] assms(2,3) Drop_Wait by (fastforce simp: poll_inv_def)
    then have "poll_inv V (w\<lparr>pw_cvs := (pw_cvs w)(h := None)\<rparr>)" using assms(2) w unfolding poll_inv_def by auto
    then show ?thesis using True Drop_Wait by simp
  next
    case False
    then show ?thesis using assms(2,3) Drop_Wait by (auto simp: fun_upd_idem)
  qed
qed

lemma poll_inv_step:
  assumes "c_poll_ok C V" "poll_step C V w w'" "poll_inv V w"
  shows "poll_inv V w'"
  using assms(2)
proof (cases rule: poll_step.cases)
  case (pst_new h)
  then show ?thesis using poll_inv_cvs[OF assms(3), of h "Some CV_Live"] by simp
next
  case (pst_register h tab f s)
  then show ?thesis
    using poll_inv_kernel[OF assms(3), of s] poll_wait_law[OF assms(1), of f h "pt_table tab" "pw_kernel w"]
    by (auto simp: register_wait_def split: if_splits)
next
  case (pst_drop h)
  then show ?thesis using poll_inv_cvs[OF assms(3), of h "Some (CV_Dropping Drop_Clear)"] by simp
next
  case (pst_go_on h d d' s)
  then show ?thesis using poll_inv_drop[OF assms(1,3) pst_go_on(2)] by auto
next
  case (pst_others s)
  then show ?thesis using poll_inv_kernel[OF assms(3), of s] by (auto simp: poll_env_def)
qed

lemma poll_reach_inv:
  assumes "c_poll_ok C V" "poll_reach C V w"
  shows "poll_inv V w"
  using assms(2)
proof (induction rule: poll_reach.induct)
  case (prc_start s)
  then show ?case by (simp add: poll_inv_def)
next
  case (prc_step w w')
  then show ?case using poll_inv_step[OF assms(1)] by blast
qed

text \<open>A drop can be brought to its end from each of its points, because the readers leave.\<close>

lemma drop_wait_ends:
  assumes "c_poll_ok C V" "pw_cvs w h = Some (CV_Dropping (Drop_Wait t))"
  shows "\<exists>w'. (poll_step C V)\<^sup>*\<^sup>* w w' \<and> pw_cvs w' h = None"
proof -
  obtain s where s: "poll_env V (pw_kernel w) s" "po_rcu_elapsed C t s" using rcu_ends_law[OF assms(1)] by blast
  let ?w = "w\<lparr>pw_kernel := s\<rparr>"
  have "poll_step C V w ?w" by (rule pst_others[OF s(1)])
  moreover have "poll_step C V ?w (?w\<lparr>pw_kernel := s, pw_cvs := (pw_cvs ?w)(h := map_option CV_Dropping None)\<rparr>)"
    using assms(2) s(2) by (intro pst_go_on[where d = "Drop_Wait t"]) simp_all
  ultimately have "(poll_step C V)\<^sup>*\<^sup>* w (?w\<lparr>pw_kernel := s, pw_cvs := (pw_cvs ?w)(h := map_option CV_Dropping None)\<rparr>)"
    by (meson r_into_rtranclp rtranclp_trans)
  then show ?thesis by (intro exI conjI) (assumption, simp)
qed

lemma drop_ends_step:
  assumes "pw_cvs w h = Some (CV_Dropping d)" "poll_condvar_drop C h d (pw_kernel w) = Inr (Some d', s)"
    "\<And>w. pw_cvs w h = Some (CV_Dropping d') \<Longrightarrow> \<exists>w'. (poll_step C V)\<^sup>*\<^sup>* w w' \<and> pw_cvs w' h = None"
  shows "\<exists>w'. (poll_step C V)\<^sup>*\<^sup>* w w' \<and> pw_cvs w' h = None"
proof -
  let ?w = "w\<lparr>pw_kernel := s, pw_cvs := (pw_cvs w)(h := map_option CV_Dropping (Some d'))\<rparr>"
  obtain w' where w': "(poll_step C V)\<^sup>*\<^sup>* ?w w'" "pw_cvs w' h = None" using assms(3)[of ?w] by auto
  have "poll_step C V w ?w" using pst_go_on assms(1,2) .
  then have "(poll_step C V)\<^sup>*\<^sup>* w w'" using w'(1) by (rule converse_rtranclp_into_rtranclp)
  then show ?thesis using w'(2) by blast
qed

lemma drop_sync_ends:
  assumes "c_poll_ok C V" "pw_cvs w h = Some (CV_Dropping Drop_Sync)"
  shows "\<exists>w'. (poll_step C V)\<^sup>*\<^sup>* w w' \<and> pw_cvs w' h = None"
proof (rule drop_ends_step[OF assms(2)])
  show "poll_condvar_drop C h Drop_Sync (pw_kernel w) = Inr (Some (Drop_Wait (fst (po_rcu_start C (pw_kernel w)))), snd (po_rcu_start C (pw_kernel w)))"
    by (simp add: case_prod_beta)
qed (rule drop_wait_ends[OF assms(1)])

lemma drop_ends:
  assumes "c_poll_ok C V" "pw_cvs w h = Some (CV_Dropping d)"
  shows "\<exists>w'. (poll_step C V)\<^sup>*\<^sup>* w w' \<and> pw_cvs w' h = None"
proof (cases d)
  case Drop_Clear
  obtain s where "po_wake_up_pollfree C h (pw_kernel w) = Inr s" using pollfree_law[OF assms(1)] by blast
  then have "poll_condvar_drop C h d (pw_kernel w) = Inr (Some Drop_Sync, s)" by (simp add: Drop_Clear)
  then show ?thesis by (rule drop_ends_step[OF assms(2)]) (rule drop_sync_ends[OF assms(1)])
next
  case Drop_Sync
  then show ?thesis using drop_sync_ends[OF assms(1)] assms(2) by simp
next
  case (Drop_Wait t)
  then show ?thesis using drop_wait_ends[OF assms(1)] assms(2) by simp
qed

section \<open>No wait queue is used after its condition variable\<close>

text \<open>
  C40: a condition variable that can be polled outlives everyone who uses its wait queue. However registration, drops and those who poll are
  interleaved, the queue that a reader in a read-side section uses, and every queue that has a waiter, belongs to a condition variable whose memory has not
  been given back; a drop never faults, and from every point of it, it can be brought to its end.
\<close>

theorem poll_condvar_sound:
  assumes "c_poll_ok C V" and "poll_reach C V w"
  shows "(\<forall>r h. pv_readers V (pw_kernel w) r = Some h \<longrightarrow> pw_cvs w h \<noteq> None) \<and>
         pv_waiters V (pw_kernel w) \<subseteq> dom (pw_cvs w) \<and>
         (\<forall>h d. pw_cvs w h = Some (CV_Dropping d) \<longrightarrow>
            (\<exists>d' s. poll_condvar_drop C h d (pw_kernel w) = Inr (d', s)) \<and>
            (\<exists>w'. (poll_step C V)\<^sup>*\<^sup>* w w' \<and> pw_cvs w' h = None))"
proof -
  have inv: "poll_inv V w" by (rule poll_reach_inv[OF assms])
  then have "pw_cvs w h \<noteq> None" if "pv_readers V (pw_kernel w) r = Some h" for r h
    using that reader_allowed_alive by (fastforce simp: poll_inv_def)
  moreover have "pv_waiters V (pw_kernel w) \<subseteq> dom (pw_cvs w)" using inv by (auto simp: poll_inv_def)
  moreover have "\<exists>d' s. poll_condvar_drop C h d (pw_kernel w) = Inr (d', s)" if "pw_cvs w h = Some (CV_Dropping d)" for h d
    using poll_inv_drop[OF assms(1) inv that] by blast
  ultimately show ?thesis using drop_ends[OF assms(1)] by blast
qed

text \<open>A kernel that keeps the queues with waiters and the readers; a grace period is the set of readers at its start.\<close>

definition demo_poll :: "(addr set \<times> (nat \<rightharpoonup> addr), nat set) c_poll" where
  "demo_poll = \<lparr>po_poll_wait = (\<lambda>_ h t s. Inr (if t = 0 then s else (insert h (fst s), snd s))),
     po_wake_up_pollfree = (\<lambda>h s. Inr (fst s - {h}, snd s)), po_rcu_start = (\<lambda>s. (dom (snd s), s)),
     po_rcu_elapsed = (\<lambda>t s. t \<inter> dom (snd s) = {})\<rparr>"

definition demo_poll_view :: "(addr set \<times> (nat \<rightharpoonup> addr), nat set) poll_view" where
  "demo_poll_view = \<lparr>pv_waiters = fst, pv_readers = snd, pv_awaited = (\<lambda>t _. t)\<rparr>"

lemma demo_poll_ok: "c_poll_ok demo_poll demo_poll_view"
proof -
  have "\<exists>a b. poll_env demo_poll_view s (a, b) \<and> t \<inter> dom b = {}" for s t
    by (intro exI[of _ "fst s"] exI[of _ Map.empty]) (simp add: poll_env_def same_awaited_def demo_poll_view_def)
  then show ?thesis by (auto simp: c_poll_ok_def demo_poll_def demo_poll_view_def same_awaited_def)
qed

lemma demo_poll_reach:
  "poll_reach demo_poll demo_poll_view \<lparr>pw_kernel = ({}, [1 \<mapsto> 8]), pw_cvs = [8 \<mapsto> CV_Dropping Drop_Sync]\<rparr>"
proof -
  let ?r = "poll_reach demo_poll demo_poll_view"
  note demo = demo_poll_def demo_poll_view_def register_wait_def poll_env_def same_awaited_def
  have "?r \<lparr>pw_kernel = ({}, Map.empty), pw_cvs = Map.empty\<rparr>" by (rule prc_start) (simp_all add: demo)
  then have "?r \<lparr>pw_kernel = ({}, Map.empty), pw_cvs = [8 \<mapsto> CV_Live]\<rparr>"
    by (rule prc_step) (rule pst_new[where h = 8, THEN back_subst[of "poll_step _ _ _"]], simp_all)
  then have "?r \<lparr>pw_kernel = ({8}, Map.empty), pw_cvs = [8 \<mapsto> CV_Live]\<rparr>"
    by (rule prc_step)
      (rule pst_register[where h = 8 and tab = "poll_table_from_raw 3" and f = 0 and s = "({8}, Map.empty)", THEN back_subst[of "poll_step _ _ _"]],
        simp_all add: demo poll_table_from_raw_def)
  then have "?r \<lparr>pw_kernel = ({8}, [1 \<mapsto> 8]), pw_cvs = [8 \<mapsto> CV_Live]\<rparr>"
    by (rule prc_step) (rule pst_others[where s = "({8}, [1 \<mapsto> 8])", THEN back_subst[of "poll_step _ _ _"]], simp_all add: demo)
  then have "?r \<lparr>pw_kernel = ({8}, [1 \<mapsto> 8]), pw_cvs = [8 \<mapsto> CV_Dropping Drop_Clear]\<rparr>"
    by (rule prc_step) (rule pst_drop[where h = 8, THEN back_subst[of "poll_step _ _ _"]], simp_all)
  then show ?thesis
    by (rule prc_step)
      (rule pst_go_on[where h = 8 and d = Drop_Clear and d' = "Some Drop_Sync" and s = "({}, [1 \<mapsto> 8])", THEN back_subst[of "poll_step _ _ _"]],
        simp_all add: demo)
qed

theorem poll_condvar_sound_witness:
  "\<exists>w'. (poll_step demo_poll demo_poll_view)\<^sup>*\<^sup>* \<lparr>pw_kernel = ({}, [1 \<mapsto> 8]), pw_cvs = [8 \<mapsto> CV_Dropping Drop_Sync]\<rparr> w' \<and> pw_cvs w' 8 = None"
  using poll_condvar_sound[OF demo_poll_ok demo_poll_reach] by simp

end
