(* ===== verification/Kernel_Device.thy ===== *)
theory Kernel_Device
  imports Kernel_Task Kernel_Security
begin

text \<open>
  The symbols that \<open>rs_shim_init\<close> of \<open>src/shim.c\<close> resolves when the support module is loaded, and \<open>rust/src/device.rs\<close> and \<open>rust/src/firmware.rs\<close>, whose calls go
  through functions of that file that do nothing, or fail, where a symbol was not found.

  The kernel's functions are the parameter \<open>c_device\<close>. The contract is stated over the reference counts of devices and over the firmware images
  that are loaded, by address.
\<close>

section \<open>Symbols\<close>

text \<open>The variables \<open>rs_addr_*\<close>, by the name behind the prefix; null is a symbol that was not found.\<close>

type_synonym rs_addrs = "string \<Rightarrow> addr"

definition rs_resolve_name :: "(string \<Rightarrow> addr) option \<Rightarrow> (string \<Rightarrow> addr) \<Rightarrow> string \<Rightarrow> addr" where
  "rs_resolve_name kallrecon_klp kallsyms_name_to_addr nam = (case kallrecon_klp of Some f \<Rightarrow> f nam | None \<Rightarrow> kallsyms_name_to_addr nam)"

definition rs_syms :: "string list" where
  "rs_syms =
    [''seq_printf'', ''__free_pages'', ''strncpy_from_user'', ''memchr'', ''strlen'', ''__init_waitqueue_head'',
     ''prepare_to_wait_exclusive'', ''schedule_timeout'', ''__wake_up'', ''__wake_up_sync'', ''finish_wait'', ''synchronize_rcu'',
     ''__wake_up_pollfree'', ''set_user_nice'', ''sched_setscheduler_nocheck'', ''has_capability_noaudit'', ''task_active_pid_ns'',
     ''wake_up_process'', ''mutex_unlock'', ''mutex_trylock'']"

definition rs_optional_syms :: "string list" where
  "rs_optional_syms =
    [''_printk'', ''printk'', ''errname'', ''find_vm_area'', ''list_lru_count_node'', ''list_lru_walk_node'', ''mmput'', ''mmput_async'',
     ''zap_page_range_single'', ''vm_insert_page'', ''get_device'', ''put_device'', ''request_firmware'', ''firmware_request_nowarn'',
     ''release_firmware'', ''misc_register'', ''misc_deregister'', ''_copy_from_iter'', ''_copy_to_iter'', ''generic_file_open'',
     ''__blk_mq_alloc_disk'', ''set_capacity'', ''device_add_disk'', ''del_gendisk'', ''blk_mq_start_request'', ''blk_mq_end_request'',
     ''blk_mq_alloc_tag_set'', ''blk_mq_free_tag_set'', ''errno_to_blk_status'', ''queue_work_on'', ''rb_first'', ''rb_last'',
     ''rb_first_postorder'', ''rb_next_postorder'', ''rb_prev'', ''rb_next'', ''rb_erase'', ''rb_insert_color'', ''rb_replace_node'',
     ''system_wq'', ''system_highpri_wq'', ''system_long_wq'', ''system_unbound_wq'', ''system_freezable_wq'',
     ''system_power_efficient_wq'', ''system_freezable_power_efficient_wq'']"

fun rs_resolve_syms :: "(string \<Rightarrow> addr) \<Rightarrow> string list \<Rightarrow> rs_addrs \<Rightarrow> int \<times> rs_addrs" where
  "rs_resolve_syms resolve [] A = (0, A)"
| "rs_resolve_syms resolve (n # ns) A = (let a = resolve n in if a = 0 then (- 2, A) else rs_resolve_syms resolve ns (A(n := a)))"

text \<open>The other name is tried where the first is not found.\<close>

definition rs_resolve_either :: "(string \<Rightarrow> addr) \<Rightarrow> string \<Rightarrow> string \<Rightarrow> rs_addrs \<Rightarrow> rs_addrs" where
  "rs_resolve_either resolve n other A = (let a = resolve n in A(other := if a \<noteq> 0 then a else resolve other))"

text \<open>\<open>v6_12\<close> is the test of the kernel's version; printing is left out.\<close>

definition rs_shim_init ::
  "(string \<Rightarrow> addr) \<Rightarrow> bool \<Rightarrow> (rs_field_id \<rightharpoonup> nat) \<Rightarrow> boot_offsets option \<Rightarrow> (rs_field_id \<Rightarrow> nat) \<Rightarrow> rs_addrs \<Rightarrow> rs_fields \<Rightarrow> int \<times> rs_addrs \<times> rs_fields" where
  "rs_shim_init resolve v6_12 btf boot offsetof A F =
     (let (ret, A) = rs_resolve_syms resolve rs_syms A in
      if ret \<noteq> 0 then (ret, A, F)
      else let A = fold (\<lambda>n A. A(n := resolve n)) rs_optional_syms A;
               A = (if v6_12 then rs_resolve_either resolve ''vrealloc_noprof'' ''vrealloc'' (rs_resolve_either resolve ''kvrealloc_noprof'' ''kvrealloc'' A) else A);
               (ret, F) = rs_shim_init_fields btf boot offsetof F
           in (ret, A, F))"

lemma rs_resolve_syms_found:
  "list_all (\<lambda>n. resolve n \<noteq> 0) ns \<Longrightarrow> rs_resolve_syms resolve ns A = (0, \<lambda>n. if n \<in> set ns then resolve n else A n)"
  by (induction ns arbitrary: A) (auto simp: Let_def fun_eq_iff)

lemma rs_resolve_syms_missing: "\<not> list_all (\<lambda>n. resolve n \<noteq> 0) ns \<Longrightarrow> fst (rs_resolve_syms resolve ns A) = - 2"
  by (induction ns arbitrary: A) (auto simp: Let_def)

lemma fold_resolve: "fold (\<lambda>n A. A(n := resolve n)) ns A = (\<lambda>n. if n \<in> set ns then resolve n else A n)"
  by (induction ns arbitrary: A) (auto simp: fun_eq_iff)

lemma rs_syms_not_optional: "set rs_syms \<inter> set rs_optional_syms = {}" "set rs_syms \<inter> {''kvrealloc'', ''vrealloc''} = {}"
    "set rs_optional_syms \<inter> {''kvrealloc'', ''vrealloc''} = {}"
  by (simp_all add: rs_syms_def rs_optional_syms_def)

text \<open>
  Once the shim is ready, every required symbol has its address, every other symbol the address that was found, or null, and the fields of tasks have their offsets.
\<close>

lemma rs_shim_init_ready:
  assumes "list_all (\<lambda>n. resolve n \<noteq> 0) rs_syms" "sources_ok offs btf boot offsetof"
  shows "\<exists>A' F. rs_shim_init resolve v btf boot offsetof A rs_fields_start = (0, A', F) \<and> fields_ok offs F \<and>
    (\<forall>n \<in> set rs_syms. A' n = resolve n \<and> A' n \<noteq> 0) \<and> (\<forall>n \<in> set rs_optional_syms. A' n = resolve n)"
proof -
  obtain F where F: "rs_shim_init_fields btf boot offsetof rs_fields_start = (0, F)" "fields_ok offs F"
    using rs_shim_init_fields_ok[OF assms(2)] by blast
  let ?A = "\<lambda>n. if n \<in> set rs_optional_syms then resolve n else if n \<in> set rs_syms then resolve n else A n"
  let ?B = "if v then rs_resolve_either resolve ''vrealloc_noprof'' ''vrealloc'' (rs_resolve_either resolve ''kvrealloc_noprof'' ''kvrealloc'' ?A) else ?A"
  have "rs_shim_init resolve v btf boot offsetof A rs_fields_start = (0, ?B, F)"
    using F(1) by (simp only: rs_shim_init_def rs_resolve_syms_found[OF assms(1)] fold_resolve Let_def split) simp
  moreover have "?B n = ?A n" if "n \<in> set rs_syms \<union> set rs_optional_syms" for n
    using that rs_syms_not_optional by (auto simp: rs_resolve_either_def Let_def)
  moreover have "resolve n \<noteq> 0" if "n \<in> set rs_syms" for n using assms(1) that by (simp add: list_all_iff)
  ultimately show ?thesis using F(2) by auto
qed

lemma rs_shim_init_missing:
  assumes "\<not> list_all (\<lambda>n. resolve n \<noteq> 0) rs_syms"
  shows "fst (rs_shim_init resolve v btf boot offsetof A F) = - 2"
  using rs_resolve_syms_missing[OF assms, of A] by (simp add: rs_shim_init_def case_prod_beta)

section \<open>Devices and firmware\<close>

text \<open>The C struct, with the bytes that its pointer \<open>data\<close> leads to.\<close>

record c_firmware =
  fc_size :: usize
  fc_data :: "u8 list"

record 's c_device =
  cd_get_device :: "addr \<Rightarrow> 's \<Rightarrow> (addr \<times> 's) exec"
  cd_put_device :: "addr \<Rightarrow> 's \<Rightarrow> 's exec"
  cd_request_firmware :: "u8 list \<Rightarrow> addr \<Rightarrow> 's \<Rightarrow> int \<times> addr \<times> 's"
  cd_firmware_request_nowarn :: "u8 list \<Rightarrow> addr \<Rightarrow> 's \<Rightarrow> int \<times> addr \<times> 's"
  cd_release_firmware :: "addr \<Rightarrow> 's \<Rightarrow> 's exec"
  cd_firmware_at :: "'s \<Rightarrow> addr \<rightharpoonup> c_firmware"

definition rs_get_device :: "rs_addrs \<Rightarrow> 's c_device \<Rightarrow> addr \<Rightarrow> 's \<Rightarrow> (addr \<times> 's) exec" where
  "rs_get_device A C dev s = (if A ''get_device'' = 0 then Inr (0, s) else cd_get_device C dev s)"

definition rs_put_device :: "rs_addrs \<Rightarrow> 's c_device \<Rightarrow> addr \<Rightarrow> 's \<Rightarrow> 's exec" where
  "rs_put_device A C dev s = (if A ''put_device'' \<noteq> 0 then cd_put_device C dev s else Inr s)"

text \<open>The pointer behind \<open>fw\<close> is null before the call; \<open>38\<close> is \<open>ENOSYS\<close>.\<close>

definition rs_request_firmware :: "rs_addrs \<Rightarrow> 's c_device \<Rightarrow> u8 list \<Rightarrow> addr \<Rightarrow> 's \<Rightarrow> int \<times> addr \<times> 's" where
  "rs_request_firmware A C nam dev s = (if A ''request_firmware'' = 0 then (- 38, 0, s) else cd_request_firmware C nam dev s)"

definition rs_firmware_request_nowarn :: "rs_addrs \<Rightarrow> 's c_device \<Rightarrow> u8 list \<Rightarrow> addr \<Rightarrow> 's \<Rightarrow> int \<times> addr \<times> 's" where
  "rs_firmware_request_nowarn A C nam dev s = (if A ''firmware_request_nowarn'' = 0 then (- 38, 0, s) else cd_firmware_request_nowarn C nam dev s)"

definition rs_release_firmware :: "rs_addrs \<Rightarrow> 's c_device \<Rightarrow> addr \<Rightarrow> 's \<Rightarrow> 's exec" where
  "rs_release_firmware A C fw s = (if A ''release_firmware'' \<noteq> 0 then cd_release_firmware C fw s else Inr s)"

definition rs_firmware_size :: "'s c_device \<Rightarrow> addr \<Rightarrow> 's \<Rightarrow> usize exec" where
  "rs_firmware_size C obj s = (case cd_firmware_at C s obj of Some f \<Rightarrow> Inr (fc_size f) | None \<Rightarrow> Inl UB)"

definition rs_firmware_data :: "'s c_device \<Rightarrow> addr \<Rightarrow> 's \<Rightarrow> u8 list exec" where
  "rs_firmware_data C obj s = (case cd_firmware_at C s obj of Some f \<Rightarrow> Inr (fc_data f) | None \<Rightarrow> Inl UB)"

definition device_inc_ref :: "rs_addrs \<Rightarrow> 's c_device \<Rightarrow> addr \<Rightarrow> 's \<Rightarrow> 's exec" where
  "device_inc_ref A C self s = exec_bind (rs_get_device A C self s) (\<lambda>(_, s). Inr s)"

definition device_dec_ref :: "rs_addrs \<Rightarrow> 's c_device \<Rightarrow> addr \<Rightarrow> 's \<Rightarrow> 's exec" where
  "device_dec_ref A C obj s = rs_put_device A C obj s"

definition device_get_device :: "rs_addrs \<Rightarrow> 's c_device \<Rightarrow> addr \<Rightarrow> 's \<Rightarrow> 's exec" where
  "device_get_device A C ptr s = aref_from_ref (device_inc_ref A C ptr) s"

datatype fw_func = Fw_Request | Fw_Request_Nowarn

fun fw_call :: "rs_addrs \<Rightarrow> 's c_device \<Rightarrow> fw_func \<Rightarrow> u8 list \<Rightarrow> addr \<Rightarrow> 's \<Rightarrow> int \<times> addr \<times> 's" where
  "fw_call A C Fw_Request = rs_request_firmware A C"
| "fw_call A C Fw_Request_Nowarn = rs_firmware_request_nowarn A C"

record firmware =
  fw_ptr :: addr

text \<open>\<open>NonNull::new_unchecked\<close> must not see a null pointer.\<close>

definition request_internal :: "rs_addrs \<Rightarrow> 's c_device \<Rightarrow> u8 list \<Rightarrow> addr \<Rightarrow> fw_func \<Rightarrow> 's \<Rightarrow> ((firmware, error) result \<times> 's) exec" where
  "request_internal A C nam dev func s =
     (let (ret, fw, s) = fw_call A C func nam dev s in
      if ret \<noteq> 0 then Inr (Err (from_errno ret), s)
      else exec_bind (require UB (fw \<noteq> 0)) (\<lambda>_. Inr (Ok \<lparr>fw_ptr = fw\<rparr>, s)))"

definition firmware_request :: "rs_addrs \<Rightarrow> 's c_device \<Rightarrow> u8 list \<Rightarrow> addr \<Rightarrow> 's \<Rightarrow> ((firmware, error) result \<times> 's) exec" where
  "firmware_request A C nam dev = request_internal A C nam dev Fw_Request"

definition firmware_request_nowarn :: "rs_addrs \<Rightarrow> 's c_device \<Rightarrow> u8 list \<Rightarrow> addr \<Rightarrow> 's \<Rightarrow> ((firmware, error) result \<times> 's) exec" where
  "firmware_request_nowarn A C nam dev = request_internal A C nam dev Fw_Request_Nowarn"

definition firmware_size :: "'s c_device \<Rightarrow> firmware \<Rightarrow> 's \<Rightarrow> usize exec" where
  "firmware_size C self s = rs_firmware_size C (fw_ptr self) s"

definition firmware_data :: "'s c_device \<Rightarrow> firmware \<Rightarrow> 's \<Rightarrow> u8 list exec" where
  "firmware_data C self s =
     exec_bind (rs_firmware_data C (fw_ptr self) s) (\<lambda>bs.
     exec_bind (firmware_size C self s) (\<lambda>n. exec_bind (require UB (n \<le> length bs)) (\<lambda>_. Inr (take n bs))))"

definition firmware_drop :: "rs_addrs \<Rightarrow> 's c_device \<Rightarrow> firmware \<Rightarrow> 's \<Rightarrow> 's exec" where
  "firmware_drop A C self s = rs_release_firmware A C (fw_ptr self) s"

section \<open>What they rely on, and what they do\<close>

definition request_ok :: "'s c_device \<Rightarrow> (u8 list \<Rightarrow> addr \<Rightarrow> 's \<Rightarrow> int \<times> addr \<times> 's) \<Rightarrow> bool" where
  "request_ok C req \<longleftrightarrow>
     (\<forall>nam dev s ret p s'. req nam dev s = (ret, p, s') \<longrightarrow>
        (if ret \<noteq> 0 then cd_firmware_at C s' = cd_firmware_at C s
         else p \<noteq> 0 \<and> p \<notin> dom (cd_firmware_at C s) \<and>
           (\<exists>f. fc_size f = length (fc_data f) \<and> cd_firmware_at C s' = (cd_firmware_at C s)(p \<mapsto> f))))"

definition c_device_ok :: "'s c_device \<Rightarrow> ('s \<Rightarrow> addr \<Rightarrow> nat) \<Rightarrow> bool" where
  "c_device_ok C refs \<longleftrightarrow>
     (\<forall>d s. 0 < refs s d \<longrightarrow> (\<exists>s'. cd_get_device C d s = Inr (d, s') \<and> refs s' = (refs s)(d := Suc (refs s d)))) \<and>
     (\<forall>d s. 0 < refs s d \<longrightarrow> (\<exists>s'. cd_put_device C d s = Inr s' \<and> refs s' = (refs s)(d := refs s d - 1))) \<and>
     request_ok C (cd_request_firmware C) \<and> request_ok C (cd_firmware_request_nowarn C) \<and>
     (\<forall>p s. p \<in> dom (cd_firmware_at C s) \<longrightarrow> (\<exists>s'. cd_release_firmware C p s = Inr s' \<and> cd_firmware_at C s' = (cd_firmware_at C s)(p := None)))"

lemma c_device_okD:
  assumes "c_device_ok C refs"
  shows get_device_law: "0 < refs s d \<Longrightarrow> \<exists>s'. cd_get_device C d s = Inr (d, s') \<and> refs s' = (refs s)(d := Suc (refs s d))"
    and put_device_law: "0 < refs s d \<Longrightarrow> \<exists>s'. cd_put_device C d s = Inr s' \<and> refs s' = (refs s)(d := refs s d - 1)"
    and release_firmware_law: "cd_firmware_at C s p = Some f \<Longrightarrow>
      \<exists>s'. cd_release_firmware C p s = Inr s' \<and> cd_firmware_at C s' = (cd_firmware_at C s)(p := None)"
  using assms unfolding c_device_ok_def by blast+

lemma fw_call_ok: "c_device_ok C refs \<Longrightarrow> request_ok C (fw_call A C func)"
  by (cases func) (auto simp: c_device_ok_def request_ok_def rs_request_firmware_def rs_firmware_request_nowarn_def)

text \<open>
  A request that fails leaves no image behind and gives an error code in the valid range. One that succeeds gives an image of its own, of which all bytes can be
  read, and whose drop leaves the images as they were, provided that the symbol \<open>release_firmware\<close> was found.
\<close>

lemma firmware_lifecycle:
  assumes "c_device_ok C refs"
  shows "\<exists>r s'. request_internal A C nam dev func s = Inr (r, s') \<and>
     (case r of
        Err e \<Rightarrow> cd_firmware_at C s' = cd_firmware_at C s \<and> error_inv e
      | Ok fw \<Rightarrow> (\<exists>bs. cd_firmware_at C s' = (cd_firmware_at C s)(fw_ptr fw \<mapsto> \<lparr>fc_size = length bs, fc_data = bs\<rparr>) \<and>
            firmware_size C fw s' = Inr (length bs) \<and> firmware_data C fw s' = Inr bs) \<and>
          (A ''release_firmware'' \<noteq> 0 \<longrightarrow> (\<exists>s''. firmware_drop A C fw s' = Inr s'' \<and> cd_firmware_at C s'' = cd_firmware_at C s)))"
proof -
  obtain ret p s' where c: "fw_call A C func nam dev s = (ret, p, s')" by (metis prod_cases3)
  note spec = fw_call_ok[OF assms, unfolded request_ok_def, rule_format, OF c]
  show ?thesis
  proof (cases "ret = 0")
    case False
    then show ?thesis using spec c by (simp add: request_internal_def)
  next
    case True
    then obtain f where f: "p \<noteq> 0" "cd_firmware_at C s p = None" "fc_size f = length (fc_data f)"
        "cd_firmware_at C s' = (cd_firmware_at C s)(p \<mapsto> f)"
      using spec by auto
    define bs where "bs = fc_data f"
    have "f = \<lparr>fc_size = length bs, fc_data = bs\<rparr>" using f(3) by (cases f) (simp add: bs_def)
    with f have p: "p \<noteq> 0" "cd_firmware_at C s p = None" "cd_firmware_at C s' = (cd_firmware_at C s)(p \<mapsto> \<lparr>fc_size = length bs, fc_data = bs\<rparr>)"
      by simp_all
    obtain s'' where "cd_release_firmware C p s' = Inr s''" "cd_firmware_at C s'' = (cd_firmware_at C s')(p := None)"
      using release_firmware_law[OF assms, of s' p] p(3) by auto
    then show ?thesis using True c p
      by (auto simp: request_internal_def firmware_size_def firmware_data_def rs_firmware_size_def rs_firmware_data_def firmware_drop_def
          rs_release_firmware_def fun_upd_idem)
  qed
qed

text \<open>Without the symbol \<open>release_firmware\<close> the drop returns and the image stays loaded.\<close>

lemma firmware_drop_unresolved: "A ''release_firmware'' = 0 \<Longrightarrow> firmware_drop A C fw s = Inr s"
  by (simp add: firmware_drop_def rs_release_firmware_def)

text \<open>With both symbols a device is counted. Where only \<open>get_device\<close> was not found, a clone takes no reference and its drop gives up another's.\<close>

lemma device_refs_counted:
  assumes "c_device_ok C refs" "A ''get_device'' \<noteq> 0" "A ''put_device'' \<noteq> 0"
  shows "always_ref_counted (device_inc_ref A C d) (device_dec_ref A C d) (\<lambda>s. refs s d) (\<lambda>s. 0 < refs s d) (\<lambda>_. True)"
proof
  fix s assume "0 < refs s d"
  then show "\<exists>s'. device_inc_ref A C d s = Inr s' \<and> 0 < refs s' d \<and> refs s' d = Suc (refs s d)"
    using get_device_law[OF assms(1), of s d] assms(2) by (auto simp: device_inc_ref_def rs_get_device_def)
next
  fix s assume "0 < refs s d"
  then show "\<exists>s'. device_dec_ref A C d s = Inr s' \<and> refs s' d = refs s d - 1 \<and> (1 < refs s d \<longrightarrow> 0 < refs s' d)"
    using put_device_law[OF assms(1), of s d] assms(3) by (auto simp: device_dec_ref_def rs_put_device_def)
qed

lemma device_clone_unresolved:
  assumes "c_device_ok C refs" "A ''get_device'' = 0" "A ''put_device'' \<noteq> 0" "refs s d = 1"
  shows "\<exists>s'. aref_run (device_inc_ref A C d) (device_dec_ref A C d) [ARClone, ARDrop] s = Inr s' \<and> refs s' d = 0"
proof -
  obtain s' where "cd_put_device C d s = Inr s'" "refs s' = (refs s)(d := refs s d - 1)"
    using put_device_law[OF assms(1), of s d] assms(4) by auto
  then show ?thesis
    using assms by (simp add: aref_clone_def aref_drop_def device_inc_ref_def device_dec_ref_def rs_get_device_def rs_put_device_def)
qed

text \<open>A kernel with counted devices and numbered images, which has one image to give.\<close>

definition demo_request :: "u8 list \<Rightarrow> addr \<Rightarrow> (addr \<Rightarrow> nat) \<times> c_firmware option list \<Rightarrow> int \<times> addr \<times> (addr \<Rightarrow> nat) \<times> c_firmware option list" where
  "demo_request nam dev s =
     (if nam = [102] then (0, Suc (length (snd s)), fst s, snd s @ [Some \<lparr>fc_size = 2, fc_data = [1, 2]\<rparr>]) else (- 2, 0, s))"

definition demo_device :: "((addr \<Rightarrow> nat) \<times> c_firmware option list) c_device" where
  "demo_device = \<lparr>cd_get_device = (\<lambda>d s. if fst s d = 0 then Inl UB else Inr (d, (fst s)(d := Suc (fst s d)), snd s)),
     cd_put_device = (\<lambda>d s. if fst s d = 0 then Inl UB else Inr ((fst s)(d := fst s d - 1), snd s)),
     cd_request_firmware = demo_request, cd_firmware_request_nowarn = demo_request,
     cd_release_firmware = (\<lambda>p s. if demo_bufs (snd s) p = None then Inl UB else Inr (fst s, (snd s)[p - 1 := None])),
     cd_firmware_at = (\<lambda>s. demo_bufs (snd s))\<rparr>"

lemma demo_request_ok: "request_ok demo_device demo_request"
proof -
  have "demo_bufs k (Suc (length k)) = None" for k :: "c_firmware option list" by (simp add: demo_bufs_def)
  then show ?thesis
    by (auto simp: request_ok_def demo_request_def demo_device_def demo_bufs_append dom_def split: if_splits
        intro!: exI[of _ "\<lparr>fc_size = 2, fc_data = [1, 2]\<rparr>"])
qed

lemma demo_device_ok: "c_device_ok demo_device fst"
  using demo_request_ok by (auto simp: c_device_ok_def demo_device_def demo_bufs_release)

interpretation demo_dev: always_ref_counted "device_inc_ref (\<lambda>_. 1) demo_device d" "device_dec_ref (\<lambda>_. 1) demo_device d" "\<lambda>s. fst s d"
  "\<lambda>s. 0 < fst s d" "\<lambda>_. True" for d
  by (rule device_refs_counted[OF demo_device_ok]) simp_all

end
