(* ===== verification/Spec2Isabelle.thy ===== *)
theory Spec2Isabelle
  imports KVec Id_Pool Linked_List RB_Tree List_Arc Kernel_Page Block_Disk Sync_Lock Pin_Init Kernel_File Ioctl_Time Work_Queue Address_Space Virtual_Area Macro_Items Macro_Init KUnit Misc_Device Kernel_Box Net_Phy Kernel_Print Kernel_Task Kernel_Security Kernel_Poll Kernel_Device
begin

text \<open>
  \<^bold>\<open>A verification of the kernel crate of RaanaSDK.\<close>

  The crate under \<open>rust/src\<close> gives modules written in Rust their data structures, memory, reference counts, user
  memory, strings and device interfaces, over C functions of the kernel that it reaches through \<open>bindings.rs\<close> and
  the shims under \<open>src/\<close>. This library models the parts that have a state or an algorithm of their own and proves
  what their documentation and their callers rely on.

  \<^bold>\<open>Conventions.\<close> A value of type \<open>Result<T, E>\<close> is a \<open>result\<close>. What a running program can do besides returning is
  \<open>exec\<close>: \<open>Inl Panic\<close> for a panic, \<open>Inl UB\<close> for an access that the safety comments forbid (a read of an uninitialised
  slot, a write outside a block, a null or dangling pointer). A theorem that a program returns \<open>Inr\<close> excludes both.
  \<open>usize\<close> is a natural number with its bound written at each addition that can overflow; \<open>u8\<close>, \<open>u32\<close> and \<open>u64\<close> are words.
  Values that a drop releases are returned as lists or multisets, so that leaks and double drops are visible.

  \<^bold>\<open>C functions\<close> are not in the crate. Each group of them is a record of functions that the model takes as a
  parameter, with a predicate for its documented behaviour: \<open>c_realloc_ok\<close> (reallocation), \<open>err_ptr_api\<close> (error pointers),
  \<open>c_bitmap_ok\<close>, \<open>c_refcount_ok\<close> (\<open>refcount_t\<close>, which saturates), \<open>c_uaccess_ok\<close> (copies from and to user memory),
  \<open>c_blk_ok\<close> (block layer), \<open>c_lock_ok\<close> and \<open>c_waitq_ok\<close> (locks, wait queues), \<open>c_file_ok\<close> (files and descriptors), \<open>c_workq_ok\<close>
  (work queues), \<open>c_mm_ok\<close> and \<open>c_vm_ok\<close> (address spaces, page tables), \<open>c_misc_ok\<close> and \<open>c_iov_ok\<close> (misc devices, user buffers), \<open>c_phy_ok\<close>, \<open>phylib_dispatch\<close> and
  \<open>c_phy_reg_ok\<close> (PHY devices), \<open>c_printk_ok\<close> and \<open>c_seq_printf_ok\<close> (formatting), \<open>c_task_api\<close> (tasks), \<open>c_security_ok\<close> (security contexts), \<open>c_poll_ok\<close> (wait queues that are polled, grace periods), \<open>c_device_ok\<close> (devices, firmware), and the rebalancing of red-black trees, which may change the shape of a tree and
  not its in-order sequence. A concrete instance of each shows that it can be met.

  \<^bold>\<open>Interfaces\<close> inside the crate are locales, interpreted on the model: \<open>allocator\<close> (\<open>trait Allocator\<close>, by \<open>Kmalloc\<close>,
  \<open>Vmalloc\<close> and \<open>KVmalloc\<close>), \<open>bounded_writer\<close> (\<open>fmt::Write\<close> over a buffer, by \<open>Formatter\<close> and \<open>RawWriter\<close>),
  \<open>list_arc_safe\<close> and \<open>exact_tracker\<close> (\<open>ListArcSafe\<close> and \<open>TryNewListArc\<close>, by the atomic tracker),
  \<open>foreign_ownable\<close>, \<open>always_ref_counted\<close> (by block requests, files and devices), \<open>lock_backend\<close> (\<open>lock::Backend\<close>, by \<open>Mutex\<close> and
  \<open>SpinLock\<close>), \<open>condvar_system\<close> (a condition variable over such a lock), \<open>initializer\<close> (\<open>trait Init\<close>, by the generated
  initialisers of structs and arrays), \<open>work_item_pointer\<close> (\<open>WorkItemPointer\<close>, by \<open>Arc\<close> and by pinned boxes), \<open>c_mm_api\<close> (address spaces, from which the
  three counted handles of \<open>mm.rs\<close> follow as \<open>always_ref_counted\<close>), \<open>c_task_api\<close> (likewise for tasks, namespaces and credentials), \<open>foreign_borrow\<close> (private data of a device, by \<open>Arc\<close>, by both kinds of boxes and by the unit type), and \<open>phy_register\<close> (\<open>Register\<close>, by both register
  namespaces).

  \<^bold>\<open>Theories and sources.\<close>

  \<^item> \<open>Kernel_Prelude\<close>: results, executions, bounds of machine integers, and the lemma collections of the library.
  \<^item> \<open>Kernel_Error\<close> (\<open>error.rs\<close>): error codes, error pointers, conversion to and from C results. Every error that can be
    built is a valid negative code, and error pointers are recovered.
  \<^item> \<open>Allocators\<close> (\<open>alloc/layout.rs\<close>, \<open>alloc.rs\<close>, \<open>alloc/allocator.rs\<close>, \<open>alloc/kbox.rs\<close>): layouts, reallocation, boxes.
    The three allocators meet the contract that \<open>Vec\<close> and \<open>Box\<close> need.
  \<^item> \<open>Kernel_Box\<close> (\<open>alloc/kbox.rs\<close>): boxes as pointers into a heap of blocks, with their raw and foreign forms, as a step relation; no box
    dangles, the heap holds exactly the blocks that are owned, and each value is dropped or taken out once.
  \<^item> \<open>KVec\<close> (\<open>alloc/kvec.rs\<close>, \<open>alloc/kvec/errors.rs\<close>): \<open>Vec\<close> on the slots of its block, \<open>IntoIter\<close>, \<open>DrainAll\<close>. Programs of
    operations refine lists; growth never overflows; every element is dropped once.
  \<^item> \<open>Bitmap_Vec\<close> and \<open>Id_Pool\<close> (\<open>bitmap.rs\<close>, \<open>id_pool.rs\<close>): bitmaps in both representations refine finite sets of indices; an
    id that the pool hands out is never in use.
  \<^item> \<open>Linked_List\<close> (\<open>list.rs\<close>, \<open>list/impl_list_item_mod.rs\<close>): the circular list on an explicit heap of links refines sequences,
    its cursor a position in one; iteration and drop end with fuel one more than the number of elements.
  \<^item> \<open>RB_Tree\<close> (\<open>rbtree.rs\<close>): insertion, entries, removal and cursors refine a finite map; iteration is in key order.
  \<^item> \<open>Kernel_Str\<close> (\<open>str.rs\<close>): \<open>BStr\<close>, \<open>CStr\<close>, \<open>CString\<close> and the formatters that write into fixed buffers.
  \<^item> \<open>Kernel_Print\<close> (\<open>print.rs\<close>, \<open>seq_file.rs\<close>, \<open>rs__printk\<close> of \<open>src/shim.c\<close>): from the printing macros to the lines of the log, and the callback that formats
    arguments into the rest of the kernel's buffer. \<open>pr_cont!\<close> always faults.
  \<^item> \<open>Sync_Arc\<close> and \<open>List_Arc\<close> (\<open>sync/arc.rs\<close>, \<open>list/arc.rs\<close>): handles to shared objects as a step relation; no handle
    dangles, every value is dropped once, at most one \<open>ListArc\<close> exists per object and id.
  \<^item> \<open>User_Access\<close> (\<open>uaccess.rs\<close>) and \<open>Kernel_Page\<close> (\<open>page.rs\<close>, \<open>page_size_compat.rs\<close>): readers and writers of user memory, which
    read no byte twice, and bounded access to pages.
  \<^item> \<open>Kernel_Types\<close> (\<open>types.rs\<close>): scope guards, foreign ownership and reference-counted handles.
  \<^item> \<open>Block_Request\<close> and \<open>Block_Disk\<close> (\<open>block/mq/\<close>, \<open>src/shim_block.c\<close>): the life of a block request as a step relation, tag sets,
    and the construction of disks.
  \<^item> \<open>Sync_Lock\<close> (\<open>sync/lock.rs\<close>, \<open>sync/lock/\<close>, \<open>sync/locked_by.rs\<close>, \<open>sync/condvar.rs\<close>): threads that lock, try, unlock and wait, as a
    step relation; one guard at a time, and no wake-up is lost between the release of a lock and the sleep.
  \<^item> \<open>Pin_Init\<close> (\<open>init.rs\<close>, \<open>init/__internal.rs\<close>, the code that \<open>init/macros.rs\<close> generates for initialisers): an initialiser
    that fails leaves nothing initialised and drops what it had initialised, once.
  \<^item> \<open>Kernel_File\<close> (\<open>fs/file.rs\<close>), \<open>Ioctl_Time\<close> (\<open>ioctl.rs\<close>, \<open>uapi.rs\<close>, \<open>time.rs\<close>): file references and descriptor reservations;
    ioctl numbers and their fields, clocks in jiffies and nanoseconds.
  \<^item> \<open>Work_Queue\<close> (\<open>workqueue.rs\<close>): a queued item keeps its container alive until it ran, and a spawned closure runs once.
  \<^item> \<open>Address_Space\<close> and \<open>Virtual_Area\<close> (\<open>mm.rs\<close>, \<open>mm/virt.rs\<close>): both reference counts of an address space and its read locks as a step relation;
    the flags that an area can get while it is set up, and ranges that stay inside it.
  \<^item> \<open>Misc_Device\<close> (\<open>miscdevice.rs\<close>, \<open>src/shim_fs_misc.c\<close>): registrations, files and callbacks as a step relation; a callback gets the private
    data of its own file, and registration and drop are balanced.
  \<^item> \<open>Net_Phy\<close> (\<open>net/phy.rs\<close>, \<open>net/phy/reg.rs\<close>): registers of PHY devices, driver tables and their callbacks, identifiers and registrations. An
    access to a register reaches the driver's method and its result comes back; the registered tables are those of the loaded modules.
  \<^item> \<open>Kernel_Task\<close> (\<open>task.rs\<close>, \<open>pid_namespace.rs\<close>, \<open>cred.rs\<close>, the fields of tasks in \<open>src/shim.c\<close>): handles to tasks, namespaces and credentials as a step relation;
    every handle has a reference, and no operation on a task that is held faults.
  \<^item> \<open>Kernel_Security\<close> (\<open>security.rs\<close>): the binder hooks, and security contexts, each of which owns one buffer until its drop.
  \<^item> \<open>Kernel_Poll\<close> (\<open>sync/poll.rs\<close>): condition variables that are polled while they are dropped, as a step relation; no wait queue is used after its memory is
    given back, and every drop can end.
  \<^item> \<open>Kernel_Device\<close> (\<open>rs_shim_init\<close> of \<open>src/shim.c\<close>, \<open>device.rs\<close>, \<open>firmware.rs\<close>): the symbols that must and that may be found, devices and firmware images on top
    of them. Two lemmas show what goes wrong where a symbol is missing.
  \<^item> \<open>Macro_Tokens\<close>, \<open>Macro_Module\<close>, \<open>Macro_Items\<close>, \<open>Macro_Pin\<close> (\<open>rust/macros\<close>): the procedural macros as functions on token trees. Generics are split
    into declaration, implementation and use; a module description is parsed as it is written; constants for optional methods are added exactly once.
  \<^item> \<open>Macro_Init\<close> (\<open>init/macros.rs\<close>): the rules of the declarative macros behind them. From the attribute to the declared struct the pinned
    fields are those marked so, and an initialiser that compiles leaves no field out.
  \<^item> \<open>KUnit\<close> (\<open>rust/macros/kunit.rs\<close>, \<open>kunit.rs\<close>, \<open>src/shim_kunit.c\<close>, \<open>src/main.c\<close>): from a test in the source to its run, and a registry that never
    leads into a module that is gone.

  \<^bold>\<open>Fuel.\<close> The loops over linked structures take fuel, because their end depends on the heap. The theorems state
  that one step more than the number of elements is enough. The declarative macros take the recursion limit of the compiler as fuel; one more
  than the attributes, visibilities and fields of a struct is enough.

  \<^bold>\<open>Not modelled.\<close> \<open>bindings.rs\<close> and \<open>ffi.rs\<close> declare C items. \<open>tracepoint.rs\<close>, \<open>jump_label.rs\<close> and most functions of \<open>src/shim.c\<close> and \<open>src/helpers.c\<close> forward one call to the kernel and have no model, nor does
  \<open>list/arc_field.rs\<close>, a cell whose safety rests on borrows alone. Formatting for debug
  output, marker types, spans of tokens and the memory orderings of single atomic operations are left out: each atomic operation is
  one step.
\<close>

end
